(* ===== verification/Prelude.thy ===== *)
theory Prelude
  imports Main "HOL-Library.Word" "HOL-Library.Monad_Syntax"
begin

unbundle bit_operations_syntax

text \<open>
  Types, memory reads and generic lemmas shared by every component.

  \<^item> \<open>u8\<close>, \<open>u16\<close>, \<open>u32\<close>, \<open>u64\<close> are machine words of HOL-Library.Word: \<open>+\<close> and \<open>-\<close> wrap as
    in the C++ code. A file descriptor (\<open>s32\<close>) is an \<open>int\<close>, a \<open>size_t\<close> a \<open>nat\<close>.
  \<^item> A byte buffer is a \<open>u8 list\<close>. A read goes through \<open>rd\<close> or \<open>rd_range\<close>, whose \<open>None\<close> is an
    access outside the buffer (undefined behaviour of the C++ code), so that memory safety is a
    theorem and not an assumption.
  \<^item> \<open>first_idx\<close> is the loop \<open>for (auto &s : table) if (P(s)) ...; break\<close> that the slot tables of
    the program use.
\<close>

type_synonym u8 = "8 word"
type_synonym u16 = "16 word"
type_synonym u32 = "32 word"
type_synonym u64 = "64 word"

named_theorems rd_simps \<open>evaluation of checked reads\<close>
named_theorems byte_simps \<open>splitting words into bytes and joining them again\<close>

section \<open>Checked reads\<close>

definition rd :: "u8 list \<Rightarrow> nat \<Rightarrow> u8 option" where
  "rd b i = (if i < length b then Some (b ! i) else None)"

definition rd_range :: "u8 list \<Rightarrow> nat \<Rightarrow> nat \<Rightarrow> u8 list option" where
  "rd_range b i n = (if i + n \<le> length b then Some (take n (drop i b)) else None)"

text \<open>A write behind the end of the buffer is undefined behaviour as well.\<close>

definition wr_range :: "u8 list \<Rightarrow> nat \<Rightarrow> u8 list \<Rightarrow> u8 list option" where
  "wr_range b i xs =
     (if i + length xs \<le> length b then Some (take i b @ xs @ drop (i + length xs) b) else None)"

lemma wr_range_in [rd_simps]:
  "i + length xs \<le> length b \<Longrightarrow> wr_range b i xs = Some (take i b @ xs @ drop (i + length xs) b)"
  by (simp add: wr_range_def)

lemma length_wr_range: "wr_range b i xs = Some b' \<Longrightarrow> length b' = length b"
  by (auto simp: wr_range_def split: if_splits)

lemma rd_in [rd_simps]: "i < length b \<Longrightarrow> rd b i = Some (b ! i)"
  by (simp add: rd_def)

lemma rd_out: "length b \<le> i \<Longrightarrow> rd b i = None"
  by (simp add: rd_def)

lemma rd_range_in [rd_simps]: "i + n \<le> length b \<Longrightarrow> rd_range b i n = Some (take n (drop i b))"
  by (simp add: rd_range_def)

text \<open>Reading a slice of a buffer into which another slice was written.\<close>

lemma slice_written: "off \<le> length b \<Longrightarrow>
  take (length xs) (drop off (take off b @ xs @ drop (off + length xs) b)) = xs"
  by simp

lemma slice_before: "i + n \<le> off \<Longrightarrow> off \<le> length b \<Longrightarrow>
  take n (drop i (take off b @ xs @ rest)) = take n (drop i b)"
  by (auto simp: drop_take min_def)

lemma slice_after: "off + length xs \<le> i \<Longrightarrow> off + length xs \<le> length b \<Longrightarrow>
  take n (drop i (take off b @ xs @ drop (off + length xs) b)) = take n (drop i b)"
  by simp

section \<open>Big-endian 16 and 32 bit fields\<close>

definition hi8 :: "u16 \<Rightarrow> u8" where "hi8 x = ucast (drop_bit 8 x)"
definition lo8 :: "u16 \<Rightarrow> u8" where "lo8 x = ucast x"

definition be16 :: "u8 \<Rightarrow> u8 \<Rightarrow> u16" where
  "be16 a b = (push_bit 8 (ucast a)) OR (ucast b)"

definition be32 :: "u8 \<Rightarrow> u8 \<Rightarrow> u8 \<Rightarrow> u8 \<Rightarrow> u32" where
  "be32 a b c d = (((push_bit 24 (ucast a)) OR (push_bit 16 (ucast b))) OR (push_bit 8 (ucast c)))
     OR (ucast d)"

definition b32_3 :: "u32 \<Rightarrow> u8" where "b32_3 x = ucast (drop_bit 24 x)"
definition b32_2 :: "u32 \<Rightarrow> u8" where "b32_2 x = ucast (drop_bit 16 x)"
definition b32_1 :: "u32 \<Rightarrow> u8" where "b32_1 x = ucast (drop_bit 8 x)"
definition b32_0 :: "u32 \<Rightarrow> u8" where "b32_0 x = ucast x"

lemma be16_join [simp, byte_simps]: "be16 (hi8 x) (lo8 x) = x"
  by (rule bit_word_eqI) (auto simp: be16_def hi8_def lo8_def bit_simps)

lemma be32_join [simp, byte_simps]: "be32 (b32_3 x) (b32_2 x) (b32_1 x) (b32_0 x) = x"
proof (rule bit_word_eqI)
  fix n :: nat
  assume "n < LENGTH(32)"
  then consider "n < 8" | "8 \<le> n" "n < 16" | "16 \<le> n" "n < 24" | "24 \<le> n" "n < 32"
    by fastforce
  then show "bit (be32 (b32_3 x) (b32_2 x) (b32_1 x) (b32_0 x)) n = bit x n"
    by cases (auto simp: be32_def b32_3_def b32_2_def b32_1_def b32_0_def bit_simps)
qed

lemma hi8_be16 [simp, byte_simps]: "hi8 (be16 a b) = a"
  by (rule bit_word_eqI) (auto simp: be16_def hi8_def bit_simps dest: bit_imp_le_length)

lemma lo8_be16 [simp, byte_simps]: "lo8 (be16 a b) = b"
  by (rule bit_word_eqI) (auto simp: be16_def lo8_def bit_simps)

lemma unat_hi8: "unat (hi8 x) = unat x div 256"
proof -
  have "unat x < 65536" using unsigned_less [of x] by simp
  then have "unat x div 256 < 256" by simp
  moreover have "unat (drop_bit 8 x) = unat x div 256"
    by (simp add: unat_drop_bit_eq drop_bit_nat_def)
  ultimately show ?thesis
    by (simp add: hi8_def unsigned_ucast_eq take_bit_eq_mod)
qed

lemma unat_lo8: "unat (lo8 x) = unat x mod 256"
  by (simp add: lo8_def unsigned_ucast_eq take_bit_eq_mod)

lemma unat_be16: "unat (be16 a b) = 256 * unat a + unat b"
proof -
  have h: "unat (be16 a b) div 256 = unat a" using unat_hi8 [of "be16 a b"] by simp
  have l: "unat (be16 a b) mod 256 = unat b" using unat_lo8 [of "be16 a b"] by simp
  show ?thesis using div_mult_mod_eq [of "unat (be16 a b)" 256] by (simp add: h l mult.commute)
qed

lemma be16_of_nat [simp, byte_simps]:
  "n < 65536 \<Longrightarrow> unat (be16 (of_nat (n div 256)) (of_nat n)) = n"
  by (simp add: unat_be16 unat_of_nat mod_simps)

section \<open>The first matching slot of a table\<close>

fun first_idx :: "('a \<Rightarrow> bool) \<Rightarrow> 'a list \<Rightarrow> nat option" where
  "first_idx P [] = None"
| "first_idx P (x # xs) = (if P x then Some 0 else map_option Suc (first_idx P xs))"

lemma first_idx_None_iff: "first_idx P xs = None \<longleftrightarrow> (\<forall>x \<in> set xs. \<not> P x)"
  by (induction xs) auto

lemma first_idx_Some_iff:
  "first_idx P xs = Some i \<longleftrightarrow> i < length xs \<and> P (xs ! i) \<and> (\<forall>j < i. \<not> P (xs ! j))"
proof (induction xs arbitrary: i)
  case Nil
  then show ?case by simp
next
  case (Cons x xs)
  show ?case
    by (cases i) (auto simp: Cons.IH nth_Cons' less_Suc_eq_0_disj)
qed

lemma first_idx_SomeD:
  assumes "first_idx P xs = Some i"
  shows "i < length xs" and "P (xs ! i)" and "xs ! i \<in> set xs"
  using assms by (auto simp: first_idx_Some_iff)

lemma first_idx_ex: "(\<exists>i. first_idx P xs = Some i) \<longleftrightarrow> (\<exists>x \<in> set xs. P x)"
  using first_idx_None_iff [of P xs] by (cases "first_idx P xs") auto

lemma first_idx_cong [fundef_cong]:
  "xs = ys \<Longrightarrow> (\<And>x. x \<in> set ys \<Longrightarrow> P x = Q x) \<Longrightarrow> first_idx P xs = first_idx Q ys"
  by (induction xs arbitrary: ys) auto

lemma set_list_update_cases: "y \<in> set (xs[i := x]) \<Longrightarrow> y = x \<or> y \<in> set xs"
  using set_update_subset_insert by fastforce

lemma option_eqI:
  assumes "\<And>n. a = Some n \<longleftrightarrow> b = Some n"
  shows "a = b"
  using assms [of "the a"] assms [of "the b"] by (cases a; cases b) simp_all

section \<open>Invariants of a running system\<close>

text \<open>The contract of a step relation with an invariant, and what follows for its runs.\<close>

locale invariant_system =
  fixes start :: 's and step :: "'s \<Rightarrow> 's \<Rightarrow> bool" and inv :: "'s \<Rightarrow> bool"
  assumes start_inv: "inv start" and step_inv: "step s s' \<Longrightarrow> inv s \<Longrightarrow> inv s'"
begin

lemma run_keeps_inv: "step\<^sup>*\<^sup>* s s' \<Longrightarrow> inv s \<Longrightarrow> inv s'"
  by (induction rule: rtranclp_induct) (auto intro: step_inv)

lemma run_from_start: "step\<^sup>*\<^sup>* start s \<Longrightarrow> inv s"
  by (rule run_keeps_inv [OF _ start_inv])

end

end
