(* ===== verification/Checksum.thy ===== *)
theory Checksum
  imports Prelude
begin

text \<open>
  The Internet checksums of \<^verbatim>\<open>bsd_bridge_service.cpp\<close> (\<open>IpChecksum\<close>, \<open>TcpChecksum\<close>), which
  accumulate 16-bit big-endian words in a wrapping 32-bit sum, fold the carries back in and
  complement. The reference is the receiver's side as RFC 1071 states it: the one's complement
  sum of all words, the transmitted checksum included, must be \<open>0xFFFF\<close>.
\<close>

section \<open>The code\<close>

text \<open>\<open>while (sum >> 16) sum = (sum & 0xFFFF) + (sum >> 16)\<close>\<close>

lemma unat_fold_step:
  "unat ((s AND 0xFFFF) + drop_bit 16 s :: u32) = unat s mod 65536 + unat s div 65536"
proof -
  have m: "unat (s AND 0xFFFF) = unat s mod 65536"
    using take_bit_eq_mask [of 16 s] unsigned_take_bit_eq [of 16 s, where 'a = nat]
    by (simp add: mask_eq_exp_minus_1 take_bit_eq_mod)
  have d: "unat (drop_bit 16 s) = unat s div 65536"
    by (simp add: unat_drop_bit_eq drop_bit_nat_def)
  have "unat s < 4294967296" using unsigned_less [of s] by simp
  then have "unat s mod 65536 + unat s div 65536 < 4294967296" by linarith
  then show ?thesis by (simp add: unat_word_ariths m d)
qed

lemma split16_less:
  fixes n :: nat
  assumes "65536 \<le> n"
  shows "n mod 65536 + n div 65536 < n"
proof -
  have "0 < n div 65536" using assms by (simp add: div_greater_zero_iff)
  moreover have "n = 65536 * (n div 65536) + n mod 65536" by simp
  ultimately show ?thesis by linarith
qed

lemma drop_16_zero_iff: "drop_bit 16 (s :: u32) = 0 \<longleftrightarrow> unat s < 65536"
proof -
  have "drop_bit 16 s = 0 \<longleftrightarrow> unat (drop_bit 16 s) = 0" by (simp add: unat_eq_0)
  then show ?thesis by (simp add: unat_drop_bit_eq drop_bit_nat_def div_eq_0_iff)
qed

function fold_carries :: "u32 \<Rightarrow> u32" where
  "fold_carries s =
     (if drop_bit 16 s \<noteq> 0 then fold_carries ((s AND 0xFFFF) + drop_bit 16 s) else s)"
  by pat_completeness auto
termination
proof (relation "measure unat", goal_cases)
  case 1
  show ?case by simp
next
  case (2 s)
  then have "65536 \<le> unat s" by (simp add: drop_16_zero_iff)
  then show ?case by (simp add: unat_fold_step split16_less)
qed

declare fold_carries.simps [simp del]

function ip_sum_loop :: "u8 list \<Rightarrow> nat \<Rightarrow> u32 \<Rightarrow> u32" where
  "ip_sum_loop h i acc =
     (if i < 20 then
        (if i = 10 then ip_sum_loop h (i + 2) acc
         else ip_sum_loop h (i + 2) (acc + (push_bit 8 (ucast (h ! i)) OR ucast (h ! (i + 1)))))
      else acc)"
  by pat_completeness auto
termination
  by (relation "measure (\<lambda>(h, i, acc). 20 - i)") auto

definition IpChecksum :: "u8 list \<Rightarrow> u16" where
  "IpChecksum header = ucast (NOT (fold_carries (ip_sum_loop header 0 0)))"

fun tcp_sum_loop :: "u8 list \<Rightarrow> u32 \<Rightarrow> u32" where
  "tcp_sum_loop (a # b # seg) acc = tcp_sum_loop seg (acc + (push_bit 8 (ucast a) OR ucast b))"
| "tcp_sum_loop [a] acc = acc + push_bit 8 (ucast a)"
| "tcp_sum_loop [] acc = acc"

definition TcpChecksum :: "u32 \<Rightarrow> u32 \<Rightarrow> u8 list \<Rightarrow> u16" where
  "TcpChecksum src_ip dst_ip seg =
     ucast (NOT (fold_carries (tcp_sum_loop seg
       ((drop_bit 16 src_ip AND 0xFFFF) + (src_ip AND 0xFFFF)
        + (drop_bit 16 dst_ip AND 0xFFFF) + (dst_ip AND 0xFFFF) + 6 + of_nat (length seg)))))"

section \<open>The receiver's check, RFC 1071\<close>

text \<open>The 16-bit words of a byte string; an odd last byte is padded with a zero byte.\<close>

fun words16 :: "u8 list \<Rightarrow> nat list" where
  "words16 (a # b # bs) = (256 * unat a + unat b) # words16 bs"
| "words16 [a] = [256 * unat a]"
| "words16 [] = []"

text \<open>16-bit one's complement addition: the end-around carry is added back.\<close>

definition ones_add :: "nat \<Rightarrow> nat \<Rightarrow> nat" where
  "ones_add a b = (if a + b \<ge> 65536 then a + b - 65535 else a + b)"

definition ones_sum :: "nat list \<Rightarrow> nat" where
  "ones_sum ws = foldl ones_add 0 ws"

definition checksum_verifies :: "nat list \<Rightarrow> bool" where
  "checksum_verifies ws \<longleftrightarrow> ones_sum ws = 65535"

section \<open>Modular view of both sides\<close>

lemma words16_append:
  "even (length xs) \<Longrightarrow> words16 (xs @ ys) = words16 xs @ words16 ys"
  by (induction xs rule: words16.induct) auto

lemma words16_bound: "w \<in> set (words16 bs) \<Longrightarrow> w < 65536"
proof (induction bs rule: words16.induct)
  case (1 a b bs)
  have "unat a < 256" and "unat b < 256" using unsigned_less [of a] unsigned_less [of b] by simp_all
  then show ?case using 1 by auto
next
  case (2 a)
  have "unat a < 256" using unsigned_less [of a] by simp
  then show ?case using 2 by simp
qed simp

lemma length_words16: "length (words16 bs) = (length bs + 1) div 2"
  by (induction bs rule: words16.induct) auto

lemma sum_words16_le: "sum_list (words16 bs) \<le> 65535 * ((length bs + 1) div 2)"
proof -
  have "\<forall>w \<in> set ws. w < 65536 \<Longrightarrow> sum_list ws \<le> 65535 * length ws" for ws :: "nat list"
    by (induction ws) (auto simp: less_Suc_eq_le algebra_simps)
  then show ?thesis by (metis length_words16 words16_bound)
qed

lemma ones_add_mod: "ones_add a b mod 65535 = (a + b) mod 65535"
  by (auto simp: ones_add_def mod_if)

lemma ones_add_range:
  "a < 65536 \<Longrightarrow> b < 65536 \<Longrightarrow> ones_add a b < 65536 \<and> (ones_add a b = 0 \<longleftrightarrow> a + b = 0)"
  by (auto simp: ones_add_def)

lemma ones_foldl:
  assumes "a < 65536" and "\<forall>w \<in> set ws. w < 65536"
  shows "foldl ones_add a ws < 65536
       \<and> foldl ones_add a ws mod 65535 = (a + sum_list ws) mod 65535
       \<and> (foldl ones_add a ws = 0 \<longleftrightarrow> a + sum_list ws = 0)"
  using assms
proof (induction ws arbitrary: a)
  case Nil
  then show ?case by simp
next
  case (Cons w ws)
  let ?b = "ones_add a w"
  have b: "?b < 65536" "?b = 0 \<longleftrightarrow> a + w = 0" using Cons.prems ones_add_range [of a w] by auto
  then have IH: "foldl ones_add ?b ws < 65536
       \<and> foldl ones_add ?b ws mod 65535 = (?b + sum_list ws) mod 65535
       \<and> (foldl ones_add ?b ws = 0 \<longleftrightarrow> ?b + sum_list ws = 0)"
    using Cons by auto
  moreover have "(?b + sum_list ws) mod 65535 = (a + w + sum_list ws) mod 65535"
    by (metis ones_add_mod mod_add_left_eq)
  ultimately show ?case using b by (simp add: add.assoc)
qed

lemma checksum_verifies_iff:
  assumes "\<forall>w \<in> set ws. w < 65536"
  shows "checksum_verifies ws \<longleftrightarrow> sum_list ws mod 65535 = 0 \<and> sum_list ws > 0"
proof -
  let ?f = "foldl ones_add 0 ws"
  have f: "?f < 65536" "?f mod 65535 = sum_list ws mod 65535" "?f = 0 \<longleftrightarrow> sum_list ws = 0"
    using ones_foldl [of 0 ws] assms by simp_all
  have "?f = 65535 \<longleftrightarrow> ?f mod 65535 = 0 \<and> ?f > 0"
  proof (cases "?f < 65535")
    case True
    then show ?thesis by auto
  next
    case False
    with f(1) have "?f = 65535" by linarith
    then show ?thesis by simp
  qed
  then show ?thesis
    unfolding checksum_verifies_def ones_sum_def f(2) neq0_conv [symmetric] f(3) .
qed

lemma fold_carries_spec:
  "unat (fold_carries s) < 65536
   \<and> unat (fold_carries s) mod 65535 = unat s mod 65535
   \<and> (unat (fold_carries s) = 0 \<longleftrightarrow> unat s = 0)"
proof (induction s rule: fold_carries.induct)
  case (1 s)
  let ?t = "(s AND 0xFFFF) + drop_bit 16 s"
  show ?case
  proof (cases "drop_bit 16 s = 0")
    case True
    then show ?thesis by (simp add: fold_carries.simps [of s] drop_16_zero_iff)
  next
    case False
    have t: "unat ?t = unat s mod 65536 + unat s div 65536" by (rule unat_fold_step)
    have "unat s = 65536 * (unat s div 65536) + unat s mod 65536" by simp
    then have "unat s = unat ?t + 65535 * (unat s div 65536)" unfolding t by linarith
    then have "unat ?t mod 65535 = unat s mod 65535" by (metis mod_mult_self2)
    moreover have "unat ?t = 0 \<longleftrightarrow> unat s = 0" using False
      unfolding t by (auto simp: drop_16_zero_iff div_eq_0_iff)
    ultimately show ?thesis
      using 1 False by (simp add: fold_carries.simps [of s])
  qed
qed

lemma unat_complement16:
  assumes "unat (f :: u32) < 65536"
  shows "unat (ucast (NOT f) :: u16) = 65535 - unat f"
proof -
  have "(ucast (NOT f) :: u16) = NOT (ucast f)"
    by (rule bit_word_eqI) (auto simp: bit_simps)
  then have *: "(ucast (NOT f) :: u16) = - 1 - ucast f" by (simp add: not_eq_complement)
  have u: "unat (ucast f :: u16) = unat f" using assms by (simp add: unsigned_ucast_eq take_bit_eq_mod)
  then have "(ucast f :: u16) \<le> - 1" by simp
  then have "unat (- 1 - ucast f :: u16) = unat (- 1 :: u16) - unat (ucast f :: u16)"
    by (rule unat_sub)
  moreover have "unat (- 1 :: u16) = 65535" by (simp add: unsigned_minus_1_eq_mask mask_eq_exp_minus_1)
  ultimately show ?thesis using * u by simp
qed

text \<open>The transmitted checksum completes any partial sum to a multiple of \<open>65535\<close>.\<close>

lemma checksum_completes:
  fixes s :: u32
  defines "c \<equiv> unat (ucast (NOT (fold_carries s)) :: u16)"
  assumes "unat s > 0"
  shows "(unat s + c) mod 65535 = 0" and "c < 65535"
proof -
  let ?f = "unat (fold_carries s)"
  have f: "?f < 65536" "?f mod 65535 = unat s mod 65535" "?f > 0"
    using fold_carries_spec [of s] assms by auto
  have c: "c = 65535 - ?f" unfolding c_def using f(1) by (rule unat_complement16)
  have "(unat s + c) mod 65535 = (?f + c) mod 65535" by (metis f(2) mod_add_left_eq)
  also have "?f + c = 65535" using f(1) unfolding c by simp
  finally show "(unat s + c) mod 65535 = 0" by simp
  show "c < 65535" using f(3) unfolding c by simp
qed

section \<open>The sums computed by the loops\<close>

lemma unat_pair: "unat (push_bit 8 (ucast a) OR ucast b :: u32) = 256 * unat a + unat (b :: u8)"
  for a :: u8
proof -
  have "(push_bit 8 (ucast a) OR ucast b :: u32) = ucast (be16 a b)"
    by (rule bit_word_eqI) (auto simp: be16_def bit_simps dest: bit_imp_le_length)
  moreover have "unat (be16 a b) < 65536" using unsigned_less [of "be16 a b"] by simp
  then have "unat (ucast (be16 a b) :: u32) = unat (be16 a b)"
    by (simp add: unsigned_ucast_eq take_bit_eq_mod)
  ultimately show ?thesis by (simp add: unat_be16)
qed

lemma unat_single: "unat (push_bit 8 (ucast a) :: u32) = 256 * unat (a :: u8)"
  using unat_pair [of a 0] by simp

lemma tcp_sum_loop_unat:
  "unat s + sum_list (words16 seg) < 2 ^ 32 \<Longrightarrow>
   unat (tcp_sum_loop seg s) = unat s + sum_list (words16 seg)"
proof (induction seg s rule: tcp_sum_loop.induct)
  case (1 a b seg s)
  let ?w = "push_bit 8 (ucast a) OR ucast b :: u32"
  have "unat (s + ?w) = unat s + unat ?w"
    using "1.prems" by (simp add: unat_word_ariths unat_pair)
  then show ?case using 1 by (simp add: unat_pair add.assoc)
next
  case (2 a s)
  then show ?case by (simp add: unat_word_ariths unat_single)
qed simp

lemma ip_sum_loop_eval:
  "ip_sum_loop h 0 0 =
     (\<Sum>i\<leftarrow>[0, 2, 4, 6, 8, 12, 14, 16, 18]. push_bit 8 (ucast (h ! i)) OR ucast (h ! (i + 1)))"
  by (simp add: ip_sum_loop.simps numeral_eq_Suc add.assoc)

end
