(* ===== verification/Packet.thy ===== *)
theory Packet
  imports Checksum
begin

text \<open>
  Raw IPv4/UDP and IPv4/TCP packets as \<^verbatim>\<open>bsd_bridge_service.cpp\<close> builds them (\<open>SendTcpSegment\<close>,
  the bridged branch of \<open>SendTo\<close>) and parses them (\<open>ParseIpv4Udp\<close>, \<open>ParseIpv4Tcp\<close>). A parser
  has type \<open>_ option option\<close>: the outer \<open>None\<close> is a read outside the packet, the inner one the
  code's \<open>return false\<close>. The locale \<open>packet_codec\<close> states the contract between a builder and
  the parser the peer runs; both protocols are interpretations of it.
\<close>

section \<open>The contract of a builder and its parser\<close>

locale packet_codec =
  fixes build :: "'h \<Rightarrow> u8 list \<Rightarrow> u8 list option"
    and parse :: "u8 list \<Rightarrow> ('v \<times> u8 list) option option"
    and view :: "'h \<Rightarrow> 'v"
    and cap :: nat
  assumes build_defined: "build h p \<noteq> None \<longleftrightarrow> length p \<le> cap"
    and parse_build: "build h p = Some b \<Longrightarrow> parse b = Some (Some (view h, p))"
    and parse_safe: "parse b \<noteq> None"
begin

lemma build_injective:
  assumes "build h p = Some b" and "build h' p' = Some b"
  shows "view h = view h' \<and> p = p'"
  using parse_build [OF assms(1)] parse_build [OF assms(2)] by simp

lemma build_too_long: "cap < length p \<Longrightarrow> build h p = None"
  using build_defined [of h p] by auto

lemma build_fits: "length p \<le> cap \<Longrightarrow> \<exists>b. build h p = Some b \<and> parse b = Some (Some (view h, p))"
  using build_defined [of h p] parse_build [of h p] by auto

end

section \<open>Constants\<close>

definition LdnControlPort :: u16 where "LdnControlPort = 11452"
definition VTcpInboxCap :: nat where "VTcpInboxCap = 2048"
definition MaxBridgedPayload :: nat where "MaxBridgedPayload = VTcpInboxCap"

definition TCP_FIN :: u8 where "TCP_FIN = 0x01"
definition TCP_SYN :: u8 where "TCP_SYN = 0x02"
definition TCP_RST :: u8 where "TCP_RST = 0x04"
definition TCP_PSH :: u8 where "TCP_PSH = 0x08"
definition TCP_ACK :: u8 where "TCP_ACK = 0x10"

lemmas tcp_flag_defs = TCP_FIN_def TCP_SYN_def TCP_RST_def TCP_PSH_def TCP_ACK_def
lemmas cap_defs = MaxBridgedPayload_def VTcpInboxCap_def

section \<open>IPv4 header\<close>

definition ip_header :: "nat \<Rightarrow> u8 \<Rightarrow> u16 \<Rightarrow> u32 \<Rightarrow> u32 \<Rightarrow> u8 list" where
  "ip_header tot proto csum src_ip dst_ip =
     [0x45, 0x00, of_nat (tot div 256), of_nat tot, 0, 0, 0, 0, 64, proto,
      hi8 csum, lo8 csum,
      b32_3 src_ip, b32_2 src_ip, b32_1 src_ip, b32_0 src_ip,
      b32_3 dst_ip, b32_2 dst_ip, b32_1 dst_ip, b32_0 dst_ip]"

definition ip_header_filled :: "nat \<Rightarrow> u8 \<Rightarrow> u32 \<Rightarrow> u32 \<Rightarrow> u8 list" where
  "ip_header_filled tot proto src_ip dst_ip =
     ip_header tot proto (IpChecksum (ip_header tot proto 0 src_ip dst_ip)) src_ip dst_ip"

section \<open>TCP segments\<close>

record tcp_hdr =
  th_src_ip :: u32
  th_dst_ip :: u32
  th_src_port :: u16
  th_dst_port :: u16
  th_seq :: u32
  th_ack :: u32
  th_flags :: u8

definition tcp_header :: "tcp_hdr \<Rightarrow> u16 \<Rightarrow> u8 list" where
  "tcp_header h csum =
     [hi8 (th_src_port h), lo8 (th_src_port h), hi8 (th_dst_port h), lo8 (th_dst_port h),
      b32_3 (th_seq h), b32_2 (th_seq h), b32_1 (th_seq h), b32_0 (th_seq h),
      b32_3 (th_ack h), b32_2 (th_ack h), b32_1 (th_ack h), b32_0 (th_ack h),
      push_bit 4 5, th_flags h, 0x20, 0x00, hi8 csum, lo8 csum, 0, 0]"

definition BuildTcp :: "tcp_hdr \<Rightarrow> u8 list \<Rightarrow> u8 list option" where
  "BuildTcp h payload =
     (let tcp_len = 20 + length payload;
          tot = 20 + tcp_len
      in if tot > 20 + 20 + MaxBridgedPayload then None
         else let ip = ip_header_filled tot 6 (th_src_ip h) (th_dst_ip h);
                  csum = TcpChecksum (th_src_ip h) (th_dst_ip h) (tcp_header h 0 @ payload)
              in Some (ip @ tcp_header h csum @ payload))"

record tcp_view =
  tv_src_ip :: u32
  tv_src_port :: u16
  tv_dst_port :: u16
  tv_seq :: u32
  tv_ack :: u32
  tv_flags :: u8

definition ParseIpv4Tcp :: "u8 list \<Rightarrow> (tcp_view \<times> u8 list) option option" where
  "ParseIpv4Tcp pkt =
     (if length pkt < 40 then Some None
      else do {
        p0 \<leftarrow> rd pkt 0;
        p9 \<leftarrow> rd pkt 9;
        let ihl = unat (p0 AND 0x0F) * 4;
        if p9 \<noteq> 6 \<or> length pkt < ihl + 20 then Some None
        else do {
          s0 \<leftarrow> rd pkt 12; s1 \<leftarrow> rd pkt 13; s2 \<leftarrow> rd pkt 14; s3 \<leftarrow> rd pkt 15;
          t0 \<leftarrow> rd pkt ihl; t1 \<leftarrow> rd pkt (ihl + 1);
          t2 \<leftarrow> rd pkt (ihl + 2); t3 \<leftarrow> rd pkt (ihl + 3);
          q0 \<leftarrow> rd pkt (ihl + 4); q1 \<leftarrow> rd pkt (ihl + 5);
          q2 \<leftarrow> rd pkt (ihl + 6); q3 \<leftarrow> rd pkt (ihl + 7);
          a0 \<leftarrow> rd pkt (ihl + 8); a1 \<leftarrow> rd pkt (ihl + 9);
          a2 \<leftarrow> rd pkt (ihl + 10); a3 \<leftarrow> rd pkt (ihl + 11);
          t12 \<leftarrow> rd pkt (ihl + 12);
          t13 \<leftarrow> rd pkt (ihl + 13);
          let data_offset = unat (drop_bit 4 t12) * 4;
          if data_offset < 20 \<or> ihl + data_offset > length pkt then Some None
          else do {
            payload \<leftarrow> rd_range pkt (ihl + data_offset) (length pkt - ihl - data_offset);
            Some (Some (\<lparr>tv_src_ip = be32 s0 s1 s2 s3, tv_src_port = be16 t0 t1,
                         tv_dst_port = be16 t2 t3, tv_seq = be32 q0 q1 q2 q3,
                         tv_ack = be32 a0 a1 a2 a3, tv_flags = t13\<rparr>, payload))
          }
        }
      })"

definition tcp_view_of :: "tcp_hdr \<Rightarrow> tcp_view" where
  "tcp_view_of h =
     \<lparr>tv_src_ip = th_src_ip h, tv_src_port = th_src_port h, tv_dst_port = th_dst_port h,
      tv_seq = th_seq h, tv_ack = th_ack h, tv_flags = th_flags h\<rparr>"

section \<open>UDP datagrams\<close>

record udp_hdr =
  uh_src_ip :: u32
  uh_dst_ip :: u32
  uh_src_port :: u16
  uh_dst_port :: u16

definition udp_header :: "u16 \<Rightarrow> u16 \<Rightarrow> nat \<Rightarrow> u8 list" where
  "udp_header src_port dst_port udp_len =
     [hi8 src_port, lo8 src_port, hi8 dst_port, lo8 dst_port,
      of_nat (udp_len div 256), of_nat udp_len, 0, 0]"

definition BuildUdp :: "udp_hdr \<Rightarrow> u8 list \<Rightarrow> u8 list option" where
  "BuildUdp h payload =
     (let tot = 20 + 8 + length payload
      in if tot > 20 + 8 + MaxBridgedPayload then None
         else Some (ip_header_filled tot 17 (uh_src_ip h) (uh_dst_ip h)
                    @ udp_header (uh_src_port h) (uh_dst_port h) (8 + length payload)
                    @ payload))"

definition ParseIpv4Udp :: "u8 list \<Rightarrow> ((u32 \<times> u16) \<times> u8 list) option option" where
  "ParseIpv4Udp pkt =
     (if length pkt < 28 then Some None
      else do {
        p0 \<leftarrow> rd pkt 0;
        p9 \<leftarrow> rd pkt 9;
        let ihl = unat (p0 AND 0x0F) * 4;
        if p9 \<noteq> 17 \<or> length pkt < ihl + 8 then Some None
        else do {
          s0 \<leftarrow> rd pkt 12; s1 \<leftarrow> rd pkt 13; s2 \<leftarrow> rd pkt 14; s3 \<leftarrow> rd pkt 15;
          d0 \<leftarrow> rd pkt (ihl + 2); d1 \<leftarrow> rd pkt (ihl + 3);
          l0 \<leftarrow> rd pkt (ihl + 4); l1 \<leftarrow> rd pkt (ihl + 5);
          let udp_len = unat (be16 l0 l1);
          let payload_len = (if 8 \<le> udp_len then udp_len - 8 else 0);
          if ihl + udp_len > length pkt then Some None
          else do {
            payload \<leftarrow> rd_range pkt (ihl + 8) payload_len;
            Some (Some ((be32 s0 s1 s2 s3, be16 d0 d1), payload))
          }
        }
      })"

section \<open>Parsers never read outside the packet\<close>

lemma ParseIpv4Tcp_safe: "ParseIpv4Tcp pkt \<noteq> None"
proof (cases "length pkt < 40")
  case True
  then show ?thesis by (simp add: ParseIpv4Tcp_def)
next
  case False
  then have "40 \<le> length pkt" and "pkt \<noteq> []" by auto
  then show ?thesis by (auto simp: ParseIpv4Tcp_def Let_def rd_simps)
qed

lemma ParseIpv4Udp_safe: "ParseIpv4Udp pkt \<noteq> None"
proof (cases "length pkt < 28")
  case True
  then show ?thesis by (simp add: ParseIpv4Udp_def)
next
  case False
  then have "28 \<le> length pkt" and "pkt \<noteq> []" by auto
  then show ?thesis by (auto simp: ParseIpv4Udp_def Let_def rd_simps)
qed

section \<open>Round trips\<close>

lemma length_ip_header [simp]: "length (ip_header t p c s d) = 20"
  by (simp add: ip_header_def)

lemma length_ip_header_filled [simp]: "length (ip_header_filled t p s d) = 20"
  by (simp add: ip_header_filled_def)

lemma length_tcp_header [simp]: "length (tcp_header h c) = 20"
  by (simp add: tcp_header_def)

lemma length_udp_header [simp]: "length (udp_header s d n) = 8"
  by (simp add: udp_header_def)

lemma BuildTcp_Some_iff: "BuildTcp h p \<noteq> None \<longleftrightarrow> length p \<le> MaxBridgedPayload"
  by (auto simp: BuildTcp_def Let_def)

lemma BuildUdp_Some_iff: "BuildUdp h p \<noteq> None \<longleftrightarrow> length p \<le> MaxBridgedPayload"
  by (auto simp: BuildUdp_def Let_def)

lemma BuildTcp_length: "BuildTcp h p = Some b \<Longrightarrow> length b = 40 + length p"
  by (auto simp: BuildTcp_def Let_def split: if_splits)

lemma BuildUdp_length: "BuildUdp h p = Some b \<Longrightarrow> length b = 28 + length p"
  by (auto simp: BuildUdp_def Let_def split: if_splits)

lemma ParseIpv4Tcp_BuildTcp:
  "BuildTcp h p = Some b \<Longrightarrow> ParseIpv4Tcp b = Some (Some (tcp_view_of h, p))"
  by (auto simp: BuildTcp_def Let_def ParseIpv4Tcp_def rd_simps ip_header_filled_def ip_header_def
      tcp_header_def tcp_view_of_def split: if_splits)

lemma ParseIpv4Udp_BuildUdp:
  "BuildUdp h p = Some b \<Longrightarrow> ParseIpv4Udp b = Some (Some ((uh_src_ip h, uh_dst_port h), p))"
proof -
  assume b: "BuildUdp h p = Some b"
  then have "length p \<le> MaxBridgedPayload" using BuildUdp_Some_iff [of h p] by simp
  then have "unat (be16 (word_of_nat ((8 + length p) div 256)) (8 + word_of_nat (length p)))
      = 8 + length p"
    using be16_of_nat [of "8 + length p"] by (simp add: cap_defs)
  with b show ?thesis
    by (auto simp: BuildUdp_def Let_def ParseIpv4Udp_def rd_simps ip_header_filled_def
        ip_header_def udp_header_def split: if_splits)
qed

interpretation tcp: packet_codec BuildTcp ParseIpv4Tcp tcp_view_of MaxBridgedPayload
  by unfold_locales (rule BuildTcp_Some_iff ParseIpv4Tcp_safe | erule ParseIpv4Tcp_BuildTcp)+

interpretation udp: packet_codec BuildUdp ParseIpv4Udp
    "\<lambda>h. (uh_src_ip h, uh_dst_port h)" MaxBridgedPayload
  by unfold_locales (rule BuildUdp_Some_iff ParseIpv4Udp_safe | erule ParseIpv4Udp_BuildUdp)+

section \<open>Emitted checksums verify at a real receiver\<close>

lemma unat_sum_list:
  "sum_list (map unat ws) < 2 ^ 32 \<Longrightarrow> unat (sum_list ws :: u32) = sum_list (map unat ws)"
proof (induction ws)
  case Nil
  then show ?case by simp
next
  case (Cons w ws)
  then show ?case by (simp add: unat_word_ariths)
qed

lemma sum_words16_ip_header:
  "sum_list (words16 (ip_header t p c s d)) =
     unat (ip_sum_loop (ip_header t p 0 s d) 0 0) + unat c"
proof -
  let ?h = "ip_header t p 0 s d"
  let ?ws = "map (\<lambda>i. push_bit 8 (ucast (?h ! i)) OR ucast (?h ! (i + 1)) :: u32)
               [0, 2, 4, 6, 8, 12, 14, 16, 18]"
  have byte: "unat x < 256" for x :: u8 using unsigned_less [of x] by simp
  have bound: "256 * unat a + unat b < 65536" for a b :: u8
    using byte [of a] byte [of b] by linarith
  have "\<forall>w \<in> set ?ws. unat w < 65536" using bound by (auto simp: unat_pair)
  then have "sum_list (map unat ?ws) < 2 ^ 32" by simp
  then have "unat (ip_sum_loop ?h 0 0) = sum_list (map unat ?ws)"
    unfolding ip_sum_loop_eval by (rule unat_sum_list)
  also have "\<dots> + unat c = sum_list (words16 (ip_header t p c s d))"
    using unat_be16 [of "hi8 c" "lo8 c"] unat_pair [of 64 p]
    by (simp add: ip_header_def unat_pair)
  finally show ?thesis by simp
qed

lemma ip_header_filled_verifies: "checksum_verifies (words16 (ip_header_filled t p s d))"
proof -
  let ?s = "ip_sum_loop (ip_header t p 0 s d) 0 0"
  let ?c = "IpChecksum (ip_header t p 0 s d)"
  have "0 < sum_list (words16 (ip_header t p 0 s d))" by (simp add: ip_header_def)
  then have pos: "0 < unat ?s" using sum_words16_ip_header [of t p 0 s d] by simp
  have "(unat ?s + unat ?c) mod 65535 = 0"
    unfolding IpChecksum_def by (rule checksum_completes(1) [OF pos])
  then show ?thesis
    using pos words16_bound
    by (simp add: ip_header_filled_def checksum_verifies_iff sum_words16_ip_header)
qed

text \<open>The pseudo header of a TCP segment as 16-bit words.\<close>

definition tcp_pseudo :: "u32 \<Rightarrow> u32 \<Rightarrow> nat \<Rightarrow> nat list" where
  "tcp_pseudo src dst n =
     [unat src div 65536, unat src mod 65536, unat dst div 65536, unat dst mod 65536, 6, n]"

lemma unat_lo16: "unat (x AND 0xFFFF :: u32) = unat x mod 65536"
  using take_bit_eq_mask [of 16 x] unsigned_take_bit_eq [of 16 x, where 'a = nat]
  by (simp add: mask_eq_exp_minus_1 take_bit_eq_mod)

lemma unat_hi16: "unat (drop_bit 16 x :: u32) mod 65536 = unat x div 65536"
proof -
  have "unat x < 4294967296" using unsigned_less [of x] by simp
  then have "unat x div 65536 < 65536" by linarith
  then show ?thesis by (simp add: unat_drop_bit_eq drop_bit_nat_def)
qed

lemma tcp_pseudo_bound: "n < 65536 \<Longrightarrow> \<forall>w \<in> set (tcp_pseudo s d n). w < 65536"
proof -
  have "unat x div 65536 < 65536" for x :: u32
    using unsigned_less [of x] by (simp add: div_less_iff_less_mult)
  then show "n < 65536 \<Longrightarrow> \<forall>w \<in> set (tcp_pseudo s d n). w < 65536"
    by (auto simp: tcp_pseudo_def)
qed

lemma tcp_header_sum:
  "sum_list (words16 (tcp_header h c @ p)) = sum_list (words16 (tcp_header h 0 @ p)) + unat c"
  using unat_be16 [of "hi8 c" "lo8 c"] unat_be16 [of "hi8 0" "lo8 0"]
  by (simp add: tcp_header_def)

lemma tcp_segment_verifies:
  assumes len: "length p \<le> MaxBridgedPayload"
    and c: "c = TcpChecksum s d (tcp_header h 0 @ p)"
  shows "checksum_verifies (tcp_pseudo s d (20 + length p) @ words16 (tcp_header h c @ p))"
proof -
  let ?seg = "tcp_header h 0 @ p"
  let ?pw = "[drop_bit 16 s AND 0xFFFF, s AND 0xFFFF, drop_bit 16 d AND 0xFFFF, d AND 0xFFFF,
              6, of_nat (length ?seg)] :: u32 list"
  let ?tot = "tcp_sum_loop ?seg (sum_list ?pw)"
  have n: "20 + length p < 65536" using len by (simp add: cap_defs)
  have pw: "map unat ?pw = tcp_pseudo s d (20 + length p)"
    using n by (simp add: tcp_pseudo_def unat_hi16 unat_lo16 unat_word_ariths unat_of_nat)
  have ps: "sum_list (tcp_pseudo s d (20 + length p)) \<le> 6 * 65535"
    using tcp_pseudo_bound [OF n, of s d] mod_less_divisor [of 65536 "unat s"]
      mod_less_divisor [of 65536 "unat d"]
    unfolding tcp_pseudo_def by simp linarith
  have sg: "sum_list (words16 ?seg) \<le> 65535 * 1035"
    using sum_words16_le [of ?seg] len by (simp add: cap_defs)
  have "sum_list (map unat ?pw) < 2 ^ 32" unfolding pw by (rule le_less_trans [OF ps]) simp
  then have u: "unat (sum_list ?pw) = sum_list (tcp_pseudo s d (20 + length p))"
    unfolding pw [symmetric] by (rule unat_sum_list)
  have tot: "unat ?tot = sum_list (tcp_pseudo s d (20 + length p)) + sum_list (words16 ?seg)"
    unfolding u [symmetric] by (rule tcp_sum_loop_unat) (unfold u, use ps sg in simp)
  have c': "c = ucast (NOT (fold_carries ?tot))"
    unfolding c TcpChecksum_def by (simp add: add.assoc)
  have pos: "0 < unat ?tot" unfolding tot by (simp add: tcp_pseudo_def)
  have m: "(unat ?tot + unat c) mod 65535 = 0"
    unfolding c' by (rule checksum_completes(1) [OF pos])
  let ?ws = "tcp_pseudo s d (20 + length p) @ words16 (tcp_header h c @ p)"
  have sum: "sum_list ?ws = unat ?tot + unat c"
    unfolding tot by (simp only: sum_list_append tcp_header_sum [of h c p] add.assoc)
  have b: "\<forall>w \<in> set ?ws. w < 65536"
    using tcp_pseudo_bound [OF n, of s d] words16_bound by auto
  show ?thesis
    unfolding checksum_verifies_iff [OF b] sum using m trans_less_add1 [OF pos] by (rule conjI)
qed

text \<open>C26: Every TCP segment the bridge emits carries an IPv4 header checksum and a TCP checksum
  (over pseudo header, header and payload) that a real network stack's one's complement
  verification accepts.\<close>

theorem BuildTcp_checksums_verify:
  assumes "BuildTcp h p = Some b"
  shows "checksum_verifies (words16 (take 20 b))
       \<and> checksum_verifies (tcp_pseudo (th_src_ip h) (th_dst_ip h) (length b - 20) @ words16 (drop 20 b))"
  using assms BuildTcp_Some_iff [of h p]
  by (auto simp: BuildTcp_def Let_def ip_header_filled_verifies tcp_segment_verifies split: if_splits)

definition sample_tcp :: tcp_hdr where
  "sample_tcp = \<lparr>th_src_ip = 0x0A0D0001, th_dst_ip = 0x0A0D0002, th_src_port = 49160,
     th_dst_port = LdnControlPort, th_seq = 0xFFFFFFFF, th_ack = 7, th_flags = 0x18\<rparr>"

definition sample_udp :: udp_hdr where
  "sample_udp = \<lparr>uh_src_ip = 0x0A0D0001, uh_dst_ip = 0x0A0DFFFF, uh_src_port = LdnControlPort,
     uh_dst_port = LdnControlPort\<rparr>"

theorem BuildTcp_checksums_verify_witness:
  "\<exists>b. BuildTcp sample_tcp [1, 2, 3] = Some b \<and> checksum_verifies (words16 (take 20 b))"
proof -
  obtain b where b: "BuildTcp sample_tcp [1, 2, 3] = Some b"
    using tcp.build_fits [of "[1, 2, 3]" sample_tcp] by (auto simp: cap_defs)
  then show ?thesis using BuildTcp_checksums_verify [OF b] by blast
qed

section \<open>Round trips over the wire\<close>

lemma BuildTcp_not_udp: "BuildTcp h p = Some b \<Longrightarrow> ParseIpv4Udp b = Some None"
  by (auto simp: BuildTcp_def Let_def ParseIpv4Udp_def rd_simps ip_header_filled_def ip_header_def
      tcp_header_def split: if_splits)

lemma BuildUdp_not_tcp: "BuildUdp h p = Some b \<Longrightarrow> ParseIpv4Tcp b = Some None"
  by (auto simp: BuildUdp_def Let_def ParseIpv4Tcp_def rd_simps ip_header_filled_def ip_header_def
      udp_header_def split: if_splits)

text \<open>A TCP segment whose payload is within the bound is built, the peer's parser recovers
  addresses, ports, sequence numbers, flags and payload exactly, and its UDP parser rejects it.\<close>

theorem tcp_wire_roundtrip:
  assumes "length p \<le> MaxBridgedPayload"
  shows "\<exists>b. BuildTcp h p = Some b \<and> ParseIpv4Tcp b = Some (Some (tcp_view_of h, p))
     \<and> ParseIpv4Udp b = Some None"
  using tcp.build_fits [OF assms, of h] BuildTcp_not_udp [of h p] by auto

theorem tcp_wire_roundtrip_witness:
  "\<exists>b. BuildTcp sample_tcp [9] = Some b \<and> ParseIpv4Tcp b = Some (Some (tcp_view_of sample_tcp, [9]))"
  using tcp_wire_roundtrip [of "[9]" sample_tcp] by (auto simp: cap_defs)

text \<open>The same for a UDP datagram of the control channel, rejected by the TCP parser.\<close>

theorem udp_wire_roundtrip:
  assumes "length p \<le> MaxBridgedPayload"
  shows "\<exists>b. BuildUdp h p = Some b
     \<and> ParseIpv4Udp b = Some (Some ((uh_src_ip h, uh_dst_port h), p)) \<and> ParseIpv4Tcp b = Some None"
  using udp.build_fits [OF assms, of h] BuildUdp_not_tcp [of h p] by auto

theorem udp_wire_roundtrip_witness:
  "\<exists>b. BuildUdp sample_udp [9] = Some b
     \<and> ParseIpv4Udp b = Some (Some ((0x0A0D0001, LdnControlPort), [9]))"
  using udp_wire_roundtrip [of "[9]" sample_udp] by (auto simp: cap_defs sample_udp_def)

text \<open>C27: Neither parser reads outside the packet it is given, whatever its bytes, and a payload it
  returns is never longer than the packet.\<close>

theorem packet_parsers_safe:
  "(\<exists>v. ParseIpv4Tcp pkt = Some v \<and> (case v of None \<Rightarrow> True | Some (t, p) \<Rightarrow> length p + 20 \<le> length pkt))
   \<and> (\<exists>v. ParseIpv4Udp pkt = Some v \<and> (case v of None \<Rightarrow> True | Some (u, p) \<Rightarrow> length p + 8 \<le> length pkt))"
proof -
  have "length p + 20 \<le> length pkt" if "ParseIpv4Tcp pkt = Some (Some (t, p))" for t p
    using that by (auto simp: ParseIpv4Tcp_def Let_def rd_range_def split: if_splits bind_splits)
  moreover have "length p + 8 \<le> length pkt" if "ParseIpv4Udp pkt = Some (Some (u, p))" for u p
    using that by (auto simp: ParseIpv4Udp_def Let_def rd_range_def split: if_splits bind_splits)
  ultimately show ?thesis
    using ParseIpv4Tcp_safe [of pkt] ParseIpv4Udp_safe [of pkt] by (fastforce split: option.splits)
qed

end
