(* ===== verification/Dns.thy ===== *)
theory Dns
  imports Prelude
begin

text \<open>
  The raw DNS resolver of \<^verbatim>\<open>relay_bridge.hpp\<close>: \<open>DnsEncodeName\<close>, \<open>DnsBuildQuery\<close> and
  \<open>DnsParseResponseA\<close>. A host name is the byte list in front of its NUL. The response buffer
  (\<open>resp\<close>, 512 bytes in the code) and the number of received bytes (\<open>len\<close>) are separate: an outer
  \<open>None\<close> is an access outside the buffer. The wire format of RFC 1035 (labels, pointers, resource
  records) is defined independently as the reference for encoder and parser.
\<close>

section \<open>Encoding a query\<close>

definition dot :: u8 where "dot = 46"

function dns_encode_loop :: "u8 list \<Rightarrow> u8 list \<Rightarrow> nat \<Rightarrow> u8 list option" where
  "dns_encode_loop label out cap =
     (if label = [] then Some out
      else let seg = takeWhile (\<lambda>c. c \<noteq> dot) label;
               tail = dropWhile (\<lambda>c. c \<noteq> dot) label;
               len = length seg
           in if len = 0 \<or> len > 63 \<or> length out + len + 2 > cap then None
              else let out' = out @ of_nat len # seg
                   in if tail = [] then Some out' else dns_encode_loop (tl tail) out' cap)"
  by pat_completeness auto
termination
proof (relation "measure (\<lambda>(label, out, cap). length label)", goal_cases)
  case 1
  show ?case by simp
next
  case (2 label out cap x xa xb xc)
  have "length (dropWhile (\<lambda>c. c \<noteq> dot) label) \<le> length label" by (rule length_dropWhile_le)
  then have "length (tl (dropWhile (\<lambda>c. c \<noteq> dot) label)) < length label"
    using 2 by (cases "dropWhile (\<lambda>c. c \<noteq> dot) label") auto
  then show ?case using 2 by simp
qed

declare dns_encode_loop.simps [simp del]

text \<open>The bytes written to \<open>out\<close>; the empty list stands for the code's \<open>return 0\<close>.\<close>

definition DnsEncodeName :: "u8 list \<Rightarrow> nat \<Rightarrow> u8 list" where
  "DnsEncodeName host cap =
     (case dns_encode_loop host [] cap of
        None \<Rightarrow> []
      | Some out \<Rightarrow> if length out + 2 > cap then [] else out @ [0])"

text \<open>\<open>Some None\<close> is \<open>return -1\<close>; \<open>None\<close> is a write behind the end of \<open>packet\<close>.\<close>

definition DnsBuildQuery :: "u8 list \<Rightarrow> u16 \<Rightarrow> nat \<Rightarrow> u8 list option option" where
  "DnsBuildQuery host qid cap =
     (let name = DnsEncodeName host (if cap > 12 then cap - 12 else 0)
      in if name = [] then Some None
         else let pos = 12 + length name
              in if pos + 4 > cap then None
                 else Some (Some
                   ([hi8 qid, lo8 qid, 0x01, 0x00, 0x00, 0x01, 0x00, 0x00, 0x00, 0x00, 0x00, 0x00]
                    @ name @ [0x00, 0x01, 0x00, 0x01])))"

section \<open>Parsing a response\<close>

function dns_skip_question :: "u8 list \<Rightarrow> nat \<Rightarrow> nat \<Rightarrow> nat option" where
  "dns_skip_question resp len pos =
     (if pos < len then do {
        l \<leftarrow> rd resp pos;
        if l \<noteq> 0 then
          (if l AND 0xC0 = 0xC0 then Some (pos + 2)
           else dns_skip_question resp len (pos + 1 + unat l))
        else Some (pos + 5)
      }
      else Some (pos + 5))"
  by pat_completeness auto
termination
  by (relation "measure (\<lambda>(resp, len, pos). len - pos)") auto

function dns_skip_name :: "u8 list \<Rightarrow> nat \<Rightarrow> nat \<Rightarrow> nat option" where
  "dns_skip_name resp len pos =
     (if pos < len then do {
        l \<leftarrow> rd resp pos;
        if l AND 0xC0 = 0xC0 then Some (pos + 2)
        else if l = 0 then Some (pos + 1)
        else dns_skip_name resp len (pos + 1 + unat l)
      }
      else Some pos)"
  by pat_completeness auto
termination
  by (relation "measure (\<lambda>(resp, len, pos). len - pos)") auto

declare dns_skip_question.simps [simp del] dns_skip_name.simps [simp del]

text \<open>The loop over the answers; the first argument counts \<open>ancount - a\<close>.\<close>

fun dns_answers :: "nat \<Rightarrow> u8 list \<Rightarrow> nat \<Rightarrow> nat \<Rightarrow> u8 list option option" where
  "dns_answers 0 resp len pos = Some None"
| "dns_answers (Suc a) resp len pos =
     (if pos + 12 \<le> len then do {
        pos \<leftarrow> dns_skip_name resp len pos;
        if pos + 10 > len then Some None
        else do {
          t0 \<leftarrow> rd resp pos; t1 \<leftarrow> rd resp (pos + 1);
          r0 \<leftarrow> rd resp (pos + 8); r1 \<leftarrow> rd resp (pos + 9);
          let rdlen = unat (be16 r0 r1);
          if be16 t0 t1 = 1 \<and> rdlen = 4 \<and> pos + 12 \<le> len then do {
            addr \<leftarrow> rd_range resp (pos + 10) 4;
            Some (Some addr)
          }
          else dns_answers a resp len (pos + 10 + rdlen)
        }
      }
      else Some None)"

definition DnsParseResponseA :: "u8 list \<Rightarrow> nat \<Rightarrow> u8 list option option" where
  "DnsParseResponseA resp len =
     (if len < 12 then Some None
      else do {
        f0 \<leftarrow> rd resp 2; f1 \<leftarrow> rd resp 3;
        let flags = be16 f0 f1;
        if flags AND 0x8000 = 0 \<or> flags AND 0x000F \<noteq> 0 then Some None
        else do {
          c0 \<leftarrow> rd resp 6; c1 \<leftarrow> rd resp 7;
          let ancount = unat (be16 c0 c1);
          if ancount = 0 then Some None
          else do {
            pos \<leftarrow> dns_skip_question resp len 12;
            dns_answers ancount resp len pos
          }
        }
      })"

section \<open>The wire format, RFC 1035\<close>

fun labels_bytes :: "u8 list list \<Rightarrow> u8 list" where
  "labels_bytes [] = []"
| "labels_bytes (l # ls) = of_nat (length l) # l @ labels_bytes ls"

definition label_ok :: "u8 list \<Rightarrow> bool" where
  "label_ok l \<longleftrightarrow> 0 < length l \<and> length l \<le> 63"

text \<open>A name ends with the root label or with a compression pointer.\<close>

datatype name_end = Root | Pointer u8 u8

fun name_end_bytes :: "name_end \<Rightarrow> u8 list" where
  "name_end_bytes Root = [0]"
| "name_end_bytes (Pointer h l) = [0xC0 OR h, l]"

record rr =
  rr_labels :: "u8 list list"
  rr_end :: name_end
  rr_type :: u16
  rr_fixed :: "u8 list"
  rr_data :: "u8 list"

definition rr_ok :: "rr \<Rightarrow> bool" where
  "rr_ok r \<longleftrightarrow> (\<forall>l \<in> set (rr_labels r). label_ok l) \<and> length (rr_fixed r) = 6
     \<and> length (rr_data r) < 65536"

definition rr_bytes :: "rr \<Rightarrow> u8 list" where
  "rr_bytes r =
     labels_bytes (rr_labels r) @ name_end_bytes (rr_end r) @ [hi8 (rr_type r), lo8 (rr_type r)]
     @ rr_fixed r @ [of_nat (length (rr_data r) div 256), of_nat (length (rr_data r))] @ rr_data r"

definition rr_is_A :: "rr \<Rightarrow> bool" where
  "rr_is_A r \<longleftrightarrow> rr_type r = 1 \<and> length (rr_data r) = 4"

text \<open>The host name \<open>a.b.c\<close> (an optional final dot is dropped by the encoder).\<close>

fun join_labels :: "u8 list list \<Rightarrow> u8 list" where
  "join_labels [] = []"
| "join_labels [l] = l"
| "join_labels (l # ls) = l @ dot # join_labels ls"

section \<open>The encoder writes the labels of the host name\<close>

lemma labels_bytes_append: "labels_bytes (xs @ ys) = labels_bytes xs @ labels_bytes ys"
  by (induction xs) auto

lemma takeWhile_dot: "dot \<notin> set l \<Longrightarrow> takeWhile (\<lambda>c. c \<noteq> dot) (l @ dot # r) = l"
  by (induction l) auto

lemma dropWhile_dot: "dot \<notin> set l \<Longrightarrow> dropWhile (\<lambda>c. c \<noteq> dot) (l @ dot # r) = dot # r"
  by (induction l) auto

lemma while_no_dot:
  assumes "dot \<notin> set l"
  shows "takeWhile (\<lambda>c. c \<noteq> dot) l = l" and "dropWhile (\<lambda>c. c \<noteq> dot) l = []"
proof -
  have *: "\<forall>c \<in> set l. c \<noteq> dot" using assms by blast
  then show "takeWhile (\<lambda>c. c \<noteq> dot) l = l" by (simp add: takeWhile_eq_all_conv)
  show "dropWhile (\<lambda>c. c \<noteq> dot) l = []" using * by (simp add: dropWhile_eq_Nil_conv)
qed

lemma length_labels_bytes: "length (labels_bytes ls) = length ls + sum_list (map length ls)"
  by (induction ls) auto

lemma dns_encode_loop_labels:
  assumes "\<forall>l \<in> set ls. label_ok l \<and> dot \<notin> set l"
    and "length out + length (labels_bytes ls) + 1 \<le> cap"
  shows "dns_encode_loop (join_labels ls) out cap = Some (out @ labels_bytes ls)"
  using assms
proof (induction ls arbitrary: out rule: join_labels.induct)
  case 1
  then show ?case by (simp add: dns_encode_loop.simps)
next
  case (2 l)
  then show ?case by (subst dns_encode_loop.simps) (auto simp: Let_def label_ok_def while_no_dot)
next
  case (3 l m ls)
  let ?out = "out @ of_nat (length l) # l"
  have "dns_encode_loop (join_labels (m # ls)) ?out cap = Some (?out @ labels_bytes (m # ls))"
    using "3.prems" by (intro "3.IH") auto
  then show ?case using "3.prems"
    by (subst dns_encode_loop.simps) (auto simp: Let_def label_ok_def takeWhile_dot dropWhile_dot)
qed

lemma DnsEncodeName_labels:
  assumes "\<forall>l \<in> set ls. label_ok l \<and> dot \<notin> set l"
    and "length (labels_bytes ls) + 2 \<le> cap"
  shows "DnsEncodeName (join_labels ls) cap = labels_bytes ls @ [0]"
  using dns_encode_loop_labels [of ls "[]" cap] assms by (simp add: DnsEncodeName_def)

lemma dns_encode_loop_length:
  "dns_encode_loop label out cap = Some r \<Longrightarrow> length r \<le> length out + length label + 1"
proof (induction label out cap rule: dns_encode_loop.induct)
  case (1 label out cap)
  let ?seg = "takeWhile (\<lambda>c. c \<noteq> dot) label" and ?tail = "dropWhile (\<lambda>c. c \<noteq> dot) label"
  have split: "length ?seg + length ?tail = length label"
    by (metis length_append takeWhile_dropWhile_id)
  show ?case
  proof (cases "label = [] \<or> ?tail = []")
    case True
    then show ?thesis using "1.prems" split
      by (subst (asm) dns_encode_loop.simps) (auto simp: Let_def split: if_splits)
  next
    case False
    let ?bad = "length ?seg = 0 \<or> length ?seg > 63 \<or> length out + length ?seg + 2 > cap"
    let ?out = "out @ of_nat (length ?seg) # ?seg"
    have "dns_encode_loop label out cap
        = (if ?bad then None else dns_encode_loop (tl ?tail) ?out cap)"
      using False dns_encode_loop.simps [of label out cap]
      by (simp only: Let_def de_Morgan_disj if_False)
    then have guard: "\<not> ?bad" and "dns_encode_loop (tl ?tail) ?out cap = Some r"
      using "1.prems" by (simp_all split: if_splits)
    then have "length r \<le> length (out @ of_nat (length ?seg) # ?seg) + length (tl ?tail) + 1"
      using "1.IH" [OF _ refl refl refl guard refl] False by simp
    then show ?thesis using split False by (cases ?tail) auto
  qed
qed

lemma DnsEncodeName_length: "length (DnsEncodeName host cap) \<le> length host + 2"
  using dns_encode_loop_length [of host "[]" cap]
  by (auto simp: DnsEncodeName_def split: option.splits)

lemma DnsBuildQuery_safe: "length host + 18 \<le> cap \<Longrightarrow> DnsBuildQuery host qid cap \<noteq> None"
  using DnsEncodeName_length [of host "cap - 12"] by (auto simp: DnsBuildQuery_def Let_def)

section \<open>Memory safety of the parser\<close>

lemma dns_skip_name_safe: "len \<le> length resp \<Longrightarrow> dns_skip_name resp len pos \<noteq> None"
proof (induction resp len pos rule: dns_skip_name.induct)
  case (1 resp len pos)
  show ?case
  proof (cases "pos < len")
    case True
    then have "rd resp pos = Some (resp ! pos)" using "1.prems" by (simp add: rd_in)
    then show ?thesis using 1 by (subst dns_skip_name.simps) auto
  next
    case False
    then show ?thesis by (subst dns_skip_name.simps) simp
  qed
qed

lemma dns_skip_question_safe: "len \<le> length resp \<Longrightarrow> dns_skip_question resp len pos \<noteq> None"
proof (induction resp len pos rule: dns_skip_question.induct)
  case (1 resp len pos)
  show ?case
  proof (cases "pos < len")
    case True
    then have "rd resp pos = Some (resp ! pos)" using "1.prems" by (simp add: rd_in)
    then show ?thesis using 1 by (subst dns_skip_question.simps) auto
  next
    case False
    then show ?thesis by (subst dns_skip_question.simps) simp
  qed
qed

lemma dns_answers_safe: "len + 2 \<le> length resp \<Longrightarrow> dns_answers a resp len pos \<noteq> None"
proof (induction a resp len pos rule: dns_answers.induct)
  case (1 resp len pos)
  then show ?case by simp
next
  case (2 a resp len pos)
  obtain q where q: "dns_skip_name resp len pos = Some q"
    using dns_skip_name_safe [of len resp pos] "2.prems" by auto
  show ?case
  proof (cases "pos + 12 \<le> len \<and> q + 10 \<le> len")
    case True
    then have "rd resp q = Some (resp ! q)" "rd resp (q + 1) = Some (resp ! (q + 1))"
      "rd resp (q + 8) = Some (resp ! (q + 8))" "rd resp (q + 9) = Some (resp ! (q + 9))"
      using "2.prems" by (auto simp: rd_def)
    moreover have "q + 12 \<le> len \<Longrightarrow> rd_range resp (q + 10) 4 = Some (take 4 (drop (q + 10) resp))"
      using "2.prems" by (simp add: rd_range_in)
    ultimately show ?thesis using True q "2.IH" [of q] "2.prems" by (auto simp: Let_def)
  next
    case False
    then show ?thesis using q by auto
  qed
qed

section \<open>The parser returns the first A record\<close>

lemma length_byte_tag: "n \<le> 63 \<Longrightarrow> (of_nat n :: u8) AND 0xC0 = 0"
proof -
  have "list_all (\<lambda>n. (of_nat n :: u8) AND 0xC0 = 0) [0..<64]" by code_simp
  then show "n \<le> 63 \<Longrightarrow> (of_nat n :: u8) AND 0xC0 = 0" by (auto simp: list_all_iff)
qed

lemma label_byte:
  assumes "label_ok l"
  shows "(of_nat (length l) :: u8) AND 0xC0 \<noteq> 0xC0" and "(of_nat (length l) :: u8) \<noteq> 0"
    and "unat (of_nat (length l) :: u8) = length l"
proof -
  have l: "0 < length l" "length l \<le> 63" using assms by (simp_all add: label_ok_def)
  show u: "unat (of_nat (length l) :: u8) = length l" using l(2) by (simp add: unat_of_nat)
  show "(of_nat (length l) :: u8) AND 0xC0 \<noteq> 0xC0" using length_byte_tag [OF l(2)] by simp
  show "(of_nat (length l) :: u8) \<noteq> 0" using u l(1) by auto
qed

lemma pointer_tag: "(0xC0 OR h) AND 0xC0 = (0xC0 :: u8)"
  by (rule bit_word_eqI) (auto simp: bit_simps)

lemma name_end_bytes_pos: "0 < length (name_end_bytes e)"
  by (cases e) auto

lemma dns_skip_name_spec:
  assumes "\<forall>l \<in> set ls. label_ok l"
    and "resp = pre @ labels_bytes ls @ name_end_bytes e @ post"
    and "length pre + length (labels_bytes ls) + length (name_end_bytes e) \<le> len"
  shows "dns_skip_name resp len (length pre)
       = Some (length pre + length (labels_bytes ls) + length (name_end_bytes e))"
  using assms
proof (induction ls arbitrary: pre)
  case Nil
  then show ?case
    by (cases e; subst dns_skip_name.simps) (auto simp: rd_def nth_append pointer_tag)
next
  case (Cons l ls)
  let ?pre = "pre @ of_nat (length l) # l"
  have l: "label_ok l" using Cons.prems(1) by simp
  have "dns_skip_name resp len (length ?pre)
      = Some (length ?pre + length (labels_bytes ls) + length (name_end_bytes e))"
    using Cons.prems by (intro Cons.IH) auto
  then show ?case using Cons.prems(2,3) label_byte [OF l]
    by (subst dns_skip_name.simps) (auto simp: rd_def nth_append)
qed

lemma dns_skip_question_spec:
  assumes "\<forall>l \<in> set ls. label_ok l"
    and "resp = pre @ labels_bytes ls @ 0 # post"
    and "length pre + length (labels_bytes ls) < len"
  shows "dns_skip_question resp len (length pre) = Some (length pre + length (labels_bytes ls) + 5)"
  using assms
proof (induction ls arbitrary: pre)
  case Nil
  then show ?case by (subst dns_skip_question.simps) (auto simp: rd_def nth_append)
next
  case (Cons l ls)
  let ?pre = "pre @ of_nat (length l) # l"
  have l: "label_ok l" using Cons.prems(1) by simp
  have "dns_skip_question resp len (length ?pre) = Some (length ?pre + length (labels_bytes ls) + 5)"
    using Cons.prems by (intro Cons.IH) auto
  then show ?case using Cons.prems(2,3) label_byte [OF l]
    by (subst dns_skip_question.simps) (auto simp: rd_def nth_append)
qed

lemma rr_bytes_split:
  "rr_bytes r = labels_bytes (rr_labels r) @ name_end_bytes (rr_end r)
     @ ([hi8 (rr_type r), lo8 (rr_type r)] @ rr_fixed r
        @ [of_nat (length (rr_data r) div 256), of_nat (length (rr_data r))] @ rr_data r)"
  by (simp add: rr_bytes_def)

lemma length_6_obtain:
  assumes "length xs = 6"
  obtains a b c d e f where "xs = [a, b, c, d, e, f]"
  using assms by (auto simp: eval_nat_numeral length_Suc_conv)

text \<open>One turn of the answer loop at the start of a well-formed record.\<close>

lemma dns_answers_record:
  assumes ok: "rr_ok r" and resp: "resp = pre @ rr_bytes r @ post" and len: "len = length resp"
    and room: "length pre + 12 \<le> len"
  shows "dns_answers (Suc a) resp len (length pre) =
     (if rr_is_A r then Some (Some (rr_data r))
      else dns_answers a resp len (length pre + length (rr_bytes r)))"
proof -
  let ?nm = "labels_bytes (rr_labels r) @ name_end_bytes (rr_end r)"
  define q where "q = length pre + length ?nm"
  obtain f1 f2 f3 f4 f5 f6 where fx: "rr_fixed r = [f1, f2, f3, f4, f5, f6]"
    using ok length_6_obtain [of "rr_fixed r"] unfolding rr_ok_def by blast
  have skip: "dns_skip_name resp len (length pre) = Some q"
    using dns_skip_name_spec [of "rr_labels r" resp pre "rr_end r" _ len] ok resp len
    by (simp add: rr_ok_def rr_bytes_split add.assoc q_def)
  have tail: "resp = (pre @ ?nm) @ hi8 (rr_type r) # lo8 (rr_type r) # f1 # f2 # f3 # f4 # f5 # f6
      # of_nat (length (rr_data r) div 256) # of_nat (length (rr_data r)) # rr_data r @ post"
    using resp by (simp add: rr_bytes_split fx)
  have rdq: "rd resp (q + k) = (if k < 10 + length (rr_data r) + length post
      then Some ((hi8 (rr_type r) # lo8 (rr_type r) # f1 # f2 # f3 # f4 # f5 # f6
      # of_nat (length (rr_data r) div 256) # of_nat (length (rr_data r)) # rr_data r @ post) ! k)
      else None)" for k
    by (subst tail, unfold rd_def q_def) (simp add: nth_append)
  have lenq: "len = q + 10 + length (rr_data r) + length post"
    unfolding len q_def by (subst tail) simp
  have rdl: "unat (be16 (of_nat (length (rr_data r) div 256)) (of_nat (length (rr_data r))))
      = length (rr_data r)"
    using ok by (intro be16_of_nat) (simp add: rr_ok_def)
  have rng: "length (rr_data r) = 4 \<Longrightarrow> rd_range resp (q + 10) 4 = Some (rr_data r)"
    by (subst tail, unfold rd_range_def q_def) (simp add: drop_Cons')
  have lr: "length pre + length (rr_bytes r) = q + 10 + length (rr_data r)"
    by (simp add: rr_bytes_split fx q_def)
  show ?thesis
    using room skip rdq [of 0] rdq [of 1] rdq [of 8] rdq [of 9] lenq rdl rng lr
    by (auto simp: Let_def rr_is_A_def)
qed

lemma length_rr_bytes: "rr_ok r \<Longrightarrow> 11 + length (rr_data r) \<le> length (rr_bytes r)"
  using name_end_bytes_pos [of "rr_end r"] by (auto simp: rr_bytes_def rr_ok_def Suc_le_eq)

lemma dns_answers_spec:
  assumes "\<forall>r \<in> set before. rr_ok r \<and> \<not> rr_is_A r" and "rr_ok r" and "rr_is_A r"
    and "resp = pre @ concat (map rr_bytes before) @ rr_bytes r @ post" and "len = length resp"
    and "length before < a"
  shows "dns_answers a resp len (length pre) = Some (Some (rr_data r))"
  using assms
proof (induction before arbitrary: pre a)
  case Nil
  obtain b where a: "a = Suc b" using Nil.prems(6) by (cases a) auto
  have "length pre + 12 \<le> len"
    using Nil.prems length_rr_bytes [of r] by (auto simp: rr_is_A_def)
  then show ?case unfolding a using Nil.prems
    by (subst dns_answers_record) auto
next
  case (Cons x before)
  obtain b where a: "a = Suc b" using Cons.prems(6) by (cases a) auto
  let ?pre = "pre @ rr_bytes x"
  have "length pre + 12 \<le> len"
    using Cons.prems length_rr_bytes [of x] length_rr_bytes [of r] by (auto simp: rr_is_A_def)
  then have "dns_answers a resp len (length pre) = dns_answers b resp len (length ?pre)"
    unfolding a using Cons.prems by (subst dns_answers_record) auto
  also have "\<dots> = Some (Some (rr_data r))"
    using Cons.prems a by (intro Cons.IH) auto
  finally show ?case .
qed

section \<open>Properties\<close>

definition dns_response ::
  "u16 \<Rightarrow> u16 \<Rightarrow> u16 \<Rightarrow> u8 list \<Rightarrow> u8 list list \<Rightarrow> u8 list \<Rightarrow> rr list \<Rightarrow> u8 list \<Rightarrow> u8 list" where
  "dns_response qid flags ancount nsar qname qtail rrs post =
     [hi8 qid, lo8 qid, hi8 flags, lo8 flags, 0, 1, hi8 ancount, lo8 ancount] @ nsar
     @ labels_bytes qname @ 0 # qtail @ concat (map rr_bytes rrs) @ post"

text \<open>C30: On every well-formed answer (one question, any number of records of other types such as
  CNAMEs in front, compressed or plain owner names) the resolver returns the four address bytes of
  the first A record, unchanged.\<close>

theorem DnsParseResponseA_first_A:
  assumes "flags AND 0x8000 \<noteq> 0" and "flags AND 0x000F = 0"
    and "length nsar = 4" and "length qtail = 4"
    and "\<forall>l \<in> set qname. label_ok l"
    and "\<forall>x \<in> set before. rr_ok x \<and> \<not> rr_is_A x" and "rr_ok r" and "rr_is_A r"
    and "length before < unat ancount"
    and "resp = dns_response qid flags ancount nsar qname qtail (before @ [r]) post"
  shows "DnsParseResponseA resp (length resp) = Some (Some (rr_data r))"
proof -
  let ?hd = "[hi8 qid, lo8 qid, hi8 flags, lo8 flags, 0, 1, hi8 ancount, lo8 ancount] @ nsar"
  let ?pre = "?hd @ labels_bytes qname @ 0 # qtail"
  have resp: "resp = ?pre @ concat (map rr_bytes before) @ rr_bytes r @ post"
    using assms(10) by (simp add: dns_response_def)
  have "dns_skip_question resp (length resp) (length ?hd) = Some (length ?pre)"
    using dns_skip_question_spec [of qname resp ?hd _ "length resp"] assms(4,5) resp by simp
  moreover have "dns_answers (unat ancount) resp (length resp) (length ?pre) = Some (Some (rr_data r))"
    by (rule dns_answers_spec [OF assms(6-8) resp refl assms(9)])
  moreover have "unat ancount \<noteq> 0" using assms(9) by simp
  moreover have "rd resp 2 = Some (hi8 flags)" "rd resp 3 = Some (lo8 flags)"
    "rd resp 6 = Some (hi8 ancount)" "rd resp 7 = Some (lo8 ancount)"
    unfolding resp by (auto simp: rd_def)
  moreover have "\<not> length resp < 12" unfolding resp using assms(3) by simp
  ultimately show ?thesis using assms(1-3) by (simp add: DnsParseResponseA_def Let_def)
qed

text \<open>With two bytes of slack behind the received bytes the parser never reads outside its
  buffer, whatever the bytes are.\<close>

theorem DnsParseResponseA_safe_with_slack:
  assumes "len + 2 \<le> length resp"
  shows "DnsParseResponseA resp len \<noteq> None"
proof (cases "len < 12")
  case True
  then show ?thesis by (simp add: DnsParseResponseA_def)
next
  case False
  obtain q where "dns_skip_question resp len 12 = Some q"
    using dns_skip_question_safe [of len resp 12] assms by auto
  then show ?thesis
    using False assms dns_answers_safe [OF assms] by (auto simp: DnsParseResponseA_def Let_def rd_def)
qed

text \<open>A concrete answer: one CNAME record with a compressed name, then the A record 10.0.0.1.\<close>

definition sample_cname :: rr where
  "sample_cname = \<lparr>rr_labels = [], rr_end = Pointer 0 12, rr_type = 5,
     rr_fixed = [0, 1, 0, 0, 0, 60], rr_data = [1, 98, 0]\<rparr>"

definition sample_a :: rr where
  "sample_a = \<lparr>rr_labels = [[98]], rr_end = Root, rr_type = 1,
     rr_fixed = [0, 1, 0, 0, 0, 60], rr_data = [10, 0, 0, 1]\<rparr>"

definition sample_response :: "u8 list" where
  "sample_response =
     dns_response 7 0x8180 2 [0, 0, 0, 0] [[97]] [0, 1, 0, 1] [sample_cname, sample_a] []"

lemmas sample_defs = sample_cname_def sample_a_def rr_ok_def rr_is_A_def label_ok_def

theorem DnsParseResponseA_first_A_witness:
  "DnsParseResponseA sample_response (length sample_response) = Some (Some [10, 0, 0, 1])"
proof -
  have "sample_response = dns_response 7 0x8180 2 [0, 0, 0, 0] [[97]] [0, 1, 0, 1]
      ([sample_cname] @ [sample_a]) []"
    by (simp add: sample_response_def)
  from DnsParseResponseA_first_A [OF _ _ _ _ _ _ _ _ _ this]
  show ?thesis by (simp add: sample_defs)
qed

theorem DnsParseResponseA_safe_with_slack_witness:
  "DnsParseResponseA (sample_response @ [0, 0]) (length sample_response) \<noteq> None"
  by (rule DnsParseResponseA_safe_with_slack) simp

text \<open>The slack is needed: the guard before the copy of the address is \<open>pos + 12 <= len\<close> although
  the copy reads \<open>resp[pos + 10] .. resp[pos + 13]\<close>.\<close>

definition overread_response :: "u8 list" where
  "overread_response =
     [0, 0, 0x80, 0, 0, 1, 0, 2, 0, 0, 0, 0, 0, 0, 1, 0, 1]
     @ [0, 0, 5, 0, 1, 0, 0, 0, 0, 1, 215] @ replicate 471 0
     @ [0, 0, 1, 0, 1, 0, 0, 0, 0, 0, 4] @ [10, 0]"

text \<open>A received answer that fills the code's 512-byte buffer can make the parser copy the
  address from behind the end of the buffer: the copy's bounds check is two bytes short.\<close>

theorem DnsParseResponseA_overread:
  "length overread_response = 512 \<and> DnsParseResponseA overread_response 512 = None"
proof
  show l: "length overread_response = 512" by (simp add: overread_response_def)
  let ?r = overread_response
  let ?b = "[0, 0, 5, 0, 1, 0, 0, 0, 0, 1, 215] :: u8 list"
    and ?c = "[0, 0, 1, 0, 1, 0, 0, 0, 0, 0, 4] @ [10, 0] :: u8 list"
  have n: "rd ?r i = Some (?r ! i)" if "i < 512" for i using that by (simp add: rd_def l)
  have early: "?r ! i = ([0, 0, 0x80, 0, 0, 1, 0, 2, 0, 0, 0, 0, 0, 0, 1, 0, 1] @ ?b) ! i"
    if "i < 28" for i
    unfolding overread_response_def append_assoc [symmetric]
    by (rule trans [OF nth_append_left trans [OF nth_append_left nth_append_left]])
      (use that in simp_all)
  have late: "?r ! (499 + i) = ?c ! i" if "i < 13" for i
    using that by (simp add: overread_response_def nth_append)
  have q: "dns_skip_question ?r 512 12 = Some 17"
    by (subst dns_skip_question.simps) (simp add: n early)
  have s1: "dns_skip_name ?r 512 17 = Some 18"
    by (subst dns_skip_name.simps) (simp add: n early)
  have s2: "dns_skip_name ?r 512 499 = Some 500"
    using late [of 0] by (subst dns_skip_name.simps) (simp add: n)
  have oob: "rd_range ?r 510 4 = None" by (simp add: rd_range_def l)
  have len1: "unat (be16 1 215) = 471" and len2: "unat (be16 0 4) = 4" and t5: "be16 0 5 = 5"
    and t1: "be16 0 1 = 1" and c2: "unat (be16 0 2) = 2"
    by (simp_all add: unat_be16) (simp_all add: be16_def)
  have "dns_answers 1 ?r 512 499 = None"
    using late [of 1] late [of 2] late [of 9] late [of 10]
    by (simp add: s2 n oob len2 t1 Let_def)
  then have "dns_answers 2 ?r 512 17 = None"
    by (simp add: numeral_2_eq_2 s1 n early len1 t5 Let_def)
  then show "DnsParseResponseA ?r 512 = None"
    by (simp add: DnsParseResponseA_def n early q c2 Let_def) (simp add: be16_def)
qed

lemma length_join_labels:
  "ls \<noteq> [] \<Longrightarrow> length (labels_bytes ls) = length (join_labels ls) + 1"
  by (induction ls rule: join_labels.induct) auto

text \<open>For every configured host (at most 127 bytes, non-empty labels of at most 63 bytes) the
  query built in the 512-byte buffer is a standard recursive A query for exactly its labels.\<close>

theorem DnsBuildQuery_encodes_host:
  assumes "ls \<noteq> []" and "\<forall>l \<in> set ls. label_ok l \<and> dot \<notin> set l"
    and "length (join_labels ls) \<le> 127"
  shows "DnsBuildQuery (join_labels ls) qid 512 = Some (Some
     ([hi8 qid, lo8 qid, 1, 0, 0, 1, 0, 0, 0, 0, 0, 0] @ labels_bytes ls @ [0] @ [0, 1, 0, 1]))"
proof -
  have "length (labels_bytes ls) \<le> 128" using length_join_labels [OF assms(1)] assms(3) by simp
  then show ?thesis
    using DnsEncodeName_labels [of ls 500] assms(2) by (simp add: DnsBuildQuery_def Let_def)
qed

theorem DnsBuildQuery_encodes_host_witness:
  "DnsBuildQuery [97, 98, dot, 99] 7 512 = Some (Some
     [0, 7, 1, 0, 0, 1, 0, 0, 0, 0, 0, 0, 2, 97, 98, 1, 99, 0, 0, 1, 0, 1])"
  using DnsBuildQuery_encodes_host [of "[[97, 98], [99]]" 7]
  by (simp add: label_ok_def dot_def hi8_def lo8_def)

text \<open>The general function has no such guarantee: the four bytes behind the name are not checked
  against \<open>cap\<close>.\<close>

lemma DnsBuildQuery_can_overflow: "DnsBuildQuery [97] qid 16 = None"
  by (simp add: DnsBuildQuery_def DnsEncodeName_def dns_encode_loop.simps Let_def dot_def)

end
