(* ===== verification/RingQueue.thy ===== *)
theory RingQueue
  imports Prelude
begin

text \<open>
  The inbound packet queue of \<open>RelayBridge\<close> (\<^verbatim>\<open>relay_bridge.hpp\<close>: \<open>m_queue\<close>, \<open>m_queue_head\<close>,
  \<open>m_queue_count\<close>): a ring of 64 slots that the pump thread fills and \<open>PopIpv4\<close> empties. The
  locale \<open>bounded_fifo\<close> is the contract the rest of the bridge relies on; the ring is an
  interpretation of it, through the abstraction \<open>ring_contents\<close> to a plain list.
\<close>

section \<open>Contract of a bounded first-in first-out queue\<close>

datatype 'a pop_result = Popped 'a | PopEmpty | PopDropped

text \<open>\<open>k\<close> calls of a pop operation, with their results.\<close>

fun pops :: "('q \<Rightarrow> 'q \<times> 'a pop_result) \<Rightarrow> nat \<Rightarrow> 'q \<Rightarrow> 'q \<times> 'a pop_result list" where
  "pops pop 0 q = (q, [])"
| "pops pop (Suc k) q = (let (q', r) = pop q; (q'', rs) = pops pop k q' in (q'', r # rs))"

locale bounded_fifo =
  fixes empty :: "'q"
    and push :: "'a \<Rightarrow> 'q \<Rightarrow> 'q"
    and pop :: "nat \<Rightarrow> 'q \<Rightarrow> 'q \<times> 'a pop_result"
    and contents :: "'q \<Rightarrow> 'a list"
    and inv :: "'q \<Rightarrow> bool"
    and cap :: nat
    and size_of :: "'a \<Rightarrow> nat"
  assumes inv_empty: "inv empty" and contents_empty: "contents empty = []"
    and inv_push: "inv q \<Longrightarrow> inv (push x q)"
    and contents_push:
      "inv q \<Longrightarrow> contents (push x q) = (if length (contents q) < cap then contents q @ [x] else contents q)"
    and inv_pop: "inv q \<Longrightarrow> inv (fst (pop n q))"
    and pop_nil: "inv q \<Longrightarrow> contents q = [] \<Longrightarrow> pop n q = (q, PopEmpty)"
    and pop_cons: "inv q \<Longrightarrow> contents q = x # xs \<Longrightarrow>
      contents (fst (pop n q)) = xs \<and> snd (pop n q) = (if size_of x > n then PopDropped else Popped x)"
    and cap_bound: "inv q \<Longrightarrow> length (contents q) \<le> cap"
begin

lemma contents_fold_push:
  "inv q \<Longrightarrow> length (contents q) + length xs \<le> cap \<Longrightarrow>
   inv (fold push xs q) \<and> contents (fold push xs q) = contents q @ xs"
  by (induction xs arbitrary: q) (simp_all add: inv_push contents_push)

text \<open>Popping \<open>k\<close> times with a large enough buffer returns the first \<open>k\<close> queued packets in order.\<close>

lemma pops_in_order:
  "inv q \<Longrightarrow> k \<le> length (contents q) \<Longrightarrow> \<forall>x \<in> set (contents q). size_of x \<le> n \<Longrightarrow>
   snd (pops (pop n) k q) = map Popped (take k (contents q))
   \<and> contents (fst (pops (pop n) k q)) = drop k (contents q)"
proof (induction k arbitrary: q)
  case 0
  then show ?case by simp
next
  case (Suc k)
  then obtain x xs where c: "contents q = x # xs" by (cases "contents q") auto
  obtain q' r where p: "pop n q = (q', r)" by fastforce
  have q': "inv q'" "contents q' = xs" "r = Popped x"
    using inv_pop [OF Suc.prems(1), of n] pop_cons [OF Suc.prems(1) c, of n] Suc.prems(3) c p by auto
  have "snd (pops (pop n) k q') = map Popped (take k xs) \<and> contents (fst (pops (pop n) k q')) = drop k xs"
    using Suc.IH [OF q'(1)] Suc.prems q' c by simp
  then show ?case using p c q'(3) by (simp add: split_beta Let_def)
qed

text \<open>First in, first out, for a whole burst.\<close>

lemma burst_fifo:
  assumes "inv q" and "contents q = []" and "length xs \<le> cap" and "\<forall>x \<in> set xs. size_of x \<le> n"
  shows "snd (pops (pop n) (length xs) (fold push xs q)) = map Popped xs"
  using contents_fold_push [of q xs] assms pops_in_order [of "fold push xs q" "length xs" n] by simp

end

section \<open>The ring\<close>

definition QueueSize :: nat where "QueueSize = 64"

record ring =
  rq_arr :: "u8 list list"
  rq_head :: nat
  rq_count :: nat

definition ring_empty :: ring where
  "ring_empty = \<lparr>rq_arr = replicate QueueSize [], rq_head = 0, rq_count = 0\<rparr>"

definition ring_reset :: "ring \<Rightarrow> ring" where
  "ring_reset q = q\<lparr>rq_head := 0, rq_count := 0\<rparr>"

definition HasPending :: "ring \<Rightarrow> bool" where
  "HasPending q \<longleftrightarrow> rq_count q > 0"

definition ring_push :: "u8 list \<Rightarrow> ring \<Rightarrow> ring" where
  "ring_push pkt q =
     (if rq_count q < QueueSize then
        let tail = (rq_head q + rq_count q) mod QueueSize
        in q\<lparr>rq_arr := (rq_arr q)[tail := pkt], rq_count := rq_count q + 1\<rparr>
      else q)"

definition PopIpv4 :: "nat \<Rightarrow> ring \<Rightarrow> ring \<times> u8 list pop_result" where
  "PopIpv4 out_buf_size q =
     (if rq_count q = 0 then (q, PopEmpty)
      else let pkt = rq_arr q ! rq_head q;
               q' = q\<lparr>rq_head := (rq_head q + 1) mod QueueSize, rq_count := rq_count q - 1\<rparr>
           in if length pkt > out_buf_size then (q', PopDropped) else (q', Popped pkt))"

definition ring_inv :: "ring \<Rightarrow> bool" where
  "ring_inv q \<longleftrightarrow> length (rq_arr q) = QueueSize \<and> rq_head q < QueueSize \<and> rq_count q \<le> QueueSize"

definition ring_contents :: "ring \<Rightarrow> u8 list list" where
  "ring_contents q = map (\<lambda>i. rq_arr q ! ((rq_head q + i) mod QueueSize)) [0..<rq_count q]"

lemma length_ring_contents [simp]: "length (ring_contents q) = rq_count q"
  by (simp add: ring_contents_def)

lemma mod_shift_inj:
  fixes h i j m :: nat
  assumes "(h + i) mod m = (h + j) mod m" and "i < m" and "j < m"
  shows "i = j"
proof -
  have le: "a = b" if "b \<le> a" "a < m" "(h + a) mod m = (h + b) mod m" for a b
  proof -
    have "m dvd (h + a) - (h + b)" using that mod_eq_dvd_iff_nat [of "h + b" "h + a" m] by simp
    then have "m dvd a - b" by simp
    then show ?thesis using that dvd_imp_le [of m "a - b"] by fastforce
  qed
  show ?thesis using le [of i j] le [of j i] assms by (metis nat_le_linear)
qed

lemma ring_contents_push:
  assumes "ring_inv q"
  shows "ring_contents (ring_push x q)
       = (if length (ring_contents q) < QueueSize then ring_contents q @ [x] else ring_contents q)"
proof (cases "rq_count q < QueueSize")
  case True
  let ?t = "(rq_head q + rq_count q) mod QueueSize"
  have t: "?t < length (rq_arr q)" using assms by (simp add: ring_inv_def)
  have "?t \<noteq> (rq_head q + i) mod QueueSize" if "i < rq_count q" for i
    using mod_shift_inj [of "rq_head q" i QueueSize "rq_count q"] that True by auto
  then show ?thesis using True t by (simp add: ring_contents_def ring_push_def Let_def)
next
  case False
  then show ?thesis by (simp add: ring_push_def)
qed

lemma ring_contents_pop:
  assumes inv: "ring_inv q" and c: "ring_contents q = x # xs"
  shows "ring_contents (fst (PopIpv4 n q)) = xs
       \<and> snd (PopIpv4 n q) = (if length x > n then PopDropped else Popped x)"
proof -
  have pos: "rq_count q \<noteq> 0" using c by (metis length_ring_contents length_0_conv list.distinct(1))
  then obtain k where k: "rq_count q = Suc k" by (cases "rq_count q") auto
  let ?f = "\<lambda>i. rq_arr q ! ((rq_head q + i) mod QueueSize)"
  have "map ?f [0..<Suc k] = ?f 0 # map (\<lambda>i. ?f (Suc i)) [0..<k]"
    by (simp only: upt_conv_Cons zero_less_Suc map_Suc_upt [symmetric] list.map map_map comp_def)
  then have x: "x = rq_arr q ! rq_head q" and xs: "xs = map (\<lambda>i. ?f (Suc i)) [0..<k]"
    using c inv unfolding ring_contents_def k by (simp_all add: ring_inv_def)
  have "((rq_head q + 1) mod QueueSize + i) mod QueueSize = (rq_head q + Suc i) mod QueueSize" for i
    by (metis Suc_eq_plus1 add.assoc add.commute mod_add_left_eq)
  then show ?thesis using pos by (simp add: PopIpv4_def Let_def ring_contents_def k x xs)
qed

lemma ring_inv_push: "ring_inv q \<Longrightarrow> ring_inv (ring_push x q)"
  by (simp add: ring_inv_def ring_push_def Let_def)

lemma ring_inv_pop: "ring_inv q \<Longrightarrow> ring_inv (fst (PopIpv4 n q))"
  by (auto simp: ring_inv_def PopIpv4_def Let_def QueueSize_def)

lemma ring_inv_empty: "ring_inv ring_empty"
  by (simp add: ring_inv_def ring_empty_def QueueSize_def)

lemma ring_inv_reset: "ring_inv q \<Longrightarrow> ring_inv (ring_reset q) \<and> ring_contents (ring_reset q) = []"
  by (auto simp: ring_inv_def ring_reset_def ring_contents_def)

lemma ring_nil_iff: "ring_contents q = [] \<longleftrightarrow> rq_count q = 0"
  by (simp add: ring_contents_def)

interpretation rq: bounded_fifo ring_empty ring_push PopIpv4 ring_contents ring_inv QueueSize length
proof (unfold_locales, goal_cases)
  case 1
  show ?case by (rule ring_inv_empty)
next
  case 2
  show ?case by (simp add: ring_contents_def ring_empty_def)
next
  case (3 q x)
  then show ?case by (rule ring_inv_push)
next
  case (4 q x)
  then show ?case by (rule ring_contents_push)
next
  case (5 q n)
  then show ?case by (rule ring_inv_pop)
next
  case (6 q n)
  then show ?case by (simp add: ring_nil_iff PopIpv4_def)
next
  case (7 q x xs n)
  then show ?case by (rule ring_contents_pop)
next
  case (8 q)
  then show ?case by (simp add: ring_inv_def)
qed

text \<open>The relay queue is a bounded FIFO: pushing a burst of at most 64 packets into an empty
  queue (wherever its head stands) and popping as many times returns exactly these packets, in
  arrival order.\<close>

theorem relay_queue_fifo:
  assumes "ring_inv q" and "rq_count q = 0" and "length pkts \<le> QueueSize"
    and "\<forall>p \<in> set pkts. length p \<le> n"
  shows "snd (pops (PopIpv4 n) (length pkts) (fold ring_push pkts q)) = map Popped pkts"
  using rq.burst_fifo [of q pkts n] assms by (simp add: ring_nil_iff)

theorem relay_queue_fifo_witness:
  "snd (pops (PopIpv4 1428) 2 (fold ring_push [[1, 2], [3]] (ring_empty\<lparr>rq_head := 63\<rparr>)))
     = [Popped [1, 2], Popped [3]]"
proof -
  have "ring_inv (ring_empty\<lparr>rq_head := 63\<rparr>)" "rq_count (ring_empty\<lparr>rq_head := 63\<rparr>) = 0"
    by (simp_all add: ring_inv_def ring_empty_def QueueSize_def)
  from relay_queue_fifo [OF this, of "[[1, 2], [3]]" 1428] show ?thesis
    by (simp add: QueueSize_def numeral_2_eq_2 del: pops.simps)
qed

text \<open>A packet that does not fit the caller's buffer is dropped from the head and not
  delivered: the queue never wedges on it.\<close>

theorem relay_queue_oversize_dropped:
  assumes "ring_inv q" and "ring_contents q = p # ps" and "length p > n"
  shows "snd (PopIpv4 n q) = PopDropped \<and> ring_contents (fst (PopIpv4 n q)) = ps"
  using rq.pop_cons [OF assms(1,2), of n] assms(3) by simp

theorem relay_queue_oversize_dropped_witness:
  "ring_contents (fst (PopIpv4 1 (ring_push [3] (ring_push [1, 2] ring_empty)))) = [[3]]"
proof -
  have "ring_inv (ring_push [3] (ring_push [1, 2] ring_empty))"
    by (intro ring_inv_push ring_inv_empty)
  moreover have "ring_contents (ring_push [3] (ring_push [1, 2] ring_empty)) = [[1, 2], [3]]"
    by (simp add: ring_contents_def ring_push_def ring_empty_def QueueSize_def)
  ultimately show ?thesis using relay_queue_oversize_dropped [of _ "[1, 2]" "[[3]]" 1] by simp
qed

end
