(* ===== verification/Reassembly.thy ===== *)
theory Reassembly
  imports Prelude
begin

text \<open>
  Fragmentation on the relay link (\<^verbatim>\<open>relay_bridge.hpp\<close>): the 16-byte \<open>FragHeader\<close>, the chunks of
  \<open>SendFragmented\<close> and the four-slot reassembly table of \<open>ReassembleFrag\<close> with its drift-based
  eviction. \<open>ReassembleFrag\<close> returns \<open>None\<close> for an access outside a buffer, otherwise the new
  table, the new \<open>m_most_success_frag_id\<close> and the delivered packet, if any.
\<close>

section \<open>Frame header\<close>

definition RELAY_MTU :: nat where "RELAY_MTU = 1400"
definition FragHeaderSize :: nat where "FragHeaderSize = 16"
definition frag_chunk_size :: nat where "frag_chunk_size = RELAY_MTU - FragHeaderSize"
definition FragBufferSize :: nat where "FragBufferSize = RELAY_MTU * 4"
definition NUM_SLOTS :: nat where "NUM_SLOTS = 4"

lemmas frag_consts = RELAY_MTU_def FragHeaderSize_def frag_chunk_size_def FragBufferSize_def
  NUM_SLOTS_def

record frag_header =
  fh_src_ip :: "u8 list"
  fh_dst_ip :: "u8 list"
  fh_id :: u16
  fh_part :: u8
  fh_total_part :: u8
  fh_len :: u16
  fh_pmtu :: u16

definition frag_header_bytes :: "frag_header \<Rightarrow> u8 list" where
  "frag_header_bytes h =
     fh_src_ip h @ fh_dst_ip h @
     [hi8 (fh_id h), lo8 (fh_id h), fh_part h, fh_total_part h,
      hi8 (fh_len h), lo8 (fh_len h), hi8 (fh_pmtu h), lo8 (fh_pmtu h)]"

definition frag_header_parse :: "u8 list \<Rightarrow> frag_header option" where
  "frag_header_parse b = do {
     src \<leftarrow> rd_range b 0 4;
     dst \<leftarrow> rd_range b 4 4;
     i0 \<leftarrow> rd b 8; i1 \<leftarrow> rd b 9;
     part \<leftarrow> rd b 10; tp \<leftarrow> rd b 11;
     l0 \<leftarrow> rd b 12; l1 \<leftarrow> rd b 13;
     p0 \<leftarrow> rd b 14; p1 \<leftarrow> rd b 15;
     Some \<lparr>fh_src_ip = src, fh_dst_ip = dst, fh_id = be16 i0 i1, fh_part = part,
           fh_total_part = tp, fh_len = be16 l0 l1, fh_pmtu = be16 p0 p1\<rparr>
   }"

section \<open>Cutting a packet\<close>

definition frag_total_parts :: "u8 list \<Rightarrow> nat" where
  "frag_total_parts packet = (length packet + frag_chunk_size - 1) div frag_chunk_size"

definition pkt_src_ip :: "u8 list \<Rightarrow> u8 list" where "pkt_src_ip packet = take 4 (drop 12 packet)"
definition pkt_dst_ip :: "u8 list \<Rightarrow> u8 list" where "pkt_dst_ip packet = take 4 (drop 16 packet)"

text \<open>Header and chunk of the part that starts at \<open>pos\<close>, as the loop of \<open>SendFragmented\<close> puts them
  into \<open>buf + 1\<close>.\<close>

definition frag_body_at :: "u8 list \<Rightarrow> u16 \<Rightarrow> nat \<Rightarrow> nat \<Rightarrow> u8 list" where
  "frag_body_at packet frag_id part pos =
     (let part_len = (if length packet - pos < frag_chunk_size then length packet - pos
                      else frag_chunk_size)
      in frag_header_bytes
           \<lparr>fh_src_ip = pkt_src_ip packet, fh_dst_ip = pkt_dst_ip packet, fh_id = frag_id,
            fh_part = of_nat part, fh_total_part = of_nat (frag_total_parts packet),
            fh_len = of_nat part_len, fh_pmtu = of_nat frag_chunk_size\<rparr>
         @ take part_len (drop pos packet))"

definition frag_body :: "u8 list \<Rightarrow> u16 \<Rightarrow> nat \<Rightarrow> u8 list" where
  "frag_body packet frag_id part = frag_body_at packet frag_id part (part * frag_chunk_size)"

section \<open>The reassembly table\<close>

record frag_slot =
  fs_used :: bool
  fs_id :: u16
  fs_src_ip :: "u8 list"
  fs_part_mask :: u32
  fs_total_len :: nat
  fs_buffer :: "u8 list"

definition frag_slot_init :: frag_slot where
  "frag_slot_init =
     \<lparr>fs_used = False, fs_id = 0, fs_src_ip = [0, 0, 0, 0], fs_part_mask = 0, fs_total_len = 0,
      fs_buffer = replicate FragBufferSize 0\<rparr>"

definition frag_slots_init :: "frag_slot list" where
  "frag_slots_init = replicate NUM_SLOTS frag_slot_init"

definition frag_dist :: "u16 \<Rightarrow> u16 \<Rightarrow> nat" where
  "frag_dist i most = nat \<bar>int (unat i) - int (unat most)\<bar>"

text \<open>The eviction scan: largest drift so far and the slot that has it.\<close>

fun evict_scan :: "frag_slot list \<Rightarrow> nat \<Rightarrow> u16 \<Rightarrow> nat \<Rightarrow> nat option \<Rightarrow> nat \<times> nat option" where
  "evict_scan [] k most max_dist to_evict = (max_dist, to_evict)"
| "evict_scan (s # slots) k most max_dist to_evict =
     (if \<not> fs_used s then evict_scan slots (Suc k) most max_dist to_evict
      else let dist = frag_dist (fs_id s) most
           in if dist > max_dist then evict_scan slots (Suc k) most dist (Some k)
              else evict_scan slots (Suc k) most max_dist to_evict)"

text \<open>The chosen slot, with \<open>is_existing_group\<close>; \<open>None\<close> when the fragment is dropped.\<close>

definition frag_pick_slot :: "frag_slot list \<Rightarrow> u16 \<Rightarrow> u16 \<Rightarrow> u8 list \<Rightarrow> (nat \<times> bool) option" where
  "frag_pick_slot slots most i src =
     (case first_idx (\<lambda>s. fs_used s \<and> fs_id s = i \<and> fs_src_ip s = src) slots of
        Some k \<Rightarrow> Some (k, True)
      | None \<Rightarrow>
          (case first_idx (\<lambda>s. \<not> fs_used s) slots of
             Some k \<Rightarrow> Some (k, False)
           | None \<Rightarrow>
               (case evict_scan slots 0 most 0 None of
                  (max_dist, Some k) \<Rightarrow> if max_dist > 10 then Some (k, False) else None
                | (max_dist, None) \<Rightarrow> None)))"

definition frag_claim :: "u16 \<Rightarrow> u8 list \<Rightarrow> frag_slot \<Rightarrow> frag_slot" where
  "frag_claim i src s =
     s\<lparr>fs_used := True, fs_id := i, fs_part_mask := 0, fs_total_len := 0, fs_src_ip := src\<rparr>"

definition frag_expected_mask :: "u8 \<Rightarrow> u32" where
  "frag_expected_mask tp = (if unat tp \<ge> 32 then 0xFFFFFFFF else push_bit (unat tp) 1 - 1)"

text \<open>Copying the chunk into the slot, marking the part and learning the length from the last one.\<close>

definition frag_write :: "frag_header \<Rightarrow> u8 list \<Rightarrow> frag_slot \<Rightarrow> frag_slot option" where
  "frag_write hdr chunk_data s1 =
     (let part = unat (fh_part hdr);
          part_len = unat (fh_len hdr);
          pmtu = unat (fh_pmtu hdr)
      in do {
        chunk \<leftarrow> rd_range chunk_data 0 part_len;
        buf \<leftarrow> wr_range (fs_buffer s1) (part * pmtu) chunk;
        let s2 = s1\<lparr>fs_buffer := buf, fs_part_mask := (fs_part_mask s1) OR (push_bit part 1)\<rparr>;
        Some (if int part = int (unat (fh_total_part hdr)) - 1
              then s2\<lparr>fs_total_len := (unat (fh_total_part hdr) - 1) * pmtu + part_len\<rparr>
              else s2)
      })"

definition ReassembleFrag ::
  "frag_slot list \<Rightarrow> u16 \<Rightarrow> u8 list \<Rightarrow> nat \<Rightarrow> (frag_slot list \<times> u16 \<times> u8 list option) option" where
  "ReassembleFrag slots most data out_buf_size =
     (if length data < FragHeaderSize then Some (slots, most, None)
      else do {
        hdr \<leftarrow> frag_header_parse data;
        let part = unat (fh_part hdr);
        let part_len = unat (fh_len hdr);
        let pmtu = unat (fh_pmtu hdr);
        let chunk_data = drop FragHeaderSize data;
        if part_len > length chunk_data then Some (slots, most, None)
        else case frag_pick_slot slots most (fh_id hdr) (fh_src_ip hdr) of
          None \<Rightarrow> Some (slots, most, None)
        | Some (k, existing) \<Rightarrow> do {
            let s1 = (if existing then slots ! k
                      else frag_claim (fh_id hdr) (fh_src_ip hdr) (slots ! k));
            if part \<ge> 32 \<or> part * pmtu + part_len > FragBufferSize then
              Some (slots[k := s1\<lparr>fs_used := False\<rparr>], most, None)
            else do {
              s3 \<leftarrow> frag_write hdr chunk_data s1;
              if fs_part_mask s3 = frag_expected_mask (fh_total_part hdr) \<and> fs_total_len s3 > 0 then
                (if fs_total_len s3 > out_buf_size then
                   Some (slots[k := s3\<lparr>fs_used := False\<rparr>], most, None)
                 else do {
                   out \<leftarrow> rd_range (fs_buffer s3) 0 (fs_total_len s3);
                   Some (slots[k := s3\<lparr>fs_used := False\<rparr>], fh_id hdr, Some out)
                 })
              else Some (slots[k := s3], most, None)
            }
          }
      })"

text \<open>A sequence of fragments, and what it delivers.\<close>

fun reassemble_all ::
  "frag_slot list \<Rightarrow> u16 \<Rightarrow> u8 list list \<Rightarrow> nat \<Rightarrow> (frag_slot list \<times> u16 \<times> u8 list list) option" where
  "reassemble_all slots most [] n = Some (slots, most, [])"
| "reassemble_all slots most (d # ds) n = do {
     (slots', most', out) \<leftarrow> ReassembleFrag slots most d n;
     (slots'', most'', outs) \<leftarrow> reassemble_all slots' most' ds n;
     Some (slots'', most'', (case out of None \<Rightarrow> outs | Some p \<Rightarrow> p # outs))
   }"

section \<open>Memory safety\<close>

definition slots_wf :: "frag_slot list \<Rightarrow> bool" where
  "slots_wf slots \<longleftrightarrow> length slots = NUM_SLOTS
     \<and> (\<forall>s \<in> set slots. length (fs_buffer s) = FragBufferSize \<and> fs_total_len s \<le> FragBufferSize)"

lemma slots_wf_init: "slots_wf frag_slots_init"
  by (simp add: slots_wf_def frag_slots_init_def frag_slot_init_def)

lemma slots_wf_update:
  assumes "slots_wf slots" and "length (fs_buffer s) = FragBufferSize" and "fs_total_len s \<le> FragBufferSize"
  shows "slots_wf (slots[k := s])"
  using assms by (auto simp: slots_wf_def dest: set_list_update_cases)

lemma evict_scan_range:
  "evict_scan slots k most m e = (m', Some j) \<Longrightarrow> e = Some j \<or> (k \<le> j \<and> j < k + length slots)"
  by (induction slots k most m e rule: evict_scan.induct) (fastforce simp: Let_def split: if_splits)+

lemma frag_pick_slot_range:
  "frag_pick_slot slots most i src = Some (k, b) \<Longrightarrow> k < length slots"
  by (auto simp: frag_pick_slot_def first_idx_Some_iff dest: evict_scan_range
      split: option.splits prod.splits if_splits)

lemma frag_header_parse_some: "16 \<le> length b \<Longrightarrow> \<exists>h. frag_header_parse b = Some h"
  by (simp add: frag_header_parse_def rd_simps)

lemma frag_write_ok:
  assumes "unat (fh_len hdr) \<le> length c"
    and "unat (fh_part hdr) * unat (fh_pmtu hdr) + unat (fh_len hdr) \<le> FragBufferSize"
    and "length (fs_buffer s) = FragBufferSize" and "fs_total_len s \<le> FragBufferSize"
  shows "\<exists>s'. frag_write hdr c s = Some s' \<and> length (fs_buffer s') = FragBufferSize
     \<and> fs_total_len s' \<le> FragBufferSize"
proof -
  have "int (unat (fh_part hdr)) = int (unat (fh_total_part hdr)) - 1 \<Longrightarrow>
      unat (fh_total_part hdr) - 1 = unat (fh_part hdr)"
    by linarith
  then show ?thesis using assms by (auto simp: frag_write_def Let_def rd_range_def wr_range_def)
qed

text \<open>The branch of \<open>ReassembleFrag\<close> that stores the fragment.\<close>

lemma ReassembleFrag_stored:
  assumes data: "\<not> length data < FragHeaderSize" "frag_header_parse data = Some hdr"
    and pick: "frag_pick_slot slots most (fh_id hdr) (fh_src_ip hdr) = Some (k, b)"
    and s1: "s1 = (if b then slots ! k else frag_claim (fh_id hdr) (fh_src_ip hdr) (slots ! k))"
      "length (fs_buffer s1) = FragBufferSize" "fs_total_len s1 \<le> FragBufferSize"
    and fits: "\<not> (unat (fh_len hdr) > length (drop FragHeaderSize data) \<or> unat (fh_part hdr) \<ge> 32
      \<or> unat (fh_part hdr) * unat (fh_pmtu hdr) + unat (fh_len hdr) > FragBufferSize)"
  shows "\<exists>s3. length (fs_buffer s3) = FragBufferSize \<and> fs_total_len s3 \<le> FragBufferSize
     \<and> ReassembleFrag slots most data n =
         (if fs_part_mask s3 = frag_expected_mask (fh_total_part hdr) \<and> fs_total_len s3 > 0 then
             (if fs_total_len s3 > n then Some (slots[k := s3\<lparr>fs_used := False\<rparr>], most, None)
              else Some (slots[k := s3\<lparr>fs_used := False\<rparr>], fh_id hdr,
                     Some (take (fs_total_len s3) (fs_buffer s3))))
           else Some (slots[k := s3], most, None))"
proof -
  obtain s3 where s3: "frag_write hdr (drop FragHeaderSize data) s1 = Some s3"
    "length (fs_buffer s3) = FragBufferSize" "fs_total_len s3 \<le> FragBufferSize"
    using frag_write_ok [of hdr "drop FragHeaderSize data" s1] fits s1(2,3) by auto
  then have "rd_range (fs_buffer s3) 0 (fs_total_len s3) = Some (take (fs_total_len s3) (fs_buffer s3))"
    by (simp add: rd_range_def)
  then have "ReassembleFrag slots most data n =
         (if fs_part_mask s3 = frag_expected_mask (fh_total_part hdr) \<and> fs_total_len s3 > 0 then
             (if fs_total_len s3 > n then Some (slots[k := s3\<lparr>fs_used := False\<rparr>], most, None)
              else Some (slots[k := s3\<lparr>fs_used := False\<rparr>], fh_id hdr,
                     Some (take (fs_total_len s3) (fs_buffer s3))))
           else Some (slots[k := s3], most, None))"
    using data fits pick s3(1) by (auto simp: ReassembleFrag_def Let_def s1(1) [symmetric])
  then show ?thesis using s3(2,3) by blast
qed

lemma ReassembleFrag_wf:
  assumes "slots_wf slots"
  shows "\<exists>slots' most' out. ReassembleFrag slots most data n = Some (slots', most', out)
     \<and> slots_wf slots' \<and> (\<forall>p. out = Some p \<longrightarrow> length p \<le> n \<and> length p \<le> FragBufferSize)"
proof (cases "length data < FragHeaderSize")
  case True
  then show ?thesis using assms by (simp add: ReassembleFrag_def)
next
  case False
  then obtain hdr where hdr: "frag_header_parse data = Some hdr"
    using frag_header_parse_some [of data] by (auto simp: FragHeaderSize_def)
  let ?part = "unat (fh_part hdr)" and ?len = "unat (fh_len hdr)" and ?pm = "unat (fh_pmtu hdr)"
  let ?c = "drop FragHeaderSize data"
  show ?thesis
  proof (cases "frag_pick_slot slots most (fh_id hdr) (fh_src_ip hdr)")
    case None
    then show ?thesis using assms False hdr by (simp add: ReassembleFrag_def Let_def)
  next
    case (Some kb)
    obtain k b where kb: "kb = (k, b)" by fastforce
    define s1 where "s1 = (if b then slots ! k else frag_claim (fh_id hdr) (fh_src_ip hdr) (slots ! k))"
    have "slots ! k \<in> set slots" using frag_pick_slot_range Some kb by fastforce
    then have s1: "length (fs_buffer s1) = FragBufferSize" "fs_total_len s1 \<le> FragBufferSize"
      using assms by (auto simp: slots_wf_def s1_def frag_claim_def)
    show ?thesis
    proof (cases "?len > length ?c \<or> ?part \<ge> 32 \<or> ?part * ?pm + ?len > FragBufferSize")
      case True
      then show ?thesis using assms False hdr Some kb s1 slots_wf_update
        by (auto simp: ReassembleFrag_def Let_def s1_def [symmetric])
    next
      case fits: False
      obtain s3 where s3: "length (fs_buffer s3) = FragBufferSize" "fs_total_len s3 \<le> FragBufferSize"
        and R: "ReassembleFrag slots most data n =
          (if fs_part_mask s3 = frag_expected_mask (fh_total_part hdr) \<and> fs_total_len s3 > 0 then
             (if fs_total_len s3 > n then Some (slots[k := s3\<lparr>fs_used := False\<rparr>], most, None)
              else Some (slots[k := s3\<lparr>fs_used := False\<rparr>], fh_id hdr,
                     Some (take (fs_total_len s3) (fs_buffer s3))))
           else Some (slots[k := s3], most, None))"
        using ReassembleFrag_stored [OF False hdr _ s1_def s1 fits] Some kb by blast
      have "slots_wf (slots[k := s3])" "slots_wf (slots[k := s3\<lparr>fs_used := False\<rparr>])"
        using s3 assms by (auto intro: slots_wf_update)
      then show ?thesis using R s3 by (auto split: if_splits)
    qed
  qed
qed

text \<open>No fragment, however malformed or malicious, makes the reassembly read or write outside
  its buffers, and the table stays well-formed; every delivered packet fits the caller's buffer.\<close>

theorem reassemble_all_memory_safe:
  assumes "slots_wf slots"
  shows "\<exists>slots' most' outs. reassemble_all slots most datas n = Some (slots', most', outs)
     \<and> slots_wf slots' \<and> (\<forall>p \<in> set outs. length p \<le> n)"
  using assms
proof (induction datas arbitrary: slots most)
  case Nil
  then show ?case by simp
next
  case (Cons d ds)
  obtain slots' most' out where r: "ReassembleFrag slots most d n = Some (slots', most', out)"
    "slots_wf slots'" "\<forall>p. out = Some p \<longrightarrow> length p \<le> n"
    using ReassembleFrag_wf [OF Cons.prems, of most d n] by blast
  obtain slots'' most'' outs where "reassemble_all slots' most' ds n = Some (slots'', most'', outs)"
    "slots_wf slots''" "\<forall>p \<in> set outs. length p \<le> n"
    using Cons.IH [OF r(2), of most'] by blast
  then show ?case using r by (auto split: option.splits)
qed

theorem reassemble_all_memory_safe_witness:
  "\<exists>slots' most' outs. reassemble_all frag_slots_init 0 [replicate 30 255, [1]] 1428
     = Some (slots', most', outs)"
  using reassemble_all_memory_safe [OF slots_wf_init, of 0 "[replicate 30 255, [1]]" 1428] by blast

section \<open>Fragments of a packet\<close>

definition frag_chunk :: "u8 list \<Rightarrow> nat \<Rightarrow> u8 list" where
  "frag_chunk P k = take frag_chunk_size (drop (k * frag_chunk_size) P)"

definition frag_hdr :: "u8 list \<Rightarrow> u16 \<Rightarrow> nat \<Rightarrow> frag_header" where
  "frag_hdr P i k =
     \<lparr>fh_src_ip = pkt_src_ip P, fh_dst_ip = pkt_dst_ip P, fh_id = i, fh_part = of_nat k,
      fh_total_part = of_nat (frag_total_parts P), fh_len = of_nat (length (frag_chunk P k)),
      fh_pmtu = of_nat frag_chunk_size\<rparr>"

definition frag_packet :: "u8 list \<Rightarrow> bool" where
  "frag_packet P \<longleftrightarrow> 20 \<le> length P \<and> frag_total_parts P \<le> 255"

lemma frag_body_eq: "frag_body P i k = frag_header_bytes (frag_hdr P i k) @ frag_chunk P k"
  by (auto simp: frag_body_def frag_body_at_def frag_hdr_def frag_chunk_def Let_def min_def)

lemma length_ips: "20 \<le> length P \<Longrightarrow> length (pkt_src_ip P) = 4 \<and> length (pkt_dst_ip P) = 4"
  by (simp add: pkt_src_ip_def pkt_dst_ip_def)

lemma frag_header_parse_bytes:
  assumes "length (fh_src_ip h) = 4" and "length (fh_dst_ip h) = 4"
  shows "frag_header_parse (frag_header_bytes h @ rest) = Some h"
proof -
  obtain a0 a1 a2 a3 where a: "fh_src_ip h = [a0, a1, a2, a3]"
    using assms(1) by (auto simp: eval_nat_numeral length_Suc_conv)
  obtain b0 b1 b2 b3 where b: "fh_dst_ip h = [b0, b1, b2, b3]"
    using assms(2) by (auto simp: eval_nat_numeral length_Suc_conv)
  show ?thesis by (simp add: frag_header_parse_def frag_header_bytes_def a b rd_simps)
qed

lemma frag_parts_arith:
  "0 < length P \<Longrightarrow> k < frag_total_parts P \<longleftrightarrow> k * frag_chunk_size < length P"
  by (auto simp: frag_total_parts_def frag_consts)

lemma frag_chunk_length:
  "length (frag_chunk P k) = min frag_chunk_size (length P - k * frag_chunk_size)"
  by (simp add: frag_chunk_def min.commute)

lemma frag_last_chunk:
  assumes "0 < length P"
  shows "(frag_total_parts P - 1) * frag_chunk_size + length (frag_chunk P (frag_total_parts P - 1)) = length P"
    and "0 < frag_total_parts P"
proof -
  show pos: "0 < frag_total_parts P" using assms frag_parts_arith [of P 0] by simp
  then have "(frag_total_parts P - 1) * frag_chunk_size < length P"
    using frag_parts_arith [OF assms, of "frag_total_parts P - 1"] by simp
  moreover have "\<not> frag_total_parts P * frag_chunk_size < length P"
    using frag_parts_arith [OF assms, of "frag_total_parts P"] by simp
  moreover have "frag_total_parts P * frag_chunk_size
      = (frag_total_parts P - 1) * frag_chunk_size + frag_chunk_size"
    using pos by (cases "frag_total_parts P") simp_all
  ultimately show "(frag_total_parts P - 1) * frag_chunk_size
      + length (frag_chunk P (frag_total_parts P - 1)) = length P"
    unfolding frag_chunk_length by linarith
qed

lemma frag_hdr_values:
  assumes "frag_packet P" and "k < frag_total_parts P"
  shows "unat (fh_part (frag_hdr P i k)) = k" and "unat (fh_len (frag_hdr P i k)) = length (frag_chunk P k)"
    and "unat (fh_pmtu (frag_hdr P i k)) = frag_chunk_size"
    and "unat (fh_total_part (frag_hdr P i k)) = frag_total_parts P"
proof -
  show "unat (fh_part (frag_hdr P i k)) = k" using assms by (simp add: frag_hdr_def frag_packet_def unat_of_nat)
  have "length (frag_chunk P k) < 65536" by (simp add: frag_chunk_length frag_consts min_def)
  then show "unat (fh_len (frag_hdr P i k)) = length (frag_chunk P k)"
    by (simp add: frag_hdr_def unat_of_nat)
  show "unat (fh_pmtu (frag_hdr P i k)) = frag_chunk_size" by (simp add: frag_hdr_def frag_consts)
  show "unat (fh_total_part (frag_hdr P i k)) = frag_total_parts P"
    using assms(1) by (simp add: frag_hdr_def frag_packet_def unat_of_nat)
qed

text \<open>What storing part \<open>k\<close> of \<open>P\<close> does to a slot.\<close>

definition frag_put :: "u8 list \<Rightarrow> nat \<Rightarrow> frag_slot \<Rightarrow> frag_slot" where
  "frag_put P k s =
     s\<lparr>fs_buffer := take (k * frag_chunk_size) (fs_buffer s) @ frag_chunk P k
         @ drop (k * frag_chunk_size + length (frag_chunk P k)) (fs_buffer s),
       fs_part_mask := (fs_part_mask s) OR (push_bit k 1),
       fs_total_len := (if k = frag_total_parts P - 1 then length P else fs_total_len s)\<rparr>"

definition frag_fits :: "u8 list \<Rightarrow> nat \<Rightarrow> bool" where
  "frag_fits P k \<longleftrightarrow> k < 32 \<and> k * frag_chunk_size + length (frag_chunk P k) \<le> FragBufferSize"

definition frag_complete :: "u8 list \<Rightarrow> frag_slot \<Rightarrow> bool" where
  "frag_complete P s \<longleftrightarrow>
     fs_part_mask s = frag_expected_mask (of_nat (frag_total_parts P)) \<and> fs_total_len s > 0"

lemma frag_write_put:
  assumes "frag_packet P" and "k < frag_total_parts P" and "frag_fits P k"
    and "length (fs_buffer s) = FragBufferSize"
  shows "frag_write (frag_hdr P i k) (frag_chunk P k) s = Some (frag_put P k s)"
proof -
  have "int k = int (frag_total_parts P) - 1 \<longleftrightarrow> k = frag_total_parts P - 1"
    using assms(2) by linarith
  moreover have "unat (fh_total_part (frag_hdr P i m)) = frag_total_parts P" for m
    using assms(1) by (simp add: frag_hdr_def frag_packet_def unat_of_nat)
  moreover have "0 < length P" using assms(1) unfolding frag_packet_def by linarith
  then have "k = frag_total_parts P - 1 \<Longrightarrow> k * frag_chunk_size + length (frag_chunk P k) = length P"
    using frag_last_chunk(1) [of P] by simp
  ultimately show ?thesis
    using assms(3,4) frag_hdr_values [OF assms(1,2), of i]
    by (simp add: frag_write_def Let_def rd_range_def wr_range_def frag_fits_def frag_put_def)
qed

lemma ReassembleFrag_body:
  assumes P: "frag_packet P" "k < frag_total_parts P" and wf: "slots_wf slots"
    and pick: "frag_pick_slot slots most i (pkt_src_ip P) = Some (j, ex)"
    and s1: "s1 = (if ex then slots ! j else frag_claim i (pkt_src_ip P) (slots ! j))"
    and s3: "s3 = frag_put P k s1"
  shows "ReassembleFrag slots most (frag_body P i k) n =
     (if \<not> frag_fits P k then Some (slots[j := s1\<lparr>fs_used := False\<rparr>], most, None)
      else if frag_complete P s3 then
        (if fs_total_len s3 > n then Some (slots[j := s3\<lparr>fs_used := False\<rparr>], most, None)
         else Some (slots[j := s3\<lparr>fs_used := False\<rparr>], i, Some (take (fs_total_len s3) (fs_buffer s3))))
      else Some (slots[j := s3], most, None))"
proof -
  have L: "length (pkt_src_ip P) = 4" "length (pkt_dst_ip P) = 4"
    using P(1) length_ips [of P] by (simp_all add: frag_packet_def)
  have hlen: "length (frag_header_bytes (frag_hdr P i k)) = FragHeaderSize"
    using L by (simp add: frag_header_bytes_def frag_hdr_def FragHeaderSize_def)
  have parse: "frag_header_parse (frag_body P i k) = Some (frag_hdr P i k)"
    unfolding frag_body_eq by (rule frag_header_parse_bytes) (simp_all add: frag_hdr_def L)
  have drop: "drop FragHeaderSize (frag_body P i k) = frag_chunk P k"
    unfolding frag_body_eq by (simp add: hlen)
  have len: "\<not> length (frag_body P i k) < FragHeaderSize" by (simp add: frag_body_eq hlen)
  have idsrc: "fh_id (frag_hdr P i k) = i" "fh_src_ip (frag_hdr P i k) = pkt_src_ip P"
    "fh_total_part (frag_hdr P i k) = of_nat (frag_total_parts P)"
    by (simp_all add: frag_hdr_def)
  note v = frag_hdr_values [OF P, of i]
  have sj: "slots ! j \<in> set slots" using frag_pick_slot_range [OF pick] by simp
  then have b1: "length (fs_buffer s1) = FragBufferSize"
    using wf by (auto simp: slots_wf_def s1 frag_claim_def)
  show ?thesis
  proof (cases "frag_fits P k")
    case False
    then show ?thesis
      using len parse drop pick by (auto simp: ReassembleFrag_def Let_def idsrc v frag_fits_def s1)
  next
    case True
    have w: "frag_write (frag_hdr P i k) (frag_chunk P k) s1 = Some s3"
      using frag_write_put [OF P True b1] by (simp add: s3)
    have "fs_total_len s1 \<le> FragBufferSize"
      using sj wf by (auto simp: slots_wf_def s1 frag_claim_def)
    then have bl: "length (fs_buffer s3) = FragBufferSize" "fs_total_len s3 \<le> FragBufferSize"
      using frag_write_ok [of "frag_hdr P i k" "frag_chunk P k" s1] w True b1 v
      by (auto simp: frag_fits_def)
    then have "rd_range (fs_buffer s3) 0 (fs_total_len s3) = Some (take (fs_total_len s3) (fs_buffer s3))"
      by (simp add: rd_range_def)
    then show ?thesis
      using len parse drop pick w True s1
      by (cases ex) (auto simp: ReassembleFrag_def Let_def idsrc v frag_fits_def frag_complete_def)
  qed
qed

lemma ReassembleFrag_body_dropped:
  assumes P: "frag_packet P" "k < frag_total_parts P"
    and pick: "frag_pick_slot slots most i (pkt_src_ip P) = None"
  shows "ReassembleFrag slots most (frag_body P i k) n = Some (slots, most, None)"
proof -
  have L: "length (pkt_src_ip P) = 4" "length (pkt_dst_ip P) = 4"
    using P(1) length_ips [of P] by (simp_all add: frag_packet_def)
  have parse: "frag_header_parse (frag_body P i k) = Some (frag_hdr P i k)"
    unfolding frag_body_eq by (rule frag_header_parse_bytes) (simp_all add: frag_hdr_def L)
  have "fh_id (frag_hdr P i k) = i" "fh_src_ip (frag_hdr P i k) = pkt_src_ip P"
    by (simp_all add: frag_hdr_def)
  then show ?thesis using parse pick by (simp add: ReassembleFrag_def Let_def)
qed

section \<open>A slot holds parts of one packet\<close>

definition slot_holds :: "u8 list \<Rightarrow> frag_slot \<Rightarrow> bool" where
  "slot_holds P s \<longleftrightarrow> length (fs_buffer s) = FragBufferSize
     \<and> (\<forall>k. bit (fs_part_mask s) k \<longrightarrow> k < frag_total_parts P \<and> frag_fits P k
          \<and> take (length (frag_chunk P k)) (drop (k * frag_chunk_size) (fs_buffer s)) = frag_chunk P k)
     \<and> fs_total_len s = (if bit (fs_part_mask s) (frag_total_parts P - 1) then length P else 0)"

definition slot_parts :: "frag_slot \<Rightarrow> nat set" where
  "slot_parts s = {k. bit (fs_part_mask s) k}"

lemma slot_holds_claim:
  "length (fs_buffer s) = FragBufferSize \<Longrightarrow>
   slot_holds P (frag_claim i src s) \<and> slot_parts (frag_claim i src s) = {}"
  by (simp add: slot_holds_def frag_claim_def slot_parts_def)

lemma bit_mark: "k < 32 \<Longrightarrow> bit (m OR push_bit k 1 :: u32) j \<longleftrightarrow> bit m j \<or> j = k"
  by (auto simp: bit_simps)

lemma slot_parts_put: "k < 32 \<Longrightarrow> slot_parts (frag_put P k s) = insert k (slot_parts s)"
  by (auto simp: slot_parts_def frag_put_def bit_mark simp del: push_bit_of_1)

lemma frag_chunk_slices_disjoint:
  assumes "j \<noteq> k"
  shows "j * frag_chunk_size + length (frag_chunk P j) \<le> k * frag_chunk_size
       \<or> k * frag_chunk_size + length (frag_chunk P k) \<le> j * frag_chunk_size"
proof -
  have *: "a * frag_chunk_size + length (frag_chunk P a) \<le> b * frag_chunk_size" if "a < b" for a b
  proof -
    have "a * frag_chunk_size + frag_chunk_size = Suc a * frag_chunk_size" by simp
    also have "\<dots> \<le> b * frag_chunk_size" using that by (intro mult_le_mono1) simp
    finally show ?thesis by (simp add: frag_chunk_length)
  qed
  show ?thesis using assms * [of j k] * [of k j] by (metis nat_neq_iff)
qed

lemma slot_holds_put:
  assumes s: "slot_holds P s" and k: "k < frag_total_parts P" and fits: "frag_fits P k"
  shows "slot_holds P (frag_put P k s)"
proof -
  let ?b = "fs_buffer s" and ?off = "k * frag_chunk_size" and ?c = "frag_chunk P k"
  let ?b' = "take ?off ?b @ ?c @ drop (?off + length ?c) ?b"
  have len: "length ?b = FragBufferSize" and k32: "k < 32"
    and room: "?off + length ?c \<le> length ?b"
    using s fits by (auto simp: slot_holds_def frag_fits_def)
  have keep: "take (length (frag_chunk P j)) (drop (j * frag_chunk_size) ?b') = frag_chunk P j"
    if "bit (fs_part_mask s) j \<or> j = k" for j
  proof (cases "j = k")
    case True
    then show ?thesis using room slice_written [of ?off ?b ?c] by simp
  next
    case False
    then have old: "take (length (frag_chunk P j)) (drop (j * frag_chunk_size) ?b) = frag_chunk P j"
      using that s by (simp add: slot_holds_def)
    show ?thesis using frag_chunk_slices_disjoint [OF False, of P]
    proof
      assume "j * frag_chunk_size + length (frag_chunk P j) \<le> ?off"
      then show ?thesis using old room by (subst slice_before) auto
    next
      assume "?off + length ?c \<le> j * frag_chunk_size"
      then show ?thesis using old room by (subst slice_after) auto
    qed
  qed
  have "length ?b' = FragBufferSize" using room len by simp
  then show ?thesis
    using s keep k fits k32
    by (auto simp: slot_holds_def frag_put_def bit_mark simp del: push_bit_of_1)
qed

lemma full_mask_bit: "k < 32 \<Longrightarrow> bit (0xFFFFFFFF :: u32) k"
proof -
  have "(0xFFFFFFFF :: u32) = - 1" by simp
  then show "k < 32 \<Longrightarrow> bit (0xFFFFFFFF :: u32) k" by (simp only:) simp
qed

lemma expected_mask_bits:
  assumes "n < 32"
  shows "fs_part_mask s = frag_expected_mask (of_nat n) \<longleftrightarrow> slot_parts s = {0..<n}"
proof -
  have m: "frag_expected_mask (of_nat n) = mask n"
    using assms by (simp add: frag_expected_mask_def unat_of_nat mask_eq_exp_minus_1)
  show ?thesis
  proof
    assume "fs_part_mask s = frag_expected_mask (of_nat n)"
    then show "slot_parts s = {0..<n}" using assms unfolding m slot_parts_def
      by (auto simp: bit_mask_iff)
  next
    assume *: "slot_parts s = {0..<n}"
    show "fs_part_mask s = frag_expected_mask (of_nat n)" unfolding m
    proof (rule bit_word_eqI)
      fix j :: nat
      assume "j < LENGTH(32)"
      have "bit (fs_part_mask s) j \<longleftrightarrow> j \<in> slot_parts s" by (simp add: slot_parts_def)
      then show "bit (fs_part_mask s) j = bit (mask n :: u32) j"
        using * \<open>j < LENGTH(32)\<close> by (auto simp: bit_mask_iff)
    qed
  qed
qed

lemma frag_fits_total: "frag_fits P k \<Longrightarrow> k < frag_total_parts P \<Longrightarrow> k < 5"
  by (auto simp: frag_fits_def frag_consts)

text \<open>All chunks in place means the packet in place.\<close>

lemma slot_all_parts:
  assumes s: "slot_holds P s" and all: "slot_parts s = {0..<frag_total_parts P}" and P: "0 < length P"
  shows "length P \<le> FragBufferSize \<and> fs_total_len s = length P \<and> take (length P) (fs_buffer s) = P"
proof -
  let ?n = "frag_total_parts P"
  have b: "bit (fs_part_mask s) k" if "k < ?n" for k using all that by (auto simp: slot_parts_def)
  have last: "(?n - 1) * frag_chunk_size + length (frag_chunk P (?n - 1)) = length P" "0 < ?n"
    using frag_last_chunk [OF P] .
  then have "frag_fits P (?n - 1)" using b [of "?n - 1"] s by (simp add: slot_holds_def)
  then have le: "length P \<le> FragBufferSize" using last(1) by (simp add: frag_fits_def)
  have tl: "fs_total_len s = length P" using s b [of "?n - 1"] last(2) by (simp add: slot_holds_def)
  have "take (length P) (fs_buffer s) = P"
  proof (rule nth_equalityI)
    show "length (take (length P) (fs_buffer s)) = length P" using s le by (simp add: slot_holds_def)
    fix j
    assume "j < length (take (length P) (fs_buffer s))"
    then have j: "j < length P" by simp
    let ?k = "j div frag_chunk_size" and ?r = "j mod frag_chunk_size"
    have jk: "j = ?k * frag_chunk_size + ?r" by simp
    have r: "?r < frag_chunk_size" by (simp add: frag_consts)
    have k: "?k < ?n" using frag_parts_arith [OF P, of ?k] j jk by linarith
    then have c: "take (length (frag_chunk P ?k)) (drop (?k * frag_chunk_size) (fs_buffer s)) = frag_chunk P ?k"
      using s b by (simp add: slot_holds_def)
    have rl: "?r < length (frag_chunk P ?k)" unfolding frag_chunk_length using r j jk by linarith
    have "fs_buffer s ! j = take (length (frag_chunk P ?k)) (drop (?k * frag_chunk_size) (fs_buffer s)) ! ?r"
    proof -
      have "length (fs_buffer s) = FragBufferSize" using s by (simp add: slot_holds_def)
      then have "?k * frag_chunk_size \<le> length (fs_buffer s)" using j jk le by linarith
      then have "drop (?k * frag_chunk_size) (fs_buffer s) ! ?r = fs_buffer s ! (?k * frag_chunk_size + ?r)"
        by (rule nth_drop)
      then show ?thesis using rl jk by (simp only: nth_take)
    qed
    also have "\<dots> = P ! j"
    proof -
      have "?k * frag_chunk_size \<le> length P" using j jk by linarith
      then have "drop (?k * frag_chunk_size) P ! ?r = P ! (?k * frag_chunk_size + ?r)"
        by (rule nth_drop)
      moreover have "frag_chunk P ?k ! ?r = drop (?k * frag_chunk_size) P ! ?r"
        unfolding frag_chunk_def using r by (rule nth_take)
      ultimately show ?thesis unfolding c using rl jk by simp
    qed
    finally show "take (length P) (fs_buffer s) ! j = P ! j" using j by simp
  qed
  then show ?thesis using le tl by simp
qed

lemma slot_complete_iff:
  assumes s: "slot_holds P s" and P: "frag_packet P"
  shows "frag_complete P s \<longleftrightarrow> slot_parts s = {0..<frag_total_parts P}"
proof (cases "frag_total_parts P < 32")
  case True
  have "0 < length P" using P by (auto simp: frag_packet_def)
  then show ?thesis
    using expected_mask_bits [OF True, of s] slot_all_parts [OF s] by (auto simp: frag_complete_def)
next
  case False
  have u: "unat (of_nat (frag_total_parts P) :: u8) = frag_total_parts P"
    using P by (simp add: frag_packet_def unat_of_nat)
  have fits: "k < 5" if "k \<in> slot_parts s" for k
    using that s frag_fits_total by (auto simp: slot_parts_def slot_holds_def)
  have "\<not> frag_complete P s"
  proof
    assume "frag_complete P s"
    then have "fs_part_mask s = 0xFFFFFFFF" using False u by (simp add: frag_complete_def frag_expected_mask_def)
    then have "31 \<in> slot_parts s" using full_mask_bit [of 31] by (simp add: slot_parts_def)
    then show False using fits by fastforce
  qed
  moreover have "slot_parts s \<noteq> {0..<frag_total_parts P}"
  proof
    assume *: "slot_parts s = {0..<frag_total_parts P}"
    have "31 \<in> slot_parts s" unfolding * using False by simp
    then show False using fits by fastforce
  qed
  ultimately show ?thesis by simp
qed

section \<open>Soundness: only sent packets come out\<close>

text \<open>Fragments in flight are named by identifier, packet and part; a \<open>traffic\<close> is a set of packets
  with their identifiers in which no two packets share the pair of identifier and source.\<close>

type_synonym frag_name = "u16 \<times> u8 list \<times> nat"

fun frag_bytes :: "frag_name \<Rightarrow> u8 list" where
  "frag_bytes (i, P, k) = frag_body P i k"

definition traffic :: "(u16 \<times> u8 list) set \<Rightarrow> bool" where
  "traffic T \<longleftrightarrow> (\<forall>(i, P) \<in> T. frag_packet P)
     \<and> (\<forall>(i, P) \<in> T. \<forall>(j, Q) \<in> T. i = j \<and> pkt_src_ip P = pkt_src_ip Q \<longrightarrow> P = Q)"

definition frags_of :: "(u16 \<times> u8 list) set \<Rightarrow> frag_name set" where
  "frags_of T = {(i, P, k). (i, P) \<in> T \<and> k < frag_total_parts P}"

definition slot_of :: "u16 \<Rightarrow> u8 list \<Rightarrow> frag_slot \<Rightarrow> bool" where
  "slot_of i P s \<longleftrightarrow> fs_used s \<and> fs_id s = i \<and> fs_src_ip s = pkt_src_ip P"

definition slots_hold :: "(u16 \<times> u8 list) set \<Rightarrow> frag_slot list \<Rightarrow> bool" where
  "slots_hold T slots \<longleftrightarrow> slots_wf slots
     \<and> (\<forall>s \<in> set slots. fs_used s \<longrightarrow> (\<exists>(i, P) \<in> T. slot_of i P s \<and> slot_holds P s))"

lemma slots_hold_init: "slots_hold T frag_slots_init"
  using slots_wf_init by (simp add: slots_hold_def frag_slots_init_def frag_slot_init_def)

lemma slots_hold_update:
  assumes "slots_hold T slots" and "slots_wf (slots[j := s])"
    and "fs_used s \<longrightarrow> (\<exists>(i, P) \<in> T. slot_of i P s \<and> slot_holds P s)"
  shows "slots_hold T (slots[j := s])"
  using assms by (auto simp: slots_hold_def dest!: set_list_update_cases)

lemma frag_put_key [simp]:
  "fs_used (frag_put P k s) = fs_used s" "fs_id (frag_put P k s) = fs_id s"
  "fs_src_ip (frag_put P k s) = fs_src_ip s"
  by (simp_all add: frag_put_def)

text \<open>The slot a fragment goes to holds parts of its packet.\<close>

lemma frag_slot_picked:
  assumes h: "slots_hold T slots" and T: "traffic T" and iP: "(i, P) \<in> T"
    and pick: "frag_pick_slot slots most i (pkt_src_ip P) = Some (j, ex)"
    and s1: "s1 = (if ex then slots ! j else frag_claim i (pkt_src_ip P) (slots ! j))"
  shows "slot_of i P s1 \<and> slot_holds P s1 \<and> (\<not> ex \<longrightarrow> slot_parts s1 = {})"
proof (cases ex)
  case True
  then have "first_idx (\<lambda>s. fs_used s \<and> fs_id s = i \<and> fs_src_ip s = pkt_src_ip P) slots = Some j"
    using pick by (auto simp: frag_pick_slot_def split: option.splits prod.splits if_splits)
  then have j: "j < length slots" "slot_of i P (slots ! j)"
    by (auto simp: first_idx_Some_iff slot_of_def)
  then have "slots ! j \<in> set slots" by simp
  then obtain i' Q where Q: "(i', Q) \<in> T" "slot_of i' Q (slots ! j)" "slot_holds Q (slots ! j)"
    using h j(2) by (fastforce simp: slots_hold_def slot_of_def)
  then have "i' = i" "pkt_src_ip Q = pkt_src_ip P" using j(2) by (auto simp: slot_of_def)
  then have "Q = P" using T iP Q(1) by (fastforce simp: traffic_def)
  then show ?thesis using Q j True s1 by simp
next
  case False
  have "slots ! j \<in> set slots" using frag_pick_slot_range [OF pick] by simp
  then have "length (fs_buffer (slots ! j)) = FragBufferSize"
    using h by (simp add: slots_hold_def slots_wf_def)
  then show ?thesis using slot_holds_claim False s1 by (simp add: slot_of_def frag_claim_def)
qed

lemma slot_holds_put_len:
  assumes "slot_holds P s" and "length P \<le> FragBufferSize"
  shows "length (fs_buffer s) = FragBufferSize" "fs_total_len s \<le> FragBufferSize"
  using assms by (auto simp: slot_holds_def)

lemma frag_total_len_le:
  assumes s: "slot_holds P s" and P: "0 < length P"
  shows "length (fs_buffer s) = FragBufferSize \<and> fs_total_len s \<le> FragBufferSize"
proof (cases "bit (fs_part_mask s) (frag_total_parts P - 1)")
  case True
  then have "frag_fits P (frag_total_parts P - 1)" "fs_total_len s = length P"
    using s by (auto simp: slot_holds_def)
  then show ?thesis using frag_last_chunk [OF P] s by (simp add: frag_fits_def slot_holds_def)
next
  case False
  then show ?thesis using s by (simp add: slot_holds_def)
qed

lemma ReassembleFrag_sound:
  assumes h: "slots_hold T slots" and T: "traffic T" and iP: "(i, P) \<in> T"
    and k: "k < frag_total_parts P"
  shows "\<exists>slots' most' out. ReassembleFrag slots most (frag_body P i k) n = Some (slots', most', out)
     \<and> slots_hold T slots' \<and> (\<forall>p. out = Some p \<longrightarrow> p = P \<and> length P \<le> n)"
proof (cases "frag_pick_slot slots most i (pkt_src_ip P)")
  case None
  then show ?thesis using ReassembleFrag_body_dropped [OF _ k None] T iP h by (auto simp: traffic_def)
next
  case (Some je)
  obtain j ex where pick: "frag_pick_slot slots most i (pkt_src_ip P) = Some (j, ex)"
    using Some by (cases je) auto
  have P: "frag_packet P" using T iP by (auto simp: traffic_def)
  have pos: "0 < length P" using P unfolding frag_packet_def by linarith
  have wf: "slots_wf slots" using h by (simp add: slots_hold_def)
  define s1 where "s1 = (if ex then slots ! j else frag_claim i (pkt_src_ip P) (slots ! j))"
  define s3 where "s3 = frag_put P k s1"
  note step = ReassembleFrag_body [OF P k wf pick s1_def s3_def, of n]
  have s: "slot_of i P s1" "slot_holds P s1" using frag_slot_picked [OF h T iP pick s1_def] by auto
  show ?thesis
  proof (cases "frag_fits P k")
    case False
    have "slots_wf (slots[j := s1\<lparr>fs_used := False\<rparr>])"
      using wf frag_total_len_le [OF s(2) pos] by (intro slots_wf_update) auto
    then have "slots_hold T (slots[j := s1\<lparr>fs_used := False\<rparr>])" by (intro slots_hold_update [OF h]) auto
    then show ?thesis using step False by simp
  next
    case True
    have s3: "slot_of i P s3" "slot_holds P s3"
      using s slot_holds_put [OF s(2) k True] by (simp_all add: s3_def slot_of_def)
    have "slots_wf (slots[j := s3])" "slots_wf (slots[j := s3\<lparr>fs_used := False\<rparr>])"
      using wf frag_total_len_le [OF s3(2) pos] by (auto intro!: slots_wf_update)
    then have hold: "slots_hold T (slots[j := s3])" "slots_hold T (slots[j := s3\<lparr>fs_used := False\<rparr>])"
      using s3 iP by (auto intro!: slots_hold_update [OF h])
    have "frag_complete P s3 \<Longrightarrow> fs_total_len s3 = length P \<and> take (fs_total_len s3) (fs_buffer s3) = P"
      using slot_all_parts [OF s3(2) _ pos] slot_complete_iff [OF s3(2) P] by simp
    then show ?thesis using step True hold by (cases "frag_complete P s3") (auto split: if_splits)
  qed
qed

lemma reassemble_all_holds:
  assumes T: "traffic T" and "set fs \<subseteq> frags_of T" and "slots_hold T slots"
  shows "\<exists>slots' most' outs. reassemble_all slots most (map frag_bytes fs) n = Some (slots', most', outs)
     \<and> slots_hold T slots' \<and> (\<forall>p \<in> set outs. length p \<le> n \<and> (\<exists>i. (i, p) \<in> T))"
  using assms(2,3)
proof (induction fs arbitrary: slots most)
  case Nil
  then show ?case by simp
next
  case (Cons f fs)
  obtain i P k where f: "f = (i, P, k)" by (cases f)
  then have iP: "(i, P) \<in> T" "k < frag_total_parts P" using Cons.prems by (auto simp: frags_of_def)
  obtain slots' most' out where r: "ReassembleFrag slots most (frag_body P i k) n = Some (slots', most', out)"
    "slots_hold T slots'" "\<forall>p. out = Some p \<longrightarrow> p = P \<and> length P \<le> n"
    using ReassembleFrag_sound [OF Cons.prems(2) T iP, of most n] by blast
  obtain slots'' most'' outs where
    "reassemble_all slots' most' (map frag_bytes fs) n = Some (slots'', most'', outs)"
    "slots_hold T slots''" "\<forall>p \<in> set outs. length p \<le> n \<and> (\<exists>i. (i, p) \<in> T)"
    using Cons.IH [OF _ r(2), of most'] Cons.prems(1) by auto
  then show ?case using r f iP by (auto split: option.splits)
qed

text \<open>C13: Whatever fragments of a traffic reach the table, in any order, duplicated, lost or evicted, only
  packets of that traffic are delivered, byte for byte; never a mixture of two packets.\<close>

theorem reassemble_all_sound:
  assumes "traffic T" and "set fs \<subseteq> frags_of T"
  shows "\<exists>slots most outs. reassemble_all frag_slots_init 0 (map frag_bytes fs) n = Some (slots, most, outs)
     \<and> (\<forall>p \<in> set outs. length p \<le> n \<and> (\<exists>i. (i, p) \<in> T))"
  using reassemble_all_holds [OF assms slots_hold_init, of 0 n] by blast

section \<open>Completeness: every packet comes out\<close>

text \<open>The abstract receiver: a set of fragments received; a packet is complete with its last part.\<close>

definition parts_got :: "frag_name set \<Rightarrow> u16 \<Rightarrow> u8 list \<Rightarrow> nat set" where
  "parts_got R i P = {k. (i, P, k) \<in> R}"

fun frag_completions :: "frag_name list \<Rightarrow> frag_name set \<Rightarrow> u8 list list" where
  "frag_completions [] R = []"
| "frag_completions ((i, P, k) # fs) R =
     (let R' = insert (i, P, k) R
      in if \<forall>m < frag_total_parts P. (i, P, m) \<in> R' then P # frag_completions fs R'
         else frag_completions fs R')"

definition slot_of_pkt :: "frag_slot list \<Rightarrow> u16 \<Rightarrow> u8 list \<Rightarrow> bool" where
  "slot_of_pkt slots i P \<longleftrightarrow> (\<exists>s \<in> set slots. slot_of i P s)"

definition slots_track :: "(u16 \<times> u8 list) set \<Rightarrow> frag_name set \<Rightarrow> frag_slot list \<Rightarrow> bool" where
  "slots_track T R slots \<longleftrightarrow> slots_hold T slots
     \<and> (\<forall>(i, P) \<in> T. \<forall>s \<in> set slots. slot_of i P s \<longrightarrow> slot_parts s = parts_got R i P)
     \<and> (\<forall>(i, P) \<in> T. parts_got R i P \<noteq> {} \<longrightarrow> parts_got R i P \<noteq> {0..<frag_total_parts P}
          \<longrightarrow> slot_of_pkt slots i P)
     \<and> (\<forall>j < length slots. \<forall>j' < length slots. \<forall>(i, P) \<in> T.
          slot_of i P (slots ! j) \<longrightarrow> slot_of i P (slots ! j') \<longrightarrow> j = j')"

lemma slots_track_init: "slots_track T {} frag_slots_init"
  using slots_hold_init [of T]
  by (simp add: slots_track_def frag_slots_init_def frag_slot_init_def slot_of_def parts_got_def)

lemma slots_track_unique:
  assumes "slots_track T R slots" and "(i, P) \<in> T" and "a < length slots" and "b < length slots"
    and "slot_of i P (slots ! a)" and "slot_of i P (slots ! b)"
  shows "a = b"
proof -
  have "\<forall>(i, P) \<in> T. slot_of i P (slots ! a) \<longrightarrow> slot_of i P (slots ! b) \<longrightarrow> a = b"
    using assms(1,3,4) by (simp add: slots_track_def)
  then show ?thesis using assms(2,5,6) by blast
qed

text \<open>At most \<open>NUM_SLOTS\<close> packets in flight: a packet without a slot finds a free one.\<close>

lemma free_slot_exists:
  assumes h: "slots_track T R slots" and fin: "finite T" and card: "card T \<le> NUM_SLOTS"
    and iP: "(i, P) \<in> T" and no: "\<not> slot_of_pkt slots i P"
  shows "\<exists>s \<in> set slots. \<not> fs_used s"
proof (rule ccontr)
  assume "\<not> ?thesis"
  then have used: "\<And>j. j < length slots \<Longrightarrow> fs_used (slots ! j)" by auto
  have len: "length slots = NUM_SLOTS" using h by (simp add: slots_track_def slots_hold_def slots_wf_def)
  have "\<exists>x. x \<in> T \<and> slot_of (fst x) (snd x) (slots ! j)" if "j < length slots" for j
    using h used [OF that] that nth_mem [OF that] unfolding slots_track_def slots_hold_def by fastforce
  then obtain f where f: "\<And>j. j < length slots \<Longrightarrow> f j \<in> T \<and> slot_of (fst (f j)) (snd (f j)) (slots ! j)"
    by metis
  have "inj_on f {0..<length slots}"
  proof (rule inj_onI)
    fix a b
    assume ab: "a \<in> {0..<length slots}" "b \<in> {0..<length slots}" "f a = f b"
    then have "slot_of (fst (f a)) (snd (f a)) (slots ! a)" "slot_of (fst (f a)) (snd (f a)) (slots ! b)"
      "f a \<in> T" using f [of a] f [of b] by auto
    moreover have "\<forall>(i, P) \<in> T. slot_of i P (slots ! a) \<longrightarrow> slot_of i P (slots ! b) \<longrightarrow> a = b"
      using h ab(1,2) by (auto simp: slots_track_def)
    ultimately show "a = b" by (auto simp: case_prod_beta)
  qed
  then have "card (f ` {0..<length slots}) = NUM_SLOTS" using len by (simp add: card_image)
  moreover have "f ` {0..<length slots} \<subseteq> T - {(i, P)}"
  proof (rule image_subsetI)
    fix j
    assume "j \<in> {0..<length slots}"
    then have "f j \<in> T" "slot_of (fst (f j)) (snd (f j)) (slots ! j)" "slots ! j \<in> set slots"
      using f [of j] by auto
    then show "f j \<in> T - {(i, P)}" using no by (auto simp: slot_of_pkt_def)
  qed
  then have "card (f ` {0..<length slots}) \<le> card (T - {(i, P)})" using fin by (intro card_mono) auto
  moreover have "card (T - {(i, P)}) < NUM_SLOTS"
    using iP fin card card_Diff1_less [of T "(i, P)"] by linarith
  ultimately show False by simp
qed

lemma pick_existing_or_free:
  assumes "slot_of_pkt slots i P \<or> (\<exists>s \<in> set slots. \<not> fs_used s)"
  shows "\<exists>j ex. frag_pick_slot slots most i (pkt_src_ip P) = Some (j, ex)
     \<and> (ex \<longrightarrow> slot_of i P (slots ! j)) \<and> (\<not> ex \<longrightarrow> \<not> slot_of_pkt slots i P \<and> \<not> fs_used (slots ! j))"
proof (cases "first_idx (\<lambda>s. fs_used s \<and> fs_id s = i \<and> fs_src_ip s = pkt_src_ip P) slots")
  case None
  then have no: "\<not> slot_of_pkt slots i P"
    by (auto simp: first_idx_None_iff slot_of_pkt_def slot_of_def)
  then obtain j where j: "first_idx (\<lambda>s. \<not> fs_used s) slots = Some j"
    using assms by (cases "first_idx (\<lambda>s. \<not> fs_used s) slots") (auto simp: first_idx_None_iff)
  then have "\<not> fs_used (slots ! j)" by (simp add: first_idx_Some_iff)
  moreover have "frag_pick_slot slots most i (pkt_src_ip P) = Some (j, False)"
    using None j by (simp add: frag_pick_slot_def)
  ultimately show ?thesis using no by blast
next
  case (Some j)
  then have "slot_of i P (slots ! j)" by (simp add: first_idx_Some_iff slot_of_def)
  moreover have "frag_pick_slot slots most i (pkt_src_ip P) = Some (j, True)"
    using Some by (simp add: frag_pick_slot_def)
  ultimately show ?thesis by blast
qed

lemma parts_got_insert:
  "parts_got (insert (i, P, k) R) i' P' =
     (if i' = i \<and> P' = P then insert k (parts_got R i P) else parts_got R i' P')"
  by (auto simp: parts_got_def)

lemma slot_of_unique_packet:
  "traffic T \<Longrightarrow> (i, P) \<in> T \<Longrightarrow> (i', P') \<in> T \<Longrightarrow> slot_of i P s \<Longrightarrow> slot_of i' P' s \<Longrightarrow> i' = i \<and> P' = P"
  by (fastforce simp: traffic_def slot_of_def)

text \<open>Storing \<open>s\<close> as the slot of the fragment's packet, or freeing the slot on completion, keeps the
  table in step with the abstract receiver: what the slots hold, which packets have one, and that no
  packet has two.\<close>

lemma store_parts:
  assumes h: "slots_track T R slots" and T: "traffic T" and iP: "(i, P) \<in> T"
    and only: "\<And>m. m < length slots \<Longrightarrow> slot_of i P (slots ! m) \<Longrightarrow> m = j"
    and s: "fs_used s \<Longrightarrow> slot_of i P s \<and> slot_parts s = insert k (parts_got R i P)"
    and *: "(i', P') \<in> T" "t \<in> set (slots[j := s])" "slot_of i' P' t"
  shows "slot_parts t = parts_got (insert (i, P, k) R) i' P'"
proof -
  obtain m where m: "m < length slots" "t = slots[j := s] ! m" using *(2) by (auto simp: in_set_conv_nth)
  show ?thesis
  proof (cases "m = j")
    case True
    then have t: "t = s" using m by simp
    then have "slot_of i P s" "slot_parts s = insert k (parts_got R i P)" using *(3) s by (auto simp: slot_of_def)
    moreover have "i' = i \<and> P' = P" using slot_of_unique_packet [OF T iP *(1)] calculation(1) *(3) t by blast
    ultimately show ?thesis by (simp add: t parts_got_insert)
  next
    case False
    then have t: "t = slots ! m" "t \<in> set slots" using m by auto
    moreover have "\<not> (i' = i \<and> P' = P)" using only [OF m(1)] *(3) t False by auto
    moreover have "slot_parts t = parts_got R i' P'" using h * t by (auto simp: slots_track_def)
    ultimately show ?thesis by (simp only: parts_got_insert if_False)
  qed
qed

lemma store_present:
  assumes h: "slots_track T R slots" and T: "traffic T" and iP: "(i, P) \<in> T"
    and j: "j < length slots" and old: "slot_of i P (slots ! j) \<or> \<not> fs_used (slots ! j)"
    and s: "fs_used s \<Longrightarrow> slot_of i P s \<and> slot_parts s = insert k (parts_got R i P)"
    and free: "\<not> fs_used s \<Longrightarrow> insert k (parts_got R i P) = {0..<frag_total_parts P}"
    and *: "(i', P') \<in> T" "parts_got (insert (i, P, k) R) i' P' \<noteq> {}"
      "parts_got (insert (i, P, k) R) i' P' \<noteq> {0..<frag_total_parts P'}"
  shows "slot_of_pkt (slots[j := s]) i' P'"
proof (cases "i' = i \<and> P' = P")
  case True
  then have "slot_of i' P' s" using * free s by (auto simp: parts_got_insert)
  then show ?thesis using j by (auto simp: slot_of_pkt_def intro: set_update_memI)
next
  case False
  then have "parts_got (insert (i, P, k) R) i' P' = parts_got R i' P'" by (auto simp: parts_got_def)
  then have "slot_of_pkt slots i' P'" using h * by (auto simp: slots_track_def)
  then obtain m where m: "m < length slots" "slot_of i' P' (slots ! m)"
    by (auto simp: slot_of_pkt_def in_set_conv_nth)
  have "m \<noteq> j"
  proof
    assume "m = j"
    then have "slot_of i P (slots ! m)" using old m(2) by (auto simp: slot_of_def)
    then show False using slot_of_unique_packet [OF T iP *(1)] m(2) False by blast
  qed
  then have "slots[j := s] ! m = slots ! m" using m(1) by simp
  then show ?thesis using m by (metis length_list_update nth_mem slot_of_pkt_def)
qed

lemma store_unique:
  assumes h: "slots_track T R slots" and T: "traffic T" and iP: "(i, P) \<in> T" and j: "j < length slots"
    and only: "\<And>m. m < length slots \<Longrightarrow> slot_of i P (slots ! m) \<Longrightarrow> m = j"
    and s: "fs_used s \<Longrightarrow> slot_of i P s \<and> slot_parts s = insert k (parts_got R i P)"
    and *: "a < length slots" "b < length slots" "(i', P') \<in> T" "slot_of i' P' (slots[j := s] ! a)"
      "slot_of i' P' (slots[j := s] ! b)"
  shows "a = b"
proof (cases "a = j \<or> b = j")
  case True
  then have "slot_of i' P' s" using * j by auto
  then have eq: "i' = i \<and> P' = P"
    using s slot_of_unique_packet [OF T iP *(3)] by (auto simp: slot_of_def)
  have "m = j" if "m < length slots" "slot_of i P (slots[j := s] ! m)" for m
    using only [of m] that by (cases "m = j") simp_all
  then show ?thesis using * eq by metis
next
  case False
  then have "slots[j := s] ! a = slots ! a" "slots[j := s] ! b = slots ! b" using * by simp_all
  then show ?thesis using slots_track_unique [OF h *(3), of a b] * by simp
qed

lemma slots_track_store:
  assumes h: "slots_track T R slots" and T: "traffic T" and iP: "(i, P) \<in> T"
    and j: "j < length slots" and old: "slot_of i P (slots ! j) \<or> \<not> fs_used (slots ! j)"
    and only: "\<And>m. m < length slots \<Longrightarrow> slot_of i P (slots ! m) \<Longrightarrow> m = j"
    and hold: "slots_hold T (slots[j := s])"
    and s: "fs_used s \<Longrightarrow> slot_of i P s \<and> slot_parts s = insert k (parts_got R i P)"
    and free: "\<not> fs_used s \<Longrightarrow> insert k (parts_got R i P) = {0..<frag_total_parts P}"
  shows "slots_track T (insert (i, P, k) R) (slots[j := s])"
  unfolding slots_track_def length_list_update
proof (intro conjI hold ballI impI allI; clarify)
  show "slot_parts t = parts_got (insert (i, P, k) R) i' P'"
    if "(i', P') \<in> T" "t \<in> set (slots[j := s])" "slot_of i' P' t" for i' P' t
    by (rule store_parts [OF h T iP only s that])
  show "slot_of_pkt (slots[j := s]) i' P'"
    if "(i', P') \<in> T" "parts_got (insert (i, P, k) R) i' P' \<noteq> {}"
      "parts_got (insert (i, P, k) R) i' P' \<noteq> {0..<frag_total_parts P'}" for i' P'
    by (rule store_present [OF h T iP j old s free that])
  show "a = b" if "a < length slots" "b < length slots" "(i', P') \<in> T" "slot_of i' P' (slots[j := s] ! a)"
      "slot_of i' P' (slots[j := s] ! b)" for a b i' P'
    by (rule store_unique [OF h T iP j only s that])
qed

text \<open>The slot that a fragment of a tracked packet is put into holds the parts of that packet received so
  far, and no other slot is the packet's.\<close>

lemma picked_slot_parts:
  assumes h: "slots_track T R slots" and iP: "(i, P) \<in> T" and j: "j < length slots"
    and yes: "ex \<Longrightarrow> slot_of i P (slots ! j)" and no: "\<not> ex \<Longrightarrow> \<not> slot_of_pkt slots i P"
    and s1: "ex \<Longrightarrow> s1 = slots ! j" "\<not> ex \<Longrightarrow> slot_parts s1 = {}"
    and k: "k < frag_total_parts P" "(i, P, k) \<notin> R"
  shows "slot_parts s1 = parts_got R i P"
proof (cases ex)
  case True
  then show ?thesis using h yes iP j nth_mem [OF j] s1(1) by (auto simp: slots_track_def)
next
  case False
  have "parts_got R i P \<noteq> {0..<frag_total_parts P}" using k by (auto simp: parts_got_def)
  then have "parts_got R i P = {}" using h no [OF False] iP by (auto simp: slots_track_def)
  then show ?thesis using s1(2) [OF False] by simp
qed

lemma picked_slot_only:
  assumes h: "slots_track T R slots" and iP: "(i, P) \<in> T" and j: "j < length slots"
    and yes: "ex \<Longrightarrow> slot_of i P (slots ! j)" and no: "\<not> ex \<Longrightarrow> \<not> slot_of_pkt slots i P"
    and m: "m < length slots" "slot_of i P (slots ! m)"
  shows "m = j"
proof -
  have "slots ! m \<in> set slots" using m(1) by simp
  then have "slot_of_pkt slots i P" using m(2) by (auto simp: slot_of_pkt_def)
  then have ex using no by blast
  then show ?thesis using slots_track_unique [OF h iP m(1) j m(2)] yes by blast
qed

lemma frag_fits_small:
  assumes "0 < length P" and "length P \<le> FragBufferSize" and "k < frag_total_parts P"
  shows "frag_fits P k"
proof -
  have "k * frag_chunk_size < length P" using frag_parts_arith [OF assms(1)] assms(3) by blast
  then show ?thesis using assms(2)
    unfolding frag_fits_def frag_chunk_length by (auto simp: frag_consts min_def)
qed

lemma ReassembleFrag_complete:
  assumes h: "slots_track T R slots" and T: "traffic T" and iP: "(i, P) \<in> T"
    and fin: "finite T" "card T \<le> NUM_SLOTS" and k: "k < frag_total_parts P" "(i, P, k) \<notin> R"
    and len: "length P \<le> FragBufferSize" "length P \<le> n"
  shows "\<exists>slots' most'. ReassembleFrag slots most (frag_body P i k) n
       = Some (slots', most', if insert k (parts_got R i P) = {0..<frag_total_parts P} then Some P else None)
     \<and> slots_track T (insert (i, P, k) R) slots'"
proof -
  let ?full = "insert k (parts_got R i P) = {0..<frag_total_parts P}"
  have P: "frag_packet P" using T iP by (auto simp: traffic_def)
  have pos: "0 < length P" using P unfolding frag_packet_def by linarith
  have hold: "slots_hold T slots" and wf: "slots_wf slots"
    using h by (simp_all add: slots_track_def slots_hold_def)
  obtain j ex where pick: "frag_pick_slot slots most i (pkt_src_ip P) = Some (j, ex)"
    and yes: "ex \<Longrightarrow> slot_of i P (slots ! j)"
    and no: "\<not> ex \<Longrightarrow> \<not> slot_of_pkt slots i P \<and> \<not> fs_used (slots ! j)"
    using pick_existing_or_free [of slots i P most] free_slot_exists [OF h fin iP] by blast
  have j: "j < length slots" using frag_pick_slot_range [OF pick] .
  define s1 where "s1 = (if ex then slots ! j else frag_claim i (pkt_src_ip P) (slots ! j))"
  define s3 where "s3 = frag_put P k s1"
  have s1: "slot_of i P s1" "slot_holds P s1" "\<not> ex \<Longrightarrow> slot_parts s1 = {}"
    using frag_slot_picked [OF hold T iP pick s1_def] by auto
  have parts1: "slot_parts s1 = parts_got R i P"
    by (rule picked_slot_parts [OF h iP j yes _ _ s1(3) k]) (use no s1_def in auto)
  have fits: "frag_fits P k" by (rule frag_fits_small [OF pos len(1) k(1)])
  have s3: "slot_of i P s3" "slot_holds P s3" "slot_parts s3 = insert k (parts_got R i P)"
    using s1 slot_holds_put [OF s1(2) k(1) fits] slot_parts_put [of k P s1] fits
    by (simp_all add: s3_def slot_of_def parts1 frag_fits_def)
  have full: "frag_complete P s3 \<longleftrightarrow> ?full" using slot_complete_iff [OF s3(2) P] s3(3) by simp
  have out: "?full \<Longrightarrow> fs_total_len s3 = length P \<and> take (fs_total_len s3) (fs_buffer s3) = P"
    using slot_all_parts [OF s3(2) _ pos] s3(3) by simp
  have wf3: "slots_wf (slots[j := s3])" "slots_wf (slots[j := s3\<lparr>fs_used := False\<rparr>])"
    using wf frag_total_len_le [OF s3(2) pos] by (auto intro!: slots_wf_update)
  then have hold3: "slots_hold T (slots[j := s3])" "slots_hold T (slots[j := s3\<lparr>fs_used := False\<rparr>])"
    using s3 iP by (auto intro!: slots_hold_update [OF hold])
  have old: "slot_of i P (slots ! j) \<or> \<not> fs_used (slots ! j)" using yes no by blast
  have only: "m = j" if "m < length slots" "slot_of i P (slots ! m)" for m
    using picked_slot_only [OF h iP j yes _ that] no by blast
  note store = slots_track_store [OF h T iP j old only]
  have track: "slots_track T (insert (i, P, k) R) (slots[j := s3])"
    by (rule store) (use s3(1,3) hold3(1) in \<open>auto simp: slot_of_def\<close>)
  have track': "?full \<Longrightarrow> slots_track T (insert (i, P, k) R) (slots[j := s3\<lparr>fs_used := False\<rparr>])"
    by (rule store) (use hold3(2) in auto)
  show ?thesis
    using ReassembleFrag_body [OF P k(1) wf pick s1_def s3_def, of n] fits full out track track' len(2)
    by (cases ?full) auto
qed

lemma traffic_parts_pos: "traffic T \<Longrightarrow> (i, P) \<in> T \<Longrightarrow> 0 < frag_total_parts P"
  by (fastforce simp: traffic_def frag_packet_def intro: frag_last_chunk(2))

lemma frag_completions_parts:
  "insert k (parts_got R i P) = {0..<frag_total_parts P} \<longleftrightarrow>
     (\<forall>m < frag_total_parts P. (i, P, m) \<in> insert (i, P, k) R)"
  if "k < frag_total_parts P" "R \<subseteq> frags_of T"
  using that by (auto simp: parts_got_def frags_of_def)

text \<open>What the abstract receiver promises: a packet is delivered iff all its fragments arrived.\<close>

lemma frag_completions_mem:
  "P \<in> set (frag_completions fs R) \<Longrightarrow>
     \<exists>i. \<forall>m < frag_total_parts P. (i, P, m) \<in> set fs \<union> R"
  by (induction fs R rule: frag_completions.induct) (fastforce simp: Let_def split: if_splits)+

lemma frag_completions_delivers:
  assumes "\<forall>m < frag_total_parts P. (i, P, m) \<in> set fs \<union> R" and "distinct fs"
    and "set fs \<inter> R = {}" and "\<exists>m < frag_total_parts P. (i, P, m) \<notin> R"
  shows "P \<in> set (frag_completions fs R)"
  using assms
proof (induction fs R rule: frag_completions.induct)
  case (1 R)
  then show ?case by auto
next
  case (2 i' Q k fs R)
  show ?case
  proof (cases "\<forall>m < frag_total_parts P. (i, P, m) \<in> insert (i', Q, k) R")
    case True
    then have "i' = i \<and> Q = P" using 2(6) by auto
    then show ?thesis using True by (simp add: Let_def)
  next
    case False
    then have "P \<in> set (frag_completions fs (insert (i', Q, k) R))"
      using 2 by (cases "\<forall>m < frag_total_parts Q. (i', Q, m) \<in> insert (i', Q, k) R") (auto simp: Let_def)
    then show ?thesis by (simp add: Let_def)
  qed
qed

lemma reassemble_all_tracked:
  assumes T: "traffic T" and fin: "finite T" "card T \<le> NUM_SLOTS"
    and len: "\<forall>(i, P) \<in> T. length P \<le> FragBufferSize \<and> length P \<le> n"
    and fs: "distinct fs" "set fs \<subseteq> frags_of T"
    and "slots_track T R slots" "R \<subseteq> frags_of T" "set fs \<inter> R = {}"
  shows "\<exists>slots' most'. reassemble_all slots most (map frag_bytes fs) n
      = Some (slots', most', frag_completions fs R) \<and> slots_track T (set fs \<union> R) slots'"
  using assms(5-)
proof (induction fs arbitrary: slots most R)
  case Nil
  then show ?case by simp
next
  case (Cons f fs)
  obtain i P k where f: "f = (i, P, k)" by (cases f)
  then have iP: "(i, P) \<in> T" "k < frag_total_parts P" "(i, P, k) \<notin> R"
    using Cons.prems by (auto simp: frags_of_def)
  have l: "length P \<le> FragBufferSize" "length P \<le> n" using len iP by auto
  obtain slots' most' where r: "ReassembleFrag slots most (frag_body P i k) n = Some (slots', most',
      if \<forall>m < frag_total_parts P. (i, P, m) \<in> insert (i, P, k) R then Some P else None)"
    "slots_track T (insert (i, P, k) R) slots'"
    using ReassembleFrag_complete [OF Cons.prems(3) T iP(1) fin iP(2,3) l, of most]
    unfolding frag_completions_parts [OF iP(2) Cons.prems(4)] by blast
  have sub: "insert (i, P, k) R \<subseteq> frags_of T" using Cons.prems f by auto
  obtain slots'' most'' where "reassemble_all slots' most' (map frag_bytes fs) n
      = Some (slots'', most'', frag_completions fs (insert (i, P, k) R))"
    "slots_track T (set fs \<union> insert (i, P, k) R) slots''"
    using Cons.IH [OF _ _ r(2) sub, of most'] Cons.prems f by auto
  then show ?case using r(1) f by (auto simp: Let_def)
qed


definition two_packets :: "(u16 \<times> u8 list) set" where
  "two_packets = {(7, replicate 1400 1), (8, replicate 20 2)}"

lemma traffic_two_packets: "traffic two_packets"
  by (auto simp: traffic_def two_packets_def frag_packet_def frag_total_parts_def frag_consts)

lemma frags_of_two_packets:
  "(7, replicate 1400 1, 0) \<in> frags_of two_packets" "(7, replicate 1400 1, 1) \<in> frags_of two_packets"
  "(8, replicate 20 2, 0) \<in> frags_of two_packets"
  by (simp_all add: frags_of_def two_packets_def frag_total_parts_def frag_consts)

theorem reassemble_all_sound_witness:
  "\<exists>slots most outs. reassemble_all frag_slots_init 0
       (map frag_bytes [(7, replicate 1400 1, 1), (8, replicate 20 2, 0), (7, replicate 1400 1, 1)]) 1428
     = Some (slots, most, outs) \<and> (\<forall>p \<in> set outs. length p \<le> 1428 \<and> (\<exists>i. (i, p) \<in> two_packets))"
  by (rule reassemble_all_sound [OF traffic_two_packets]) (use frags_of_two_packets in simp)


section \<open>Eviction\<close>

lemma evict_scan_spec:
  "evict_scan slots k most m e = (m', e') \<Longrightarrow>
     m \<le> m' \<and> (\<forall>s \<in> set slots. fs_used s \<longrightarrow> frag_dist (fs_id s) most \<le> m')
     \<and> (e' = e \<and> m' = m \<or> (\<exists>j < length slots. e' = Some (k + j) \<and> fs_used (slots ! j)
          \<and> frag_dist (fs_id (slots ! j)) most = m' \<and> m < m'))"
proof (induction slots k most m e rule: evict_scan.induct)
  case (1 k most m e)
  then show ?case by simp
next
  case (2 s slots k most m e)
  let ?d = "frag_dist (fs_id s) most"
  have ex: "\<exists>j < length (s # slots). e' = Some (k + j) \<and> Q ((s # slots) ! j)"
    if *: "\<exists>j < length slots. e' = Some (Suc k + j) \<and> Q (slots ! j)" for Q
  proof -
    obtain j where "j < length slots" "e' = Some (Suc k + j)" "Q (slots ! j)" using * by blast
    then show ?thesis by (intro exI [of _ "Suc j"]) simp
  qed
  have ex0: "\<exists>j < length (s # slots). e' = Some (k + j) \<and> Q ((s # slots) ! j)" if "e' = Some k" "Q s" for Q
    using that by (intro exI [of _ 0]) simp
  consider (free) "\<not> fs_used s" | (more) "fs_used s" "?d > m" | (less) "fs_used s" "?d \<le> m" by linarith
  then show ?case
  proof cases
    case free
    then have "evict_scan slots (Suc k) most m e = (m', e')" using 2(4) by simp
    note * = 2(1) [OF free this]
    show ?thesis
      using * free ex [of "\<lambda>s. fs_used s \<and> frag_dist (fs_id s) most = m' \<and> m < m'"] by fastforce
  next
    case more
    then have "evict_scan slots (Suc k) most ?d (Some k) = (m', e')" using 2(4) by (simp add: Let_def)
    note * = 2(2) [OF _ refl more(2) this]
    show ?thesis
      using * more ex [of "\<lambda>s. fs_used s \<and> frag_dist (fs_id s) most = m' \<and> m < m'"]
        ex0 [of "\<lambda>s. fs_used s \<and> frag_dist (fs_id s) most = m' \<and> m < m'"] by fastforce
  next
    case less
    then have "evict_scan slots (Suc k) most m e = (m', e')" using 2(4) by (simp add: Let_def)
    note * = 2(3) [OF _ refl _ this]
    show ?thesis
      using * less ex [of "\<lambda>s. fs_used s \<and> frag_dist (fs_id s) most = m' \<and> m < m'"] by fastforce
  qed
qed

text \<open>With every slot taken, a fragment of a new group takes over the slot whose identifier drifted
  furthest from the last delivered one, and only if it drifted by more than ten; otherwise the
  fragment is dropped and no group in progress is lost.\<close>

theorem frag_pick_slot_eviction:
  assumes "\<forall>s \<in> set slots. fs_used s \<and> \<not> (fs_id s = i \<and> fs_src_ip s = src)"
  shows "case frag_pick_slot slots most i src of
           None \<Rightarrow> \<forall>s \<in> set slots. frag_dist (fs_id s) most \<le> 10
         | Some (k, existing) \<Rightarrow> \<not> existing \<and> k < length slots \<and> 10 < frag_dist (fs_id (slots ! k)) most
             \<and> (\<forall>s \<in> set slots. frag_dist (fs_id s) most \<le> frag_dist (fs_id (slots ! k)) most)"
proof -
  have no: "first_idx (\<lambda>s. fs_used s \<and> fs_id s = i \<and> fs_src_ip s = src) slots = None"
    "first_idx (\<lambda>s. \<not> fs_used s) slots = None"
    using assms by (auto simp: first_idx_None_iff)
  obtain m e where sc: "evict_scan slots 0 most 0 None = (m, e)" by fastforce
  have le: "\<forall>s \<in> set slots. frag_dist (fs_id s) most \<le> m"
    using evict_scan_spec [OF sc] assms by blast
  show ?thesis
  proof (cases e)
    case None
    then have "m = 0" using evict_scan_spec [OF sc] by auto
    then show ?thesis using no sc None le by (auto simp: frag_pick_slot_def)
  next
    case (Some k)
    then have k: "k < length slots" "frag_dist (fs_id (slots ! k)) most = m" using evict_scan_spec [OF sc] by auto
    show ?thesis
    proof (cases "m > 10")
      case True
      then show ?thesis using no sc Some k le by (simp add: frag_pick_slot_def)
    next
      case False
      then have "\<forall>s \<in> set slots. frag_dist (fs_id s) most \<le> 10" using le by fastforce
      then show ?thesis using no sc Some False by (simp add: frag_pick_slot_def)
    qed
  qed
qed

theorem frag_pick_slot_eviction_witness:
  "case frag_pick_slot [frag_slot_init\<lparr>fs_used := True, fs_id := 3\<rparr>, frag_slot_init\<lparr>fs_used := True, fs_id := 40\<rparr>]
       41 42 [10, 13, 0, 1] of
     None \<Rightarrow> False
   | Some (k, existing) \<Rightarrow> \<not> existing \<and> k = 0"
proof -
  let ?slots = "[frag_slot_init\<lparr>fs_used := True, fs_id := 3\<rparr>, frag_slot_init\<lparr>fs_used := True, fs_id := 40\<rparr>]"
  have "\<forall>s \<in> set ?slots. fs_used s \<and> \<not> (fs_id s = 42 \<and> fs_src_ip s = [10, 13, 0, 1])"
    by (simp add: frag_slot_init_def)
  note * = frag_pick_slot_eviction [OF this, of 41]
  have "frag_dist 3 41 = 38" "frag_dist 40 41 = 1" by (simp_all add: frag_dist_def)
  then show ?thesis using *
    by (auto split: option.splits prod.splits simp: less_Suc_eq numeral_2_eq_2)
qed

end
