(* ===== verification/Relay.thy ===== *)
theory Relay
  imports RingQueue Reassembly Dns
begin

text \<open>
  The relay transport of \<^verbatim>\<open>relay_bridge.hpp\<close>: class \<open>RelayBridge\<close> with its socket, keepalive, fragment
  identifiers, reassembly table, pump thread and inbound queue. The datagram socket is a parameter:
  \<open>os_sendto\<close> maps the earlier calls of \<open>sendto\<close> (ghost field \<open>m_sent\<close>) and the new datagram to the
  return value of \<open>sendto\<close>. \<open>None\<close> stands for an access outside a buffer.
\<close>

section \<open>State\<close>

definition KEEPALIVE_INTERVAL_MS :: u64 where "KEEPALIVE_INTERVAL_MS = 2000"
definition RELAY_LOCAL_PORT :: u16 where "RELAY_LOCAL_PORT = 45454"

definition FrameKeepalive :: u8 where "FrameKeepalive = 0"
definition FrameIpv4 :: u8 where "FrameIpv4 = 1"
definition FramePing :: u8 where "FramePing = 2"
definition FrameIpv4Frag :: u8 where "FrameIpv4Frag = 3"
definition FrameAuthMe :: u8 where "FrameAuthMe = 4"

lemmas frame_types = FrameKeepalive_def FrameIpv4_def FramePing_def FrameIpv4Frag_def FrameAuthMe_def

definition PumpPktSize :: nat where "PumpPktSize = 20 + 8 + RELAY_MTU"
definition RawFrameSize :: nat where "RawFrameSize = 1 + RELAY_MTU + FragHeaderSize"

type_synonym sent_log = "(u8 list \<times> int) list"
type_synonym os_send = "sent_log \<Rightarrow> u8 list \<Rightarrow> int"

record relay =
  m_fd :: int
  m_connected :: bool
  m_relay_addr :: "u32 \<times> u16"
  m_last_keepalive_tick :: u64
  m_next_frag_id :: u16
  m_slots :: "frag_slot list"
  m_most_success_frag_id :: u16
  m_queue :: ring
  m_pump_started :: bool
  m_pump_stop :: bool
  m_sent :: sent_log

definition relay_init :: relay where
  "relay_init =
     \<lparr>m_fd = - 1, m_connected = False, m_relay_addr = (0, 0), m_last_keepalive_tick = 0,
      m_next_frag_id = 0, m_slots = frag_slots_init, m_most_success_frag_id = 0,
      m_queue = ring_empty, m_pump_started = False, m_pump_stop = False, m_sent = []\<rparr>"

section \<open>Sending\<close>

definition SendRaw :: "os_send \<Rightarrow> u8 list \<Rightarrow> relay \<Rightarrow> int \<times> relay" where
  "SendRaw os d r =
     (if \<not> m_connected r then (- 1, r)
      else let rc = os (m_sent r) d in (rc, r\<lparr>m_sent := m_sent r @ [(d, rc)]\<rparr>))"

definition SendKeepalive :: "os_send \<Rightarrow> relay \<Rightarrow> relay" where
  "SendKeepalive os r = snd (SendRaw os [FrameKeepalive] r)"

definition CheckKeepalive :: "os_send \<Rightarrow> (u64 \<Rightarrow> u64) \<Rightarrow> u64 \<Rightarrow> relay \<Rightarrow> relay" where
  "CheckKeepalive os ticks_to_ns now r =
     (if ticks_to_ns (now - m_last_keepalive_tick r) div 1000000 \<ge> KEEPALIVE_INTERVAL_MS
      then (SendKeepalive os r)\<lparr>m_last_keepalive_tick := now\<rparr>
      else r)"

text \<open>The loop of \<open>SendFragmented\<close> from part \<open>part\<close> at offset \<open>pos\<close>; the first argument counts the
  parts left.\<close>

fun send_frags :: "nat \<Rightarrow> os_send \<Rightarrow> u8 list \<Rightarrow> u16 \<Rightarrow> nat \<Rightarrow> nat \<Rightarrow> relay \<Rightarrow> int \<times> relay" where
  "send_frags 0 os packet frag_id part pos r = (int (length packet), r)"
| "send_frags (Suc left) os packet frag_id part pos r =
     (let part_len = (if length packet - pos < frag_chunk_size then length packet - pos
                      else frag_chunk_size);
          (rc, r') = SendRaw os (FrameIpv4Frag # frag_body_at packet frag_id part pos) r
      in if rc < 0 then (rc, r')
         else send_frags left os packet frag_id (part + 1) (pos + part_len) r')"

definition SendFragmented :: "os_send \<Rightarrow> u8 list \<Rightarrow> relay \<Rightarrow> int \<times> relay" where
  "SendFragmented os packet r =
     (let total_part = frag_total_parts packet
      in if total_part > 0xFF then (- 1, r)
         else let frag_id = m_next_frag_id r
              in send_frags total_part os packet frag_id 0 0 (r\<lparr>m_next_frag_id := frag_id + 1\<rparr>))"

definition SendIpv4 :: "os_send \<Rightarrow> u8 list \<Rightarrow> relay \<Rightarrow> int \<times> relay" where
  "SendIpv4 os packet r =
     (if \<not> m_connected r then (- 1, r)
      else if length packet \<le> RELAY_MTU then SendRaw os (FrameIpv4 # packet) r
      else SendFragmented os packet r)"

section \<open>Receiving\<close>

datatype recv_result = RecvNone | RecvHandled | RecvPacket "u8 list"

text \<open>\<open>dgram = None\<close>: the non-blocking \<open>recvfrom\<close> has nothing to deliver or fails. A longer datagram
  is cut to the size of \<open>raw\<close>.\<close>

definition RecvIpv4 :: "nat \<Rightarrow> u8 list option \<Rightarrow> relay \<Rightarrow> (recv_result \<times> relay) option" where
  "RecvIpv4 out_buf_size dgram r =
     (case dgram of
        None \<Rightarrow> Some (RecvNone, r)
      | Some d \<Rightarrow>
          let raw = take RawFrameSize d
          in if raw = [] then Some (RecvNone, r)
             else let ftype = hd raw AND 0x7F
                  in if ftype = FrameIpv4 then
                       (if length raw - 1 > out_buf_size then Some (RecvNone, r)
                        else Some (RecvPacket (tl raw), r))
                     else if ftype = FrameIpv4Frag then
                       (if length raw < 1 + FragHeaderSize then Some (RecvHandled, r)
                        else do {
                          (slots, most, out) \<leftarrow> ReassembleFrag (m_slots r) (m_most_success_frag_id r)
                              (tl raw) out_buf_size;
                          let r' = r\<lparr>m_slots := slots, m_most_success_frag_id := most\<rparr>;
                          Some (case out of None \<Rightarrow> RecvHandled | Some p \<Rightarrow> RecvPacket p, r')
                        })
                     else Some (RecvHandled, r))"

text \<open>One round of \<open>PumpLoop\<close> on the datagrams waiting in the socket: the inner loop runs while
  \<open>RecvIpv4\<close> returns 1; what it leaves waits for the next round.\<close>

fun pump_drain :: "u8 list list \<Rightarrow> relay \<Rightarrow> (u8 list list \<times> relay) option" where
  "pump_drain [] r = Some ([], r)"
| "pump_drain (d # sock) r = do {
     (res, r') \<leftarrow> RecvIpv4 PumpPktSize (Some d) r;
     case res of
       RecvPacket p \<Rightarrow> pump_drain sock (r'\<lparr>m_queue := ring_push p (m_queue r')\<rparr>)
     | _ \<Rightarrow> Some (sock, r')
   }"

definition pump_round :: "os_send \<Rightarrow> (u64 \<Rightarrow> u64) \<Rightarrow> u64 \<Rightarrow> u8 list list \<Rightarrow> relay \<Rightarrow> (u8 list list \<times> relay) option" where
  "pump_round os ticks_to_ns now sock r =
     (if m_pump_stop r then Some (sock, r)
      else pump_drain sock (CheckKeepalive os ticks_to_ns now r))"

section \<open>Connecting and closing\<close>

datatype result = ResultSuccess | ResultIoError

definition StartPump :: "bool \<Rightarrow> relay \<Rightarrow> relay" where
  "StartPump thread_ok r =
     (if m_pump_started r then r
      else let r' = r\<lparr>m_pump_stop := False\<rparr>
           in if \<not> thread_ok then r' else r'\<lparr>m_pump_started := True\<rparr>)"

definition StopPump :: "relay \<Rightarrow> relay" where
  "StopPump r =
     (if \<not> m_pump_started r then r
      else r\<lparr>m_pump_stop := True, m_pump_started := False\<rparr>)"

definition RelayClose :: "relay \<Rightarrow> relay" where
  "RelayClose r =
     (let r1 = StopPump r;
          r2 = (if m_fd r1 \<ge> 0 then r1\<lparr>m_fd := - 1\<rparr> else r1)
      in r2\<lparr>m_queue := ring_reset (m_queue r2), m_connected := False\<rparr>)"

definition GetDnsServer :: "(u32 \<times> u32) option \<Rightarrow> u32" where
  "GetDnsServer ip_config =
     (case ip_config of
        Some (dns1, dns2) \<Rightarrow> if dns1 \<noteq> 0 then dns1 else if dns2 \<noteq> 0 then dns2 else 0x08080808
      | None \<Rightarrow> 0x08080808)"

text \<open>\<open>dns_exchange\<close> is the UDP round trip to the name server: \<open>None\<close> when the socket, the send or
  the receive fails, otherwise the datagram received, cut to the 512 bytes of \<open>resp\<close>; \<open>junk\<close> is what
  the rest of that buffer holds.\<close>

definition ResolveHostname ::
  "(u8 list \<Rightarrow> u8 list option) \<Rightarrow> u8 list \<Rightarrow> u8 list \<Rightarrow> u8 list option option" where
  "ResolveHostname dns_exchange junk host = do {
     h0 \<leftarrow> rd (host @ [0]) 0; h1 \<leftarrow> rd (host @ [0]) 1;
     query \<leftarrow> DnsBuildQuery host (be16 h0 h1 XOR 0x5A5A) 512;
     case query of
       None \<Rightarrow> Some None
     | Some q \<Rightarrow>
         (case dns_exchange q of
            None \<Rightarrow> Some None
          | Some reply \<Rightarrow>
              let got = take 512 reply
              in DnsParseResponseA (take 512 (got @ drop (length got) junk)) (length got))
   }"

text \<open>\<open>sock\<close> is what \<open>socket\<close> returns, \<open>inet_pton\<close> the C library's parser of dotted addresses, \<open>resolve\<close>
  the outcome of \<open>ResolveHostname\<close> in this call.\<close>

definition RelayConnect ::
  "(u8 list \<Rightarrow> u32 option) \<Rightarrow> (u8 list \<Rightarrow> u8 list option) \<Rightarrow> bool \<Rightarrow> int \<Rightarrow> u64 \<Rightarrow>
   u8 list \<Rightarrow> u16 \<Rightarrow> relay \<Rightarrow> result \<times> relay" where
  "RelayConnect inet_pton resolve thread_ok sock now host port r =
     (let r1 = r\<lparr>m_fd := sock\<rparr>
      in if sock < 0 then (ResultIoError, r1)
         else let r2 = r1\<lparr>m_relay_addr := (fst (m_relay_addr r1), port)\<rparr>;
                  finish = (\<lambda>ip. (ResultSuccess, StartPump thread_ok
                     (r2\<lparr>m_relay_addr := (ip, port), m_connected := True,
                         m_last_keepalive_tick := now\<rparr>)))
              in case inet_pton host of
                   Some ip \<Rightarrow> finish ip
                 | None \<Rightarrow>
                     (case resolve host of
                        Some [a, b, c, d] \<Rightarrow> finish (be32 a b c d)
                      | _ \<Rightarrow> (ResultIoError, r2\<lparr>m_fd := - 1\<rparr>)))"

section \<open>The pump drains the socket\<close>

definition deliver :: "recv_result \<Rightarrow> relay \<Rightarrow> relay" where
  "deliver res r = (case res of RecvPacket p \<Rightarrow> r\<lparr>m_queue := ring_push p (m_queue r)\<rparr> | _ \<Rightarrow> r)"

lemma deliver_simps [simp]:
  "deliver RecvNone r = r" "deliver RecvHandled r = r"
  "deliver (RecvPacket p) r = r\<lparr>m_queue := ring_push p (m_queue r)\<rparr>"
  by (simp_all add: deliver_def)

text \<open>The reference: every datagram is handled, one after the other.\<close>

fun relay_feed :: "u8 list list \<Rightarrow> relay \<Rightarrow> relay option" where
  "relay_feed [] r = Some r"
| "relay_feed (d # ds) r = do {
     (res, r') \<leftarrow> RecvIpv4 PumpPktSize (Some d) r;
     relay_feed ds (deliver res r')
   }"

fun pump_drains :: "nat \<Rightarrow> u8 list list \<Rightarrow> relay \<Rightarrow> (u8 list list \<times> relay) option" where
  "pump_drains 0 sock r = Some (sock, r)"
| "pump_drains (Suc n) sock r = do {
     (sock', r') \<leftarrow> pump_drain sock r;
     pump_drains n sock' r'
   }"

definition relay_wf :: "relay \<Rightarrow> bool" where
  "relay_wf r \<longleftrightarrow> slots_wf (m_slots r) \<and> ring_inv (m_queue r)
     \<and> (\<forall>p \<in> set (ring_contents (m_queue r)). length p \<le> PumpPktSize)"

lemma relay_wf_init: "relay_wf relay_init"
  by (simp add: relay_wf_def relay_init_def slots_wf_init ring_inv_empty)
     (simp add: ring_contents_def ring_empty_def)

lemma RecvIpv4_ok:
  assumes "slots_wf (m_slots r)"
  shows "\<exists>res r'. RecvIpv4 n d r = Some (res, r') \<and> slots_wf (m_slots r') \<and> m_queue r' = m_queue r
     \<and> (\<forall>p. res = RecvPacket p \<longrightarrow> length p \<le> n)"
proof -
  obtain slots most out where "ReassembleFrag (m_slots r) (m_most_success_frag_id r)
      (tl (take RawFrameSize (the d))) n = Some (slots, most, out)"
    "slots_wf slots" "\<forall>p. out = Some p \<longrightarrow> length p \<le> n"
    using ReassembleFrag_wf [OF assms] by blast
  then show ?thesis using assms
    by (auto simp: RecvIpv4_def Let_def split: option.splits)
qed

lemma relay_wf_deliver:
  assumes "slots_wf (m_slots r')" and "m_queue r' = m_queue r" and "relay_wf r"
    and "\<forall>p. res = RecvPacket p \<longrightarrow> length p \<le> PumpPktSize"
  shows "relay_wf (deliver res r')"
  using assms ring_contents_push [of "m_queue r"]
  by (cases res) (auto simp: relay_wf_def intro: ring_inv_push split: if_splits)

lemma relay_feed_ok: "relay_wf r \<Longrightarrow> \<exists>r'. relay_feed ds r = Some r' \<and> relay_wf r'"
proof (induction ds arbitrary: r)
  case Nil
  then show ?case by simp
next
  case (Cons d ds)
  obtain res r1 where r1: "RecvIpv4 PumpPktSize (Some d) r = Some (res, r1)" "slots_wf (m_slots r1)"
    "m_queue r1 = m_queue r" "\<forall>p. res = RecvPacket p \<longrightarrow> length p \<le> PumpPktSize"
    using RecvIpv4_ok [of r PumpPktSize "Some d"] Cons.prems by (auto simp: relay_wf_def)
  then have "relay_wf (deliver res r1)" using Cons.prems by (intro relay_wf_deliver) auto
  then show ?case using Cons.IH r1(1) by simp
qed

lemma pump_drain_feed:
  "relay_feed sock r = Some r' \<Longrightarrow>
     \<exists>sock1 r1. pump_drain sock r = Some (sock1, r1) \<and> relay_feed sock1 r1 = Some r'
       \<and> (sock \<noteq> [] \<longrightarrow> length sock1 < length sock)"
proof (induction sock arbitrary: r)
  case Nil
  then show ?case by simp
next
  case (Cons d ds)
  then obtain res r1 where r1: "RecvIpv4 PumpPktSize (Some d) r = Some (res, r1)"
    "relay_feed ds (deliver res r1) = Some r'"
    by (auto split: bind_splits)
  show ?case
  proof (cases res)
    case (RecvPacket p)
    then obtain sock1 r2 where "pump_drain ds (deliver res r1) = Some (sock1, r2)"
      "relay_feed sock1 r2 = Some r'" "ds \<noteq> [] \<longrightarrow> length sock1 < length ds"
      using Cons.IH [OF r1(2)] by blast
    then show ?thesis using r1(1) RecvPacket by (cases "ds = []") auto
  qed (use r1 in auto)
qed

lemma pump_drains_feed:
  "relay_feed sock r = Some r' \<Longrightarrow> length sock \<le> n \<Longrightarrow> pump_drains n sock r = Some ([], r')"
proof (induction n arbitrary: sock r)
  case 0
  then show ?case by simp
next
  case (Suc n)
  obtain sock1 r1 where *: "pump_drain sock r = Some (sock1, r1)" "relay_feed sock1 r1 = Some r'"
    "sock \<noteq> [] \<longrightarrow> length sock1 < length sock"
    using pump_drain_feed [OF Suc.prems(1)] by blast
  have "length sock1 \<le> n" using * Suc.prems by (cases "sock = []") auto
  then show ?case using Suc.IH [OF *(2)] *(1) by simp
qed

text \<open>C29: Whatever datagrams arrive, valid or not, the pump empties the socket in as many rounds as
  there are datagrams, touches no memory outside its buffers, keeps table and queue well-formed,
  and everything it queues fits a queue entry.\<close>

theorem pump_drains_safe:
  assumes "relay_wf r" and "length sock \<le> n"
  shows "\<exists>r'. pump_drains n sock r = Some ([], r') \<and> relay_wf r'"
  using relay_feed_ok [OF assms(1), of sock] pump_drains_feed [OF _ assms(2)] by blast

theorem pump_drains_safe_witness:
  "\<exists>r'. pump_drains 4 [[], [0], replicate 1500 3, [1, 2, 3]] relay_init = Some ([], r') \<and> relay_wf r'"
  by (rule pump_drains_safe [OF relay_wf_init]) simp

section \<open>What the sender puts on the wire\<close>

definition frag_frame :: "u8 list \<Rightarrow> u16 \<Rightarrow> nat \<Rightarrow> u8 list" where
  "frag_frame P i k = FrameIpv4Frag # frag_body P i k"

definition wire_frames :: "u8 list \<Rightarrow> u16 \<Rightarrow> u8 list list" where
  "wire_frames P i =
     (if length P \<le> RELAY_MTU then [FrameIpv4 # P]
      else map (frag_frame P i) [0..<frag_total_parts P])"

definition accepts_all :: "os_send \<Rightarrow> bool" where
  "accepts_all os \<longleftrightarrow> (\<forall>log d. 0 \<le> os log d)"

definition sent_frames :: "relay \<Rightarrow> relay \<Rightarrow> u8 list list" where
  "sent_frames r r' = map fst (drop (length (m_sent r)) (m_sent r'))"

lemma send_frags_frames:
  assumes "m_connected r" and "part + left = frag_total_parts P" and "left > 0 \<longrightarrow> pos = part * frag_chunk_size"
    and "0 < length P" and "send_frags left os P i part pos r = (rc, r')"
  shows "\<exists>m. part \<le> m \<and> m \<le> frag_total_parts P
     \<and> map fst (m_sent r') = map fst (m_sent r) @ map (frag_frame P i) [part..<m]
     \<and> (accepts_all os \<longrightarrow> m = frag_total_parts P \<and> rc = int (length P))
     \<and> (0 \<le> rc \<longrightarrow> m = frag_total_parts P \<and> rc = int (length P))"
  using assms
proof (induction left os P i part pos r rule: send_frags.induct)
  case (1 os packet frag_id part pos r)
  then show ?case by auto
next
  case (2 left os packet frag_id part pos r)
  let ?d = "FrameIpv4Frag # frag_body_at packet frag_id part pos"
  let ?part_len = "if length packet - pos < frag_chunk_size then length packet - pos else frag_chunk_size"
  define rc1 where "rc1 = os (m_sent r) ?d"
  let ?r1 = "r\<lparr>m_sent := m_sent r @ [(?d, rc1)]\<rparr>"
  have raw: "SendRaw os ?d r = (rc1, ?r1)" using 2(2) by (simp add: SendRaw_def rc1_def Let_def)
  have d: "?d = frag_frame packet frag_id part" using 2(4) by (simp add: frag_frame_def frag_body_def)
  show ?case
  proof (cases "rc1 < 0")
    case True
    then have "rc = rc1" "r' = ?r1" using 2(6) raw by (auto simp: Let_def)
    moreover have "\<not> accepts_all os" using True by (auto simp: accepts_all_def rc1_def not_le)
    ultimately show ?thesis using True 2(3) d by (intro exI [of _ "Suc part"]) simp
  next
    case False
    then have rest: "send_frags left os packet frag_id (part + 1) (pos + ?part_len) ?r1 = (rc, r')"
      using 2(6) raw by (simp add: Let_def)
    have pos': "left > 0 \<longrightarrow> pos + ?part_len = (part + 1) * frag_chunk_size"
    proof
      assume "left > 0"
      then have "part + 1 < frag_total_parts packet" using 2(3) by linarith
      then have "(part + 1) * frag_chunk_size < length packet"
        using frag_parts_arith [OF 2(5), of "part + 1"] by blast
      then show "pos + ?part_len = (part + 1) * frag_chunk_size" using 2(4) by simp
    qed
    have c: "m_connected ?r1" "part + 1 + left = frag_total_parts packet" using 2(2,3) by simp_all
    obtain m where m: "part + 1 \<le> m" "m \<le> frag_total_parts packet"
      "map fst (m_sent r') = map fst (m_sent ?r1) @ map (frag_frame packet frag_id) [part + 1..<m]"
      "accepts_all os \<longrightarrow> m = frag_total_parts packet \<and> rc = int (length packet)"
      "0 \<le> rc \<longrightarrow> m = frag_total_parts packet \<and> rc = int (length packet)"
      using 2(1) [OF refl refl raw [symmetric] False c pos' 2(5) rest] by blast
    have "[part..<m] = part # [part + 1..<m]" using m(1) by (simp add: upt_conv_Cons)
    then have "map fst (m_sent r') = map fst (m_sent r) @ map (frag_frame packet frag_id) [part..<m]"
      using m(3) unfolding d by simp
    moreover have "part \<le> m" using m(1) by simp
    ultimately show ?thesis using m(2,4,5) by blast
  qed
qed

lemma SendIpv4_frames:
  assumes os: "accepts_all os" and c: "m_connected r" and P: "0 < length P" "frag_total_parts P \<le> 255"
    and s: "SendIpv4 os P r = (rc, r')"
  shows "sent_frames r r' = wire_frames P (m_next_frag_id r) \<and> 0 \<le> rc"
proof (cases "length P \<le> RELAY_MTU")
  case True
  then show ?thesis using s c os
    by (auto simp: SendIpv4_def SendRaw_def Let_def sent_frames_def wire_frames_def accepts_all_def)
next
  case False
  then have "send_frags (frag_total_parts P) os P (m_next_frag_id r) 0 0
      (r\<lparr>m_next_frag_id := m_next_frag_id r + 1\<rparr>) = (rc, r')"
    using s c P by (simp add: SendIpv4_def SendFragmented_def Let_def)
  moreover have "m_connected (r\<lparr>m_next_frag_id := m_next_frag_id r + 1\<rparr>)" using c by simp
  ultimately obtain m where
    "map fst (m_sent r') = map fst (m_sent r) @ map (frag_frame P (m_next_frag_id r)) [0..<m]"
    "m = frag_total_parts P" "rc = int (length P)"
    using send_frags_frames [of "r\<lparr>m_next_frag_id := m_next_frag_id r + 1\<rparr>" 0
        "frag_total_parts P" P 0 os "m_next_frag_id r" rc r'] P(1) os by fastforce
  moreover have "sent_frames r r' = drop (length (m_sent r)) (map fst (m_sent r'))"
    by (simp add: sent_frames_def drop_map)
  ultimately show ?thesis using False by (simp add: wire_frames_def del: drop_map)
qed

section \<open>From frame to packet\<close>

lemma frag_frame_length:
  "20 \<le> length P \<Longrightarrow> FragHeaderSize + 1 \<le> length (frag_frame P i k)
     \<and> length (frag_frame P i k) \<le> RawFrameSize"
proof -
  assume "20 \<le> length P"
  then have "length (frag_header_bytes (frag_hdr P i k)) = 16"
    using length_ips [of P] by (simp add: frag_header_bytes_def frag_hdr_def)
  moreover have "length (frag_chunk P k) \<le> 1384" by (simp add: frag_chunk_length frag_consts)
  ultimately show ?thesis by (simp add: frag_frame_def frag_body_eq RawFrameSize_def frag_consts)
qed

lemma RecvIpv4_frag_frame:
  assumes "20 \<le> length P"
  shows "RecvIpv4 n (Some (frag_frame P i k)) r = do {
     (slots, most, out) \<leftarrow> ReassembleFrag (m_slots r) (m_most_success_frag_id r) (frag_body P i k) n;
     Some (case out of None \<Rightarrow> RecvHandled | Some p \<Rightarrow> RecvPacket p,
           r\<lparr>m_slots := slots, m_most_success_frag_id := most\<rparr>)
   }"
proof -
  have "take RawFrameSize (frag_frame P i k) = frag_frame P i k"
    using frag_frame_length [OF assms] by simp
  moreover have "\<not> length (frag_frame P i k) < 1 + FragHeaderSize"
    using frag_frame_length [OF assms, of i k] by simp
  moreover have "hd (frag_frame P i k) AND 0x7F = FrameIpv4Frag" "tl (frag_frame P i k) = frag_body P i k"
    "frag_frame P i k \<noteq> []"
    by (simp_all add: frag_frame_def FrameIpv4Frag_def)
  ultimately show ?thesis by (simp add: RecvIpv4_def Let_def frame_types)
qed

lemma RecvIpv4_ipv4_frame:
  assumes "length P \<le> RELAY_MTU"
  shows "RecvIpv4 PumpPktSize (Some (FrameIpv4 # P)) r = Some (RecvPacket P, r)"
  using assms by (simp add: RecvIpv4_def Let_def RawFrameSize_def PumpPktSize_def frame_types frag_consts)

fun frame_of :: "frag_name \<Rightarrow> u8 list" where
  "frame_of (i, P, k) = frag_frame P i k"

lemma relay_feed_frags:
  assumes "\<forall>(i, P, k) \<in> set fs. 20 \<le> length P"
    and "reassemble_all (m_slots r) (m_most_success_frag_id r) (map frag_bytes fs) PumpPktSize
       = Some (slots, most, outs)"
  shows "relay_feed (map frame_of fs) r
     = Some (r\<lparr>m_slots := slots, m_most_success_frag_id := most, m_queue := fold ring_push outs (m_queue r)\<rparr>)"
  using assms
proof (induction fs arbitrary: r outs)
  case Nil
  then show ?case by simp
next
  case (Cons f fs)
  obtain i P k where f: "f = (i, P, k)" by (cases f)
  obtain slots1 most1 out1 outs1 where
    1: "ReassembleFrag (m_slots r) (m_most_success_frag_id r) (frag_body P i k) PumpPktSize
          = Some (slots1, most1, out1)"
    and 2: "reassemble_all slots1 most1 (map frag_bytes fs) PumpPktSize = Some (slots, most, outs1)"
    and 3: "outs = (case out1 of None \<Rightarrow> outs1 | Some p \<Rightarrow> p # outs1)"
    using Cons.prems(2) f by (auto split: bind_splits)
  let ?r1 = "deliver (case out1 of None \<Rightarrow> RecvHandled | Some p \<Rightarrow> RecvPacket p)
      (r\<lparr>m_slots := slots1, m_most_success_frag_id := most1\<rparr>)"
  have "m_slots ?r1 = slots1" "m_most_success_frag_id ?r1 = most1" by (auto split: option.splits)
  then have "relay_feed (map frame_of fs) ?r1
      = Some (?r1\<lparr>m_slots := slots, m_most_success_frag_id := most, m_queue := fold ring_push outs1 (m_queue ?r1)\<rparr>)"
    using Cons.IH [of ?r1 outs1] Cons.prems(1) 2 by simp
  moreover have "RecvIpv4 PumpPktSize (Some (frame_of f)) r
      = Some (case out1 of None \<Rightarrow> RecvHandled | Some p \<Rightarrow> RecvPacket p,
              r\<lparr>m_slots := slots1, m_most_success_frag_id := most1\<rparr>)"
    using RecvIpv4_frag_frame [of P PumpPktSize i k r] Cons.prems(1) f 1 by simp
  ultimately show ?case using 3 by (cases out1) simp_all
qed

section \<open>The tunnel\<close>

lemma one_packet_traffic:
  assumes "20 \<le> length P" and "length P \<le> FragBufferSize"
  shows "traffic {(i, P)}" and "frag_total_parts P \<le> 5"
proof -
  show "frag_total_parts P \<le> 5"
    using assms(2) by (simp add: frag_total_parts_def frag_consts)
  then show "traffic {(i, P)}" using assms(1) by (auto simp: traffic_def frag_packet_def)
qed

lemma map_completions_one:
  assumes "distinct ks" and "set ks \<subseteq> {..<frag_total_parts P}" and "K \<union> set ks = {..<frag_total_parts P}"
    and "K \<inter> set ks = {}" and "ks \<noteq> []"
  shows "frag_completions (map (\<lambda>k. (i, P, k)) ks) ((\<lambda>k. (i, P, k)) ` K) = [P]"
  using assms
proof (induction ks arbitrary: K)
  case Nil
  then show ?case by simp
next
  case (Cons k ks)
  let ?R = "insert (i, P, k) ((\<lambda>k. (i, P, k)) ` K)"
  have R: "?R = (\<lambda>k. (i, P, k)) ` insert k K" by simp
  have full: "(\<forall>m < frag_total_parts P. (i, P, m) \<in> ?R) \<longleftrightarrow> ks = []"
  proof
    assume all: "\<forall>m < frag_total_parts P. (i, P, m) \<in> ?R"
    show "ks = []"
    proof (rule ccontr)
      assume "ks \<noteq> []"
      then obtain m where "m \<in> set ks" by fastforce
      then show False using all Cons.prems by (auto dest!: spec [of _ m])
    qed
  next
    assume "ks = []"
    then have "insert k K = {..<frag_total_parts P}" using Cons.prems by auto
    then show "\<forall>m < frag_total_parts P. (i, P, m) \<in> ?R" unfolding R by auto
  qed
  show ?case
  proof (cases "ks = []")
    case True
    then show ?thesis using full by (simp add: Let_def)
  next
    case False
    have "frag_completions (map (\<lambda>k. (i, P, k)) ks) ((\<lambda>k. (i, P, k)) ` insert k K) = [P]"
      using Cons.prems False by (intro Cons.IH) auto
    then show ?thesis using full False by (simp add: Let_def)
  qed
qed

text \<open>All the fragments of one packet, in any order, into an empty reassembly table.\<close>

lemma reassemble_one_packet:
  assumes P: "20 \<le> length P" "length P \<le> PumpPktSize"
    and order: "distinct order" "set order = {..<frag_total_parts P}"
  shows "\<exists>slots most'. reassemble_all frag_slots_init most (map (\<lambda>k. frag_bytes (i, P, k)) order) PumpPktSize
     = Some (slots, most', [P])"
proof -
  let ?fs = "map (\<lambda>k. (i, P, k)) order"
  have size: "length P \<le> FragBufferSize" using P(2) by (simp add: PumpPktSize_def frag_consts)
  have pos: "0 < length P" using P(1) by linarith
  have fs: "distinct ?fs" "set ?fs \<subseteq> frags_of {(i, P)}" "set ?fs \<inter> {} = {}"
    using order by (auto simp: frags_of_def distinct_map inj_on_def)
  have T: "finite {(i, P)}" "card {(i, P)} \<le> NUM_SLOTS"
    "\<forall>(i, P) \<in> {(i, P)}. length P \<le> FragBufferSize \<and> length P \<le> PumpPktSize"
    using size P(2) by (simp_all add: NUM_SLOTS_def)
  obtain slots most' where r: "reassemble_all frag_slots_init most (map frag_bytes ?fs) PumpPktSize
      = Some (slots, most', frag_completions ?fs {})"
    using reassemble_all_tracked [OF one_packet_traffic(1) [OF P(1) size] T fs(1,2) slots_track_init
        empty_subsetI fs(3)] by blast
  have "order \<noteq> []" using order(2) frag_last_chunk(2) [OF pos] by (cases order) auto
  moreover have "set order \<subseteq> {..<frag_total_parts P}" "{} \<union> set order = {..<frag_total_parts P}"
    "{} \<inter> set order = {}"
    using order(2) by simp_all
  ultimately have "frag_completions ?fs ((\<lambda>k. (i, P, k)) ` {}) = [P]"
    by (intro map_completions_one [OF order(1)])
  then show ?thesis using r by (simp add: comp_def)
qed

text \<open>The pump's view: the frames of one packet, in any order, queue exactly that packet.\<close>

lemma relay_feed_packet:
  assumes P: "20 \<le> length P" "length P \<le> PumpPktSize"
    and send: "accepts_all os" "m_connected s" "SendIpv4 os P s = (rc, s')"
    and order: "distinct order" "set order = {..<length (sent_frames s s')}"
    and recv: "m_slots r = frag_slots_init" "ring_inv (m_queue r)" "rq_count (m_queue r) < QueueSize"
  shows "\<exists>r'. relay_feed (map ((!) (sent_frames s s')) order) r = Some r'
     \<and> ring_contents (m_queue r') = ring_contents (m_queue r) @ [P]"
proof -
  have size: "length P \<le> FragBufferSize" using P(2) by (simp add: PumpPktSize_def frag_consts)
  have pos: "0 < length P" using P(1) by linarith
  let ?i = "m_next_frag_id s"
  have frames: "sent_frames s s' = wire_frames P ?i"
    using SendIpv4_frames [OF send(1,2) pos _ send(3)] one_packet_traffic(2) [OF P(1) size] by simp
  have push: "ring_contents (ring_push P (m_queue r)) = ring_contents (m_queue r) @ [P]"
    using ring_contents_push [OF recv(2)] recv(3) by simp
  show ?thesis
  proof (cases "length P \<le> RELAY_MTU")
    case True
    then have f: "sent_frames s s' = [FrameIpv4 # P]" by (simp add: frames wire_frames_def)
    then have "set order = {0}" using order(2) by auto
    then have "order = [0]" using order(1) by (cases order; cases "tl order") auto
    then show ?thesis using f RecvIpv4_ipv4_frame [OF True] push by simp
  next
    case False
    then have f: "sent_frames s s' = map (frag_frame P ?i) [0..<frag_total_parts P]"
      by (simp add: frames wire_frames_def)
    let ?fs = "map (\<lambda>k. (?i, P, k)) order"
    have set: "set order = {..<frag_total_parts P}" using order(2) f by simp
    have eq: "map ((!) (sent_frames s s')) order = map frame_of ?fs" using set f by simp
    obtain slots most where "reassemble_all (m_slots r) (m_most_success_frag_id r) (map frag_bytes ?fs) PumpPktSize
        = Some (slots, most, [P])"
      using reassemble_one_packet [OF P order(1) set, of "m_most_success_frag_id r" ?i] by (auto simp: recv(1) comp_def)
    then have "relay_feed (map frame_of ?fs) r = Some (r\<lparr>m_slots := slots,
        m_most_success_frag_id := most, m_queue := fold ring_push [P] (m_queue r)\<rparr>)"
      using P(1) by (intro relay_feed_frags) auto
    then show ?thesis unfolding eq using push by (simp del: map_map)
  qed
qed


definition sample_packet :: "nat \<Rightarrow> u8 list" where
  "sample_packet n = replicate n 69"

definition relay_up :: relay where
  "relay_up = relay_init\<lparr>m_fd := 5, m_connected := True\<rparr>"


lemma pump_drops_long_packets:
  assumes P: "frag_packet P" "PumpPktSize < length P" and fs: "set ks \<subseteq> {..<frag_total_parts P}"
    and r: "m_slots r = frag_slots_init" and n: "length ks \<le> n"
  shows "\<exists>r'. pump_drains n (map (frag_frame P i) ks) r = Some ([], r') \<and> m_queue r' = m_queue r"
proof -
  let ?fs = "map (\<lambda>k. (i, P, k)) ks"
  have T: "traffic {(i, P)}" using P(1) by (simp add: traffic_def)
  have sub: "set ?fs \<subseteq> frags_of {(i, P)}" using fs by (auto simp: frags_of_def)
  obtain slots most outs where R: "reassemble_all (m_slots r) (m_most_success_frag_id r)
      (map frag_bytes ?fs) PumpPktSize = Some (slots, most, outs)"
    "\<forall>p \<in> set outs. length p \<le> PumpPktSize \<and> (\<exists>i'. (i', p) \<in> {(i, P)})"
    using reassemble_all_holds [OF T sub slots_hold_init, of "m_most_success_frag_id r" PumpPktSize]
    unfolding r by (elim exE conjE)
  have "outs = []" using R(2) P(2) by (cases outs) auto
  moreover have eq: "map frame_of ?fs = map (frag_frame P i) ks" by simp
  ultimately have "relay_feed (map (frag_frame P i) ks) r
      = Some (r\<lparr>m_slots := slots, m_most_success_frag_id := most, m_queue := m_queue r\<rparr>)"
    using relay_feed_frags [of ?fs r slots most outs] R(1) P(1) unfolding eq
    by (auto simp: frag_packet_def simp del: map_map)
  then show ?thesis using pump_drains_feed [of "map (frag_frame P i) ks" r _ n] n by auto
qed

text \<open>The pump reads into a buffer of 1428 bytes: of a longer packet, which \<open>SendIpv4\<close> accepts and
  the reassembly buffer of 5600 bytes has room for, no fragments whatever make the pump queue
  anything.\<close>

theorem pump_never_queues_long_packets:
  assumes "frag_packet P" and "PumpPktSize < length P" and "set ks \<subseteq> {..<frag_total_parts P}"
    and "m_slots r = frag_slots_init"
  shows "\<exists>r'. pump_drains (length ks) (map (frag_frame P i) ks) r = Some ([], r') \<and> m_queue r' = m_queue r"
  by (rule pump_drops_long_packets [OF assms order_refl])

theorem pump_never_queues_long_packets_witness:
  "\<exists>r'. pump_drains (length [0, 1 :: nat]) (map (frag_frame (sample_packet 2000) 7) [0, 1]) relay_up = Some ([], r')
     \<and> m_queue r' = m_queue relay_up"
proof (rule pump_never_queues_long_packets)
  show "frag_packet (sample_packet 2000)"
    by (simp add: frag_packet_def sample_packet_def frag_total_parts_def frag_consts)
  show "PumpPktSize < length (sample_packet 2000)"
    by (simp add: PumpPktSize_def sample_packet_def frag_consts)
  show "set [0, 1] \<subseteq> {..<frag_total_parts (sample_packet 2000)}"
    by (simp add: sample_packet_def frag_total_parts_def frag_consts)
  show "m_slots relay_up = frag_slots_init" by (simp add: relay_up_def relay_init_def)
qed

section \<open>Keepalive, sending errors, closing\<close>

text \<open>After \<open>CheckKeepalive\<close> the last keepalive lies less than two seconds back, and a keepalive
  frame went out in this call iff the relay is connected and the two seconds had passed.\<close>

theorem CheckKeepalive_interval:
  assumes "ticks_to_ns 0 = 0"
  shows "ticks_to_ns (now - m_last_keepalive_tick (CheckKeepalive os ticks_to_ns now r)) div 1000000
       < KEEPALIVE_INTERVAL_MS
     \<and> sent_frames r (CheckKeepalive os ticks_to_ns now r)
       = (if m_connected r
            \<and> KEEPALIVE_INTERVAL_MS \<le> ticks_to_ns (now - m_last_keepalive_tick r) div 1000000
          then [[FrameKeepalive]] else [])"
  using assms
  by (simp add: CheckKeepalive_def SendKeepalive_def SendRaw_def sent_frames_def Let_def
      KEEPALIVE_INTERVAL_MS_def not_le)

theorem CheckKeepalive_interval_witness:
  "sent_frames relay_up (CheckKeepalive (\<lambda>log d. 1) (\<lambda>t. t) 3000000000 relay_up) = [[FrameKeepalive]]"
  using CheckKeepalive_interval [of "\<lambda>t. t" 3000000000 "\<lambda>log d. 1" relay_up]
  by (simp add: relay_up_def relay_init_def KEEPALIVE_INTERVAL_MS_def)

text \<open>\<open>SendIpv4\<close> on every branch: unconnected it sends nothing and returns -1; a packet of more
  than 255 parts is refused; a fragmented packet returns its length only when all its parts were
  accepted, and otherwise the error of the first failing part, after which nothing more is sent.\<close>

theorem SendIpv4_result:
  assumes "20 \<le> length P" and "SendIpv4 os P r = (rc, r')"
  shows "(\<not> m_connected r \<longrightarrow> rc = - 1 \<and> r' = r)
     \<and> (m_connected r \<and> length P > RELAY_MTU \<and> frag_total_parts P > 255 \<longrightarrow> rc = - 1 \<and> r' = r)
     \<and> (m_connected r \<and> length P \<le> RELAY_MTU \<longrightarrow>
          sent_frames r r' = [FrameIpv4 # P] \<and> rc = os (m_sent r) (FrameIpv4 # P))
     \<and> (m_connected r \<and> length P > RELAY_MTU \<and> frag_total_parts P \<le> 255 \<longrightarrow>
          (\<exists>m \<le> frag_total_parts P.
             sent_frames r r' = map (frag_frame P (m_next_frag_id r)) [0..<m]
             \<and> (0 \<le> rc \<longrightarrow> m = frag_total_parts P \<and> rc = int (length P))))"
proof -
  have pos: "0 < length P" using assms(1) by linarith
  have "\<exists>m \<le> frag_total_parts P. sent_frames r r' = map (frag_frame P (m_next_frag_id r)) [0..<m]
       \<and> (0 \<le> rc \<longrightarrow> m = frag_total_parts P \<and> rc = int (length P))"
    if "m_connected r" "length P > RELAY_MTU" "frag_total_parts P \<le> 255"
  proof -
    let ?r = "r\<lparr>m_next_frag_id := m_next_frag_id r + 1\<rparr>"
    have "send_frags (frag_total_parts P) os P (m_next_frag_id r) 0 0 ?r = (rc, r')"
      using assms(2) that by (simp add: SendIpv4_def SendFragmented_def Let_def)
    moreover have "m_connected ?r" using that(1) by simp
    ultimately obtain m where "m \<le> frag_total_parts P"
      "map fst (m_sent r') = map fst (m_sent r) @ map (frag_frame P (m_next_frag_id r)) [0..<m]"
      "0 \<le> rc \<longrightarrow> m = frag_total_parts P \<and> rc = int (length P)"
      using send_frags_frames [of ?r 0 "frag_total_parts P" P 0 os "m_next_frag_id r" rc r'] pos
      by fastforce
    moreover have "sent_frames r r' = drop (length (m_sent r)) (map fst (m_sent r'))"
      by (simp add: sent_frames_def drop_map)
    ultimately show ?thesis by (intro exI [of _ m]) (simp del: drop_map)
  qed
  then show ?thesis using assms(2)
    by (auto simp: SendIpv4_def SendFragmented_def SendRaw_def sent_frames_def Let_def)
qed

theorem SendIpv4_result_witness:
  "\<exists>m \<le> frag_total_parts (sample_packet 1420).
     sent_frames relay_up (snd (SendIpv4 (\<lambda>log d. - 1) (sample_packet 1420) relay_up))
       = map (frag_frame (sample_packet 1420) 0) [0..<m]"
proof -
  have "frag_total_parts (sample_packet 1420) = 2" "length (sample_packet 1420) = 1420"
    by (simp_all add: sample_packet_def frag_total_parts_def frag_consts)
  then show ?thesis
    using SendIpv4_result [of "sample_packet 1420" "\<lambda>log d. - 1" relay_up, OF _ prod.collapse [symmetric]]
    by (auto simp: relay_up_def relay_init_def frag_consts)
qed

end
