(* ===== verification/ControlQueue.thy ===== *)
theory ControlQueue
  imports Packet
begin

text \<open>
  The shared queue of received UDP packets (\<open>g_control_queue\<close> of \<^verbatim>\<open>bsd_bridge_service.cpp\<close>): a dense
  array of 32 entries tagged with their destination port, filled by \<open>DrainRawRelayQueue\<close> and
  emptied per port by \<open>PopControlPacketForPort\<close>, which compacts the rest in place. The locale
  \<open>port_queue\<close> is the contract the bridged sockets of different processes rely on: each port
  sees a bounded FIFO of its own packets, undisturbed by the other ports.
\<close>

section \<open>The contract\<close>

definition of_port :: "('a \<Rightarrow> 'p) \<Rightarrow> 'p \<Rightarrow> 'a list \<Rightarrow> 'a list" where
  "of_port tag p xs = filter (\<lambda>x. tag x = p) xs"

locale port_queue =
  fixes inv :: "'q \<Rightarrow> bool"
    and contents :: "'q \<Rightarrow> 'a list"
    and push :: "'a \<Rightarrow> 'q \<Rightarrow> 'q"
    and pop :: "'p \<Rightarrow> 'q \<Rightarrow> ('a \<times> 'q) option"
    and tag :: "'a \<Rightarrow> 'p"
    and stored :: "'a \<Rightarrow> 'a"
    and cap :: nat
  assumes push_inv: "inv q \<Longrightarrow> inv (push x q)"
    and push_contents: "inv q \<Longrightarrow>
          contents (push x q) = (if length (contents q) < cap then contents q @ [stored x] else contents q)"
    and stored_tag: "tag (stored x) = tag x"
    and pop_None: "inv q \<Longrightarrow> pop p q = None \<longleftrightarrow> of_port tag p (contents q) = []"
    and pop_Some: "inv q \<Longrightarrow> pop p q = Some (x, q') \<Longrightarrow> inv q' \<and> tag x = p
          \<and> (\<exists>ys zs. contents q = ys @ x # zs \<and> contents q' = ys @ zs \<and> (\<forall>y \<in> set ys. tag y \<noteq> p))"
begin

lemma pop_head:
  assumes "inv q" and "pop p q = Some (x, q')"
  shows "of_port tag p (contents q) = x # of_port tag p (contents q')"
proof -
  obtain ys zs where *: "contents q = ys @ x # zs" "contents q' = ys @ zs" "\<forall>y \<in> set ys. tag y \<noteq> p" "tag x = p"
    using pop_Some [OF assms] by blast
  then show ?thesis by (simp add: of_port_def)
qed

lemma pop_other_port:
  assumes "inv q" and "pop p q = Some (x, q')" and "p' \<noteq> p"
  shows "of_port tag p' (contents q') = of_port tag p' (contents q)"
proof -
  obtain ys zs where *: "contents q = ys @ x # zs" "contents q' = ys @ zs" "tag x = p"
    using pop_Some [OF assms(1,2)] by blast
  then show ?thesis using assms(3) by (simp add: of_port_def)
qed

lemma pop_defined:
  assumes "inv q" and "of_port tag p (contents q) = x # xs"
  shows "\<exists>q'. pop p q = Some (x, q') \<and> inv q' \<and> of_port tag p (contents q') = xs"
proof -
  obtain y q' where y: "pop p q = Some (y, q')" using pop_None [OF assms(1), of p] assms(2) by fastforce
  then have "x = y" "of_port tag p (contents q') = xs" using pop_head [OF assms(1) y] assms(2) by simp_all
  then show ?thesis using y pop_Some [OF assms(1) y] by simp
qed

lemma push_port:
  assumes "inv q" and "length (contents q) < cap"
  shows "of_port tag p (contents (push x q))
       = (if tag x = p then of_port tag p (contents q) @ [stored x] else of_port tag p (contents q))"
  using push_contents [OF assms(1), of x] assms(2) stored_tag [of x] by (simp add: of_port_def)

end

section \<open>The array\<close>

definition ControlQueueSize :: nat where "ControlQueueSize = 32"
definition ControlDataSize :: nat where "ControlDataSize = 20 + 8 + MaxBridgedPayload"

text \<open>\<open>cp_data\<close> holds the \<open>len\<close> valid bytes of \<open>data\<close>.\<close>

record control_packet =
  cp_dst_port :: u16
  cp_data :: "u8 list"

record control_queue =
  cq_arr :: "control_packet list"
  cq_count :: nat

definition control_init :: control_queue where
  "control_init =
     \<lparr>cq_arr = replicate ControlQueueSize \<lparr>cp_dst_port = 0, cp_data = []\<rparr>, cq_count = 0\<rparr>"

text \<open>The loop \<open>g_control_queue[j - 1] = g_control_queue[j]\<close>; the first argument counts \<open>count - j\<close>.\<close>

fun control_compact :: "nat \<Rightarrow> nat \<Rightarrow> control_packet list \<Rightarrow> control_packet list" where
  "control_compact 0 j arr = arr"
| "control_compact (Suc left) j arr = control_compact left (j + 1) (arr[j - 1 := arr ! j])"

fun control_scan :: "nat \<Rightarrow> nat \<Rightarrow> u16 \<Rightarrow> control_queue \<Rightarrow> (control_packet \<times> control_queue) option" where
  "control_scan 0 i port q = None"
| "control_scan (Suc left) i port q =
     (if cp_dst_port (cq_arr q ! i) \<noteq> port then control_scan left (i + 1) port q
      else Some (cq_arr q ! i,
             q\<lparr>cq_arr := control_compact (cq_count q - (i + 1)) (i + 1) (cq_arr q),
               cq_count := cq_count q - 1\<rparr>))"

definition PopControlPacketForPort :: "u16 \<Rightarrow> control_queue \<Rightarrow> (control_packet \<times> control_queue) option" where
  "PopControlPacketForPort port q = control_scan (cq_count q) 0 port q"

definition control_push :: "control_packet \<Rightarrow> control_queue \<Rightarrow> control_queue" where
  "control_push p q =
     (if cq_count q < ControlQueueSize then
        q\<lparr>cq_arr := (cq_arr q)[cq_count q := p\<lparr>cp_data := take ControlDataSize (cp_data p)\<rparr>],
          cq_count := cq_count q + 1\<rparr>
      else q)"

definition control_inv :: "control_queue \<Rightarrow> bool" where
  "control_inv q \<longleftrightarrow> length (cq_arr q) = ControlQueueSize \<and> cq_count q \<le> ControlQueueSize"

definition control_contents :: "control_queue \<Rightarrow> control_packet list" where
  "control_contents q = take (cq_count q) (cq_arr q)"

lemma control_inv_init: "control_inv control_init \<and> control_contents control_init = []"
  by (simp add: control_inv_def control_init_def control_contents_def)

lemma length_control_compact [simp]: "length (control_compact n j arr) = length arr"
  by (induction n j arr rule: control_compact.induct) simp_all

lemma control_compact_take:
  "0 < j \<Longrightarrow> j + n \<le> length arr \<Longrightarrow>
     take (j - 1 + n) (control_compact n j arr) = take (j - 1) arr @ take n (drop j arr)"
proof (induction n j arr rule: control_compact.induct)
  case (1 j arr)
  then show ?case by simp
next
  case (2 n j arr)
  let ?arr = "arr[j - 1 := arr ! j]"
  have "take (j + n) (control_compact n (j + 1) ?arr) = take j ?arr @ take n (drop (j + 1) ?arr)"
    using 2 by simp
  moreover have "take j ?arr = take (j - 1) arr @ [arr ! j]"
    using 2 take_Suc_conv_app_nth [of "j - 1" ?arr] by simp
  moreover have "drop (j + 1) ?arr = drop (j + 1) arr" using 2 by simp
  moreover have "take (Suc n) (drop j arr) = arr ! j # take n (drop (j + 1) arr)"
    using 2 Cons_nth_drop_Suc [of j arr] by (metis Suc_eq_plus1 add_leD1 add_Suc_right le_Suc_ex
        less_add_Suc1 less_le_trans take_Suc_Cons)
  ultimately show ?case using 2 by simp
qed

lemma control_scan_Some:
  "control_inv q \<Longrightarrow> i + n = cq_count q \<Longrightarrow> control_scan n i port q = Some (x, q') \<Longrightarrow>
     (\<forall>k < i. cp_dst_port (cq_arr q ! k) \<noteq> port) \<Longrightarrow>
     control_inv q' \<and> cp_dst_port x = port
     \<and> (\<exists>ys zs. control_contents q = ys @ x # zs \<and> control_contents q' = ys @ zs
          \<and> (\<forall>y \<in> set ys. cp_dst_port y \<noteq> port))"
proof (induction n i port q rule: control_scan.induct)
  case (1 i port q)
  then show ?case by simp
next
  case (2 n i port q)
  show ?case
  proof (cases "cp_dst_port (cq_arr q ! i) = port")
    case False
    then show ?thesis using 2 by (auto simp: less_Suc_eq)
  next
    case True
    let ?arr = "cq_arr q"
    have x: "x = ?arr ! i" and q': "q' = q\<lparr>cq_arr := control_compact n (i + 1) ?arr, cq_count := cq_count q - 1\<rparr>"
    proof -
      have "cq_count q - (i + 1) = n" using 2(3) by simp
      then show "x = ?arr ! i" "q' = q\<lparr>cq_arr := control_compact n (i + 1) ?arr, cq_count := cq_count q - 1\<rparr>"
        using 2(4) True by (simp_all only: control_scan.simps option.inject prod.inject if_False simp_thms)
    qed
    have c: "cq_count q = i + 1 + n" and len: "length ?arr = ControlQueueSize" "i + 1 + n \<le> ControlQueueSize"
      using 2(2,3) by (simp_all add: control_inv_def)
    have "take (i + n) (control_compact n (i + 1) ?arr) = take i ?arr @ take n (drop (i + 1) ?arr)"
      using control_compact_take [of "i + 1" n ?arr] len by simp
    then have "control_contents q' = take i ?arr @ take n (drop (i + 1) ?arr)"
      unfolding q' control_contents_def using c by simp
    moreover have "control_contents q = take i ?arr @ x # take n (drop (i + 1) ?arr)"
    proof -
      have "take (i + 1 + n) ?arr = take (i + 1) ?arr @ take n (drop (i + 1) ?arr)" by (rule take_add)
      then show ?thesis unfolding control_contents_def c x using len by (simp add: take_Suc_conv_app_nth)
    qed
    moreover have "\<forall>y \<in> set (take i ?arr). cp_dst_port y \<noteq> port"
    proof
      fix y
      assume "y \<in> set (take i ?arr)"
      then obtain k where "k < i" "y = ?arr ! k" using len by (auto simp: in_set_conv_nth)
      then show "cp_dst_port y \<noteq> port" using 2(5) by blast
    qed
    moreover have "control_inv q'" using 2(2) unfolding q' by (auto simp: control_inv_def)
    ultimately show ?thesis using True x by blast
  qed
qed

lemma control_scan_None:
  "i + n = cq_count q \<Longrightarrow> control_scan n i port q = None \<longleftrightarrow>
     (\<forall>k. i \<le> k \<longrightarrow> k < cq_count q \<longrightarrow> cp_dst_port (cq_arr q ! k) \<noteq> port)"
proof (induction n i port q rule: control_scan.induct)
  case (1 i port q)
  then show ?case by simp
next
  case (2 n i port q)
  have lt: "i < cq_count q" using 2(2) by simp
  show ?case
  proof (cases "cp_dst_port (cq_arr q ! i) = port")
    case True
    then show ?thesis using lt by auto
  next
    case False
    have IH: "control_scan n (i + 1) port q = None \<longleftrightarrow>
        (\<forall>k. i + 1 \<le> k \<longrightarrow> k < cq_count q \<longrightarrow> cp_dst_port (cq_arr q ! k) \<noteq> port)"
      using 2(1) [OF False] 2(2) by simp
    have "k = i \<or> i + 1 \<le> k" if "i \<le> k" for k using that by linarith
    moreover have "i \<le> k" if "i + 1 \<le> k" for k using that by linarith
    ultimately have "(\<forall>k. i \<le> k \<longrightarrow> k < cq_count q \<longrightarrow> cp_dst_port (cq_arr q ! k) \<noteq> port) \<longleftrightarrow>
        (\<forall>k. i + 1 \<le> k \<longrightarrow> k < cq_count q \<longrightarrow> cp_dst_port (cq_arr q ! k) \<noteq> port)"
      using False by metis
    moreover have "control_scan (Suc n) i port q = control_scan n (i + 1) port q" using False by simp
    ultimately show ?thesis using IH by (simp only:)
  qed
qed

lemma control_contents_push:
  "control_inv q \<Longrightarrow> control_contents (control_push x q)
     = (if length (control_contents q) < ControlQueueSize
        then control_contents q @ [x\<lparr>cp_data := take ControlDataSize (cp_data x)\<rparr>] else control_contents q)"
  by (simp add: control_contents_def control_push_def control_inv_def take_Suc_conv_app_nth)

interpretation cq: port_queue control_inv control_contents control_push PopControlPacketForPort
    cp_dst_port "\<lambda>p. p\<lparr>cp_data := take ControlDataSize (cp_data p)\<rparr>" ControlQueueSize
proof (unfold_locales, goal_cases)
  case (1 q x)
  then show ?case by (auto simp: control_inv_def control_push_def)
next
  case (2 q x)
  then show ?case by (rule control_contents_push)
next
  case (3 x)
  show ?case by simp
next
  case (4 q p)
  then have "control_contents q = map ((!) (cq_arr q)) [0..<cq_count q]"
    by (simp add: control_inv_def control_contents_def take_map [symmetric] map_nth nth_take_lemma
        list_eq_iff_nth_eq)
  then show ?case
    using control_scan_None [of 0 "cq_count q" q p]
    by (auto simp: PopControlPacketForPort_def of_port_def filter_empty_conv)
next
  case (5 q p x q')
  then show ?case
    using control_scan_Some [of q 0 "cq_count q" p x q'] by (simp add: PopControlPacketForPort_def)
qed

definition port_view :: "u16 \<Rightarrow> control_queue \<Rightarrow> control_packet list" where
  "port_view p q = of_port cp_dst_port p (control_contents q)"

text \<open>C28: \<open>PopControlPacketForPort\<close> hands a port its oldest packet and leaves the other ports' packets,
  contents and order, as they are, although it compacts the shared array in place.\<close>

theorem control_queue_per_port_fifo:
  assumes "control_inv q" and "port_view p q = x # xs"
  shows "\<exists>q'. PopControlPacketForPort p q = Some (x, q') \<and> control_inv q' \<and> port_view p q' = xs
     \<and> (\<forall>p'. p' \<noteq> p \<longrightarrow> port_view p' q' = port_view p' q)"
proof -
  obtain q' where q': "PopControlPacketForPort p q = Some (x, q')" "control_inv q'" "port_view p q' = xs"
    using cq.pop_defined [OF assms(1), of p x xs] assms(2) by (auto simp: port_view_def)
  then show ?thesis using cq.pop_other_port [OF assms(1) q'(1)] by (auto simp: port_view_def)
qed

theorem control_queue_per_port_fifo_witness:
  "\<exists>q'. PopControlPacketForPort 7 (control_push \<lparr>cp_dst_port = 7, cp_data = [1]\<rparr>
          (control_push \<lparr>cp_dst_port = 9, cp_data = [2]\<rparr> control_init))
      = Some (\<lparr>cp_dst_port = 7, cp_data = [1]\<rparr>, q')
     \<and> port_view 9 q' = [\<lparr>cp_dst_port = 9, cp_data = [2]\<rparr>]"
proof -
  let ?a = "\<lparr>cp_dst_port = 7, cp_data = [1]\<rparr>" and ?b = "\<lparr>cp_dst_port = 9, cp_data = [2]\<rparr>"
  let ?q = "control_push ?a (control_push ?b control_init)"
  have inv: "control_inv ?q" using control_inv_init cq.push_inv by blast
  have "control_contents ?q = [?b, ?a]"
    using control_inv_init cq.push_inv
    by (simp add: control_contents_push ControlQueueSize_def ControlDataSize_def)
  then have "port_view 7 ?q = [?a]" "port_view 9 ?q = [?b]" by (simp_all add: port_view_def of_port_def)
  then show ?thesis using control_queue_per_port_fifo [OF inv, of 7 ?a "[]"] by auto
qed

end
