(* ===== verification/VTcp.thy ===== *)
theory VTcp
  imports Packet Relay
begin

text \<open>
  The virtual TCP endpoint of \<^verbatim>\<open>bsd_bridge_service.cpp\<close>: connection and pending-accept tables, the
  ownership gate of \<open>FindVTcpConnByFd\<close>/\<open>ByPeer\<close>/\<open>AllocVTcpConn\<close>, \<open>SendTcpSegment\<close>,
  \<open>HandleTcpSegment\<close> and \<open>CheckDataRetransmits\<close>. Connections are named by their index in
  \<open>g_vtcp_conns\<close> where the code has a pointer. Instances of the service are numbered;
  \<open>g_active_ldn_instance\<close> is the number of the owner. The platform (datagram socket, random
  numbers) is the parameter \<open>env\<close>.
\<close>

section \<open>State\<close>

definition MaxVTcpConns :: nat where "MaxVTcpConns = 9"
definition MaxPendingAccepts :: nat where "MaxPendingAccepts = 8"
definition DataRetransmitIntervalMs :: u64 where "DataRetransmitIntervalMs = 100"
definition MaxDataRetransmits :: nat where "MaxDataRetransmits = 6"

text \<open>\<open>c_inbox\<close> and \<open>c_unacked_data\<close> are the first \<open>inbox_len\<close> and \<open>unacked_data_len\<close> bytes of the
  arrays.\<close>

record vtcp_conn =
  c_used :: bool
  c_fd :: int
  c_established :: bool
  c_syn_sent_awaiting_synack :: bool
  c_peer_ip :: u32
  c_peer_port :: u16
  c_our_isn :: u32
  c_our_seq :: u32
  c_their_seq :: u32
  c_inbox :: "u8 list"
  c_peer_closed :: bool
  c_has_unacked_data :: bool
  c_unacked_data :: "u8 list"
  c_unacked_seq :: u32
  c_last_send_tick_ms :: u64
  c_retransmit_count :: nat

definition vtcp_conn_init :: vtcp_conn where
  "vtcp_conn_init =
     \<lparr>c_used = False, c_fd = - 1, c_established = False, c_syn_sent_awaiting_synack = False,
      c_peer_ip = 0, c_peer_port = 0, c_our_isn = 0, c_our_seq = 0, c_their_seq = 0, c_inbox = [],
      c_peer_closed = False, c_has_unacked_data = False, c_unacked_data = [], c_unacked_seq = 0,
      c_last_send_tick_ms = 0, c_retransmit_count = 0\<rparr>"

record pending_accept =
  p_used :: bool
  p_peer_ip :: u32
  p_peer_port :: u16
  p_our_isn :: u32
  p_their_isn :: u32
  p_got_final_ack :: bool

definition pending_accept_init :: pending_accept where
  "pending_accept_init =
     \<lparr>p_used = False, p_peer_ip = 0, p_peer_port = 0, p_our_isn = 0, p_their_isn = 0,
      p_got_final_ack = False\<rparr>"

record vtcp =
  g_relay :: relay
  g_active_ldn_instance :: "nat option"
  g_vtcp_conns :: "vtcp_conn list"
  g_tcp_listen_fd :: int
  g_pending_accepts :: "pending_accept list"
  g_next_synthetic_fd :: int
  g_random_draws :: nat

record env =
  e_sendto :: os_send
  e_random :: "nat \<Rightarrow> u32"

definition vtcp_init :: vtcp where
  "vtcp_init =
     \<lparr>g_relay = relay_init, g_active_ldn_instance = None,
      g_vtcp_conns = replicate MaxVTcpConns vtcp_conn_init, g_tcp_listen_fd = - 1,
      g_pending_accepts = replicate MaxPendingAccepts pending_accept_init,
      g_next_synthetic_fd = 1000, g_random_draws = 0\<rparr>"

section \<open>Access to the tables\<close>

definition FindVTcpConnByFd :: "nat \<Rightarrow> int \<Rightarrow> 'a vtcp_scheme \<Rightarrow> nat option" where
  "FindVTcpConnByFd me fd s =
     (if g_active_ldn_instance s \<noteq> Some me then None
      else first_idx (\<lambda>c. c_used c \<and> c_fd c = fd) (g_vtcp_conns s))"

definition FindVTcpConnByPeer :: "nat \<Rightarrow> u32 \<Rightarrow> 'a vtcp_scheme \<Rightarrow> nat option" where
  "FindVTcpConnByPeer me peer_ip s =
     (if g_active_ldn_instance s \<noteq> Some me then None
      else first_idx (\<lambda>c. c_used c \<and> c_peer_ip c = peer_ip) (g_vtcp_conns s))"

definition conn_at :: "nat \<Rightarrow> 'a vtcp_scheme \<Rightarrow> vtcp_conn" where
  "conn_at k s = g_vtcp_conns s ! k"

definition upd_conn :: "nat \<Rightarrow> (vtcp_conn \<Rightarrow> vtcp_conn) \<Rightarrow> 'a vtcp_scheme \<Rightarrow> 'a vtcp_scheme" where
  "upd_conn k f s = s\<lparr>g_vtcp_conns := (g_vtcp_conns s)[k := f (conn_at k s)]\<rparr>"

definition AllocVTcpConn :: "nat \<Rightarrow> 'a vtcp_scheme \<Rightarrow> (nat \<times> 'a vtcp_scheme) option" where
  "AllocVTcpConn me s =
     (if g_active_ldn_instance s \<noteq> Some me then None
      else case first_idx (\<lambda>c. \<not> c_used c) (g_vtcp_conns s) of
             None \<Rightarrow> None
           | Some k \<Rightarrow> Some (k, upd_conn k (\<lambda>c. vtcp_conn_init\<lparr>c_used := True\<rparr>) s))"

definition IsOwnTcpListenFd :: "nat \<Rightarrow> int \<Rightarrow> 'a vtcp_scheme \<Rightarrow> bool" where
  "IsOwnTcpListenFd me fd s \<longleftrightarrow> g_active_ldn_instance s = Some me \<and> fd = g_tcp_listen_fd s"

section \<open>Sending a segment\<close>

definition SendTcpSegment :: "env \<Rightarrow> tcp_hdr \<Rightarrow> u8 list \<Rightarrow> 'a vtcp_scheme \<Rightarrow> int \<times> 'a vtcp_scheme" where
  "SendTcpSegment env h payload s =
     (case BuildTcp h payload of
        None \<Rightarrow> (- 1, s)
      | Some packet \<Rightarrow>
          let (rc, r) = SendIpv4 (e_sendto env) packet (g_relay s) in (rc, s\<lparr>g_relay := r\<rparr>))"

definition seg :: "u32 \<Rightarrow> u32 \<Rightarrow> u16 \<Rightarrow> u32 \<Rightarrow> u32 \<Rightarrow> u8 \<Rightarrow> tcp_hdr" where
  "seg src_ip dst_ip dst_port seqno ack flags =
     \<lparr>th_src_ip = src_ip, th_dst_ip = dst_ip, th_src_port = LdnControlPort, th_dst_port = dst_port,
      th_seq = seqno, th_ack = ack, th_flags = flags\<rparr>"

definition send_seg :: "env \<Rightarrow> tcp_hdr \<Rightarrow> u8 list \<Rightarrow> 'a vtcp_scheme \<Rightarrow> 'a vtcp_scheme" where
  "send_seg env h payload s = snd (SendTcpSegment env h payload s)"

definition draw_random :: "env \<Rightarrow> 'a vtcp_scheme \<Rightarrow> u32 \<times> 'a vtcp_scheme" where
  "draw_random env s = (e_random env (g_random_draws s), s\<lparr>g_random_draws := g_random_draws s + 1\<rparr>)"

section \<open>Receiving a segment\<close>

text \<open>One definition per case of \<open>HandleTcpSegment\<close>, in the order of the code.\<close>

definition handle_syn :: "env \<Rightarrow> u32 \<Rightarrow> u32 \<Rightarrow> u16 \<Rightarrow> u32 \<Rightarrow> nat option \<Rightarrow> 'a vtcp_scheme \<Rightarrow> 'a vtcp_scheme" where
  "handle_syn env local_ip src_ip src_port seqno c s =
     (if c \<noteq> None then s
      else if \<exists>p \<in> set (g_pending_accepts s). p_used p \<and> p_peer_ip p = src_ip then s
      else case first_idx (\<lambda>p. \<not> p_used p) (g_pending_accepts s) of
             None \<Rightarrow> s
           | Some k \<Rightarrow>
               let (our_isn, s1) = draw_random env s;
                   s2 = s1\<lparr>g_pending_accepts := (g_pending_accepts s1)
                            [k := \<lparr>p_used = True, p_peer_ip = src_ip, p_peer_port = src_port,
                                   p_our_isn = our_isn, p_their_isn = seqno,
                                   p_got_final_ack = False\<rparr>]\<rparr>
               in send_seg env (seg local_ip src_ip src_port our_isn (seqno + 1) (TCP_SYN OR TCP_ACK)) [] s2)"

definition handle_syn_ack ::
  "env \<Rightarrow> u32 \<Rightarrow> u32 \<Rightarrow> u16 \<Rightarrow> u32 \<Rightarrow> u32 \<Rightarrow> nat option \<Rightarrow> 'a vtcp_scheme \<Rightarrow> 'a vtcp_scheme" where
  "handle_syn_ack env local_ip src_ip src_port seqno ack c s =
     (case c of
        None \<Rightarrow> s
      | Some k \<Rightarrow>
          let cn = conn_at k s
          in if c_syn_sent_awaiting_synack cn \<and> ack = c_our_isn cn + 1 then
               let s1 = upd_conn k (\<lambda>c. c\<lparr>c_their_seq := seqno + 1, c_our_seq := c_our_isn c + 1,
                          c_syn_sent_awaiting_synack := False, c_established := True\<rparr>) s;
                   cn1 = conn_at k s1
               in send_seg env (seg local_ip src_ip src_port (c_our_seq cn1) (c_their_seq cn1) TCP_ACK) [] s1
             else s)"

definition handle_fin ::
  "env \<Rightarrow> u32 \<Rightarrow> u32 \<Rightarrow> u16 \<Rightarrow> u32 \<Rightarrow> nat option \<Rightarrow> 'a vtcp_scheme \<Rightarrow> 'a vtcp_scheme" where
  "handle_fin env local_ip src_ip src_port seqno c s =
     (case c of
        None \<Rightarrow> s
      | Some k \<Rightarrow>
          let s1 = upd_conn k (\<lambda>c. c\<lparr>c_peer_closed := True, c_their_seq := seqno + 1\<rparr>) s;
              cn1 = conn_at k s1
          in send_seg env (seg local_ip src_ip src_port (c_our_seq cn1) (c_their_seq cn1) TCP_ACK) [] s1)"

definition handle_data ::
  "env \<Rightarrow> u32 \<Rightarrow> u32 \<Rightarrow> u16 \<Rightarrow> u32 \<Rightarrow> u8 list \<Rightarrow> nat \<Rightarrow> 'a vtcp_scheme \<Rightarrow> 'a vtcp_scheme" where
  "handle_data env local_ip src_ip src_port seqno payload k s =
     (let cn = conn_at k s
      in if \<not> c_established cn \<or> length payload = 0 then s
         else if seqno \<noteq> c_their_seq cn then s
         else if length payload > VTcpInboxCap then s
         else if length (c_inbox cn) + length payload > VTcpInboxCap then s
         else
           let s1 = upd_conn k (\<lambda>c. c\<lparr>c_inbox := c_inbox c @ payload,
                      c_their_seq := c_their_seq c + of_nat (length payload)\<rparr>) s;
               cn1 = conn_at k s1
           in send_seg env (seg local_ip src_ip src_port (c_our_seq cn1) (c_their_seq cn1) TCP_ACK) [] s1)"

definition handle_ack ::
  "env \<Rightarrow> u32 \<Rightarrow> u32 \<Rightarrow> u16 \<Rightarrow> u32 \<Rightarrow> u32 \<Rightarrow> u8 list \<Rightarrow> nat option \<Rightarrow> 'a vtcp_scheme \<Rightarrow> 'a vtcp_scheme" where
  "handle_ack env local_ip src_ip src_port seqno ack payload c s =
     (case first_idx (\<lambda>p. p_used p \<and> p_peer_ip p = src_ip \<and> \<not> p_got_final_ack p
                \<and> ack = p_our_isn p + 1) (g_pending_accepts s) of
        Some j \<Rightarrow> s\<lparr>g_pending_accepts := (g_pending_accepts s)
                     [j := (g_pending_accepts s ! j)\<lparr>p_got_final_ack := True\<rparr>]\<rparr>
      | None \<Rightarrow>
          (case c of
             None \<Rightarrow> s
           | Some k \<Rightarrow>
               let cn = conn_at k s;
                   s1 = (if c_has_unacked_data cn
                           \<and> ack = c_unacked_seq cn + of_nat (length (c_unacked_data cn))
                         then upd_conn k (\<lambda>c. c\<lparr>c_has_unacked_data := False\<rparr>) s else s)
               in handle_data env local_ip src_ip src_port seqno payload k s1))"

definition has_flag :: "u8 \<Rightarrow> u8 \<Rightarrow> bool" where
  "has_flag flags f \<longleftrightarrow> flags AND f \<noteq> 0"

definition HandleTcpSegment ::
  "env \<Rightarrow> nat \<Rightarrow> u32 \<Rightarrow> u32 \<Rightarrow> u16 \<Rightarrow> u32 \<Rightarrow> u32 \<Rightarrow> u8 \<Rightarrow> u8 list \<Rightarrow> 'a vtcp_scheme \<Rightarrow> 'a vtcp_scheme" where
  "HandleTcpSegment env me local_ip src_ip src_port seqno ack flags payload s =
     (let is_syn = has_flag flags TCP_SYN; is_ack = has_flag flags TCP_ACK;
          is_fin = has_flag flags TCP_FIN; is_rst = has_flag flags TCP_RST;
          c = FindVTcpConnByPeer me src_ip s
      in if is_rst then
           (case c of None \<Rightarrow> s | Some k \<Rightarrow> upd_conn k (\<lambda>c. c\<lparr>c_peer_closed := True\<rparr>) s)
         else if is_syn \<and> \<not> is_ack then handle_syn env local_ip src_ip src_port seqno c s
         else if is_syn \<and> is_ack then handle_syn_ack env local_ip src_ip src_port seqno ack c s
         else if is_fin then handle_fin env local_ip src_ip src_port seqno c s
         else if \<not> is_ack then s
         else handle_ack env local_ip src_ip src_port seqno ack payload c s)"

section \<open>Retransmission\<close>

definition retransmit_conn :: "env \<Rightarrow> u32 \<Rightarrow> u64 \<Rightarrow> nat \<Rightarrow> 'a vtcp_scheme \<Rightarrow> 'a vtcp_scheme" where
  "retransmit_conn env local_ip now k s =
     (let cn = conn_at k s
      in if \<not> c_used cn \<or> \<not> c_established cn \<or> \<not> c_has_unacked_data cn then s
         else if now - c_last_send_tick_ms cn < DataRetransmitIntervalMs then s
         else if c_retransmit_count cn \<ge> MaxDataRetransmits then
           upd_conn k (\<lambda>c. c\<lparr>c_has_unacked_data := False\<rparr>) s
         else
           let s1 = upd_conn k (\<lambda>c. c\<lparr>c_retransmit_count := c_retransmit_count c + 1,
                      c_last_send_tick_ms := now\<rparr>) s
           in send_seg env (seg local_ip (c_peer_ip cn) (c_peer_port cn) (c_unacked_seq cn)
                 (c_their_seq cn) (TCP_PSH OR TCP_ACK)) (c_unacked_data cn) s1)"

definition CheckDataRetransmits :: "env \<Rightarrow> u32 \<Rightarrow> u64 \<Rightarrow> 'a vtcp_scheme \<Rightarrow> 'a vtcp_scheme" where
  "CheckDataRetransmits env local_ip now s =
     fold (retransmit_conn env local_ip now) [0..<length (g_vtcp_conns s)] s"

section \<open>The socket calls on a connection\<close>

text \<open>The virtual-TCP branch of \<open>SendTo\<close>, from \<open>SendTcpSegment\<close> on.\<close>

definition vtcp_send :: "env \<Rightarrow> u32 \<Rightarrow> u64 \<Rightarrow> nat \<Rightarrow> u8 list \<Rightarrow> 'a vtcp_scheme \<Rightarrow> int \<times> 'a vtcp_scheme" where
  "vtcp_send env local_ip now k payload s =
     (let cn = conn_at k s;
          (sent, s1) = SendTcpSegment env (seg local_ip (c_peer_ip cn) (c_peer_port cn) (c_our_seq cn)
                          (c_their_seq cn) (TCP_PSH OR TCP_ACK)) payload s
      in (sent,
          if sent \<ge> 0 then
            upd_conn k (\<lambda>c. c\<lparr>c_has_unacked_data := True, c_unacked_data := payload,
              c_unacked_seq := c_our_seq c, c_last_send_tick_ms := now, c_retransmit_count := 0,
              c_our_seq := c_our_seq c + of_nat (length payload)\<rparr>) s1
          else s1))"

text \<open>The virtual-TCP branch of \<open>RecvFrom\<close> with a non-empty inbox and a buffer of \<open>n\<close> bytes.\<close>

definition vtcp_read :: "nat \<Rightarrow> nat \<Rightarrow> 'a vtcp_scheme \<Rightarrow> u8 list \<times> 'a vtcp_scheme" where
  "vtcp_read n k s =
     (let inbox = c_inbox (conn_at k s);
          deliver = (if length inbox > n then n else length inbox)
      in (take deliver inbox, upd_conn k (\<lambda>c. c\<lparr>c_inbox := drop deliver (c_inbox c)\<rparr>) s))"

section \<open>Frame lemmas\<close>

lemma SendTcpSegment_frame: "\<exists>rc r. SendTcpSegment env h p s = (rc, s\<lparr>g_relay := r\<rparr>)"
proof (cases "BuildTcp h p")
  case None
  have "s = s\<lparr>g_relay := g_relay s\<rparr>" by simp
  then show ?thesis unfolding SendTcpSegment_def None by (metis option.simps(4))
next
  case (Some b)
  then have "SendTcpSegment env h p s = (fst (SendIpv4 (e_sendto env) b (g_relay s)),
      s\<lparr>g_relay := snd (SendIpv4 (e_sendto env) b (g_relay s))\<rparr>)"
    by (simp add: SendTcpSegment_def split_beta)
  then show ?thesis by blast
qed

lemma SendTcpSegment_fields [simp]:
  "g_vtcp_conns (snd (SendTcpSegment env h p s)) = g_vtcp_conns s"
  "g_pending_accepts (snd (SendTcpSegment env h p s)) = g_pending_accepts s"
  "g_active_ldn_instance (snd (SendTcpSegment env h p s)) = g_active_ldn_instance s"
  "g_tcp_listen_fd (snd (SendTcpSegment env h p s)) = g_tcp_listen_fd s"
  "g_next_synthetic_fd (snd (SendTcpSegment env h p s)) = g_next_synthetic_fd s"
  "vtcp.more (snd (SendTcpSegment env h p s)) = vtcp.more s"
  using SendTcpSegment_frame [of env h p s] by auto

lemma send_seg_fields [simp]:
  "g_vtcp_conns (send_seg env h p s) = g_vtcp_conns s"
  "g_pending_accepts (send_seg env h p s) = g_pending_accepts s"
  "g_active_ldn_instance (send_seg env h p s) = g_active_ldn_instance s"
  "g_tcp_listen_fd (send_seg env h p s) = g_tcp_listen_fd s"
  "g_next_synthetic_fd (send_seg env h p s) = g_next_synthetic_fd s"
  "vtcp.more (send_seg env h p s) = vtcp.more s"
  by (simp_all add: send_seg_def)

lemma conn_at_send_seg [simp]: "conn_at k (send_seg env h p s) = conn_at k s"
  by (simp add: conn_at_def)

lemma upd_conn_fields [simp]:
  "g_relay (upd_conn k f s) = g_relay s"
  "g_vtcp_conns (upd_conn k f s) = (g_vtcp_conns s)[k := f (conn_at k s)]"
  "g_pending_accepts (upd_conn k f s) = g_pending_accepts s"
  "g_active_ldn_instance (upd_conn k f s) = g_active_ldn_instance s"
  "g_tcp_listen_fd (upd_conn k f s) = g_tcp_listen_fd s"
  "g_next_synthetic_fd (upd_conn k f s) = g_next_synthetic_fd s"
  "g_random_draws (upd_conn k f s) = g_random_draws s"
  "vtcp.more (upd_conn k f s) = vtcp.more s"
  by (simp_all add: upd_conn_def)

lemma conn_at_upd:
  "j < length (g_vtcp_conns s) \<Longrightarrow>
     conn_at j (upd_conn k f s) = (if j = k then f (conn_at k s) else conn_at j s)"
  by (auto simp: conn_at_def upd_conn_def)

lemma find_peer_SomeD:
  "FindVTcpConnByPeer me ip s = Some k \<Longrightarrow>
     k < length (g_vtcp_conns s) \<and> c_used (conn_at k s) \<and> c_peer_ip (conn_at k s) = ip
     \<and> g_active_ldn_instance s = Some me"
  by (auto simp: FindVTcpConnByPeer_def first_idx_Some_iff conn_at_def split: if_splits)

section \<open>Invariant\<close>

definition conn_ok :: "vtcp_conn \<Rightarrow> bool" where
  "conn_ok c \<longleftrightarrow> length (c_inbox c) \<le> VTcpInboxCap \<and> length (c_unacked_data c) \<le> VTcpInboxCap
     \<and> c_retransmit_count c \<le> MaxDataRetransmits"

text \<open>No two pending accepts for one peer.\<close>

definition pend_ok :: "pending_accept list \<Rightarrow> bool" where
  "pend_ok ps \<longleftrightarrow> (\<forall>i < length ps. \<forall>j < length ps. p_used (ps ! i) \<longrightarrow> p_used (ps ! j)
     \<longrightarrow> p_peer_ip (ps ! i) = p_peer_ip (ps ! j) \<longrightarrow> i = j)"

lemma pend_okD:
  "pend_ok ps \<Longrightarrow> i < length ps \<Longrightarrow> j < length ps \<Longrightarrow> p_used (ps ! i) \<Longrightarrow> p_used (ps ! j) \<Longrightarrow>
     p_peer_ip (ps ! i) = p_peer_ip (ps ! j) \<Longrightarrow> i = j"
  unfolding pend_ok_def by blast

lemma pend_ok_update:
  assumes ok: "pend_ok ps"
    and x: "\<And>i. p_used x \<Longrightarrow> i < length ps \<Longrightarrow> i \<noteq> k \<Longrightarrow> p_used (ps ! i) \<Longrightarrow> p_peer_ip (ps ! i) \<noteq> p_peer_ip x"
  shows "pend_ok (ps[k := x])"
  unfolding pend_ok_def
proof (intro allI impI)
  fix i j
  assume *: "i < length (ps[k := x])" "j < length (ps[k := x])" "p_used (ps[k := x] ! i)"
    "p_used (ps[k := x] ! j)" "p_peer_ip (ps[k := x] ! i) = p_peer_ip (ps[k := x] ! j)"
  consider "i = k" "j = k" | "i = k" "j \<noteq> k" | "i \<noteq> k" "j = k" | "i \<noteq> k" "j \<noteq> k" by blast
  then show "i = j"
  proof cases
    case 2
    then show ?thesis using * x [of j] by auto
  next
    case 3
    then show ?thesis using * x [of i] by auto
  next
    case 4
    then show ?thesis using * pend_okD [OF ok, of i j] by auto
  qed simp
qed

lemma pend_ok_keep:
  assumes "pend_ok ps" and "p_used x \<longrightarrow> p_used (ps ! k) \<and> p_peer_ip x = p_peer_ip (ps ! k)"
  shows "pend_ok (ps[k := x])"
proof (cases "k < length ps")
  case True
  show ?thesis
  proof (rule pend_ok_update [OF assms(1)])
    fix i
    assume "p_used x" "i < length ps" "i \<noteq> k" "p_used (ps ! i)"
    then show "p_peer_ip (ps ! i) \<noteq> p_peer_ip x"
      using assms(2) pend_okD [OF assms(1), of i k] True by auto
  qed
next
  case False
  then show ?thesis using assms(1) by (simp add: list_update_beyond)
qed

definition vtcp_inv :: "'a vtcp_scheme \<Rightarrow> bool" where
  "vtcp_inv s \<longleftrightarrow> length (g_vtcp_conns s) = MaxVTcpConns
     \<and> length (g_pending_accepts s) = MaxPendingAccepts
     \<and> (\<forall>c \<in> set (g_vtcp_conns s). conn_ok c)
     \<and> pend_ok (g_pending_accepts s)"

lemma conn_ok_init: "conn_ok vtcp_conn_init"
  by (simp add: conn_ok_def vtcp_conn_init_def)

lemma vtcp_inv_init: "vtcp_inv vtcp_init"
  by (simp add: vtcp_inv_def vtcp_init_def conn_ok_init pending_accept_init_def pend_ok_def)

lemma vtcp_inv_if: "vtcp_inv x \<Longrightarrow> vtcp_inv y \<Longrightarrow> vtcp_inv (if b then x else y)"
  by simp

lemma vtcp_inv_cong:
  "g_vtcp_conns s' = g_vtcp_conns s \<Longrightarrow> g_pending_accepts s' = g_pending_accepts s \<Longrightarrow>
     vtcp_inv s' \<longleftrightarrow> vtcp_inv s"
  by (simp add: vtcp_inv_def)

lemma vtcp_inv_send_seg [simp]: "vtcp_inv (send_seg env h p s) \<longleftrightarrow> vtcp_inv s"
  by (rule vtcp_inv_cong) simp_all

lemma vtcp_inv_upd:
  "vtcp_inv s \<Longrightarrow> conn_ok (f (conn_at k s)) \<Longrightarrow> vtcp_inv (upd_conn k f s)"
  by (auto simp: vtcp_inv_def dest!: set_list_update_cases)

lemma vtcp_inv_conn: "vtcp_inv s \<Longrightarrow> k < length (g_vtcp_conns s) \<Longrightarrow> conn_ok (conn_at k s)"
  by (auto simp: vtcp_inv_def conn_at_def)

lemma handle_syn_inv:
  assumes "vtcp_inv s"
  shows "vtcp_inv (handle_syn env local_ip src_ip src_port seqno c s)"
proof (cases "c \<noteq> None \<or> (\<exists>p \<in> set (g_pending_accepts s). p_used p \<and> p_peer_ip p = src_ip)")
  case True
  then show ?thesis using assms by (auto simp: handle_syn_def)
next
  case False
  show ?thesis
  proof (cases "first_idx (\<lambda>p. \<not> p_used p) (g_pending_accepts s)")
    case None
    then show ?thesis using False assms by (auto simp: handle_syn_def)
  next
    case (Some k)
    have "pend_ok ((g_pending_accepts s)[k := \<lparr>p_used = True, p_peer_ip = src_ip, p_peer_port = src_port,
        p_our_isn = isn, p_their_isn = seqno, p_got_final_ack = False\<rparr>])" for isn
      using assms False by (intro pend_ok_update) (auto simp: vtcp_inv_def)
    then show ?thesis using False Some assms
      by (auto simp: handle_syn_def draw_random_def Let_def vtcp_inv_def)
  qed
qed

lemma handle_ack_inv:
  assumes inv: "vtcp_inv s" and k: "\<And>k. c = Some k \<Longrightarrow> k < length (g_vtcp_conns s)"
  shows "vtcp_inv (handle_ack env local_ip src_ip src_port seqno ack payload c s)"
proof -
  have data: "vtcp_inv (handle_data env local_ip src_ip src_port seqno payload k s')"
    if "vtcp_inv s'" "k < length (g_vtcp_conns s')" for k and s' :: "'a vtcp_scheme"
    using vtcp_inv_conn [OF that] that
    by (auto simp: handle_data_def Let_def conn_ok_def intro!: vtcp_inv_upd)
  have ack: "vtcp_inv (upd_conn k (\<lambda>c. c\<lparr>c_has_unacked_data := False\<rparr>) s)"
    if "k < length (g_vtcp_conns s)" for k
    using vtcp_inv_conn [OF inv that] inv by (auto simp: conn_ok_def intro!: vtcp_inv_upd)
  have pend: "vtcp_inv (s\<lparr>g_pending_accepts := (g_pending_accepts s)
        [j := (g_pending_accepts s ! j)\<lparr>p_got_final_ack := True\<rparr>]\<rparr>)" for j
    using inv by (auto simp: vtcp_inv_def intro: pend_ok_keep)
  show ?thesis
  proof (cases "first_idx (\<lambda>p. p_used p \<and> p_peer_ip p = src_ip \<and> \<not> p_got_final_ack p
                \<and> ack = p_our_isn p + 1) (g_pending_accepts s)")
    case (Some j)
    then show ?thesis using pend by (simp add: handle_ack_def)
  next
    case None
    then show ?thesis
      using inv k ack data by (cases c) (auto simp: handle_ack_def Let_def intro!: data)
  qed
qed

lemma HandleTcpSegment_inv:
  assumes inv: "vtcp_inv s"
  shows "vtcp_inv (HandleTcpSegment env me local_ip src_ip src_port seqno ack flags payload s)"
proof -
  define c where "c = FindVTcpConnByPeer me src_ip s"
  have k: "k < length (g_vtcp_conns s)" if "c = Some k" for k
    using find_peer_SomeD that c_def by metis
  then have ok: "conn_ok (conn_at k s)" if "c = Some k" for k using vtcp_inv_conn [OF inv] that by blast
  have 1: "vtcp_inv (case c of None \<Rightarrow> s | Some k \<Rightarrow> upd_conn k (\<lambda>c. c\<lparr>c_peer_closed := True\<rparr>) s)"
    using inv ok by (cases c) (auto simp: conn_ok_def intro!: vtcp_inv_upd)
  have 2: "vtcp_inv (handle_syn_ack env local_ip src_ip src_port seqno ack c s)"
    using inv ok by (cases c) (auto simp: handle_syn_ack_def Let_def conn_ok_def intro!: vtcp_inv_upd)
  have 3: "vtcp_inv (handle_fin env local_ip src_ip src_port seqno c s)"
    using inv ok by (cases c) (auto simp: handle_fin_def Let_def conn_ok_def intro!: vtcp_inv_upd)
  have 4: "vtcp_inv (handle_ack env local_ip src_ip src_port seqno ack payload c s)"
    by (rule handle_ack_inv [OF inv k])
  show ?thesis
    unfolding HandleTcpSegment_def Let_def c_def [symmetric]
    by (intro vtcp_inv_if 1 2 3 4 inv handle_syn_inv)
qed

lemma retransmit_conn_inv:
  assumes "vtcp_inv s" and "k < length (g_vtcp_conns s)"
  shows "vtcp_inv (retransmit_conn env local_ip now k s)"
  using vtcp_inv_conn [OF assms] assms(1)
  by (auto simp: retransmit_conn_def Let_def conn_ok_def intro!: vtcp_inv_upd)

lemma CheckDataRetransmits_inv:
  assumes "vtcp_inv s"
  shows "vtcp_inv (CheckDataRetransmits env local_ip now s)"
proof -
  have "vtcp_inv (fold (retransmit_conn env local_ip now) ks s)"
    if "\<forall>k \<in> set ks. k < MaxVTcpConns" "vtcp_inv s" for ks and s :: "'a vtcp_scheme"
    using that
  proof (induction ks arbitrary: s)
    case Nil
    then show ?case by simp
  next
    case (Cons k ks)
    then have "vtcp_inv (retransmit_conn env local_ip now k s)"
      by (intro retransmit_conn_inv) (auto simp: vtcp_inv_def)
    then show ?case using Cons by simp
  qed
  from this [of "[0..<length (g_vtcp_conns s)]" s] show ?thesis
    using assms by (simp add: CheckDataRetransmits_def vtcp_inv_def [of s])
qed

section \<open>What a segment looks like on the wire\<close>

text \<open>Up to 1360 bytes of payload a segment is one frame; the peer's parser reads back what was sent.\<close>

definition on_wire :: "tcp_hdr \<Rightarrow> u8 list \<Rightarrow> u8 list list \<Rightarrow> bool" where
  "on_wire h p frames \<longleftrightarrow>
     (\<exists>b. frames = [FrameIpv4 # b] \<and> ParseIpv4Tcp b = Some (Some (tcp_view_of h, p)))"

lemma send_seg_on_wire:
  assumes "m_connected (g_relay s)" and "length p \<le> 1360"
  shows "on_wire h p (sent_frames (g_relay s) (g_relay (send_seg env h p s)))"
proof -
  have cap: "length p \<le> MaxBridgedPayload" using assms(2) by (simp add: cap_defs)
  obtain b where b: "BuildTcp h p = Some b" "ParseIpv4Tcp b = Some (Some (tcp_view_of h, p))"
    using tcp.build_fits [OF cap, of h] by blast
  have "length b \<le> RELAY_MTU" using BuildTcp_length [OF b(1)] assms(2) by (simp add: frag_consts)
  then have "sent_frames (g_relay s) (g_relay (send_seg env h p s)) = [FrameIpv4 # b]"
    using assms(1) b(1)
    by (simp add: send_seg_def SendTcpSegment_def SendIpv4_def SendRaw_def sent_frames_def Let_def)
  then show ?thesis using b(2) by (auto simp: on_wire_def)
qed

lemma sent_frames_refl [simp]: "sent_frames r r = []"
  by (simp add: sent_frames_def)

section \<open>Keys of the connection table\<close>

definition conn_keys :: "'a vtcp_scheme \<Rightarrow> (bool \<times> u32) list" where
  "conn_keys s = map (\<lambda>c. (c_used c, c_peer_ip c)) (g_vtcp_conns s)"

lemma conn_keys_send_seg [simp]: "conn_keys (send_seg env h p s) = conn_keys s"
  by (simp add: conn_keys_def)

lemma conn_keys_upd [simp]:
  assumes "c_used (f (conn_at k s)) = c_used (conn_at k s)"
    and "c_peer_ip (f (conn_at k s)) = c_peer_ip (conn_at k s)"
  shows "conn_keys (upd_conn k f s) = conn_keys s"
proof (cases "k < length (g_vtcp_conns s)")
  case True
  then show ?thesis using assms
    by (auto simp: conn_keys_def map_update conn_at_def intro!: list_update_same_conv [THEN iffD2])
qed (simp add: conn_keys_def list_update_beyond)

lemma first_idx_map: "first_idx (\<lambda>x. P (f x)) xs = first_idx P (map f xs)"
  by (induction xs) auto

lemma find_peer_keys:
  "FindVTcpConnByPeer me ip s = (if g_active_ldn_instance s \<noteq> Some me then None
     else first_idx (\<lambda>(u, q). u \<and> q = ip) (conn_keys s))"
  by (simp add: FindVTcpConnByPeer_def conn_keys_def first_idx_map [symmetric])

lemma conn_keys_other [simp]:
  "conn_keys (s\<lparr>g_pending_accepts := ps\<rparr>) = conn_keys s"
  "conn_keys (s\<lparr>g_random_draws := n\<rparr>) = conn_keys s"
  by (simp_all add: conn_keys_def)

lemma handle_data_frame [simp]:
  "conn_keys (handle_data env ip src port seqno p k s) = conn_keys s"
  "g_active_ldn_instance (handle_data env ip src port seqno p k s) = g_active_ldn_instance s"
  "g_pending_accepts (handle_data env ip src port seqno p k s) = g_pending_accepts s"
  by (simp_all add: handle_data_def Let_def)

lemma handle_ack_frame [simp]:
  "conn_keys (handle_ack env ip src port seqno ack p c s) = conn_keys s"
  "g_active_ldn_instance (handle_ack env ip src port seqno ack p c s) = g_active_ldn_instance s"
  by (simp_all add: handle_ack_def Let_def split: option.splits)

lemma handle_syn_frame [simp]:
  "conn_keys (handle_syn env ip src port seqno c s) = conn_keys s"
  "g_active_ldn_instance (handle_syn env ip src port seqno c s) = g_active_ldn_instance s"
  by (simp_all add: handle_syn_def draw_random_def Let_def split: option.splits)

lemma handle_syn_ack_frame [simp]:
  "conn_keys (handle_syn_ack env ip src port seqno ack c s) = conn_keys s"
  "g_active_ldn_instance (handle_syn_ack env ip src port seqno ack c s) = g_active_ldn_instance s"
  by (simp_all add: handle_syn_ack_def Let_def split: option.splits)

lemma handle_fin_frame [simp]:
  "conn_keys (handle_fin env ip src port seqno c s) = conn_keys s"
  "g_active_ldn_instance (handle_fin env ip src port seqno c s) = g_active_ldn_instance s"
  by (simp_all add: handle_fin_def Let_def split: option.splits)

lemma HandleTcpSegment_frame [simp]:
  "conn_keys (HandleTcpSegment env me ip src port seqno ack flags p s) = conn_keys s"
  "g_active_ldn_instance (HandleTcpSegment env me ip src port seqno ack flags p s) = g_active_ldn_instance s"
  by (simp_all add: HandleTcpSegment_def Let_def split: option.splits)

lemma find_peer_cong:
  "conn_keys s' = conn_keys s \<Longrightarrow> g_active_ldn_instance s' = g_active_ldn_instance s \<Longrightarrow>
     FindVTcpConnByPeer me ip s' = FindVTcpConnByPeer me ip s"
  by (simp add: find_peer_keys)

lemma conn_keys_length: "length (conn_keys s) = length (g_vtcp_conns s)"
  by (simp add: conn_keys_def)

text \<open>A segment touches no connection but the one it belongs to.\<close>

lemma conn_at_other [simp]:
  "conn_at j (s\<lparr>g_pending_accepts := ps\<rparr>) = conn_at j s"
  "conn_at j (s\<lparr>g_random_draws := n\<rparr>) = conn_at j s"
  by (simp_all add: conn_at_def)

lemma conn_at_upd_neq: "j \<noteq> k \<Longrightarrow> conn_at j (upd_conn k f s) = conn_at j s"
  by (simp add: conn_at_def)

lemma HandleTcpSegment_other_conn:
  assumes "FindVTcpConnByPeer me src s \<noteq> Some j"
  shows "conn_at j (HandleTcpSegment env me ip src port seqno ack flags p s) = conn_at j s"
proof -
  have data: "conn_at j (handle_data env ip src port seqno p k s') = conn_at j s'" if "j \<noteq> k"
    for k and s' :: "'a vtcp_scheme"
    using that by (simp add: handle_data_def Let_def conn_at_upd_neq)
  have ack: "conn_at j (handle_ack env ip src port seqno ack p c s) = conn_at j s" if "c \<noteq> Some j" for c
    using that by (cases c) (auto simp: handle_ack_def Let_def data conn_at_upd_neq split: option.splits)
  show ?thesis
    using assms ack [OF assms]
    by (cases "FindVTcpConnByPeer me src s")
       (auto simp: HandleTcpSegment_def Let_def handle_syn_def handle_syn_ack_def handle_fin_def
         draw_random_def conn_at_upd_neq split: option.splits)
qed

end
