(* ===== verification/VTcpStream.thy ===== *)
theory VTcpStream
  imports VTcp
begin

text \<open>
  What the virtual TCP endpoint (theory \<open>VTcp\<close>) promises: the handshakes of both roles, the branches
  of the data path, the byte stream delivered to the application under loss, duplication and
  reordering of segments, and bounded retransmission.
\<close>

section \<open>Handshakes\<close>

lemma flag_cases:
  "has_flag TCP_SYN TCP_SYN" "\<not> has_flag TCP_SYN TCP_ACK" "\<not> has_flag TCP_SYN TCP_FIN"
  "\<not> has_flag TCP_SYN TCP_RST"
  "has_flag (TCP_SYN OR TCP_ACK) TCP_SYN" "has_flag (TCP_SYN OR TCP_ACK) TCP_ACK"
  "\<not> has_flag (TCP_SYN OR TCP_ACK) TCP_RST"
  "\<not> has_flag TCP_ACK TCP_SYN" "has_flag TCP_ACK TCP_ACK" "\<not> has_flag TCP_ACK TCP_FIN"
  "\<not> has_flag TCP_ACK TCP_RST"
  "\<not> has_flag (TCP_PSH OR TCP_ACK) TCP_SYN" "has_flag (TCP_PSH OR TCP_ACK) TCP_ACK"
  "\<not> has_flag (TCP_PSH OR TCP_ACK) TCP_FIN" "\<not> has_flag (TCP_PSH OR TCP_ACK) TCP_RST"
  by (simp_all add: has_flag_def tcp_flag_defs)

text \<open>A pending entry becomes ready by the one acknowledgement that fits it.\<close>

lemma final_ack_exact:
  assumes k: "k < length (g_pending_accepts s)" and p: "p_used (g_pending_accepts s ! k)"
      "p_peer_ip (g_pending_accepts s ! k) = src" "\<not> p_got_final_ack (g_pending_accepts s ! k)"
    and other: "\<forall>j < length (g_pending_accepts s). j \<noteq> k \<longrightarrow> p_used (g_pending_accepts s ! j)
        \<longrightarrow> p_peer_ip (g_pending_accepts s ! j) \<noteq> src"
    and new: "FindVTcpConnByPeer me src s = None"
  shows "p_got_final_ack (g_pending_accepts (HandleTcpSegment env me ip src port seqno ack TCP_ACK [] s) ! k)
     \<longleftrightarrow> ack = p_our_isn (g_pending_accepts s ! k) + 1"
proof -
  let ?ps = "g_pending_accepts s"
  let ?Q = "\<lambda>p. p_used p \<and> p_peer_ip p = src \<and> \<not> p_got_final_ack p \<and> ack = p_our_isn p + 1"
  have step: "HandleTcpSegment env me ip src port seqno ack TCP_ACK [] s = handle_ack env ip src port seqno ack [] None s"
    using new by (simp add: HandleTcpSegment_def Let_def flag_cases)
  show ?thesis
  proof (cases "ack = p_our_isn (?ps ! k) + 1")
    case True
    then have "first_idx ?Q ?ps = Some k" using k p other unfolding first_idx_Some_iff by auto
    then show ?thesis using True k unfolding step handle_ack_def by simp
  next
    case False
    then have "\<not> ?Q (?ps ! j)" if "j < length ?ps" for j using other that by (cases "j = k") auto
    then have "\<forall>p \<in> set ?ps. \<not> ?Q p" by (metis in_set_conv_nth)
    then have "first_idx ?Q ?ps = None" unfolding first_idx_None_iff .
    then show ?thesis using False p(3) unfolding step handle_ack_def by simp
  qed
qed

text \<open>Host role: a SYN from a new peer is answered at once with a SYN-ACK that acknowledges its
  sequence number plus one, and only an ACK of the number sent in that SYN-ACK plus one makes the
  pending connection ready for \<open>Accept\<close>; any other ACK leaves it pending.\<close>

theorem handshake_host_role:
  assumes inv: "vtcp_inv s" and new: "FindVTcpConnByPeer me src s = None"
    and none: "\<forall>p \<in> set (g_pending_accepts s). p_used p \<longrightarrow> p_peer_ip p \<noteq> src"
    and free: "\<exists>p \<in> set (g_pending_accepts s). \<not> p_used p" and up: "m_connected (g_relay s)"
    and s1: "s1 = HandleTcpSegment env me ip src port isn 0 TCP_SYN [] s"
    and ours: "ours = e_random env (g_random_draws s)"
  shows "on_wire (seg ip src port ours (isn + 1) (TCP_SYN OR TCP_ACK)) [] (sent_frames (g_relay s) (g_relay s1))
     \<and> (\<exists>k < MaxPendingAccepts.
          g_pending_accepts s1 ! k = \<lparr>p_used = True, p_peer_ip = src, p_peer_port = port, p_our_isn = ours,
             p_their_isn = isn, p_got_final_ack = False\<rparr>
          \<and> (\<forall>seqno ack. p_got_final_ack (g_pending_accepts
                (HandleTcpSegment env me ip src port seqno ack TCP_ACK [] s1) ! k) \<longleftrightarrow> ack = ours + 1))"
proof -
  let ?p = "\<lparr>p_used = True, p_peer_ip = src, p_peer_port = port, p_our_isn = ours,
             p_their_isn = isn, p_got_final_ack = False\<rparr>"
  obtain k where k: "first_idx (\<lambda>p. \<not> p_used p) (g_pending_accepts s) = Some k"
    using free by (cases "first_idx (\<lambda>p. \<not> p_used p) (g_pending_accepts s)") (auto simp: first_idx_None_iff)
  have kl: "k < length (g_pending_accepts s)" "length (g_pending_accepts s) = MaxPendingAccepts"
    using k inv by (auto simp: first_idx_Some_iff vtcp_inv_def)
  define s0 where "s0 = s\<lparr>g_random_draws := g_random_draws s + 1,
      g_pending_accepts := (g_pending_accepts s)[k := ?p]\<rparr>"
  have s1': "s1 = send_seg env (seg ip src port ours (isn + 1) (TCP_SYN OR TCP_ACK)) [] s0"
    using new none k unfolding s1 s0_def ours
    by (auto simp: HandleTcpSegment_def Let_def flag_cases handle_syn_def draw_random_def)
  have up0: "m_connected (g_relay s0)" "g_relay s0 = g_relay s" using up by (simp_all add: s0_def)
  have wire: "on_wire (seg ip src port ours (isn + 1) (TCP_SYN OR TCP_ACK)) []
      (sent_frames (g_relay s) (g_relay s1))"
    using send_seg_on_wire [OF up0(1), of "[]"] unfolding s1' up0(2) by simp
  have pend: "g_pending_accepts s1 = (g_pending_accepts s)[k := ?p]" by (simp add: s1' s0_def)
  have find1: "FindVTcpConnByPeer me src s1 = None"
    using new find_peer_cong [of s1 s me src] by (simp add: s1' s0_def)
  have at: "g_pending_accepts s1 ! k = ?p" using kl by (simp add: pend)
  have other: "\<forall>j < length (g_pending_accepts s1). j \<noteq> k \<longrightarrow> p_used (g_pending_accepts s1 ! j)
      \<longrightarrow> p_peer_ip (g_pending_accepts s1 ! j) \<noteq> src"
    using none unfolding pend by auto
  have "k < length (g_pending_accepts s1)" using kl by (simp add: pend)
  note final = final_ack_exact [OF this _ _ _ other find1, unfolded at, simplified]
  show ?thesis using wire at final kl by auto
qed

definition sample_env :: env where
  "sample_env = \<lparr>e_sendto = (\<lambda>log d. int (length d)), e_random = (\<lambda>n. 4000 + of_nat n)\<rparr>"

definition vtcp_up :: vtcp where
  "vtcp_up = vtcp_init\<lparr>g_relay := relay_up, g_active_ldn_instance := Some 1\<rparr>"

lemma vtcp_up_simps:
  "vtcp_inv vtcp_up" "m_connected (g_relay vtcp_up)" "g_active_ldn_instance vtcp_up = Some 1"
  "g_pending_accepts vtcp_up = replicate MaxPendingAccepts pending_accept_init"
  "g_vtcp_conns vtcp_up = replicate MaxVTcpConns vtcp_conn_init"
  using vtcp_inv_init
  by (simp_all add: vtcp_up_def vtcp_inv_def vtcp_init_def relay_up_def)

lemma vtcp_up_no_peer: "FindVTcpConnByPeer me ip vtcp_up = None"
  by (simp add: FindVTcpConnByPeer_def vtcp_up_simps first_idx_None_iff vtcp_conn_init_def)

theorem handshake_host_role_witness:
  "on_wire (seg 0x0A0D0001 0x0A0D0002 5555 4000 78 (TCP_SYN OR TCP_ACK)) []
     (sent_frames (g_relay vtcp_up)
       (g_relay (HandleTcpSegment sample_env 1 0x0A0D0001 0x0A0D0002 5555 77 0 TCP_SYN [] vtcp_up)))"
proof -
  have "\<exists>p \<in> set (g_pending_accepts vtcp_up). \<not> p_used p"
    by (simp add: vtcp_up_simps MaxPendingAccepts_def pending_accept_init_def)
  moreover have "\<forall>p \<in> set (g_pending_accepts vtcp_up). p_used p \<longrightarrow> p_peer_ip p \<noteq> 0x0A0D0002"
    by (simp add: vtcp_up_simps pending_accept_init_def)
  moreover have "e_random sample_env (g_random_draws vtcp_up) = 4000"
    by (simp add: sample_env_def vtcp_up_def vtcp_init_def)
  ultimately show ?thesis
    using handshake_host_role [OF vtcp_up_simps(1) vtcp_up_no_peer [of 1 "0x0A0D0002"] _ _ vtcp_up_simps(2)
        refl refl, where env = sample_env and ip = "0x0A0D0001" and port = 5555 and isn = 77]
    by simp
qed

text \<open>Client role: the SYN-ACK that acknowledges our initial sequence number plus one completes the
  handshake: both sequence numbers are set, the final ACK goes out with them, the connection is
  established. A SYN-ACK with any other acknowledgement changes nothing.\<close>

theorem handshake_client_role:
  assumes k: "FindVTcpConnByPeer me src s = Some k"
    and cn: "c_syn_sent_awaiting_synack (conn_at k s)" and up: "m_connected (g_relay s)"
    and s1: "s1 = HandleTcpSegment env me ip src port seqno ack (TCP_SYN OR TCP_ACK) [] s"
  shows "(ack = c_our_isn (conn_at k s) + 1 \<longrightarrow>
            conn_at k s1 = (conn_at k s)\<lparr>c_their_seq := seqno + 1, c_our_seq := ack,
               c_syn_sent_awaiting_synack := False, c_established := True\<rparr>
            \<and> on_wire (seg ip src port ack (seqno + 1) TCP_ACK) [] (sent_frames (g_relay s) (g_relay s1)))
     \<and> (ack \<noteq> c_our_isn (conn_at k s) + 1 \<longrightarrow> s1 = s)"
proof -
  note kD = find_peer_SomeD [OF k]
  let ?f = "\<lambda>c. c\<lparr>c_their_seq := seqno + 1, c_our_seq := c_our_isn c + 1,
                          c_syn_sent_awaiting_synack := False, c_established := True\<rparr>"
  have step: "s1 = handle_syn_ack env ip src port seqno ack (Some k) s"
    using k unfolding s1 by (simp add: HandleTcpSegment_def Let_def flag_cases)
  have at: "conn_at k (upd_conn k ?f s) = ?f (conn_at k s)" using kD by (simp add: conn_at_upd)
  have w: "on_wire h [] (sent_frames (g_relay s) (g_relay (send_seg env h [] (upd_conn k ?f s))))" for h
    using send_seg_on_wire [of "upd_conn k ?f s" "[]" h env] up by simp
  show ?thesis unfolding step handle_syn_ack_def Let_def using cn at w by (simp add: Let_def)
qed

definition vtcp_syn_sent :: vtcp where
  "vtcp_syn_sent = upd_conn 0 (\<lambda>c. vtcp_conn_init\<lparr>c_used := True, c_fd := 5, c_peer_ip := 0x0A0D0002,
     c_peer_port := LdnControlPort, c_our_isn := 0xFFFFFFFF, c_syn_sent_awaiting_synack := True\<rparr>) vtcp_up"

lemma vtcp_syn_sent_simps:
  "FindVTcpConnByPeer 1 0x0A0D0002 vtcp_syn_sent = Some 0"
  "conn_at 0 vtcp_syn_sent = vtcp_conn_init\<lparr>c_used := True, c_fd := 5, c_peer_ip := 0x0A0D0002,
     c_peer_port := LdnControlPort, c_our_isn := 0xFFFFFFFF, c_syn_sent_awaiting_synack := True\<rparr>"
  "m_connected (g_relay vtcp_syn_sent)"
  by (simp_all add: vtcp_syn_sent_def FindVTcpConnByPeer_def vtcp_up_simps conn_at_def MaxVTcpConns_def
      first_idx_Some_iff)

theorem handshake_client_role_witness:
  "c_established (conn_at 0 (HandleTcpSegment sample_env 1 0x0A0D0001 0x0A0D0002 LdnControlPort
     900 0 (TCP_SYN OR TCP_ACK) [] vtcp_syn_sent))"
  using handshake_client_role [OF vtcp_syn_sent_simps(1) _ vtcp_syn_sent_simps(3) refl,
      where env = sample_env and ip = "0x0A0D0001" and port = LdnControlPort and seqno = 900 and ack = 0]
  by (simp add: vtcp_syn_sent_simps(2))

section \<open>The data path, branch by branch\<close>

lemma data_segment_step:
  assumes k: "FindVTcpConnByPeer me src s = Some k" and flags: "\<not> has_flag flags TCP_RST" "\<not> has_flag flags TCP_SYN"
      "\<not> has_flag flags TCP_FIN" "has_flag flags TCP_ACK"
    and np: "\<forall>p \<in> set (g_pending_accepts s). p_used p \<longrightarrow> p_peer_ip p \<noteq> src"
  shows "HandleTcpSegment env me ip src port seqno ack flags p s
     = handle_data env ip src port seqno p k
         (if c_has_unacked_data (conn_at k s)
             \<and> ack = c_unacked_seq (conn_at k s) + of_nat (length (c_unacked_data (conn_at k s)))
          then upd_conn k (\<lambda>c. c\<lparr>c_has_unacked_data := False\<rparr>) s else s)"
proof -
  have "first_idx (\<lambda>p. p_used p \<and> p_peer_ip p = src \<and> \<not> p_got_final_ack p \<and> ack = p_our_isn p + 1)
      (g_pending_accepts s) = None"
    unfolding first_idx_None_iff using np by blast
  then show ?thesis using k flags by (simp add: HandleTcpSegment_def Let_def handle_ack_def)
qed

text \<open>Data on an established connection: the segment that starts at the expected sequence number and
  fits the inbox is appended and acknowledged up to its last byte; anything else (a duplicate, a
  gap, no room) leaves inbox and expected number as they are and is not acknowledged.\<close>

theorem data_segment_branches:
  assumes k: "FindVTcpConnByPeer me src s = Some k" and est: "c_established (conn_at k s)"
    and np: "\<forall>p \<in> set (g_pending_accepts s). p_used p \<longrightarrow> p_peer_ip p \<noteq> src"
    and up: "m_connected (g_relay s)" and p: "p \<noteq> []"
    and s1: "s1 = HandleTcpSegment env me ip src port seqno ack (TCP_PSH OR TCP_ACK) p s"
  shows "if seqno = c_their_seq (conn_at k s) \<and> length (c_inbox (conn_at k s)) + length p \<le> VTcpInboxCap
     then c_inbox (conn_at k s1) = c_inbox (conn_at k s) @ p
        \<and> c_their_seq (conn_at k s1) = seqno + of_nat (length p)
        \<and> on_wire (seg ip src port (c_our_seq (conn_at k s)) (seqno + of_nat (length p)) TCP_ACK) []
            (sent_frames (g_relay s) (g_relay s1))
     else c_inbox (conn_at k s1) = c_inbox (conn_at k s)
        \<and> c_their_seq (conn_at k s1) = c_their_seq (conn_at k s) \<and> g_relay s1 = g_relay s"
proof -
  note kD = find_peer_SomeD [OF k]
  let ?clear = "c_has_unacked_data (conn_at k s)
      \<and> ack = c_unacked_seq (conn_at k s) + of_nat (length (c_unacked_data (conn_at k s)))"
  define s0 where "s0 = (if ?clear then upd_conn k (\<lambda>c. c\<lparr>c_has_unacked_data := False\<rparr>) s else s)"
  have s0: "c_inbox (conn_at k s0) = c_inbox (conn_at k s)" "c_their_seq (conn_at k s0) = c_their_seq (conn_at k s)"
    "c_our_seq (conn_at k s0) = c_our_seq (conn_at k s)" "c_established (conn_at k s0)"
    "g_relay s0 = g_relay s" "k < length (g_vtcp_conns s0)"
    using kD est by (auto simp: s0_def conn_at_upd)
  have step: "s1 = handle_data env ip src port seqno p k s0"
    unfolding s1 s0_def by (rule data_segment_step [OF k flag_cases(15,12,14,13) np])
  let ?f = "\<lambda>c. c\<lparr>c_inbox := c_inbox c @ p, c_their_seq := c_their_seq c + of_nat (length p)\<rparr>"
  have w: "on_wire h [] (sent_frames (g_relay s) (g_relay (send_seg env h [] (upd_conn k ?f s0))))" for h
    using send_seg_on_wire [of "upd_conn k ?f s0" "[]" h env] up s0(5) by simp
  have at: "conn_at k (upd_conn k ?f s0) = ?f (conn_at k s0)" using s0(6) by (simp add: conn_at_upd)
  show ?thesis
    unfolding step handle_data_def Let_def using s0 w at p by (auto simp: cap_defs)
qed

definition vtcp_conn_up :: vtcp where
  "vtcp_conn_up = upd_conn 0 (\<lambda>c. vtcp_conn_init\<lparr>c_used := True, c_fd := 1000, c_peer_ip := 0x0A0D0002,
     c_peer_port := 5555, c_established := True, c_our_seq := 4001, c_their_seq := 0xFFFFFFFF\<rparr>) vtcp_up"

lemma vtcp_conn_up_simps:
  "FindVTcpConnByPeer 1 0x0A0D0002 vtcp_conn_up = Some 0"
  "conn_at 0 vtcp_conn_up = vtcp_conn_init\<lparr>c_used := True, c_fd := 1000, c_peer_ip := 0x0A0D0002,
     c_peer_port := 5555, c_established := True, c_our_seq := 4001, c_their_seq := 0xFFFFFFFF\<rparr>"
  "m_connected (g_relay vtcp_conn_up)"
  "\<forall>p \<in> set (g_pending_accepts vtcp_conn_up). p_used p \<longrightarrow> p_peer_ip p \<noteq> 0x0A0D0002"
  by (simp_all add: vtcp_conn_up_def FindVTcpConnByPeer_def vtcp_up_simps conn_at_def MaxVTcpConns_def
      first_idx_Some_iff pending_accept_init_def)

theorem data_segment_branches_witness:
  "c_inbox (conn_at 0 (HandleTcpSegment sample_env 1 0x0A0D0001 0x0A0D0002 5555 0xFFFFFFFF 4001
     (TCP_PSH OR TCP_ACK) [1, 2] vtcp_conn_up)) = [1, 2]"
  using data_segment_branches [OF vtcp_conn_up_simps(1) _ vtcp_conn_up_simps(4,3) _ refl,
      where env = sample_env and ip = "0x0A0D0001" and port = 5555 and seqno = "0xFFFFFFFF" and ack = 4001
        and p = "[1, 2]"]
  by (simp add: vtcp_conn_up_simps(2) vtcp_conn_init_def cap_defs)

section \<open>The byte stream\<close>

datatype vtcp_event =
    EvSegment u32 u16 u32 u32 u8 "u8 list"
  | EvTick u64
  | EvSend nat u64 "u8 list"
  | EvRead nat nat

text \<open>One event; the bytes are what the application reads from connection \<open>k\<close>.\<close>

fun vtcp_step :: "env \<Rightarrow> nat \<Rightarrow> u32 \<Rightarrow> nat \<Rightarrow> vtcp_event \<Rightarrow> 'a vtcp_scheme \<Rightarrow> u8 list \<times> 'a vtcp_scheme" where
  "vtcp_step env me ip k (EvSegment src port seqno ack flags p) s =
     ([], HandleTcpSegment env me ip src port seqno ack flags p s)"
| "vtcp_step env me ip k (EvTick now) s = ([], CheckDataRetransmits env ip now s)"
| "vtcp_step env me ip k (EvSend j now p) s = ([], snd (vtcp_send env ip now j p s))"
| "vtcp_step env me ip k (EvRead j n) s =
     (let (bytes, s') = vtcp_read n j s in (if j = k then bytes else [], s'))"

fun vtcp_run :: "env \<Rightarrow> nat \<Rightarrow> u32 \<Rightarrow> nat \<Rightarrow> vtcp_event list \<Rightarrow> 'a vtcp_scheme \<Rightarrow> u8 list \<times> 'a vtcp_scheme" where
  "vtcp_run env me ip k [] s = ([], s)"
| "vtcp_run env me ip k (e # es) s =
     (let (d, s') = vtcp_step env me ip k e s; (ds, s'') = vtcp_run env me ip k es s' in (d @ ds, s''))"

text \<open>What a peer that sends the stream \<open>S\<close>, numbered from \<open>base\<close>, may put on the wire: any slice of
  \<open>S\<close> at its number, any number of times, with any acknowledgement; a FIN behind the last byte. Other
  hosts may send anything.\<close>

fun genuine :: "u32 \<Rightarrow> u8 list \<Rightarrow> u32 \<Rightarrow> vtcp_event \<Rightarrow> bool" where
  "genuine peer S base (EvSegment src port seqno ack flags p) \<longleftrightarrow>
     src = peer \<longrightarrow>
       (has_flag flags TCP_FIN \<longrightarrow> seqno = base + of_nat (length S))
       \<and> (p \<noteq> [] \<longrightarrow> (\<exists>off. off + length p \<le> length S \<and> seqno = base + of_nat off
                        \<and> p = take (length p) (drop off S)))"
| "genuine peer S base (EvTick now) \<longleftrightarrow> True"
| "genuine peer S base (EvSend j now p) \<longleftrightarrow> True"
| "genuine peer S base (EvRead j n) \<longleftrightarrow> True"

text \<open>The receiving half of a connection; sending leaves it alone.\<close>

definition rx :: "vtcp_conn \<Rightarrow> bool \<times> u32 \<times> bool \<times> bool \<times> u8 list \<times> u32" where
  "rx c = (c_used c, c_peer_ip c, c_established c, c_syn_sent_awaiting_synack c, c_inbox c, c_their_seq c)"

definition same_rx :: "'a vtcp_scheme \<Rightarrow> 'a vtcp_scheme \<Rightarrow> bool" where
  "same_rx s s' \<longleftrightarrow> map rx (g_vtcp_conns s') = map rx (g_vtcp_conns s)
     \<and> g_active_ldn_instance s' = g_active_ldn_instance s"

lemma same_rx_refl: "same_rx s s"
  by (simp add: same_rx_def)

lemma same_rx_trans: "same_rx s s' \<Longrightarrow> same_rx s' s'' \<Longrightarrow> same_rx s s''"
  by (simp add: same_rx_def)

lemma same_rx_send_seg: "same_rx s (send_seg env h p s)"
  by (simp add: same_rx_def)

lemma same_rx_upd:
  assumes "rx (f (conn_at k s)) = rx (conn_at k s)"
  shows "same_rx s (upd_conn k f s)"
proof (cases "k < length (g_vtcp_conns s)")
  case True
  then show ?thesis using assms
    by (auto simp: same_rx_def map_update conn_at_def intro!: list_update_same_conv [THEN iffD2])
qed (simp add: same_rx_def list_update_beyond)

lemma same_rx_retransmit: "same_rx s (retransmit_conn env ip now k s)"
  by (auto simp: retransmit_conn_def Let_def rx_def same_rx_refl
      intro!: same_rx_upd same_rx_trans [OF same_rx_upd same_rx_send_seg])

lemma same_rx_tick: "same_rx s (CheckDataRetransmits env ip now s)"
proof -
  have "same_rx s (fold (retransmit_conn env ip now) ks s)" for ks
  proof (induction ks arbitrary: s)
    case Nil
    then show ?case by (simp add: same_rx_refl)
  next
    case (Cons k ks)
    show ?case using same_rx_trans [OF same_rx_retransmit Cons.IH] by simp
  qed
  then show ?thesis by (simp add: CheckDataRetransmits_def)
qed

lemma same_rx_vtcp_send: "same_rx s (snd (vtcp_send env ip now k p s))"
proof -
  have *: "same_rx s (snd (SendTcpSegment env h p s))" for h by (simp add: same_rx_def)
  show ?thesis
    unfolding vtcp_send_def Let_def split_beta
    using * by (auto simp: rx_def intro!: same_rx_trans [OF * same_rx_upd])
qed

lemma same_rx_conn: "same_rx s s' \<Longrightarrow> k < length (g_vtcp_conns s) \<Longrightarrow>
    rx (conn_at k s') = rx (conn_at k s) \<and> k < length (g_vtcp_conns s')"
  unfolding same_rx_def conn_at_def by (metis length_map nth_map)

lemma same_rx_find: "same_rx s s' \<Longrightarrow> FindVTcpConnByPeer me ip s' = FindVTcpConnByPeer me ip s"
proof -
  assume *: "same_rx s s'"
  have "conn_keys s = map (\<lambda>(u, q, r). (u, q)) (map rx (g_vtcp_conns s))" for s :: "'a vtcp_scheme"
    by (simp add: conn_keys_def rx_def)
  then have "conn_keys s' = conn_keys s" using * by (simp add: same_rx_def del: map_map)
  then show ?thesis using * by (intro find_peer_cong) (simp_all add: same_rx_def)
qed

definition stream_state :: "nat \<Rightarrow> u32 \<Rightarrow> nat \<Rightarrow> u8 list \<Rightarrow> u32 \<Rightarrow> u8 list \<Rightarrow> 'a vtcp_scheme \<Rightarrow> bool" where
  "stream_state me peer k S base D s \<longleftrightarrow>
     FindVTcpConnByPeer me peer s = Some k
     \<and> c_established (conn_at k s) \<and> \<not> c_syn_sent_awaiting_synack (conn_at k s)
     \<and> (\<exists>n \<le> length S. D @ c_inbox (conn_at k s) = take n S
          \<and> (c_their_seq (conn_at k s) = base + of_nat n
             \<or> c_their_seq (conn_at k s) = base + of_nat (length S + 1)))"

lemma stream_state_cong:
  assumes st: "stream_state me peer k S base D s" and f: "FindVTcpConnByPeer me peer s' = Some k"
    and "rx (conn_at k s') = rx (conn_at k s)"
  shows "stream_state me peer k S base D s'"
  using assms by (simp add: stream_state_def rx_def)

lemma stream_state_same_rx:
  assumes "stream_state me peer k S base D s" and "same_rx s s'"
  shows "stream_state me peer k S base D s'"
proof -
  have k: "FindVTcpConnByPeer me peer s = Some k" using assms(1) by (simp add: stream_state_def)
  then have "k < length (g_vtcp_conns s)" using find_peer_SomeD by blast
  then show ?thesis
    using stream_state_cong [OF assms(1)] same_rx_find [OF assms(2)] same_rx_conn [OF assms(2)] k by metis
qed

lemma of_nat_u32_inj: "a < 2 ^ 32 \<Longrightarrow> b < 2 ^ 32 \<Longrightarrow> (of_nat a :: u32) = of_nat b \<longleftrightarrow> a = b"
  by (simp add: word_of_nat_eq_iff take_bit_nat_eq_self)

lemma stream_append:
  assumes n: "n \<le> length S" "X = take n S" and S: "length S + 1 < 2 ^ 32"
    and seqno: "(seqno :: u32) = base + of_nat n \<or> seqno = base + of_nat (length S + 1)"
    and p: "off + length p \<le> length S" "seqno = base + of_nat off" "p = take (length p) (drop off S)"
  shows "n + length p \<le> length S \<and> X @ p = take (n + length p) S \<and> seqno = base + of_nat n"
proof -
  have "off < 2 ^ 32" "n < 2 ^ 32" "length S + 1 < 2 ^ 32" "off \<noteq> length S + 1" using n p(1) S by linarith+
  then have "off = n" using seqno p(2) of_nat_u32_inj [of off n] of_nat_u32_inj [of off "length S + 1"]
    by auto
  then show ?thesis using n p by (simp add: take_add)
qed

lemma handle_data_stream:
  assumes st: "stream_state me peer k S base D s" and S: "length S + 1 < 2 ^ 32"
    and p: "p \<noteq> [] \<longrightarrow> (\<exists>off. off + length p \<le> length S \<and> seqno = base + of_nat off
                        \<and> p = take (length p) (drop off S))"
  shows "stream_state me peer k S base D (handle_data env ip src port seqno p k s)"
proof -
  have find: "FindVTcpConnByPeer me peer s = Some k" and est: "c_established (conn_at k s)"
    "\<not> c_syn_sent_awaiting_synack (conn_at k s)"
    using st by (simp_all add: stream_state_def)
  have kl: "k < length (g_vtcp_conns s)" using find_peer_SomeD [OF find] by blast
  let ?f = "\<lambda>c. c\<lparr>c_inbox := c_inbox c @ p, c_their_seq := c_their_seq c + of_nat (length p)\<rparr>"
  let ?take = "p \<noteq> [] \<and> seqno = c_their_seq (conn_at k s) \<and> length (c_inbox (conn_at k s)) + length p \<le> VTcpInboxCap"
  have find': "FindVTcpConnByPeer me peer (handle_data env ip src port seqno p k s) = Some k"
    using find find_peer_cong [of "handle_data env ip src port seqno p k s" s] by simp
  show ?thesis
  proof (cases ?take)
    case False
    then have "conn_at k (handle_data env ip src port seqno p k s) = conn_at k s"
      using est by (auto simp: handle_data_def Let_def)
    then show ?thesis using stream_state_cong [OF st find'] by simp
  next
    case True
    then have at: "conn_at k (handle_data env ip src port seqno p k s) = ?f (conn_at k s)"
      using est kl by (auto simp: handle_data_def Let_def conn_at_upd cap_defs)
    obtain n where n: "n \<le> length S" "D @ c_inbox (conn_at k s) = take n S"
      "c_their_seq (conn_at k s) = base + of_nat n \<or> c_their_seq (conn_at k s) = base + of_nat (length S + 1)"
      using st by (auto simp: stream_state_def)
    obtain off where off: "off + length p \<le> length S" "seqno = base + of_nat off"
      "p = take (length p) (drop off S)"
      using p True by blast
    have "n + length p \<le> length S \<and> (D @ c_inbox (conn_at k s)) @ p = take (n + length p) S
        \<and> seqno = base + of_nat n"
      using stream_append [OF n(1,2) S _ off] n(3) True by simp
    then show ?thesis using find' at est True
      unfolding stream_state_def by (auto intro!: exI [of _ "n + length p"])
  qed
qed

lemma segment_stream:
  assumes st: "stream_state me peer k S base D s" and S: "length S + 1 < 2 ^ 32"
    and g: "genuine peer S base (EvSegment src port seqno ack flags p)"
  shows "stream_state me peer k S base D (HandleTcpSegment env me ip src port seqno ack flags p s)"
proof -
  let ?s' = "HandleTcpSegment env me ip src port seqno ack flags p s"
  have find: "FindVTcpConnByPeer me peer s = Some k" using st by (simp add: stream_state_def)
  note kD = find_peer_SomeD [OF find]
  have find': "FindVTcpConnByPeer me peer ?s' = Some k" using find find_peer_cong [of ?s' s] by simp
  show ?thesis
  proof (cases "src = peer")
    case False
    have "FindVTcpConnByPeer me src s \<noteq> Some k" using find_peer_SomeD [of me src s k] kD False by auto
    then show ?thesis using stream_state_cong [OF st find'] HandleTcpSegment_other_conn by metis
  next
    case True
    have upd: "stream_state me peer k S base D (upd_conn k f s)"
      if "rx (f (conn_at k s)) = rx (conn_at k s)" for f
      using stream_state_same_rx [OF st same_rx_upd] that by blast
    have fin: "stream_state me peer k S base D (handle_fin env ip src port seqno (Some k) s)"
      if "has_flag flags TCP_FIN"
    proof -
      have q: "seqno + 1 = base + of_nat (length S + 1)" using that g True by simp
      have f: "FindVTcpConnByPeer me peer (handle_fin env ip src port seqno (Some k) s) = Some k"
        using find find_peer_cong [of "handle_fin env ip src port seqno (Some k) s" s] by simp
      have at: "conn_at k (handle_fin env ip src port seqno (Some k) s)
          = (conn_at k s)\<lparr>c_peer_closed := True, c_their_seq := seqno + 1\<rparr>"
        using kD by (simp add: handle_fin_def Let_def conn_at_upd)
      show ?thesis using st f unfolding stream_state_def at q by auto
    qed
    have synack: "handle_syn_ack env ip src port seqno ack (Some k) s = s"
      using st by (simp add: handle_syn_ack_def Let_def stream_state_def)
    have pend: "stream_state me peer k S base D (s\<lparr>g_pending_accepts := ps\<rparr>)" for ps
      using st find_peer_cong [of "s\<lparr>g_pending_accepts := ps\<rparr>" s me peer] by (simp add: stream_state_def)
    have ack: "stream_state me peer k S base D (handle_ack env ip src port seqno ack p (Some k) s)"
      using pend handle_data_stream [OF upd S] handle_data_stream [OF st S] g True
      by (simp add: handle_ack_def Let_def rx_def split: option.splits)
    show ?thesis
      using find True st upd fin synack ack
      by (simp add: HandleTcpSegment_def Let_def handle_syn_def rx_def)
  qed
qed

lemma vtcp_step_stream:
  assumes st: "stream_state me peer k S base D s" and S: "length S + 1 < 2 ^ 32"
    and g: "genuine peer S base e" and step: "vtcp_step env me ip k e s = (d, s')"
  shows "stream_state me peer k S base (D @ d) s'"
proof (cases e)
  case (EvSegment src port seqno ack flags p)
  then show ?thesis using segment_stream [OF st S, of src port seqno ack flags p] g step by auto
next
  case (EvTick now)
  then show ?thesis using stream_state_same_rx [OF st same_rx_tick] step by auto
next
  case (EvSend j now p)
  then show ?thesis using stream_state_same_rx [OF st same_rx_vtcp_send] step by auto
next
  case (EvRead j n)
  have find: "FindVTcpConnByPeer me peer s = Some k" using st by (simp add: stream_state_def)
  have kl: "k < length (g_vtcp_conns s)" using find_peer_SomeD [OF find] by blast
  let ?del = "if length (c_inbox (conn_at j s)) > n then n else length (c_inbox (conn_at j s))"
  let ?f = "\<lambda>c. c\<lparr>c_inbox := drop ?del (c_inbox c)\<rparr>"
  have s': "s' = upd_conn j ?f s" and d: "d = (if j = k then take ?del (c_inbox (conn_at j s)) else [])"
    using step EvRead by (auto simp: vtcp_read_def Let_def)
  have find': "FindVTcpConnByPeer me peer s' = Some k"
    using find find_peer_cong [of s' s] by (simp add: s')
  show ?thesis
  proof (cases "j = k")
    case True
    then have "conn_at k s' = ?f (conn_at k s)" using kl by (simp add: s' conn_at_upd)
    moreover have "(D @ d) @ drop ?del (c_inbox (conn_at k s)) = D @ c_inbox (conn_at k s)"
      using True by (simp add: d)
    ultimately show ?thesis using st find' unfolding stream_state_def by simp
  next
    case False
    then have "conn_at k s' = conn_at k s" by (simp add: s' conn_at_upd_neq)
    then show ?thesis using st find' False by (simp add: stream_state_def d)
  qed
qed

lemma vtcp_run_stream:
  assumes "stream_state me peer k S base D s" and "length S + 1 < 2 ^ 32"
    and "\<forall>e \<in> set es. genuine peer S base e"
  shows "stream_state me peer k S base (D @ fst (vtcp_run env me ip k es s)) (snd (vtcp_run env me ip k es s))"
  using assms
proof (induction es arbitrary: D s)
  case Nil
  then show ?case by simp
next
  case (Cons e es)
  obtain d s' where st: "vtcp_step env me ip k e s = (d, s')" by fastforce
  have "stream_state me peer k S base (D @ d) s'"
    using vtcp_step_stream [OF Cons.prems(1,2) _ st] Cons.prems(3) by simp
  from Cons.IH [OF this Cons.prems(2)] Cons.prems(3) show ?case
    by (simp add: st split_beta)
qed

text \<open>C2: The application reads the peer's byte stream: whatever segments of the stream arrive, lost,
  duplicated, cut differently, reordered, with sequence numbers wrapping around, interleaved with
  segments of other hosts, retransmissions, sends and partial reads, the bytes read followed by the
  bytes in the inbox are a prefix of what the peer sent.\<close>

theorem stream_is_prefix:
  assumes k: "FindVTcpConnByPeer me peer s = Some k" "c_established (conn_at k s)"
      "\<not> c_syn_sent_awaiting_synack (conn_at k s)"
    and start: "c_inbox (conn_at k s) = []" "c_their_seq (conn_at k s) = base"
    and S: "length S + 1 < 2 ^ 32" and es: "\<forall>e \<in> set es. genuine peer S base e"
    and run: "vtcp_run env me ip k es s = (bytes, s')"
  shows "\<exists>n \<le> length S. bytes @ c_inbox (conn_at k s') = take n S"
proof -
  have "stream_state me peer k S base [] s"
    using k start by (auto simp: stream_state_def intro!: exI [of _ 0])
  from vtcp_run_stream [OF this S es, of env ip] show ?thesis
    by (auto simp: run stream_state_def)
qed

theorem stream_is_prefix_witness:
  "\<exists>n \<le> 3. fst (vtcp_run sample_env 1 0x0A0D0001 0
      [EvSegment 0x0A0D0002 5555 0 4001 (TCP_PSH OR TCP_ACK) [8, 9],
       EvSegment 0x0A0D0002 5555 0xFFFFFFFF 4001 (TCP_PSH OR TCP_ACK) [7],
       EvTick 5, EvRead 0 10] vtcp_conn_up)
     @ c_inbox (conn_at 0 (snd (vtcp_run sample_env 1 0x0A0D0001 0
      [EvSegment 0x0A0D0002 5555 0 4001 (TCP_PSH OR TCP_ACK) [8, 9],
       EvSegment 0x0A0D0002 5555 0xFFFFFFFF 4001 (TCP_PSH OR TCP_ACK) [7],
       EvTick 5, EvRead 0 10] vtcp_conn_up))) = take n [7, 8, 9]"
proof -
  let ?es = "[EvSegment 0x0A0D0002 5555 0 4001 (TCP_PSH OR TCP_ACK) [8, 9],
       EvSegment 0x0A0D0002 5555 0xFFFFFFFF 4001 (TCP_PSH OR TCP_ACK) [7], EvTick 5, EvRead 0 10]"
  have "\<exists>off. off + 2 \<le> length [7, 8, 9 :: u8] \<and> (0 :: u32) = 0xFFFFFFFF + of_nat off
      \<and> [8, 9] = take 2 (drop off [7, 8, 9 :: u8])"
    by (intro exI [of _ 1]) simp
  moreover have "\<exists>off. off + 1 \<le> length [7, 8, 9 :: u8] \<and> (0xFFFFFFFF :: u32) = 0xFFFFFFFF + of_nat off
      \<and> [7] = take 1 (drop off [7, 8, 9 :: u8])"
    by (intro exI [of _ 0]) simp
  ultimately have g: "genuine 0x0A0D0002 [7, 8, 9] 0xFFFFFFFF e" if "e \<in> set ?es" for e
    using that flag_cases(14) by (auto simp: numeral_2_eq_2)
  obtain bytes s' where r: "vtcp_run sample_env 1 0x0A0D0001 0 ?es vtcp_conn_up = (bytes, s')" by fastforce
  have "\<exists>n \<le> length [7, 8, 9 :: u8]. bytes @ c_inbox (conn_at 0 s') = take n [7, 8, 9]"
    by (rule stream_is_prefix [OF vtcp_conn_up_simps(1) _ _ _ _ _ _ r, where base = "0xFFFFFFFF"])
       (use g in \<open>simp_all add: vtcp_conn_up_simps(2) vtcp_conn_init_def\<close>)
  then show ?thesis unfolding r fst_conv snd_conv by (simp add: numeral_3_eq_3)
qed

section \<open>Retransmission\<close>

text \<open>What one check does to one connection.\<close>

definition retx :: "u64 \<Rightarrow> vtcp_conn \<Rightarrow> vtcp_conn" where
  "retx now c =
     (if \<not> c_used c \<or> \<not> c_established c \<or> \<not> c_has_unacked_data c then c
      else if now - c_last_send_tick_ms c < DataRetransmitIntervalMs then c
      else if c_retransmit_count c \<ge> MaxDataRetransmits then c\<lparr>c_has_unacked_data := False\<rparr>
      else c\<lparr>c_retransmit_count := c_retransmit_count c + 1, c_last_send_tick_ms := now\<rparr>)"

lemma retransmit_conn_at:
  assumes "k < length (g_vtcp_conns s)"
  shows "conn_at j (retransmit_conn env ip now k s) = (if j = k then retx now (conn_at k s) else conn_at j s)"
    and "length (g_vtcp_conns (retransmit_conn env ip now k s)) = length (g_vtcp_conns s)"
  using assms by (auto simp: retransmit_conn_def Let_def retx_def conn_at_upd conn_at_upd_neq)

lemma CheckDataRetransmits_at:
  assumes "j < length (g_vtcp_conns s)"
  shows "conn_at j (CheckDataRetransmits env ip now s) = retx now (conn_at j s)
     \<and> length (g_vtcp_conns (CheckDataRetransmits env ip now s)) = length (g_vtcp_conns s)"
proof -
  have "conn_at j (fold (retransmit_conn env ip now) ks s)
        = (if j \<in> set ks then retx now (conn_at j s) else conn_at j s)
     \<and> length (g_vtcp_conns (fold (retransmit_conn env ip now) ks s)) = length (g_vtcp_conns s)"
    if "distinct ks" "\<forall>k \<in> set ks. k < length (g_vtcp_conns s)" for ks
    using that
  proof (induction ks arbitrary: s)
    case Nil
    then show ?case by simp
  next
    case (Cons k ks)
    let ?s = "retransmit_conn env ip now k s"
    have k: "k < length (g_vtcp_conns s)" using Cons.prems by simp
    note at = retransmit_conn_at [OF k, where env = env and ip = ip and now = now]
    have "conn_at j (fold (retransmit_conn env ip now) ks ?s)
        = (if j \<in> set ks then retx now (conn_at j ?s) else conn_at j ?s)
      \<and> length (g_vtcp_conns (fold (retransmit_conn env ip now) ks ?s)) = length (g_vtcp_conns ?s)"
      using Cons.prems at(2) by (intro Cons.IH) auto
    then show ?case using Cons.prems at by auto
  qed
  from this [of "[0..<length (g_vtcp_conns s)]"] show ?thesis
    using assms by (simp add: CheckDataRetransmits_def)
qed

fun spaced :: "u64 \<Rightarrow> u64 list \<Rightarrow> bool" where
  "spaced t [] \<longleftrightarrow> True"
| "spaced t (now # ts) \<longleftrightarrow> DataRetransmitIntervalMs \<le> now - t \<and> spaced now ts"

lemma retx_fold:
  assumes "c_used c" "c_established c" "c_has_unacked_data c" "spaced (c_last_send_tick_ms c) ts"
    "c_retransmit_count c \<le> MaxDataRetransmits"
  shows "if c_retransmit_count c + length ts \<le> MaxDataRetransmits
     then c_retransmit_count (fold retx ts c) = c_retransmit_count c + length ts
       \<and> c_has_unacked_data (fold retx ts c)
     else c_retransmit_count (fold retx ts c) = MaxDataRetransmits \<and> \<not> c_has_unacked_data (fold retx ts c)"
  using assms
proof (induction ts arbitrary: c)
  case Nil
  then show ?case by simp
next
  case (Cons now ts)
  have idle: "fold retx ts c = c" if "\<not> c_has_unacked_data c" for c
    using that by (induction ts) (simp_all add: retx_def)
  have due: "\<not> now - c_last_send_tick_ms c < DataRetransmitIntervalMs"
    using Cons.prems(4) by (simp add: not_less)
  show ?case
  proof (cases "c_retransmit_count c \<ge> MaxDataRetransmits")
    case True
    then have "retx now c = c\<lparr>c_has_unacked_data := False\<rparr>" using Cons.prems due by (simp add: retx_def)
    then show ?thesis using True Cons.prems(5) by (simp add: idle)
  next
    case False
    then have r: "retx now c = c\<lparr>c_retransmit_count := c_retransmit_count c + 1, c_last_send_tick_ms := now\<rparr>"
      using Cons.prems due by (simp add: retx_def)
    have f: "c_used (retx now c)" "c_established (retx now c)" "c_has_unacked_data (retx now c)"
      "c_last_send_tick_ms (retx now c) = now" "c_retransmit_count (retx now c) = Suc (c_retransmit_count c)"
      using Cons.prems by (simp_all add: r)
    have sp: "spaced now ts" using Cons.prems(4) by simp
    show ?thesis using Cons.IH [OF f(1-3), unfolded f(4,5), OF sp] False by simp
  qed
qed

text \<open>A segment that is never acknowledged is resent at each of the first six checks that come at
  least 100 ms after one another, and given up at the seventh: retransmission terminates.\<close>

theorem retransmission_gives_up:
  assumes k: "k < length (g_vtcp_conns s)" "c_used (conn_at k s)" "c_established (conn_at k s)"
      "c_has_unacked_data (conn_at k s)" "c_retransmit_count (conn_at k s) = 0"
    and ts: "spaced (c_last_send_tick_ms (conn_at k s)) ts"
    and s': "s' = fold (CheckDataRetransmits env ip) ts s"
  shows "if length ts \<le> MaxDataRetransmits
     then c_retransmit_count (conn_at k s') = length ts \<and> c_has_unacked_data (conn_at k s')
     else c_retransmit_count (conn_at k s') = MaxDataRetransmits \<and> \<not> c_has_unacked_data (conn_at k s')"
proof -
  have "conn_at k (fold (CheckDataRetransmits env ip) ts s) = fold retx ts (conn_at k s)"
    using k(1) by (induction ts arbitrary: s) (simp_all add: CheckDataRetransmits_at)
  then show ?thesis using retx_fold [OF k(2-4) ts] k(5) s' by simp
qed

definition vtcp_sent :: vtcp where
  "vtcp_sent = snd (vtcp_send sample_env 0x0A0D0001 50 0 [1, 2, 3] vtcp_conn_up)"

lemma sample_send_ok:
  "0 \<le> fst (SendTcpSegment sample_env (seg 0x0A0D0001 0x0A0D0002 5555 4001 0xFFFFFFFF (TCP_PSH OR TCP_ACK))
      [1, 2, 3] vtcp_conn_up)"
proof -
  let ?h = "seg 0x0A0D0001 0x0A0D0002 5555 4001 0xFFFFFFFF (TCP_PSH OR TCP_ACK)"
  have len: "length [1, 2, 3 :: u8] \<le> MaxBridgedPayload" by (simp add: cap_defs)
  obtain b where b: "BuildTcp ?h [1, 2, 3] = Some b" using tcp.build_fits [OF len] by blast
  have "length b \<le> RELAY_MTU" using BuildTcp_length [OF b] by (simp add: frag_consts)
  then show ?thesis
    using b vtcp_conn_up_simps(3)
    by (simp add: SendTcpSegment_def SendIpv4_def SendRaw_def Let_def sample_env_def)
qed

lemma vtcp_send_rc:
  "fst (vtcp_send env ip now k p s) = fst (SendTcpSegment env (seg ip (c_peer_ip (conn_at k s))
     (c_peer_port (conn_at k s)) (c_our_seq (conn_at k s)) (c_their_seq (conn_at k s)) (TCP_PSH OR TCP_ACK)) p s)"
  by (simp add: vtcp_send_def Let_def split_beta)

lemma vtcp_sent_simps:
  "conn_at 0 vtcp_sent = vtcp_conn_init\<lparr>c_used := True, c_fd := 1000, c_peer_ip := 0x0A0D0002,
     c_peer_port := 5555, c_established := True, c_our_seq := 4004, c_their_seq := 0xFFFFFFFF,
     c_has_unacked_data := True, c_unacked_data := [1, 2, 3], c_unacked_seq := 4001,
     c_last_send_tick_ms := 50\<rparr>"
  "0 < length (g_vtcp_conns vtcp_sent)"
proof -
  let ?h = "seg 0x0A0D0001 0x0A0D0002 5555 4001 0xFFFFFFFF (TCP_PSH OR TCP_ACK)"
  note sample_send_ok
  then have E: "vtcp_sent = upd_conn 0 (\<lambda>c. c\<lparr>c_has_unacked_data := True, c_unacked_data := [1, 2, 3],
      c_unacked_seq := c_our_seq c, c_last_send_tick_ms := 50, c_retransmit_count := 0,
      c_our_seq := c_our_seq c + 3\<rparr>) (snd (SendTcpSegment sample_env ?h [1, 2, 3] vtcp_conn_up))"
    unfolding vtcp_sent_def vtcp_send_def Let_def split_beta vtcp_conn_up_simps(2)
    by (simp add: vtcp_conn_init_def)
  have L: "length (g_vtcp_conns vtcp_conn_up) = 9"
    by (simp add: vtcp_conn_up_def vtcp_up_simps MaxVTcpConns_def)
  have C: "conn_at 0 (snd (SendTcpSegment sample_env ?h [1, 2, 3] vtcp_conn_up)) = conn_at 0 vtcp_conn_up"
    by (simp add: conn_at_def)
  have "0 < length (g_vtcp_conns (snd (SendTcpSegment sample_env ?h [1, 2, 3] vtcp_conn_up)))"
    using L by simp
  then show "conn_at 0 vtcp_sent = vtcp_conn_init\<lparr>c_used := True, c_fd := 1000, c_peer_ip := 0x0A0D0002,
     c_peer_port := 5555, c_established := True, c_our_seq := 4004, c_their_seq := 0xFFFFFFFF,
     c_has_unacked_data := True, c_unacked_data := [1, 2, 3], c_unacked_seq := 4001,
     c_last_send_tick_ms := 50\<rparr>"
    "0 < length (g_vtcp_conns vtcp_sent)"
    unfolding E using C vtcp_conn_up_simps(2) by (simp_all add: conn_at_upd vtcp_conn_init_def)
qed

theorem retransmission_gives_up_witness:
  "\<not> c_has_unacked_data (conn_at 0 (fold (CheckDataRetransmits sample_env 0x0A0D0001)
      [150, 250, 350, 450, 550, 650, 750] vtcp_sent))"
  using retransmission_gives_up [OF vtcp_sent_simps(2) _ _ _ _ _ refl, where env = sample_env
      and ip = "0x0A0D0001" and ts = "[150, 250, 350, 450, 550, 650, 750]"]
  by (simp add: vtcp_sent_simps(1) vtcp_conn_init_def DataRetransmitIntervalMs_def MaxDataRetransmits_def)

text \<open>\<open>SendTo\<close> and its acknowledgement: an accepted send puts the bytes on the wire at the current
  sequence number, advances it, and keeps exactly these bytes for retransmission; of all
  acknowledgement numbers the peer may answer with, only the one behind the last byte ends that.\<close>

theorem send_then_ack:
  assumes k: "FindVTcpConnByPeer me src s = Some k" and src: "c_peer_port (conn_at k s) = port"
    and np: "\<forall>p \<in> set (g_pending_accepts s). p_used p \<longrightarrow> p_peer_ip p \<noteq> src"
    and up: "m_connected (g_relay s)" and len: "length p \<le> 1360"
    and send: "vtcp_send env ip now k p s = (rc, s1)" and ok: "0 \<le> rc"
  shows "on_wire (seg ip src port (c_our_seq (conn_at k s)) (c_their_seq (conn_at k s)) (TCP_PSH OR TCP_ACK)) p
           (sent_frames (g_relay s) (g_relay s1))
     \<and> c_our_seq (conn_at k s1) = c_our_seq (conn_at k s) + of_nat (length p)
     \<and> c_has_unacked_data (conn_at k s1) \<and> c_unacked_data (conn_at k s1) = p
     \<and> (\<forall>seqno ack. c_has_unacked_data (conn_at k (HandleTcpSegment env me ip src port seqno ack TCP_ACK [] s1))
          \<longleftrightarrow> ack \<noteq> c_our_seq (conn_at k s) + of_nat (length p))"
proof -
  note kD = find_peer_SomeD [OF k]
  let ?h = "seg ip src port (c_our_seq (conn_at k s)) (c_their_seq (conn_at k s)) (TCP_PSH OR TCP_ACK)"
  let ?f = "\<lambda>c. c\<lparr>c_has_unacked_data := True, c_unacked_data := p, c_unacked_seq := c_our_seq c,
      c_last_send_tick_ms := now, c_retransmit_count := 0, c_our_seq := c_our_seq c + of_nat (length p)\<rparr>"
  have h: "?h = seg ip (c_peer_ip (conn_at k s)) (c_peer_port (conn_at k s)) (c_our_seq (conn_at k s))
      (c_their_seq (conn_at k s)) (TCP_PSH OR TCP_ACK)"
    using kD src by simp
  have s1: "s1 = upd_conn k ?f (send_seg env ?h p s)"
    using send ok unfolding h vtcp_send_def send_seg_def Let_def split_beta by auto
  have wire: "on_wire ?h p (sent_frames (g_relay s) (g_relay s1))"
    using send_seg_on_wire [OF up len] unfolding s1 by simp
  have at: "conn_at k s1 = ?f (conn_at k s)" using kD by (simp add: s1 conn_at_upd)
  have find: "FindVTcpConnByPeer me src s1 = Some k"
    using k find_peer_cong [of s1 s me src] by (simp add: s1)
  have np1: "\<forall>p \<in> set (g_pending_accepts s1). p_used p \<longrightarrow> p_peer_ip p \<noteq> src"
    using np by (simp add: s1)
  have kl: "k < length (g_vtcp_conns s1)" using kD by (simp add: s1)
  have ack: "c_has_unacked_data (conn_at k (HandleTcpSegment env me ip src port seqno ack TCP_ACK [] s1))
      \<longleftrightarrow> ack \<noteq> c_our_seq (conn_at k s) + of_nat (length p)" for seqno ack
    unfolding data_segment_step [OF find flag_cases(11,8,10,9) np1] handle_data_def Let_def
    using at kl by (simp add: conn_at_upd)
  show ?thesis using wire at ack by simp
qed

theorem send_then_ack_witness:
  "\<not> c_has_unacked_data (conn_at 0 (HandleTcpSegment sample_env 1 0x0A0D0001 0x0A0D0002 5555 0 4004 TCP_ACK [] vtcp_sent))"
proof -
  obtain rc s1 where s1: "vtcp_send sample_env 0x0A0D0001 50 0 [1, 2, 3] vtcp_conn_up = (rc, s1)" by fastforce
  have rc: "0 \<le> rc"
    using sample_send_ok vtcp_send_rc [of sample_env "0x0A0D0001" 50 0 "[1, 2, 3]" vtcp_conn_up] s1
    by (simp add: vtcp_conn_up_simps(2) vtcp_conn_init_def)
  have "s1 = vtcp_sent" using s1 by (simp add: vtcp_sent_def)
  then show ?thesis
    using send_then_ack [OF vtcp_conn_up_simps(1) _ vtcp_conn_up_simps(4,3) _ s1 rc, of 5555]
    by (simp add: vtcp_conn_up_simps(2) vtcp_conn_init_def)
qed

section \<open>Segments the peer can never receive\<close>

text \<open>A data segment of 1389 to 2048 bytes is accepted, fragmented and sent without error, but the
  peer's pump never queues it, whichever fragments arrive: such a send reports success and every
  retransmission of it is lost too.\<close>

theorem long_segment_never_received:
  assumes len: "1388 < length p" "length p \<le> VTcpInboxCap" and os: "accepts_all (e_sendto env)"
    and up: "m_connected (g_relay s)" and send: "SendTcpSegment env h p s = (rc, s1)"
    and frames: "frames = sent_frames (g_relay s) (g_relay s1)"
    and ks: "set ks \<subseteq> {..<length frames}" and r: "m_slots r = frag_slots_init"
  shows "0 \<le> rc \<and> (\<exists>r'. pump_drains (length ks) (map ((!) frames) ks) r = Some ([], r') \<and> m_queue r' = m_queue r)"
proof -
  have "length p \<le> MaxBridgedPayload" using len(2) by (simp add: cap_defs)
  then obtain b where b: "BuildTcp h p = Some b" using tcp.build_fits by blast
  have bl: "1428 < length b" "length b \<le> 2088" using BuildTcp_length [OF b] len by (simp_all add: cap_defs)
  have parts: "frag_total_parts b \<le> 255" using bl by (simp add: frag_total_parts_def frag_consts)
  obtain rc' r1 where S: "SendIpv4 (e_sendto env) b (g_relay s) = (rc', r1)" by fastforce
  then have s1: "rc = rc'" "g_relay s1 = r1" using send b by (auto simp: SendTcpSegment_def)
  let ?i = "m_next_frag_id (g_relay s)"
  have pos: "0 < length b" using bl by linarith
  have w: "frames = wire_frames b ?i" "0 \<le> rc"
    using SendIpv4_frames [OF os up pos parts S] frames s1 by simp_all
  have f: "frames = map (frag_frame b ?i) [0..<frag_total_parts b]"
    using w(1) bl by (simp add: wire_frames_def frag_consts)
  have ks': "set ks \<subseteq> {..<frag_total_parts b}" using ks f by simp
  then have eq: "map ((!) frames) ks = map (frag_frame b ?i) ks" using f by auto
  have P: "frag_packet b" "PumpPktSize < length b"
    using bl parts by (simp_all add: frag_packet_def PumpPktSize_def frag_consts)
  show ?thesis using pump_drops_long_packets [OF P ks' r order_refl] w(2) unfolding eq by blast
qed

theorem long_segment_never_received_witness:
  "0 \<le> fst (SendTcpSegment sample_env (seg 1 2 3 4 5 0x18) (replicate 1400 7) vtcp_conn_up)"
proof -
  obtain rc s1 where s1: "SendTcpSegment sample_env (seg 1 2 3 4 5 0x18) (replicate 1400 7) vtcp_conn_up = (rc, s1)"
    by fastforce
  have "accepts_all (e_sendto sample_env)" by (simp add: accepts_all_def sample_env_def)
  then show ?thesis
    using long_segment_never_received [OF _ _ _ vtcp_conn_up_simps(3) s1 refl, of "[]" relay_up] s1
    by (simp add: cap_defs relay_up_def relay_init_def)
qed

end
