(* ===== verification/DummySkip.thy ===== *)
theory DummySkip
  imports Prelude
begin

text \<open>
  Which \<open>bsd:u\<close> sessions are intercepted (\<^verbatim>\<open>bsd_bridge_service.cpp\<close>: \<open>ShouldMitm\<close>, the table
  \<open>g_dummy_skip\<close> and the bookkeeping of the destructor). The locale \<open>burst_counter\<close> states what
  table, \<open>ShouldMitm\<close> and destructor promise per process: the first session of a burst is
  forwarded, the later ones are intercepted and counted, and the process is forgotten with its
  last intercepted session. \<open>IsApplicationId\<close> belongs to libstratosphere and is a parameter.
\<close>

section \<open>The contract\<close>

text \<open>\<open>k\<close> sessions opened one after the other.\<close>

primrec opens :: "('t \<Rightarrow> bool \<times> 't) \<Rightarrow> nat \<Rightarrow> 't \<Rightarrow> bool list \<times> 't" where
  "opens f 0 t = ([], t)"
| "opens f (Suc k) t = (let (b, t') = f t; (bs, t'') = opens f k t' in (b # bs, t''))"

text \<open>\<open>view\<close> maps a known process to its number of live sessions.\<close>

locale burst_counter =
  fixes inv :: "'t \<Rightarrow> bool"
    and view :: "'t \<Rightarrow> 'p \<Rightarrow> u32 option"
    and opn :: "'p \<Rightarrow> 't \<Rightarrow> bool \<times> 't"
    and cls :: "'p \<Rightarrow> 't \<Rightarrow> 't"
    and valid :: "'p \<Rightarrow> bool"
    and cap :: nat
  assumes finite_view: "inv t \<Longrightarrow> finite (dom (view t)) \<and> card (dom (view t)) \<le> cap"
    and open_known: "inv t \<Longrightarrow> valid p \<Longrightarrow> view t p = Some n \<Longrightarrow>
          inv (snd (opn p t)) \<and> fst (opn p t) \<and> view (snd (opn p t)) = (view t)(p \<mapsto> n + 1)"
    and open_new: "inv t \<Longrightarrow> valid p \<Longrightarrow> view t p = None \<Longrightarrow> card (dom (view t)) < cap \<Longrightarrow>
          inv (snd (opn p t)) \<and> \<not> fst (opn p t) \<and> view (snd (opn p t)) = (view t)(p \<mapsto> 0)"
    and open_full: "inv t \<Longrightarrow> valid p \<Longrightarrow> view t p = None \<Longrightarrow> card (dom (view t)) = cap \<Longrightarrow>
          opn p t = (False, t)"
    and close_view: "inv t \<Longrightarrow> valid p \<Longrightarrow> inv (cls p t) \<and> view (cls p t) =
          (case view t p of
             None \<Rightarrow> view t
           | Some n \<Rightarrow> if n = 0 then view t else if n = 1 then (view t)(p := None)
                       else (view t)(p \<mapsto> n - 1))"
begin

lemma opens_known:
  "inv t \<Longrightarrow> valid p \<Longrightarrow> view t p = Some n \<Longrightarrow>
     inv (snd (opens (opn p) k t)) \<and> fst (opens (opn p) k t) = replicate k True
     \<and> view (snd (opens (opn p) k t)) = (view t)(p \<mapsto> n + of_nat k)"
proof (induction k arbitrary: t n)
  case 0
  then show ?case by (auto simp: fun_upd_idem)
next
  case (Suc k)
  obtain b t' where o: "opn p t = (b, t')" by fastforce
  then have t': "inv t'" "b" "view t' = (view t)(p \<mapsto> n + 1)" using open_known [OF Suc.prems] by simp_all
  have IH: "inv (snd (opens (opn p) k t'))" "fst (opens (opn p) k t') = replicate k True"
    "view (snd (opens (opn p) k t')) = (view t')(p \<mapsto> n + 1 + of_nat k)"
    using Suc.IH [OF t'(1) Suc.prems(2), of "n + 1"] t'(3) by auto
  have "view (snd (opens (opn p) k t')) = (view t)(p \<mapsto> n + of_nat (Suc k))"
    unfolding IH(3) t'(3) fun_upd_upd by (simp add: add.assoc)
  moreover have "opens (opn p) (Suc k) t = (b # fst (opens (opn p) k t'), snd (opens (opn p) k t'))"
    by (simp add: o split_beta)
  ultimately show ?case using IH(1,2) t'(2) by simp
qed

text \<open>A burst: one forwarded session, then \<open>k\<close> intercepted ones.\<close>

lemma burst_opens:
  assumes "inv t" and "valid p" and "view t p = None" and "card (dom (view t)) < cap"
  shows "fst (opens (opn p) (Suc k) t) = False # replicate k True
     \<and> inv (snd (opens (opn p) (Suc k) t)) \<and> view (snd (opens (opn p) (Suc k) t)) = (view t)(p \<mapsto> of_nat k)"
proof -
  obtain b t' where o: "opn p t = (b, t')" by fastforce
  then have t': "inv t'" "\<not> b" "view t' = (view t)(p \<mapsto> 0)" using open_new [OF assms] by simp_all
  have *: "inv (snd (opens (opn p) k t'))" "fst (opens (opn p) k t') = replicate k True"
    "view (snd (opens (opn p) k t')) = (view t')(p \<mapsto> of_nat k)"
    using opens_known [OF t'(1) assms(2), of 0 k] t'(3) by auto
  have "view (snd (opens (opn p) k t')) = (view t)(p \<mapsto> of_nat k)" unfolding *(3) t'(3) fun_upd_upd ..
  moreover have "opens (opn p) (Suc k) t = (b # fst (opens (opn p) k t'), snd (opens (opn p) k t'))"
    by (simp add: o split_beta)
  ultimately show ?thesis using *(1,2) t'(2) by simp
qed

text \<open>Closing all of them forgets the process: the next session is a first one again.\<close>

lemma burst_closes:
  "inv t \<Longrightarrow> valid p \<Longrightarrow> view t p = Some (of_nat k) \<Longrightarrow> 0 < k \<Longrightarrow> k < 2 ^ 32 \<Longrightarrow>
     inv ((cls p ^^ k) t) \<and> view ((cls p ^^ k) t) = (view t)(p := None)"
proof (induction k arbitrary: t)
  case 0
  then show ?case by simp
next
  case (Suc k)
  have ne: "(of_nat (Suc k) :: u32) \<noteq> 0"
    using Suc.prems(5) by (simp only: word_of_nat_eq_0_iff) (auto dest: dvd_imp_le)
  have one: "(of_nat (Suc k) :: u32) = 1 \<longleftrightarrow> k = 0"
    using Suc.prems(5) word_of_nat_eq_iff [of "Suc k" 1, where 'a = 32] by (simp add: take_bit_nat_eq_self)
  have c: "inv (cls p t)" "view (cls p t) = (if k = 0 then (view t)(p := None)
      else (view t)(p \<mapsto> of_nat k))"
    using close_view [OF Suc.prems(1,2)] Suc.prems(3) ne one by simp_all
  show ?case
  proof (cases "k = 0")
    case True
    then show ?thesis using c by simp
  next
    case False
    then have v: "view (cls p t) = (view t)(p \<mapsto> of_nat k)" using c by simp
    then have "inv ((cls p ^^ k) (cls p t)) \<and> view ((cls p ^^ k) (cls p t)) = (view (cls p t))(p := None)"
      using Suc.IH [OF c(1) Suc.prems(2)] False Suc.prems(5) by auto
    then have "inv ((cls p ^^ k) (cls p t)) \<and> view ((cls p ^^ k) (cls p t)) = (view t)(p := None)"
      unfolding v fun_upd_upd .
    then show ?thesis by (simp only: funpow_Suc_right comp_apply)
  qed
qed

lemma known_stays_without_close:
  "inv t \<Longrightarrow> valid p \<Longrightarrow> view t p = Some 0 \<Longrightarrow> view (cls p t) = view t"
  using close_view by simp

end

section \<open>The table\<close>

definition MaxDummySkipEntries :: nat where "MaxDummySkipEntries = 8"
definition LdnMitmProgramId :: u64 where "LdnMitmProgramId = 0x4200000000000010"

record dummy_entry =
  de_pid :: u64
  de_live :: u32
  de_skipped :: bool

definition dummy_entry_init :: dummy_entry where
  "dummy_entry_init = \<lparr>de_pid = 0, de_live = 0, de_skipped = False\<rparr>"

definition dummy_init :: "dummy_entry list" where
  "dummy_init = replicate MaxDummySkipEntries dummy_entry_init"

text \<open>The loop of \<open>ShouldMitm\<close>: the entry of the process, otherwise the first free one.\<close>

fun dummy_lookup :: "u64 \<Rightarrow> dummy_entry list \<Rightarrow> nat \<Rightarrow> nat option \<Rightarrow> nat option" where
  "dummy_lookup pid [] i entry = entry"
| "dummy_lookup pid (e # es) i entry =
     (if de_pid e = pid then Some i
      else if de_pid e = 0 \<and> \<not> de_skipped e \<and> de_live e = 0 \<and> entry = None
        then dummy_lookup pid es (i + 1) (Some i)
      else dummy_lookup pid es (i + 1) entry)"

definition dummy_open :: "u64 \<Rightarrow> dummy_entry list \<Rightarrow> bool \<times> dummy_entry list" where
  "dummy_open pid t =
     (case dummy_lookup pid t 0 None of
        None \<Rightarrow> (False, t)
      | Some k \<Rightarrow>
          let e = (if de_pid (t ! k) = 0 then (t ! k)\<lparr>de_pid := pid\<rparr> else t ! k)
          in if \<not> de_skipped e then (False, t[k := e\<lparr>de_skipped := True\<rparr>])
             else (True, t[k := e\<lparr>de_live := de_live e + 1\<rparr>]))"

definition ShouldMitm ::
  "(u64 \<Rightarrow> bool) \<Rightarrow> u64 \<Rightarrow> u64 \<Rightarrow> dummy_entry list \<Rightarrow> bool \<times> dummy_entry list" where
  "ShouldMitm is_application program_id pid t =
     (if program_id = LdnMitmProgramId then (True, t)
      else if \<not> is_application program_id then (False, t)
      else dummy_open pid t)"

text \<open>The dummy-skip part of the destructor of an instance whose client is \<open>pid\<close>.\<close>

fun dummy_release :: "u64 \<Rightarrow> dummy_entry list \<Rightarrow> dummy_entry list" where
  "dummy_release pid [] = []"
| "dummy_release pid (e # es) =
     (if de_pid e = pid \<and> de_live e > 0 then
        (let e' = e\<lparr>de_live := de_live e - 1\<rparr>
         in (if de_live e' = 0 then e'\<lparr>de_pid := 0, de_skipped := False\<rparr> else e') # es)
      else e # dummy_release pid es)"

definition dummy_ok :: "dummy_entry \<Rightarrow> bool" where
  "dummy_ok e \<longleftrightarrow> (if de_pid e = 0 then \<not> de_skipped e \<and> de_live e = 0 else de_skipped e)"

definition dummy_inv :: "dummy_entry list \<Rightarrow> bool" where
  "dummy_inv t \<longleftrightarrow> length t = MaxDummySkipEntries \<and> (\<forall>e \<in> set t. dummy_ok e)
     \<and> (\<forall>i < length t. \<forall>j < length t. de_pid (t ! i) \<noteq> 0 \<longrightarrow> de_pid (t ! i) = de_pid (t ! j) \<longrightarrow> i = j)"

definition dummy_view :: "dummy_entry list \<Rightarrow> u64 \<Rightarrow> u32 option" where
  "dummy_view t pid =
     (if pid = 0 then None
      else map_option (\<lambda>k. de_live (t ! k)) (first_idx (\<lambda>e. de_pid e = pid) t))"

lemma dummy_inv_init: "dummy_inv dummy_init" "dummy_view dummy_init = Map.empty"
  by (auto simp: dummy_inv_def dummy_init_def dummy_entry_init_def dummy_ok_def dummy_view_def
      first_idx_None_iff)

lemma dummy_pid_inj:
  "dummy_inv t \<Longrightarrow> i < length t \<Longrightarrow> j < length t \<Longrightarrow> de_pid (t ! i) \<noteq> 0 \<Longrightarrow>
     de_pid (t ! i) = de_pid (t ! j) \<Longrightarrow> i = j"
  unfolding dummy_inv_def by blast

lemma dummy_view_iff:
  assumes "dummy_inv t"
  shows "dummy_view t pid = Some n \<longleftrightarrow>
     pid \<noteq> 0 \<and> (\<exists>k < length t. de_pid (t ! k) = pid \<and> de_live (t ! k) = n)"
proof
  assume "dummy_view t pid = Some n"
  then show "pid \<noteq> 0 \<and> (\<exists>k < length t. de_pid (t ! k) = pid \<and> de_live (t ! k) = n)"
    by (auto simp: dummy_view_def first_idx_Some_iff split: if_splits)
next
  assume r: "pid \<noteq> 0 \<and> (\<exists>k < length t. de_pid (t ! k) = pid \<and> de_live (t ! k) = n)"
  then obtain k where k: "k < length t" "de_pid (t ! k) = pid" "de_live (t ! k) = n" by blast
  have "de_pid (t ! i) \<noteq> pid" if "i < k" for i
    using dummy_pid_inj [OF assms, of i k] k r that by auto
  then have "first_idx (\<lambda>e. de_pid e = pid) t = Some k" using k by (simp add: first_idx_Some_iff)
  then show "dummy_view t pid = Some n" using r k by (simp add: dummy_view_def)
qed

lemma dummy_view_zero [simp]: "dummy_view t 0 = None"
  by (simp add: dummy_view_def)

lemma dummy_view_none:
  "dummy_view t pid = None \<Longrightarrow> pid \<noteq> 0 \<Longrightarrow> k < length t \<Longrightarrow> de_pid (t ! k) \<noteq> pid"
  by (auto simp: dummy_view_def first_idx_None_iff)

lemma dummy_update_inv:
  assumes inv: "dummy_inv t" and ok: "dummy_ok e"
    and new: "\<And>i. de_pid e \<noteq> 0 \<Longrightarrow> i < length t \<Longrightarrow> i \<noteq> k \<Longrightarrow> de_pid (t ! i) \<noteq> de_pid e"
  shows "dummy_inv (t[k := e])"
proof -
  have "i = j" if *: "i < length t" "j < length t" "de_pid (t[k := e] ! i) \<noteq> 0"
    "de_pid (t[k := e] ! i) = de_pid (t[k := e] ! j)" for i j
  proof -
    consider "i = k" "j = k" | "i = k" "j \<noteq> k" | "i \<noteq> k" "j = k" | "i \<noteq> k" "j \<noteq> k" by blast
    then show ?thesis
    proof cases
      case 2
      then show ?thesis using * new [of j] by auto
    next
      case 3
      then show ?thesis using * new [of i] by auto
    next
      case 4
      then show ?thesis using * dummy_pid_inj [OF inv] by simp
    qed simp
  qed
  moreover have "\<forall>x \<in> set (t[k := e]). dummy_ok x"
    using inv ok by (auto simp: dummy_inv_def dest!: set_list_update_cases)
  moreover have "length (t[k := e]) = MaxDummySkipEntries" using inv by (simp add: dummy_inv_def)
  ultimately show ?thesis unfolding dummy_inv_def by simp
qed

lemma dummy_update_view:
  assumes inv: "dummy_inv t" and inv': "dummy_inv (t[k := e])" and k: "k < length t"
  shows "dummy_view (t[k := e]) pid =
     (if pid \<noteq> 0 \<and> de_pid e = pid then Some (de_live e)
      else if de_pid (t ! k) = pid then None else dummy_view t pid)"
proof (cases "pid \<noteq> 0 \<and> de_pid e = pid")
  case True
  then show ?thesis using dummy_view_iff [OF inv', of pid "de_live e"] k by auto
next
  case F: False
  have "dummy_view (t[k := e]) pid = Some n \<longleftrightarrow> de_pid (t ! k) \<noteq> pid \<and> dummy_view t pid = Some n" for n
  proof
    assume "dummy_view (t[k := e]) pid = Some n"
    then obtain i where i: "pid \<noteq> 0" "i < length t" "de_pid (t[k := e] ! i) = pid" "de_live (t[k := e] ! i) = n"
      using dummy_view_iff [OF inv', of pid n] by auto
    then have "i \<noteq> k" using F by auto
    then have *: "de_pid (t ! i) = pid" "de_live (t ! i) = n" using i by simp_all
    then have "de_pid (t ! k) \<noteq> pid" using dummy_pid_inj [OF inv, of i k] i(1,2) k \<open>i \<noteq> k\<close> by auto
    then show "de_pid (t ! k) \<noteq> pid \<and> dummy_view t pid = Some n"
      using dummy_view_iff [OF inv, of pid n] i(1,2) * by blast
  next
    assume r: "de_pid (t ! k) \<noteq> pid \<and> dummy_view t pid = Some n"
    then obtain i where i: "pid \<noteq> 0" "i < length t" "de_pid (t ! i) = pid" "de_live (t ! i) = n"
      using dummy_view_iff [OF inv, of pid n] by auto
    then have "i \<noteq> k" using r by auto
    then show "dummy_view (t[k := e]) pid = Some n"
      using dummy_view_iff [OF inv', of pid n] i by auto
  qed
  then have eq: "dummy_view (t[k := e]) pid = (if de_pid (t ! k) = pid then None else dummy_view t pid)"
    by (intro option_eqI) simp
  show ?thesis unfolding eq using F by (simp only: if_False)
qed

lemma dummy_dom:
  assumes "dummy_inv t"
  shows "dom (dummy_view t) = de_pid ` ((!) t ` {k. k < length t \<and> de_pid (t ! k) \<noteq> 0})"
proof (rule set_eqI)
  fix pid
  have "pid \<in> dom (dummy_view t) \<longleftrightarrow> (\<exists>n. dummy_view t pid = Some n)" by (simp add: domIff)
  also have "\<dots> \<longleftrightarrow> pid \<noteq> 0 \<and> (\<exists>k < length t. de_pid (t ! k) = pid)"
    using dummy_view_iff [OF assms] by blast
  also have "\<dots> \<longleftrightarrow> pid \<in> de_pid ` ((!) t ` {k. k < length t \<and> de_pid (t ! k) \<noteq> 0})"
    unfolding image_iff by auto
  finally show "pid \<in> dom (dummy_view t)
      \<longleftrightarrow> pid \<in> de_pid ` ((!) t ` {k. k < length t \<and> de_pid (t ! k) \<noteq> 0})" .
qed

lemma dummy_card:
  assumes "dummy_inv t"
  shows "finite (dom (dummy_view t)) \<and> card (dom (dummy_view t)) = card {k. k < length t \<and> de_pid (t ! k) \<noteq> 0}"
proof -
  have "inj_on (\<lambda>k. de_pid (t ! k)) {k. k < length t \<and> de_pid (t ! k) \<noteq> 0}"
    using dummy_pid_inj [OF assms] by (auto simp: inj_on_def)
  then show ?thesis unfolding dummy_dom [OF assms] image_image by (simp add: card_image)
qed

lemma dummy_room:
  assumes "dummy_inv t"
  shows "card (dom (dummy_view t)) \<le> MaxDummySkipEntries"
    and "card (dom (dummy_view t)) < MaxDummySkipEntries \<longleftrightarrow> (\<exists>k < length t. de_pid (t ! k) = 0)"
proof -
  let ?A = "{k. k < length t \<and> de_pid (t ! k) \<noteq> 0}"
  have sub: "?A \<subseteq> {..<length t}" by auto
  have len: "length t = MaxDummySkipEntries" using assms by (simp add: dummy_inv_def)
  show "card (dom (dummy_view t)) \<le> MaxDummySkipEntries"
    using card_mono [OF _ sub] dummy_card [OF assms] len by simp
  show "card (dom (dummy_view t)) < MaxDummySkipEntries \<longleftrightarrow> (\<exists>k < length t. de_pid (t ! k) = 0)"
  proof
    assume "card (dom (dummy_view t)) < MaxDummySkipEntries"
    then have "card ?A < card {..<length t}" using dummy_card [OF assms] len by simp
    then have "?A \<noteq> {..<length t}" by (metis less_irrefl)
    then show "\<exists>k < length t. de_pid (t ! k) = 0" by blast
  next
    assume "\<exists>k < length t. de_pid (t ! k) = 0"
    then obtain k where "k < length t" "k \<notin> ?A" by blast
    then have "?A \<subset> {..<length t}" using sub by blast
    then have "card ?A < card {..<length t}" by (intro psubset_card_mono) auto
    then show "card (dom (dummy_view t)) < MaxDummySkipEntries" using dummy_card [OF assms] len by simp
  qed
qed

text \<open>The search returns the process's entry if there is one, else the first free entry.\<close>

lemma dummy_lookup_eq:
  "dummy_lookup pid es i entry =
     (case first_idx (\<lambda>e. de_pid e = pid) es of
        Some k \<Rightarrow> Some (i + k)
      | None \<Rightarrow> (case entry of
                   Some j \<Rightarrow> Some j
                 | None \<Rightarrow> map_option ((+) i)
                     (first_idx (\<lambda>e. de_pid e = 0 \<and> \<not> de_skipped e \<and> de_live e = 0) es)))"
proof (induction pid es i entry rule: dummy_lookup.induct)
  case (1 pid i entry)
  then show ?case by (simp split: option.splits)
next
  case (2 pid e es i entry)
  have shift: "map_option ((+) (Suc i)) x = map_option ((+) i) (map_option Suc x)" for x
    by (cases x) simp_all
  show ?case using 2 by (auto simp: shift split: option.splits)
qed

lemma dummy_lookup_known:
  assumes "dummy_inv t" and "dummy_view t pid = Some n"
  shows "\<exists>k < length t. dummy_lookup pid t 0 None = Some k \<and> de_pid (t ! k) = pid \<and> de_live (t ! k) = n
     \<and> pid \<noteq> 0 \<and> de_skipped (t ! k)"
proof -
  obtain k where k: "first_idx (\<lambda>e. de_pid e = pid) t = Some k" "pid \<noteq> 0" "de_live (t ! k) = n"
    using assms(2) by (auto simp: dummy_view_def split: if_splits)
  then have *: "k < length t" "de_pid (t ! k) = pid" by (auto simp: first_idx_Some_iff)
  then have "dummy_ok (t ! k)" using assms(1) by (simp add: dummy_inv_def)
  then show ?thesis using k * by (auto simp: dummy_lookup_eq dummy_ok_def)
qed

lemma dummy_lookup_new:
  assumes inv: "dummy_inv t" and none: "dummy_view t pid = None" and pid: "pid \<noteq> 0"
  shows "case dummy_lookup pid t 0 None of
      Some k \<Rightarrow> k < length t \<and> t ! k = dummy_entry_init
    | None \<Rightarrow> \<forall>k < length t. de_pid (t ! k) \<noteq> 0"
proof -
  let ?free = "\<lambda>e. de_pid e = 0 \<and> \<not> de_skipped e \<and> de_live e = 0"
  have "first_idx (\<lambda>e. de_pid e = pid) t = None"
    using none pid by (simp add: dummy_view_def)
  then have eq: "dummy_lookup pid t 0 None = first_idx ?free t"
    by (cases "first_idx ?free t") (simp_all add: dummy_lookup_eq)
  show ?thesis
  proof (cases "first_idx ?free t")
    case None
    have "de_pid (t ! k) \<noteq> 0" if "k < length t" for k
    proof -
      have "t ! k \<in> set t" using that by simp
      then have "dummy_ok (t ! k)" "\<not> ?free (t ! k)"
        using inv None by (auto simp: dummy_inv_def first_idx_None_iff)
      then show ?thesis by (auto simp: dummy_ok_def split: if_splits)
    qed
    then show ?thesis using eq None by simp
  next
    case (Some k)
    then have "k < length t" "?free (t ! k)" by (auto simp: first_idx_Some_iff)
    then show ?thesis using eq Some by (simp add: dummy_entry_init_def)
  qed
qed

lemma dummy_open_known:
  assumes inv: "dummy_inv t" and v: "dummy_view t pid = Some n"
  shows "dummy_inv (snd (dummy_open pid t)) \<and> fst (dummy_open pid t)
     \<and> dummy_view (snd (dummy_open pid t)) = (dummy_view t)(pid \<mapsto> n + 1)"
proof -
  obtain k where k: "k < length t" "dummy_lookup pid t 0 None = Some k" "de_pid (t ! k) = pid"
    "de_live (t ! k) = n" "pid \<noteq> 0" "de_skipped (t ! k)"
    using dummy_lookup_known [OF inv v] by blast
  let ?e = "(t ! k)\<lparr>de_live := n + 1\<rparr>"
  have o: "dummy_open pid t = (True, t[k := ?e])"
    using k by (simp add: dummy_open_def Let_def)
  have i: "dummy_inv (t[k := ?e])"
    using k dummy_pid_inj [OF inv] by (intro dummy_update_inv [OF inv]) (auto simp: dummy_ok_def)
  have "dummy_view (t[k := ?e]) = (dummy_view t)(pid \<mapsto> n + 1)"
    by (rule ext) (use k in \<open>auto simp: dummy_update_view [OF inv i k(1)]\<close>)
  then show ?thesis using o i by simp
qed

lemma dummy_open_new:
  assumes inv: "dummy_inv t" and v: "dummy_view t pid = None" and pid: "pid \<noteq> 0"
    and room: "card (dom (dummy_view t)) < MaxDummySkipEntries"
  shows "dummy_inv (snd (dummy_open pid t)) \<and> \<not> fst (dummy_open pid t)
     \<and> dummy_view (snd (dummy_open pid t)) = (dummy_view t)(pid \<mapsto> 0)"
proof -
  have "dummy_lookup pid t 0 None \<noteq> None"
    using dummy_lookup_new [OF inv v pid] dummy_room(2) [OF inv] room by (auto split: option.splits)
  then obtain k where k: "dummy_lookup pid t 0 None = Some k" "k < length t" "t ! k = dummy_entry_init"
    using dummy_lookup_new [OF inv v pid] by auto
  let ?e = "\<lparr>de_pid = pid, de_live = 0, de_skipped = True\<rparr>"
  have o: "dummy_open pid t = (False, t[k := ?e])"
    using k by (simp add: dummy_open_def Let_def dummy_entry_init_def)
  have i: "dummy_inv (t[k := ?e])"
    using dummy_view_none [OF v pid] pid by (intro dummy_update_inv [OF inv]) (auto simp: dummy_ok_def)
  have z: "de_pid (t ! k) = 0" using k(3) by (simp add: dummy_entry_init_def)
  have "dummy_view (t[k := ?e]) = (dummy_view t)(pid \<mapsto> 0)"
    by (rule ext) (use pid z in \<open>auto simp: dummy_update_view [OF inv i k(2)]\<close>)
  then show ?thesis using o i by simp
qed

lemma dummy_open_full:
  assumes inv: "dummy_inv t" and v: "dummy_view t pid = None" and pid: "pid \<noteq> 0"
    and full: "card (dom (dummy_view t)) = MaxDummySkipEntries"
  shows "dummy_open pid t = (False, t)"
proof -
  have "\<forall>k < length t. de_pid (t ! k) \<noteq> 0" using dummy_room(2) [OF inv] full by auto
  then have "dummy_lookup pid t 0 None = None"
    using dummy_lookup_new [OF inv v pid] by (auto simp: dummy_entry_init_def split: option.splits)
  then show ?thesis by (simp add: dummy_open_def)
qed

lemma dummy_release_eq:
  "dummy_release pid t =
     (case first_idx (\<lambda>e. de_pid e = pid \<and> de_live e > 0) t of
        None \<Rightarrow> t
      | Some k \<Rightarrow> t[k := (if de_live (t ! k) = 1 then (t ! k)\<lparr>de_live := 0, de_pid := 0, de_skipped := False\<rparr>
                         else (t ! k)\<lparr>de_live := de_live (t ! k) - 1\<rparr>)])"
  by (induction pid t rule: dummy_release.induct) (auto simp: Let_def split: option.splits)

lemma dummy_release_view:
  assumes inv: "dummy_inv t" and pid: "pid \<noteq> 0"
  shows "dummy_inv (dummy_release pid t) \<and> dummy_view (dummy_release pid t) =
     (case dummy_view t pid of
        None \<Rightarrow> dummy_view t
      | Some n \<Rightarrow> if n = 0 then dummy_view t else if n = 1 then (dummy_view t)(pid := None)
                  else (dummy_view t)(pid \<mapsto> n - 1))"
proof (cases "first_idx (\<lambda>e. de_pid e = pid \<and> de_live e > 0) t")
  case None
  have "n = 0" if view: "dummy_view t pid = Some n" for n
  proof -
    obtain k where "k < length t" "de_pid (t ! k) = pid" "de_live (t ! k) = n"
      using dummy_view_iff [OF inv, of pid n] view by blast
    then have "\<not> 0 < de_live (t ! k)" using None nth_mem [of k t] by (auto simp: first_idx_None_iff)
    then show ?thesis using \<open>de_live (t ! k) = n\<close> by (simp add: word_gt_0)
  qed
  then show ?thesis using None inv by (auto simp: dummy_release_eq split: option.splits)
next
  case (Some k)
  then have k: "k < length t" "de_pid (t ! k) = pid" "de_live (t ! k) \<noteq> 0"
    by (auto simp: first_idx_Some_iff)
  have v: "dummy_view t pid = Some (de_live (t ! k))" using dummy_view_iff [OF inv] pid k by blast
  have "dummy_ok (t ! k)" using inv k(1) by (simp add: dummy_inv_def)
  then have sk: "de_skipped (t ! k)" using k(2) pid by (simp add: dummy_ok_def)
  show ?thesis
  proof (cases "de_live (t ! k) = 1")
    case True
    let ?e = "(t ! k)\<lparr>de_live := 0, de_pid := 0, de_skipped := False\<rparr>"
    have i: "dummy_inv (t[k := ?e])" by (intro dummy_update_inv [OF inv]) (auto simp: dummy_ok_def)
    have "dummy_view (t[k := ?e]) = (dummy_view t)(pid := None)"
      by (rule ext) (use k pid in \<open>auto simp: dummy_update_view [OF inv i k(1)]\<close>)
    then show ?thesis using Some True i v by (simp add: dummy_release_eq)
  next
    case False
    let ?e = "(t ! k)\<lparr>de_live := de_live (t ! k) - 1\<rparr>"
    have i: "dummy_inv (t[k := ?e])"
      using k pid sk dummy_pid_inj [OF inv] by (intro dummy_update_inv [OF inv]) (auto simp: dummy_ok_def)
    have "dummy_view (t[k := ?e]) = (dummy_view t)(pid \<mapsto> de_live (t ! k) - 1)"
      by (rule ext) (use k pid in \<open>auto simp: dummy_update_view [OF inv i k(1)]\<close>)
    then show ?thesis using Some False i v k(3) by (simp add: dummy_release_eq)
  qed
qed

interpretation burst: burst_counter dummy_inv dummy_view dummy_open dummy_release "\<lambda>pid. pid \<noteq> 0"
    MaxDummySkipEntries
  using dummy_card dummy_room(1) dummy_open_known dummy_open_new dummy_open_full dummy_release_view
  by unfold_locales simp_all

section \<open>Properties\<close>

lemma ShouldMitm_application:
  "is_app prog \<Longrightarrow> prog \<noteq> LdnMitmProgramId \<Longrightarrow> ShouldMitm is_app prog pid = dummy_open pid"
  by (rule ext) (simp add: ShouldMitm_def)



text \<open>The table leaks processes that open only their first session: nothing ever closes a forwarded
  session, so after eight such processes every session of every further application is refused.\<close>

theorem dummy_table_exhaustion:
  assumes pids: "distinct pids" "length pids = MaxDummySkipEntries" "0 \<notin> set pids"
    and t: "t = fold (\<lambda>p t. snd (dummy_open p t)) pids dummy_init"
    and app: "is_app prog" "prog \<noteq> LdnMitmProgramId" and pid: "pid \<noteq> 0" "pid \<notin> set pids"
  shows "opens (ShouldMitm is_app prog pid) n t = (replicate n False, t)"
proof -
  have fill: "dummy_inv (fold (\<lambda>p t. snd (dummy_open p t)) ps u)
      \<and> dom (dummy_view (fold (\<lambda>p t. snd (dummy_open p t)) ps u)) = dom (dummy_view u) \<union> set ps"
    if "dummy_inv u" "distinct ps" "0 \<notin> set ps" "dom (dummy_view u) \<inter> set ps = {}"
      "card (dom (dummy_view u)) + length ps \<le> MaxDummySkipEntries" for ps u
    using that
  proof (induction ps arbitrary: u)
    case Nil
    then show ?case by simp
  next
    case (Cons p ps)
    let ?u = "snd (dummy_open p u)"
    have new: "dummy_view u p = None" using Cons.prems(4) by auto
    have u: "dummy_inv ?u" "dummy_view ?u = (dummy_view u)(p \<mapsto> 0)"
      using dummy_open_new [OF Cons.prems(1) new] Cons.prems(3,5) by simp_all
    have d: "dom (dummy_view ?u) = insert p (dom (dummy_view u))" unfolding u(2) by simp
    have "p \<notin> dom (dummy_view u)" using new by (simp add: domIff)
    then have "card (dom (dummy_view ?u)) + length ps \<le> MaxDummySkipEntries"
      using dummy_card [OF Cons.prems(1)] Cons.prems(5) by (simp add: d)
    moreover have "dom (dummy_view ?u) \<inter> set ps = {}" using Cons.prems(2,4) by (auto simp: d)
    ultimately have "dummy_inv (fold (\<lambda>p t. snd (dummy_open p t)) ps ?u)
        \<and> dom (dummy_view (fold (\<lambda>p t. snd (dummy_open p t)) ps ?u)) = dom (dummy_view ?u) \<union> set ps"
      using Cons.IH [OF u(1)] Cons.prems(2,3) by simp
    then show ?case by (simp add: d)
  qed
  have full: "dummy_inv t" "dom (dummy_view t) = set pids"
    using fill [OF dummy_inv_init(1), of pids] pids by (simp_all add: t dummy_inv_init(2))
  have "card (dom (dummy_view t)) = MaxDummySkipEntries" using pids by (simp add: full distinct_card)
  moreover have "dummy_view t pid = None" using full(2) pid(2) by (auto simp: domIff)
  ultimately have "dummy_open pid t = (False, t)" using dummy_open_full [OF full(1)] pid(1) by simp
  then show ?thesis
    by (induction n) (simp_all add: ShouldMitm_application [of is_app prog pid, OF app])
qed

theorem dummy_table_exhaustion_witness:
  "\<exists>t. t = fold (\<lambda>p t. snd (dummy_open p t)) [1, 2, 3, 4, 5, 6, 7, 8] dummy_init
     \<and> opens (ShouldMitm (\<lambda>p. True) 0x0100152000022000 99) 3 t = ([False, False, False], t)"
  using dummy_table_exhaustion [of "[1, 2, 3, 4, 5, 6, 7, 8]" _ "\<lambda>p. True" "0x0100152000022000" 99 3]
  by (simp add: MaxDummySkipEntries_def LdnMitmProgramId_def numeral_3_eq_3 del: fold.simps)

end
