(* ===== verification/Bridge.thy ===== *)
theory Bridge
  imports VTcpStream ControlQueue DummySkip
begin

text \<open>
  The state of \<^verbatim>\<open>bsd_bridge_service.cpp\<close>: the shared globals (\<open>bridge\<close>, which extends the state of the
  virtual TCP endpoint) and the per-process instances of \<open>BsdBridgeService\<close> (\<open>service\<close>), with fd
  tracking, the connection management of the relay, the drain thread's \<open>DrainRawRelayQueue\<close> and
  the watchdog. The platform and the real \<open>bsd:u\<close> service are the parameter \<open>benv\<close>: the real
  service answers a call as a function of the calls it has seen (ghost field \<open>g_bsd_log\<close>).
  Every operation is one step; the mutexes of the code make the shared accesses sequential.
\<close>

section \<open>State\<close>

definition MaxTrackedFds :: nat where "MaxTrackedFds = 16"
definition WatchdogIdleTimeoutMs :: u64 where "WatchdogIdleTimeoutMs = 600000"

record service =
  m_client_pid :: u64
  m_bridged_fd :: int
  m_bridged_local_ip :: u32
  m_bridged_local_port :: u16
  m_ldn_tcp_bind_fd :: int
  m_tracked_fd :: "int list"
  m_tracked_type :: "int list"

definition service_init :: "u64 \<Rightarrow> service" where
  "service_init pid =
     \<lparr>m_client_pid = pid, m_bridged_fd = - 1, m_bridged_local_ip = 0, m_bridged_local_port = 0,
      m_ldn_tcp_bind_fd = - 1, m_tracked_fd = replicate MaxTrackedFds (- 1),
      m_tracked_type = replicate MaxTrackedFds (- 1)\<rparr>"

record bsd_call =
  bc_cmd :: nat
  bc_args :: "int list"
  bc_bufs :: "u8 list list"

record bsd_reply =
  br_rc :: u32
  br_ret :: int
  br_err :: int
  br_extra :: nat
  br_bufs :: "u8 list list"

record bridge = vtcp +
  g_relay_connect_attempted :: bool
  g_relay_enabled :: bool
  g_last_bridged_local_ip :: u32
  g_bridged_socket_count :: int
  g_last_bridge_activity_ms :: u64
  g_control_queue :: control_queue
  g_socket_stack_ready :: bool
  g_watchdog_started :: bool
  g_drain_thread_started :: bool
  g_dummy_skip :: "dummy_entry list"
  g_services :: "nat \<Rightarrow> service"
  g_bsd_log :: "bsd_call list"

record benv =
  e_io :: env
  e_bsd :: "bsd_call list \<Rightarrow> bsd_call \<Rightarrow> bsd_reply"
  e_now :: u64
  e_tick :: u64
  e_inet_pton :: "u8 list \<Rightarrow> u32 option"
  e_resolve :: "u8 list \<Rightarrow> u8 list option"
  e_host :: "u8 list"
  e_port :: u16
  e_socket :: int
  e_thread_ok :: bool
  e_bsd_init_ok :: bool
  e_socket_init_ok :: bool
  e_nifm_ip :: "u32 option"

definition bridge_init :: bridge where
  "bridge_init = vtcp.extend vtcp_init
     \<lparr>g_relay_connect_attempted = False, g_relay_enabled = True, g_last_bridged_local_ip = 0,
      g_bridged_socket_count = 0, g_last_bridge_activity_ms = 0, g_control_queue = control_init,
      g_socket_stack_ready = False, g_watchdog_started = False, g_drain_thread_started = False,
      g_dummy_skip = dummy_init, g_services = (\<lambda>me. service_init 0), g_bsd_log = []\<rparr>"

definition upd_service :: "nat \<Rightarrow> (service \<Rightarrow> service) \<Rightarrow> bridge \<Rightarrow> bridge" where
  "upd_service me f s = s\<lparr>g_services := (g_services s)(me := f (g_services s me))\<rparr>"

section \<open>Tracking the types of fds\<close>

fun track_scan :: "int \<Rightarrow> int \<Rightarrow> int list \<Rightarrow> int list \<Rightarrow> int list \<times> int list" where
  "track_scan fd ty (f # fds) (y # tys) =
     (if f = - 1 \<or> f = fd then (fd # fds, ty # tys)
      else let (fds', tys') = track_scan fd ty fds tys in (f # fds', y # tys'))"
| "track_scan fd ty fds tys = (fds, tys)"

definition TrackFd :: "int \<Rightarrow> int \<Rightarrow> service \<Rightarrow> service" where
  "TrackFd fd ty v =
     (if fd < 0 then v
      else let (fds, tys) = track_scan fd ty (m_tracked_fd v) (m_tracked_type v)
           in v\<lparr>m_tracked_fd := fds, m_tracked_type := tys\<rparr>)"

definition UntrackFd :: "int \<Rightarrow> service \<Rightarrow> service" where
  "UntrackFd fd v = v\<lparr>m_tracked_fd := map (\<lambda>f. if f = fd then - 1 else f) (m_tracked_fd v)\<rparr>"

definition GetTrackedType :: "int \<Rightarrow> service \<Rightarrow> int" where
  "GetTrackedType fd v =
     (case first_idx (\<lambda>f. f = fd) (m_tracked_fd v) of
        Some i \<Rightarrow> m_tracked_type v ! i
      | None \<Rightarrow> - 1)"

definition IsBridged :: "int \<Rightarrow> service \<Rightarrow> bool" where
  "IsBridged fd v \<longleftrightarrow> fd \<ge> 0 \<and> fd = m_bridged_fd v"

section \<open>The destructor\<close>

definition service_destroy :: "nat \<Rightarrow> bridge \<Rightarrow> bridge" where
  "service_destroy me s =
     (let s1 = (if g_active_ldn_instance s = Some me then s\<lparr>g_active_ldn_instance := None\<rparr> else s)
      in s1\<lparr>g_dummy_skip := dummy_release (m_client_pid (g_services s1 me)) (g_dummy_skip s1)\<rparr>)"

section \<open>The relay connection\<close>

definition TouchBridgeActivity :: "benv \<Rightarrow> bridge \<Rightarrow> bridge" where
  "TouchBridgeActivity env s = s\<lparr>g_last_bridge_activity_ms := e_now env\<rparr>"

definition EnsureSocketStack :: "benv \<Rightarrow> bridge \<Rightarrow> bridge" where
  "EnsureSocketStack env s =
     (if g_socket_stack_ready s then s
      else if \<not> e_bsd_init_ok env then s
      else if \<not> e_socket_init_ok env then s
      else s\<lparr>g_socket_stack_ready := True\<rparr>)"

definition ConnectRelayLocked :: "benv \<Rightarrow> bridge \<Rightarrow> bool \<times> bridge" where
  "ConnectRelayLocked env s =
     (let s1 = (EnsureSocketStack env s)\<lparr>g_watchdog_started := True, g_drain_thread_started := True,
                  g_relay_connect_attempted := True\<rparr>;
          (rc, r) = RelayConnect (e_inet_pton env) (e_resolve env) (e_thread_ok env) (e_socket env)
                      (e_tick env) (e_host env) (e_port env) (g_relay s1)
      in (rc = ResultSuccess, s1\<lparr>g_relay := r\<rparr>))"

definition EnsureRelayConnected :: "benv \<Rightarrow> bridge \<Rightarrow> bool \<times> bridge" where
  "EnsureRelayConnected env s =
     (if \<not> g_relay_enabled s then (False, s)
      else if m_connected (g_relay s) then (True, s)
      else if g_relay_connect_attempted s then (False, s)
      else ConnectRelayLocked env s)"

definition ForceReconnect :: "benv \<Rightarrow> bridge \<Rightarrow> bridge" where
  "ForceReconnect env s =
     snd (ConnectRelayLocked env
       (s\<lparr>g_relay_enabled := True, g_relay := RelayClose (g_relay s),
          g_relay_connect_attempted := False, g_last_bridge_activity_ms := 0\<rparr>))"

definition BridgeStop :: "bridge \<Rightarrow> bridge" where
  "BridgeStop s =
     s\<lparr>g_relay_enabled := False, g_relay := RelayClose (g_relay s),
       g_relay_connect_attempted := False, g_last_bridge_activity_ms := 0\<rparr>"

definition BridgeStart :: "benv \<Rightarrow> bridge \<Rightarrow> bridge" where
  "BridgeStart env s =
     (let s1 = s\<lparr>g_relay_enabled := True\<rparr>
      in if \<not> m_connected (g_relay s1) then
           snd (ConnectRelayLocked env (s1\<lparr>g_relay_connect_attempted := False\<rparr>))
         else s1)"

definition GetRealIp :: "benv \<Rightarrow> bridge \<Rightarrow> u32 \<times> bridge" where
  "GetRealIp env s =
     (let s1 = EnsureSocketStack env s
      in (case e_nifm_ip env of
            Some ip \<Rightarrow> if ip \<noteq> 0 then ip else 0
          | None \<Rightarrow> 0, s1))"

definition IsRelayConnected :: "bridge \<Rightarrow> bool" where "IsRelayConnected s = m_connected (g_relay s)"
definition IsRelayEnabled :: "bridge \<Rightarrow> bool" where "IsRelayEnabled s = g_relay_enabled s"
definition GetLocalIp :: "bridge \<Rightarrow> u32" where "GetLocalIp s = g_last_bridged_local_ip s"

text \<open>One wake-up of the watchdog thread.\<close>

definition watchdog_tick :: "benv \<Rightarrow> bridge \<Rightarrow> bridge" where
  "watchdog_tick env s =
     (if \<not> m_connected (g_relay s) then s
      else if g_last_bridge_activity_ms s = 0 then s
      else if e_now env - g_last_bridge_activity_ms s < WatchdogIdleTimeoutMs then s
      else s\<lparr>g_relay := RelayClose (g_relay s), g_relay_connect_attempted := False,
             g_last_bridged_local_ip := 0, g_bridged_socket_count := 0,
             g_last_bridge_activity_ms := 0\<rparr>)"

section \<open>Draining the relay queue\<close>

definition DrainPktSize :: nat where "DrainPktSize = 20 + 20 + MaxBridgedPayload"

text \<open>The body of the loop of \<open>DrainRawRelayQueue\<close> for one packet.\<close>

definition drain_packet :: "benv \<Rightarrow> u8 list \<Rightarrow> bridge \<Rightarrow> bridge" where
  "drain_packet env pkt s =
     (if length pkt < 20 then s
      else if pkt ! 9 = 17 then
        (case ParseIpv4Udp pkt of
           Some (Some ((src_ip, dst_port), payload)) \<Rightarrow>
             s\<lparr>g_control_queue := control_push \<lparr>cp_dst_port = dst_port, cp_data = pkt\<rparr> (g_control_queue s)\<rparr>
         | _ \<Rightarrow> s)
      else if pkt ! 9 \<noteq> 6 then s
      else
        (case ParseIpv4Tcp pkt of
           Some (Some (t, payload)) \<Rightarrow>
             if tv_dst_port t \<noteq> LdnControlPort then s
             else (case g_active_ldn_instance s of
                     None \<Rightarrow> s
                   | Some owner \<Rightarrow>
                       HandleTcpSegment (e_io env) owner (g_last_bridged_local_ip s) (tv_src_ip t)
                         (tv_src_port t) (tv_seq t) (tv_ack t) (tv_flags t) payload s)
         | _ \<Rightarrow> s))"

text \<open>The loop pops at most as many packets as the queue holds; \<open>n\<close> is that number.\<close>

fun drain_loop :: "benv \<Rightarrow> nat \<Rightarrow> bridge \<Rightarrow> bridge" where
  "drain_loop env 0 s = s"
| "drain_loop env (Suc n) s =
     (case PopIpv4 DrainPktSize (m_queue (g_relay s)) of
        (q, Popped pkt) \<Rightarrow> drain_loop env n (drain_packet env pkt (s\<lparr>g_relay := (g_relay s)\<lparr>m_queue := q\<rparr>\<rparr>))
      | (q, _) \<Rightarrow> s\<lparr>g_relay := (g_relay s)\<lparr>m_queue := q\<rparr>\<rparr>)"

definition DrainRawRelayQueue :: "benv \<Rightarrow> bridge \<Rightarrow> bridge" where
  "DrainRawRelayQueue env s =
     (let s1 = (case g_active_ldn_instance s of
                  None \<Rightarrow> s
                | Some owner \<Rightarrow> CheckDataRetransmits (e_io env) (g_last_bridged_local_ip s) (e_now env) s)
      in drain_loop env (rq_count (m_queue (g_relay s1))) s1)"

definition DrainRelay :: "benv \<Rightarrow> bridge \<Rightarrow> bridge" where
  "DrainRelay env s = DrainRawRelayQueue env s"

text \<open>One round of the drain thread: the shared queue, then once more for the owner of the session.\<close>

definition drain_thread_tick :: "benv \<Rightarrow> bridge \<Rightarrow> bridge" where
  "drain_thread_tick env s =
     (let s1 = DrainRawRelayQueue env s
      in case g_active_ldn_instance s1 of None \<Rightarrow> s1 | Some active \<Rightarrow> DrainRelay env s1)"

section \<open>The real service\<close>

definition forward :: "benv \<Rightarrow> bsd_call \<Rightarrow> bridge \<Rightarrow> bsd_reply \<times> bridge" where
  "forward env call s = (e_bsd env (g_bsd_log s) call, s\<lparr>g_bsd_log := g_bsd_log s @ [call]\<rparr>)"

section \<open>Readiness\<close>

definition VFdHasPendingRead :: "nat \<Rightarrow> int \<Rightarrow> bridge \<Rightarrow> bool" where
  "VFdHasPendingRead me poll_fd s =
     (if poll_fd < 0 then False
      else if poll_fd = m_bridged_fd (g_services s me) then
        (\<exists>p \<in> set (take (cq_count (g_control_queue s)) (cq_arr (g_control_queue s))).
           cp_dst_port p = m_bridged_local_port (g_services s me))
      else if IsOwnTcpListenFd me poll_fd s then
        (\<exists>p \<in> set (g_pending_accepts s). p_used p \<and> p_got_final_ack p)
      else (case FindVTcpConnByFd me poll_fd s of
              None \<Rightarrow> False
            | Some k \<Rightarrow> c_inbox (conn_at k s) \<noteq> [] \<or> c_peer_closed (conn_at k s)))"

end
