(* ===== verification/Commands.thy ===== *)
theory Commands
  imports Bridge
begin

text \<open>
  The commands of \<open>BsdBridgeService\<close> with logic of their own: \<open>Socket\<close>, \<open>Bind\<close>, \<open>Listen\<close>, \<open>Accept\<close>,
  \<open>Connect\<close>, \<open>SendTo\<close>, \<open>RecvFrom\<close> and \<open>Close\<close>. A command is executed by the instance \<open>me\<close> and returns
  what it stores into its out parameters. Commands that are not for a bridged or virtual socket
  are forwarded: the same call to the real service, and its reply.
\<close>

section \<open>Replies and addresses\<close>

datatype berr = ErrNone | EIO | EMSGSIZE | EWOULDBLOCK | ENOBUFS | ETIMEDOUT | ErrReal int

record reply =
  r_rc :: u32
  r_ret :: int
  r_err :: berr
  r_len :: nat
  r_data :: "u8 list"
  r_addr :: "u8 list"

definition reply_local :: "int \<Rightarrow> berr \<Rightarrow> reply" where
  "reply_local ret err = \<lparr>r_rc = 0, r_ret = ret, r_err = err, r_len = 0, r_data = [], r_addr = []\<rparr>"

definition reply_real :: "bsd_reply \<Rightarrow> reply" where
  "reply_real b =
     \<lparr>r_rc = br_rc b, r_ret = br_ret b, r_err = ErrReal (br_err b), r_len = br_extra b,
      r_data = (case br_bufs b of [] \<Rightarrow> [] | d # _ \<Rightarrow> d),
      r_addr = (case br_bufs b of _ # a # _ \<Rightarrow> a | _ \<Rightarrow> [])\<rparr>"

definition SOCK_STREAM :: int where "SOCK_STREAM = 1"
definition SOCK_DGRAM :: int where "SOCK_DGRAM = 2"

definition SockaddrSize :: nat where "SockaddrSize = 16"

text \<open>A \<open>sockaddr_in\<close>: length and family byte, port and address in network order, padding.\<close>

definition sockaddr_bytes :: "u32 \<Rightarrow> u16 \<Rightarrow> u8 list" where
  "sockaddr_bytes ip port =
     [0, 2, hi8 port, lo8 port, b32_3 ip, b32_2 ip, b32_1 ip, b32_0 ip] @ replicate 8 0"

definition sockaddr_ip :: "u8 list \<Rightarrow> u32" where
  "sockaddr_ip a = (if length a \<ge> SockaddrSize then be32 (a ! 4) (a ! 5) (a ! 6) (a ! 7) else 0)"

definition sockaddr_port :: "u8 list \<Rightarrow> u16" where
  "sockaddr_port a = (if length a \<ge> SockaddrSize then be16 (a ! 2) (a ! 3) else 0)"

definition cmd_call :: "nat \<Rightarrow> int list \<Rightarrow> u8 list list \<Rightarrow> bsd_call" where
  "cmd_call cmd args bufs = \<lparr>bc_cmd = cmd, bc_args = args, bc_bufs = bufs\<rparr>"

section \<open>Socket, Bind, Listen\<close>

definition cmd_Socket :: "benv \<Rightarrow> nat \<Rightarrow> int \<Rightarrow> int \<Rightarrow> int \<Rightarrow> bridge \<Rightarrow> reply \<times> bridge" where
  "cmd_Socket env me domain ty protocol s =
     (let (out, s1) = forward env (cmd_call 2 [domain, ty, protocol] []) s
      in (reply_real out, upd_service me (TrackFd (br_ret out) ty) s1))"

text \<open>The address \<open>Bind\<close> learns for a UDP socket: what \<open>GetSockName\<close> of the real service says, else
  the console's own address.\<close>

definition bind_learn_ip :: "benv \<Rightarrow> int \<Rightarrow> bridge \<Rightarrow> u32 \<times> bridge" where
  "bind_learn_ip env fd s =
     (let (out, s1) = forward env (cmd_call 16 [fd] []) s;
          name = (case br_bufs out of [] \<Rightarrow> [] | b # _ \<Rightarrow> b);
          learned = (if br_rc out = 0 \<and> br_err out = 0 then sockaddr_ip name else 0)
      in if learned = 0 then
           (let s2 = EnsureSocketStack env s1
            in (case e_nifm_ip env of Some ip \<Rightarrow> ip | None \<Rightarrow> 0, s2))
         else (learned, s1))"

definition bind_bridge :: "benv \<Rightarrow> nat \<Rightarrow> int \<Rightarrow> u16 \<Rightarrow> u32 \<Rightarrow> bridge \<Rightarrow> bridge" where
  "bind_bridge env me fd port learned_ip s =
     (let established_ip = g_last_bridged_local_ip s;
          is_ldn_control_port = (port = LdnControlPort);
          is_ldn_subnet_match = (established_ip \<noteq> 0 \<and> learned_ip = established_ip)
      in if is_ldn_control_port \<or> is_ldn_subnet_match then
           let s1 = upd_service me (\<lambda>v. v\<lparr>m_bridged_fd := fd, m_bridged_local_ip := learned_ip,
                      m_bridged_local_port := port\<rparr>) s;
               s2 = s1\<lparr>g_last_bridged_local_ip := learned_ip,
                      g_bridged_socket_count := g_bridged_socket_count s1 + 1,
                      g_active_ldn_instance := (if is_ldn_control_port then Some me
                                                else g_active_ldn_instance s1)\<rparr>
           in snd (EnsureRelayConnected env s2)
         else s)"

definition cmd_Bind :: "benv \<Rightarrow> nat \<Rightarrow> int \<Rightarrow> u8 list \<Rightarrow> bridge \<Rightarrow> reply \<times> bridge" where
  "cmd_Bind env me fd addr s =
     (let (out, s1) = forward env (cmd_call 13 [fd] [addr]) s
      in (reply_real out,
          if length addr \<ge> SockaddrSize then
            let port = sockaddr_port addr;
                is_udp = (GetTrackedType fd (g_services s1 me) = SOCK_DGRAM);
                s2 = (if port = LdnControlPort \<and> \<not> is_udp
                      then upd_service me (\<lambda>v. v\<lparr>m_ldn_tcp_bind_fd := fd\<rparr>) s1 else s1)
            in if is_udp then
                 let (learned_ip, s3) = bind_learn_ip env fd s2
                 in bind_bridge env me fd port learned_ip s3
               else s2
          else s1))"

definition cmd_Listen :: "benv \<Rightarrow> nat \<Rightarrow> int \<Rightarrow> int \<Rightarrow> bridge \<Rightarrow> reply \<times> bridge" where
  "cmd_Listen env me fd backlog s =
     (let (out, s1) = forward env (cmd_call 18 [fd, backlog] []) s
      in (reply_real out,
          if fd \<ge> 0 \<and> fd = m_ldn_tcp_bind_fd (g_services s1 me)
          then s1\<lparr>g_tcp_listen_fd := fd\<rparr> else s1))"

section \<open>SendTo\<close>

definition SendTo_tcp :: "benv \<Rightarrow> nat \<Rightarrow> nat \<Rightarrow> u8 list \<Rightarrow> bridge \<Rightarrow> reply \<times> bridge" where
  "SendTo_tcp env me k payload s =
     (if \<not> c_established (conn_at k s) then (reply_local (- 1) EIO, s)
      else let (up, s1) = EnsureRelayConnected env s
           in if \<not> up then (reply_local (- 1) EIO, s1)
              else if length payload > VTcpInboxCap then (reply_local (- 1) EMSGSIZE, s1)
              else let (sent, s2) = vtcp_send (e_io env) (m_bridged_local_ip (g_services s1 me)) (e_now env)
                                      k payload s1;
                       s3 = TouchBridgeActivity env s2
                   in (if sent \<ge> 0 then reply_local (int (length payload)) ErrNone
                       else reply_local (- 1) EIO, s3))"

definition SendTo_udp :: "benv \<Rightarrow> nat \<Rightarrow> u8 list \<Rightarrow> u8 list \<Rightarrow> bridge \<Rightarrow> reply \<times> bridge" where
  "SendTo_udp env me payload addr s =
     (let (up, s1) = EnsureRelayConnected env s
      in if \<not> up then (reply_local (- 1) EIO, s1)
         else
           let v = g_services s1 me;
               h = \<lparr>uh_src_ip = m_bridged_local_ip v, uh_dst_ip = sockaddr_ip addr,
                    uh_src_port = m_bridged_local_port v, uh_dst_port = sockaddr_port addr\<rparr>
           in case BuildUdp h payload of
                None \<Rightarrow> (reply_local (- 1) EMSGSIZE, s1)
              | Some packet \<Rightarrow>
                  let (sent, r) = SendIpv4 (e_sendto (e_io env)) packet (g_relay s1);
                      s2 = TouchBridgeActivity env (s1\<lparr>g_relay := r\<rparr>)
                  in (if sent \<ge> 0 then reply_local (int (length payload)) ErrNone
                      else reply_local (- 1) EIO, s2))"

definition cmd_SendTo :: "benv \<Rightarrow> nat \<Rightarrow> int \<Rightarrow> int \<Rightarrow> u8 list \<Rightarrow> u8 list \<Rightarrow> bridge \<Rightarrow> reply \<times> bridge" where
  "cmd_SendTo env me fd flags payload addr s =
     (case FindVTcpConnByFd me fd s of
        Some k \<Rightarrow> SendTo_tcp env me k payload s
      | None \<Rightarrow>
          if \<not> IsBridged fd (g_services s me) then
            let (out, s1) = forward env (cmd_call 11 [fd, flags] [payload, addr]) s in (reply_real out, s1)
          else SendTo_udp env me payload addr s)"

section \<open>RecvFrom\<close>

definition RecvFrom_tcp :: "benv \<Rightarrow> nat \<Rightarrow> nat \<Rightarrow> nat \<Rightarrow> bridge \<Rightarrow> reply \<times> bridge" where
  "RecvFrom_tcp env k bufsize addrsize s =
     (if c_inbox (conn_at k s) = [] then
        (if c_peer_closed (conn_at k s) then reply_local 0 ErrNone else reply_local (- 1) EWOULDBLOCK, s)
      else let (bytes, s1) = vtcp_read bufsize k s;
               cn = conn_at k s1;
               a = take addrsize (sockaddr_bytes (c_peer_ip cn) (c_peer_port cn))
           in (\<lparr>r_rc = 0, r_ret = int (length bytes), r_err = ErrNone, r_len = length a,
                r_data = bytes, r_addr = a\<rparr>, TouchBridgeActivity env s1))"

definition RecvFrom_udp :: "benv \<Rightarrow> nat \<Rightarrow> nat \<Rightarrow> nat \<Rightarrow> bridge \<Rightarrow> reply \<times> bridge" where
  "RecvFrom_udp env me bufsize addrsize s =
     (case PopControlPacketForPort (m_bridged_local_port (g_services s me)) (g_control_queue s) of
        None \<Rightarrow> (reply_local (- 1) EWOULDBLOCK, s)
      | Some (p, q) \<Rightarrow>
          let s1 = s\<lparr>g_control_queue := q\<rparr>;
              ip_packet = take ControlDataSize (cp_data p)
          in case ParseIpv4Udp ip_packet of
               Some (Some ((src_ip, dst_port), payload)) \<Rightarrow>
                 let ihl = unat (ip_packet ! 0 AND 0x0F) * 4;
                     src_port = be16 (ip_packet ! ihl) (ip_packet ! (ihl + 1));
                     data = take bufsize payload;
                     a = take addrsize (sockaddr_bytes src_ip src_port)
                 in (\<lparr>r_rc = 0, r_ret = int (length data), r_err = ErrNone, r_len = length a,
                      r_data = data, r_addr = a\<rparr>, TouchBridgeActivity env s1)
             | _ \<Rightarrow> (reply_local (- 1) EWOULDBLOCK, s1))"

definition cmd_RecvFrom :: "benv \<Rightarrow> nat \<Rightarrow> int \<Rightarrow> int \<Rightarrow> nat \<Rightarrow> nat \<Rightarrow> bridge \<Rightarrow> reply \<times> bridge" where
  "cmd_RecvFrom env me fd flags bufsize addrsize s0 =
     (let s = DrainRelay env s0
      in case FindVTcpConnByFd me fd s of
           Some k \<Rightarrow> RecvFrom_tcp env k bufsize addrsize s
         | None \<Rightarrow>
             if \<not> IsBridged fd (g_services s me) then
               let (out, s1) = forward env (cmd_call 9 [fd, flags, int bufsize, int addrsize] []) s
               in (reply_real out, s1)
             else RecvFrom_udp env me bufsize addrsize s)"

section \<open>Close\<close>

definition close_vtcp :: "benv \<Rightarrow> nat \<Rightarrow> int \<Rightarrow> bridge \<Rightarrow> bool \<times> bridge" where
  "close_vtcp env me fd s =
     (let (syn, s1) =
        (case FindVTcpConnByFd me fd s of
           None \<Rightarrow> (False, s)
         | Some k \<Rightarrow>
             let cn = conn_at k s;
                 s' = (if c_established cn then
                         send_seg (e_io env) (seg (m_bridged_local_ip (g_services s me)) (c_peer_ip cn)
                           (c_peer_port cn) (c_our_seq cn) (c_their_seq cn) (TCP_FIN OR TCP_ACK)) [] s
                       else s)
             in (c_fd cn \<ge> 1000, upd_conn k (\<lambda>c. vtcp_conn_init) s'))
      in (syn, if IsOwnTcpListenFd me fd s1 then s1\<lparr>g_tcp_listen_fd := - 1\<rparr> else s1))"

definition close_unbridge :: "nat \<Rightarrow> bridge \<Rightarrow> bridge" where
  "close_unbridge me s =
     (let was_ldn_control_port = (m_bridged_local_port (g_services s me) = LdnControlPort);
          s1 = upd_service me (\<lambda>v. v\<lparr>m_bridged_fd := - 1, m_bridged_local_ip := 0,
                 m_bridged_local_port := 0\<rparr>) s;
          s2 = (if was_ldn_control_port \<and> g_active_ldn_instance s1 = Some me
                then s1\<lparr>g_active_ldn_instance := None\<rparr> else s1);
          s3 = (if g_bridged_socket_count s2 > 0
                then s2\<lparr>g_bridged_socket_count := g_bridged_socket_count s2 - 1\<rparr> else s2)
      in if g_bridged_socket_count s3 = 0 then
           s3\<lparr>g_relay := RelayClose (g_relay s3), g_relay_connect_attempted := False,
              g_last_bridged_local_ip := 0, g_last_bridge_activity_ms := 0\<rparr>
         else s3)"

definition cmd_Close :: "benv \<Rightarrow> nat \<Rightarrow> int \<Rightarrow> bridge \<Rightarrow> reply \<times> bridge" where
  "cmd_Close env me fd s =
     (let (is_synthetic, s1) = close_vtcp env me fd s
      in if is_synthetic then (reply_local 0 ErrNone, upd_service me (UntrackFd fd) s1)
         else
           let (out, s2) = forward env (cmd_call 26 [fd] []) s1;
               s3 = upd_service me (UntrackFd fd) s2
           in (reply_real out,
               if IsBridged fd (g_services s3 me) then close_unbridge me s3 else s3))"

section \<open>Accept\<close>

text \<open>The loop over \<open>g_pending_accepts\<close> from entry \<open>i\<close> on; the first argument counts the entries left.\<close>

fun accept_scan :: "nat \<Rightarrow> nat \<Rightarrow> nat \<Rightarrow> bridge \<Rightarrow> (nat \<times> bridge) option" where
  "accept_scan 0 i me s = None"
| "accept_scan (Suc left) i me s =
     (let p = g_pending_accepts s ! i
      in if \<not> p_used p \<or> \<not> p_got_final_ack p then accept_scan left (i + 1) me s
         else case AllocVTcpConn me s of
                None \<Rightarrow> accept_scan left (i + 1) me s
              | Some (k, s1) \<Rightarrow>
                  let s2 = s1\<lparr>g_pending_accepts := (g_pending_accepts s1)[i := p\<lparr>p_used := False\<rparr>],
                            g_next_synthetic_fd := g_next_synthetic_fd s1 + 1\<rparr>
                  in Some (k, upd_conn k (\<lambda>c. c\<lparr>c_fd := g_next_synthetic_fd s1, c_established := True,
                        c_peer_ip := p_peer_ip p, c_peer_port := p_peer_port p,
                        c_our_seq := p_our_isn p + 1, c_their_seq := p_their_isn p + 1\<rparr>) s2))"

definition cmd_Accept :: "benv \<Rightarrow> nat \<Rightarrow> int \<Rightarrow> nat \<Rightarrow> bridge \<Rightarrow> reply \<times> bridge" where
  "cmd_Accept env me fd addrsize s =
     (if IsOwnTcpListenFd me fd s then
        let s1 = DrainRelay env s
        in case accept_scan (length (g_pending_accepts s1)) 0 me s1 of
             None \<Rightarrow> (reply_local (- 1) EWOULDBLOCK, s1)
           | Some (k, s2) \<Rightarrow>
               let cn = conn_at k s2;
                   a = take addrsize (sockaddr_bytes (c_peer_ip cn) (c_peer_port cn))
               in (\<lparr>r_rc = 0, r_ret = c_fd cn, r_err = ErrNone, r_len = length a, r_data = [],
                    r_addr = a\<rparr>, upd_service me (TrackFd (c_fd cn) SOCK_STREAM) s2)
      else let (out, s1) = forward env (cmd_call 12 [fd, int addrsize] []) s in (reply_real out, s1))"

section \<open>Connect\<close>

definition ConnectMaxAttempts :: nat where "ConnectMaxAttempts = 6"
definition ConnectPollsPerAttempt :: nat where "ConnectPollsPerAttempt = 25"

text \<open>What happens during one sleep of 20 ms: time passes and the pump thread handles the datagrams that
  arrived; \<open>world\<close> gives both, per sleep.\<close>

type_synonym sleep_world = "nat \<Rightarrow> u64 \<times> u8 list list"

definition sleep_step :: "u8 list list \<Rightarrow> bridge \<Rightarrow> bridge" where
  "sleep_step dgrams s =
     (case relay_feed dgrams (g_relay s) of None \<Rightarrow> s | Some r \<Rightarrow> s\<lparr>g_relay := r\<rparr>)"

definition conn_established :: "nat \<Rightarrow> int \<Rightarrow> bridge \<Rightarrow> bool" where
  "conn_established me fd s =
     (case FindVTcpConnByFd me fd s of None \<Rightarrow> False | Some k \<Rightarrow> c_established (conn_at k s))"

text \<open>The waiting loop of one attempt: sleep, drain, look; with the number of sleeps so far.\<close>

fun connect_wait :: "nat \<Rightarrow> benv \<Rightarrow> sleep_world \<Rightarrow> nat \<Rightarrow> int \<Rightarrow> nat \<Rightarrow> bridge \<Rightarrow> bool \<times> nat \<times> bridge" where
  "connect_wait 0 env world me fd i s = (False, i, s)"
| "connect_wait (Suc left) env world me fd i s =
     (let (now, dgrams) = world i;
          s1 = DrainRelay (env\<lparr>e_now := now\<rparr>) (sleep_step dgrams s)
      in if conn_established me fd s1 then (True, i + 1, s1)
         else connect_wait left env world me fd (i + 1) s1)"

fun connect_attempts :: "nat \<Rightarrow> benv \<Rightarrow> sleep_world \<Rightarrow> nat \<Rightarrow> int \<Rightarrow> tcp_hdr \<Rightarrow> nat \<Rightarrow> bridge \<Rightarrow> bool \<times> nat \<times> bridge" where
  "connect_attempts 0 env world me fd syn i s = (False, i, s)"
| "connect_attempts (Suc left) env world me fd syn i s =
     (let s1 = send_seg (e_io env) syn [] s;
          (est, i', s2) = connect_wait ConnectPollsPerAttempt env world me fd i s1
      in if est then (True, i', s2) else connect_attempts left env world me fd syn i' s2)"

definition connect_vtcp :: "benv \<Rightarrow> sleep_world \<Rightarrow> nat \<Rightarrow> int \<Rightarrow> u32 \<Rightarrow> u16 \<Rightarrow> bridge \<Rightarrow> reply \<times> bridge" where
  "connect_vtcp env world me fd dst_ip dst_port s =
     (let (up, s1) = EnsureRelayConnected env s
      in if \<not> up then (reply_local (- 1) EIO, s1)
         else
           let (our_isn, s2) = draw_random (e_io env) s1
           in case AllocVTcpConn me s2 of
                None \<Rightarrow> (reply_local (- 1) ENOBUFS, s2)
              | Some (k, s3) \<Rightarrow>
                  let s4 = upd_conn k (\<lambda>c. c\<lparr>c_fd := fd, c_peer_ip := dst_ip, c_peer_port := dst_port,
                             c_our_isn := our_isn, c_syn_sent_awaiting_synack := True\<rparr>) s3;
                      syn = seg (m_bridged_local_ip (g_services s4 me)) dst_ip dst_port our_isn 0 TCP_SYN;
                      (est, i, s5) = connect_attempts ConnectMaxAttempts env world me fd syn 0 s4
                  in if \<not> est then
                       (reply_local (- 1) ETIMEDOUT,
                        case FindVTcpConnByFd me fd s5 of
                          None \<Rightarrow> s5
                        | Some k' \<Rightarrow> upd_conn k' (\<lambda>c. vtcp_conn_init) s5)
                     else (reply_local 0 ErrNone, s5))"

definition cmd_Connect :: "benv \<Rightarrow> sleep_world \<Rightarrow> nat \<Rightarrow> int \<Rightarrow> u8 list \<Rightarrow> bridge \<Rightarrow> reply \<times> bridge" where
  "cmd_Connect env world me fd addr s =
     (if GetTrackedType fd (g_services s me) = SOCK_STREAM \<and> sockaddr_port addr = LdnControlPort then
        connect_vtcp env world me fd (sockaddr_ip addr) (sockaddr_port addr) s
      else let (out, s1) = forward env (cmd_call 14 [fd] [addr]) s in (reply_real out, s1))"

end
