(* ===== verification/Forward.thy ===== *)
theory Forward
  imports Commands
begin

text \<open>
  The commands of \<open>BsdBridgeService\<close> that are passed on to the real \<open>bsd:u\<close> service as they are: the
  command number, the in-struct (\<open>bc_args\<close>, followed by the sizes of the out-buffers) and the
  in-buffers of each. \<open>RegisterClient\<close> is forwarded in the name of the original process
  (\<open>override_pid\<close>), \<open>SocketExempt\<close> also records the type of the new fd.
\<close>

type_synonym forwarded = "bridge \<Rightarrow> bsd_reply \<times> bridge"

definition pass :: "benv \<Rightarrow> nat \<Rightarrow> int list \<Rightarrow> u8 list list \<Rightarrow> forwarded" where
  "pass env cmd args bufs = forward env (cmd_call cmd args bufs)"

section \<open>Registration\<close>

definition cmd_RegisterClient :: "benv \<Rightarrow> nat \<Rightarrow> u8 list \<Rightarrow> u64 \<Rightarrow> int \<Rightarrow> forwarded" where
  "cmd_RegisterClient env me config tmem_size transfer_memory s =
     pass env 0 [0, uint tmem_size, transfer_memory, uint (m_client_pid (g_services s me))] [config] s"

definition cmd_RegisterClientShared :: "benv \<Rightarrow> nat \<Rightarrow> u8 list \<Rightarrow> u64 \<Rightarrow> forwarded" where
  "cmd_RegisterClientShared env me config tmem_size s =
     pass env 33 [0, uint tmem_size, uint (m_client_pid (g_services s me))] [config] s"

definition cmd_RegisterResourceStatisticsName :: "benv \<Rightarrow> u64 \<Rightarrow> u8 list \<Rightarrow> forwarded" where
  "cmd_RegisterResourceStatisticsName env pid name = pass env 32 [uint pid] [name]"

definition cmd_GetResourceStatistics :: "benv \<Rightarrow> u64 \<Rightarrow> nat \<Rightarrow> forwarded" where
  "cmd_GetResourceStatistics env pid n = pass env 28 [uint pid, int n] []"

section \<open>Creating fds\<close>

definition cmd_SocketExempt :: "benv \<Rightarrow> nat \<Rightarrow> int \<Rightarrow> int \<Rightarrow> int \<Rightarrow> forwarded" where
  "cmd_SocketExempt env me domain ty protocol s =
     (let (out, s1) = pass env 3 [domain, ty, protocol] [] s
      in (out, upd_service me (TrackFd (br_ret out) ty) s1))"

definition cmd_Open :: "benv \<Rightarrow> int \<Rightarrow> u8 list \<Rightarrow> forwarded" where
  "cmd_Open env flags path = pass env 4 [flags] [path]"

definition cmd_DuplicateSocket :: "benv \<Rightarrow> int \<Rightarrow> u64 \<Rightarrow> forwarded" where
  "cmd_DuplicateSocket env fd target_pid = pass env 27 [fd, uint target_pid] []"

definition cmd_EventFd :: "benv \<Rightarrow> u64 \<Rightarrow> int \<Rightarrow> forwarded" where
  "cmd_EventFd env initval flags = pass env 31 [uint initval, flags] []"

section \<open>Transfer\<close>

definition cmd_Recv :: "benv \<Rightarrow> int \<Rightarrow> int \<Rightarrow> nat \<Rightarrow> forwarded" where
  "cmd_Recv env fd flags n = pass env 8 [fd, flags, int n] []"

definition cmd_Send :: "benv \<Rightarrow> int \<Rightarrow> int \<Rightarrow> u8 list \<Rightarrow> forwarded" where
  "cmd_Send env fd flags buffer = pass env 10 [fd, flags] [buffer]"

definition cmd_Write :: "benv \<Rightarrow> int \<Rightarrow> u8 list \<Rightarrow> forwarded" where
  "cmd_Write env fd buffer = pass env 24 [fd] [buffer]"

definition cmd_Read :: "benv \<Rightarrow> int \<Rightarrow> nat \<Rightarrow> forwarded" where
  "cmd_Read env fd n = pass env 25 [fd, int n] []"

definition cmd_RecvMMsg :: "benv \<Rightarrow> int \<Rightarrow> int \<Rightarrow> int \<Rightarrow> int \<Rightarrow> nat \<Rightarrow> forwarded" where
  "cmd_RecvMMsg env fd vlen flags timeout n = pass env 29 [fd, vlen, flags, timeout, int n] []"

definition cmd_SendMMsg :: "benv \<Rightarrow> int \<Rightarrow> int \<Rightarrow> int \<Rightarrow> u8 list \<Rightarrow> forwarded" where
  "cmd_SendMMsg env fd vlen flags data = pass env 30 [fd, vlen, flags] [data]"

section \<open>Names, options, control\<close>

definition cmd_GetPeerName :: "benv \<Rightarrow> int \<Rightarrow> nat \<Rightarrow> forwarded" where
  "cmd_GetPeerName env fd addrsize = pass env 15 [fd, int addrsize] []"

definition cmd_GetSockName :: "benv \<Rightarrow> int \<Rightarrow> nat \<Rightarrow> forwarded" where
  "cmd_GetSockName env fd addrsize = pass env 16 [fd, int addrsize] []"

definition cmd_GetSockOpt :: "benv \<Rightarrow> int \<Rightarrow> int \<Rightarrow> int \<Rightarrow> nat \<Rightarrow> forwarded" where
  "cmd_GetSockOpt env fd level optname n = pass env 17 [fd, level, optname, int n] []"

definition cmd_SetSockOpt :: "benv \<Rightarrow> int \<Rightarrow> int \<Rightarrow> int \<Rightarrow> u8 list \<Rightarrow> forwarded" where
  "cmd_SetSockOpt env fd level optname optval = pass env 21 [fd, level, optname] [optval]"

definition cmd_Ioctl :: "benv \<Rightarrow> int \<Rightarrow> u32 \<Rightarrow> u32 \<Rightarrow> u8 list list \<Rightarrow> nat list \<Rightarrow> forwarded" where
  "cmd_Ioctl env fd request bufcount ins outsizes =
     pass env 19 ([fd, uint request, uint bufcount] @ map int outsizes) ins"

definition cmd_Fcntl :: "benv \<Rightarrow> int \<Rightarrow> int \<Rightarrow> int \<Rightarrow> forwarded" where
  "cmd_Fcntl env fd cmd arg = pass env 20 [fd, cmd, arg] []"

definition cmd_Shutdown :: "benv \<Rightarrow> int \<Rightarrow> int \<Rightarrow> forwarded" where
  "cmd_Shutdown env fd how = pass env 22 [fd, how] []"

definition cmd_ShutdownAllSockets :: "benv \<Rightarrow> int \<Rightarrow> forwarded" where
  "cmd_ShutdownAllSockets env how = pass env 23 [how] []"

definition cmd_Sysctl :: "benv \<Rightarrow> u8 list \<Rightarrow> u8 list \<Rightarrow> nat \<Rightarrow> forwarded" where
  "cmd_Sysctl env name new_val oldsize = pass env 7 [int oldsize] [name, new_val]"

lemmas passed_defs =
  cmd_RegisterClient_def cmd_RegisterClientShared_def cmd_RegisterResourceStatisticsName_def
  cmd_GetResourceStatistics_def cmd_SocketExempt_def cmd_Open_def cmd_DuplicateSocket_def cmd_EventFd_def
  cmd_Recv_def cmd_Send_def cmd_Write_def cmd_Read_def cmd_RecvMMsg_def cmd_SendMMsg_def cmd_GetPeerName_def
  cmd_GetSockName_def cmd_GetSockOpt_def cmd_SetSockOpt_def cmd_Ioctl_def cmd_Fcntl_def cmd_Shutdown_def
  cmd_ShutdownAllSockets_def cmd_Sysctl_def pass_def

end
