(* ===== verification/PollSelect.thy ===== *)
theory PollSelect
  imports Commands
begin

text \<open>
  Readiness commands of \<open>BsdBridgeService\<close>: \<open>Poll\<close> and \<open>Select\<close>. Synthetic fds (accepted virtual
  connections) are cut out of the request that goes to the real service, and readiness of relay
  data is injected into its answer. A \<open>pollfd\<close> array and an \<open>fd_set\<close> are the lists of their entries and
  32-bit words.
\<close>

section \<open>Poll\<close>

definition POLLIN :: u16 where "POLLIN = 0x01"
definition POLLPRI :: u16 where "POLLPRI = 0x02"
definition POLLOUT :: u16 where "POLLOUT = 0x04"
definition POLLERR :: u16 where "POLLERR = 0x08"
definition POLLHUP :: u16 where "POLLHUP = 0x10"
definition POLLNVAL :: u16 where "POLLNVAL = 0x20"

lemmas poll_flags = POLLIN_def POLLPRI_def POLLOUT_def POLLERR_def POLLHUP_def POLLNVAL_def

definition MaxPollFds :: nat where "MaxPollFds = 32"

record pollfd =
  pf_fd :: int
  pf_events :: u16
  pf_revents :: u16

record poll_reply =
  pr_rc :: u32
  pr_count :: int
  pr_err :: berr
  pr_fds :: "pollfd list"

definition is_synthetic_fd :: "nat \<Rightarrow> int \<Rightarrow> bridge \<Rightarrow> bool" where
  "is_synthetic_fd me fd s =
     (case FindVTcpConnByFd me fd s of None \<Rightarrow> False | Some k \<Rightarrow> c_fd (conn_at k s) \<ge> 1000)"

text \<open>The real service's answer to a forwarded poll: its return value, errno and the \<open>revents\<close> of the
  entries, which the zero-initialised \<open>forward_out\<close> completes.\<close>

type_synonym real_poll = "(int \<times> u16) list \<Rightarrow> int \<Rightarrow> u32 \<times> int \<times> int \<times> u16 list"

definition poll_revents :: "u16 list \<Rightarrow> nat \<Rightarrow> u16" where
  "poll_revents rs j = (if j < length rs then rs ! j else 0)"

text \<open>The loop that copies the real answers back; \<open>fwd\<close> is \<open>forward_index\<close> from \<open>j\<close> on.\<close>

fun poll_copy :: "service \<Rightarrow> u16 list \<Rightarrow> nat list \<Rightarrow> nat \<Rightarrow> int \<Rightarrow> pollfd list \<Rightarrow> int \<times> pollfd list" where
  "poll_copy v rs [] j count out = (count, out)"
| "poll_copy v rs (i # fwd) j count out =
     (let r0 = poll_revents rs j;
          r = (if pf_fd (out ! i) = m_bridged_fd v \<and> m_bridged_local_port v = LdnControlPort
               then r0 AND NOT (POLLERR OR POLLHUP OR POLLNVAL) else r0)
      in poll_copy v rs fwd (j + 1) (if r \<noteq> 0 then count + 1 else count)
           (out[i := (out ! i)\<lparr>pf_revents := r\<rparr>]))"

fun poll_inject :: "nat \<Rightarrow> bridge \<Rightarrow> nat list \<Rightarrow> int \<Rightarrow> pollfd list \<Rightarrow> int \<times> pollfd list" where
  "poll_inject me s [] count out = (count, out)"
| "poll_inject me s (i # is) count out =
     (if pf_revents (out ! i) AND (POLLIN OR POLLPRI OR POLLERR OR POLLHUP OR POLLNVAL) \<noteq> 0
        \<or> \<not> VFdHasPendingRead me (pf_fd (out ! i)) s
      then poll_inject me s is count out
      else poll_inject me s is (count + 1)
             (out[i := (out ! i)\<lparr>pf_revents := pf_revents (out ! i) OR POLLIN\<rparr>]))"

text \<open>\<open>pfds\<close> is the array in \<open>fds_in\<close>, \<open>cap\<close> the number of entries \<open>fds_out\<close> has room for. In the
  unexpected shapes everything is passed on as it is.\<close>

definition cmd_Poll ::
  "benv \<Rightarrow> real_poll \<Rightarrow> nat \<Rightarrow> pollfd list \<Rightarrow> nat \<Rightarrow> int \<Rightarrow> int \<Rightarrow> bridge \<Rightarrow> poll_reply \<times> bridge" where
  "cmd_Poll env real me pfds cap nfds timeout s0 =
     (let s = DrainRelay env s0;
          v = g_services s me
      in if nfds < 0 \<or> nfds > int MaxPollFds \<or> int (length pfds) < nfds \<or> int cap < nfds then
           (let (rc, ret, err, rs) = real (map (\<lambda>p. (pf_fd p, pf_events p)) pfds) timeout
            in (\<lparr>pr_rc = rc, pr_count = ret, pr_err = ErrReal err,
                 pr_fds = map (\<lambda>i. (pfds ! i)\<lparr>pf_revents := poll_revents rs i\<rparr>) [0..<length pfds]\<rparr>, s))
         else
           let n = nat nfds;
               out0 = map (\<lambda>p. p\<lparr>pf_revents := 0\<rparr>) (take n pfds);
               fwd = filter (\<lambda>i. \<not> is_synthetic_fd me (pf_fd (pfds ! i)) s) [0..<n];
               any_pending = (\<exists>i \<in> set [0..<n]. VFdHasPendingRead me (pf_fd (pfds ! i)) s);
               (err, count, out1) =
                 (if fwd \<noteq> [] then
                    let (rc, ret, err, rs) = real (map (\<lambda>i. (pf_fd (pfds ! i), pf_events (pfds ! i))) fwd)
                                               (if any_pending then 0 else timeout)
                    in if ret > 0 then (let (c, o1) = poll_copy v rs fwd 0 0 out0 in (ErrReal err, c, o1))
                       else (ErrReal err, 0, out0)
                  else (ErrNone, 0, out0));
               (count2, out2) = poll_inject me s [0..<n] count out1
           in (\<lparr>pr_rc = 0, pr_count = count2, pr_err = err, pr_fds = out2\<rparr>, s))"

section \<open>Select\<close>

definition MaxSelectFds :: int where "MaxSelectFds = 1024"

definition fdset_has :: "u32 list \<Rightarrow> int \<Rightarrow> bool" where
  "fdset_has ws fd \<longleftrightarrow> bit (ws ! (nat fd div 32)) (nat fd mod 32)"

fun select_clear :: "nat \<Rightarrow> bridge \<Rightarrow> u32 list \<Rightarrow> nat list \<Rightarrow> u32 list \<Rightarrow> u32 list" where
  "select_clear me s orig [] ws = ws"
| "select_clear me s orig (fd # fds) ws =
     (if fdset_has orig (int fd) \<and> is_synthetic_fd me (int fd) s
      then select_clear me s orig fds (ws[fd div 32 := (ws ! (fd div 32)) AND NOT (push_bit (fd mod 32) 1)])
      else select_clear me s orig fds ws)"

definition select_inject :: "nat \<Rightarrow> bridge \<Rightarrow> int \<Rightarrow> int \<times> u32 list \<Rightarrow> int \<times> u32 list" where
  "select_inject me s fd acc =
     (case acc of (count, out) \<Rightarrow>
        if fd < 0 \<or> \<not> VFdHasPendingRead me fd s then (count, out)
        else if length out < nat fd div 32 + 1 then (count, out)
        else if fdset_has out fd then (count, out)
        else (if count \<ge> 0 then count + 1 else count,
              out[nat fd div 32 := (out ! (nat fd div 32)) OR push_bit (nat fd mod 32) 1]))"

text \<open>The real service's \<open>select\<close> on read set, write set, error set and timeout (\<open>None\<close>: no timeout);
  it answers with return value, errno and the three sets.\<close>

type_synonym select_timeout = "(int \<times> int) option"
type_synonym real_select =
  "int \<Rightarrow> u32 list \<Rightarrow> u32 list \<Rightarrow> u32 list \<Rightarrow> select_timeout \<Rightarrow>
   u32 \<times> int \<times> int \<times> u32 list \<times> u32 list \<times> u32 list"

record select_reply =
  sr_rc :: u32
  sr_count :: int
  sr_err :: berr
  sr_read :: "u32 list"
  sr_write :: "u32 list"
  sr_error :: "u32 list"

definition cmd_Select ::
  "benv \<Rightarrow> real_select \<Rightarrow> nat \<Rightarrow> int \<Rightarrow> u32 list \<Rightarrow> u32 list \<Rightarrow> u32 list \<Rightarrow> nat \<Rightarrow> select_timeout \<Rightarrow>
   bridge \<Rightarrow> select_reply \<times> bridge" where
  "cmd_Select env real me nfds rd_in wr_in er_in out_words timeout s0 =
     (let s = DrainRelay env s0;
          nwords = (if nfds > 0 \<and> nfds \<le> MaxSelectFds then (nat nfds + 31) div 32 else 0)
      in if nwords = 0 \<or> length rd_in < nwords \<or> out_words < nwords then
           (let (rc, ret, err, r, w, e) = real nfds rd_in wr_in er_in timeout
            in (\<lparr>sr_rc = rc, sr_count = ret, sr_err = ErrReal err, sr_read = r, sr_write = w, sr_error = e\<rparr>, s))
         else
           let fwd = select_clear me s rd_in [0..<nat nfds] (take nwords rd_in);
               any_pending = (\<exists>fd \<in> set [0..<nat nfds]. VFdHasPendingRead me (int fd) s);
               (rc, ret, err, r, w, e) = real nfds fwd wr_in er_in (if any_pending then Some (0, 0) else timeout);
               fds = m_bridged_fd (g_services s me) #
                 (if g_active_ldn_instance s = Some me then
                    g_tcp_listen_fd s # map c_fd (filter c_used (g_vtcp_conns s))
                  else []);
               (count, out) = fold (select_inject me s) fds (ret, r)
           in (\<lparr>sr_rc = rc, sr_count = count, sr_err = ErrReal err, sr_read = out, sr_write = w,
                sr_error = e\<rparr>, s))"

end
