(* ===== verification/FdTypes.thy ===== *)
theory FdTypes
  imports Bridge
begin

text \<open>
  The table of fd types of a service instance (\<open>TrackFd\<close>, \<open>UntrackFd\<close>, \<open>GetTrackedType\<close>) refines a
  finite map from open fds to their socket type: the contract \<open>type_table\<close>, on which \<open>Bind\<close> and
  \<open>Connect\<close> rely to tell UDP from TCP, and its interpretation on the two arrays.
\<close>

section \<open>The contract\<close>

datatype fd_op = OpenFd int int | CloseFd int

text \<open>The map a sequence of calls stands for, and the sequences the kernel produces: a new fd is not
  negative and not open yet, and at most \<open>cap\<close> are open at a time.\<close>

fun map_op :: "fd_op \<Rightarrow> (int \<rightharpoonup> int) \<Rightarrow> (int \<rightharpoonup> int)" where
  "map_op (OpenFd fd ty) m = m(fd \<mapsto> ty)"
| "map_op (CloseFd fd) m = m(fd := None)"

fun legal_ops :: "nat \<Rightarrow> fd_op list \<Rightarrow> (int \<rightharpoonup> int) \<Rightarrow> bool" where
  "legal_ops cap [] m \<longleftrightarrow> True"
| "legal_ops cap (OpenFd fd ty # ops) m \<longleftrightarrow>
     0 \<le> fd \<and> m fd = None \<and> card (dom m) < cap \<and> legal_ops cap ops (m(fd \<mapsto> ty))"
| "legal_ops cap (CloseFd fd # ops) m \<longleftrightarrow> 0 \<le> fd \<and> legal_ops cap ops (m(fd := None))"

locale type_table =
  fixes track :: "int \<Rightarrow> int \<Rightarrow> 'v \<Rightarrow> 'v"
    and untrack :: "int \<Rightarrow> 'v \<Rightarrow> 'v"
    and type_of :: "int \<Rightarrow> 'v \<Rightarrow> int"
    and inv :: "'v \<Rightarrow> bool"
    and view :: "'v \<Rightarrow> int \<rightharpoonup> int"
    and cap :: nat
  assumes track_law: "inv v \<Longrightarrow> 0 \<le> fd \<Longrightarrow> view v fd = None \<Longrightarrow> card (dom (view v)) < cap \<Longrightarrow>
      inv (track fd ty v) \<and> view (track fd ty v) = (view v)(fd \<mapsto> ty)"
    and untrack_law: "inv v \<Longrightarrow> 0 \<le> fd \<Longrightarrow> inv (untrack fd v) \<and> view (untrack fd v) = (view v)(fd := None)"
    and type_of_law: "inv v \<Longrightarrow> 0 \<le> fd \<Longrightarrow> type_of fd v = (case view v fd of None \<Rightarrow> - 1 | Some t \<Rightarrow> t)"
begin

fun run_op :: "fd_op \<Rightarrow> 'v \<Rightarrow> 'v" where
  "run_op (OpenFd fd ty) v = track fd ty v"
| "run_op (CloseFd fd) v = untrack fd v"

lemma run_refines:
  "inv v \<Longrightarrow> legal_ops cap ops (view v) \<Longrightarrow>
     inv (fold run_op ops v) \<and> view (fold run_op ops v) = fold map_op ops (view v)"
proof (induction ops arbitrary: v)
  case Nil
  then show ?case by simp
next
  case (Cons a ops)
  then show ?case
    by (cases a) (use track_law untrack_law in fastforce)+
qed

lemma run_type:
  assumes "inv v" and "legal_ops cap ops (view v)" and "0 \<le> fd"
  shows "type_of fd (fold run_op ops v) = (case fold map_op ops (view v) fd of None \<Rightarrow> - 1 | Some t \<Rightarrow> t)"
  using run_refines [OF assms(1,2)] type_of_law [OF _ assms(3)] by metis

end

section \<open>The arrays\<close>

definition tracked_inv :: "service \<Rightarrow> bool" where
  "tracked_inv v \<longleftrightarrow> length (m_tracked_fd v) = MaxTrackedFds \<and> length (m_tracked_type v) = MaxTrackedFds
     \<and> distinct (filter (\<lambda>f. f \<noteq> - 1) (m_tracked_fd v)) \<and> (\<forall>f \<in> set (m_tracked_fd v). - 1 \<le> f)"

definition tracked_view :: "service \<Rightarrow> int \<rightharpoonup> int" where
  "tracked_view v fd = (if fd < 0 then None else map_of (zip (m_tracked_fd v) (m_tracked_type v)) fd)"

lemma track_scan_view:
  assumes "length fds = length tys" and "fd \<noteq> - 1" and "\<exists>f \<in> set fds. f = - 1 \<or> f = fd"
    and "track_scan fd ty fds tys = (fds', tys')" and "x \<noteq> - 1"
  shows "map_of (zip fds' tys') x = (if x = fd then Some ty else map_of (zip fds tys) x)"
  using assms
proof (induction fd ty fds tys arbitrary: fds' tys' rule: track_scan.induct)
  case (1 fd ty f fds y tys)
  obtain a b where ab: "track_scan fd ty fds tys = (a, b)" by fastforce
  then show ?case using 1 by (auto split: if_splits)
qed auto

lemma track_scan_shape:
  assumes "track_scan fd ty fds tys = (fds', tys')" and "length fds = length tys" and "fd \<noteq> - 1"
    and "fd \<notin> set fds" and "distinct (filter (\<lambda>f. f \<noteq> - 1) fds)"
  shows "length fds' = length fds \<and> length tys' = length tys
     \<and> distinct (filter (\<lambda>f. f \<noteq> - 1) fds') \<and> set fds' \<subseteq> insert fd (set fds)"
  using assms
proof (induction fd ty fds tys arbitrary: fds' tys' rule: track_scan.induct)
  case (1 fd ty f fds y tys)
  obtain a b where ab: "track_scan fd ty fds tys = (a, b)" by fastforce
  then show ?case using 1 by (fastforce split: if_splits)
qed auto

text \<open>An array that holds fewer than 16 fds has a free entry.\<close>

lemma tracked_dom:
  assumes "tracked_inv v"
  shows "dom (tracked_view v) = set (m_tracked_fd v) - {- 1}"
proof -
  have l: "length (m_tracked_fd v) = length (m_tracked_type v)" using assms by (simp add: tracked_inv_def)
  have *: "f \<in> dom (tracked_view v) \<longleftrightarrow> 0 \<le> f \<and> f \<in> set (m_tracked_fd v)" for f
    unfolding dom_map_of_zip [OF l, symmetric] by (simp add: tracked_view_def domIff)
  have "f \<noteq> - 1 \<longleftrightarrow> 0 \<le> f" if "f \<in> set (m_tracked_fd v)" for f
    using assms that unfolding tracked_inv_def by fastforce
  then show ?thesis unfolding set_eq_iff * by blast
qed

lemma tracked_room:
  assumes inv: "tracked_inv v" and room: "card (dom (tracked_view v)) < MaxTrackedFds"
  shows "- 1 \<in> set (m_tracked_fd v)"
proof (rule ccontr)
  assume no: "- 1 \<notin> set (m_tracked_fd v)"
  then have "filter (\<lambda>f. f \<noteq> - 1) (m_tracked_fd v) = m_tracked_fd v" by (intro filter_True) auto
  then have "distinct (m_tracked_fd v)" using inv by (simp add: tracked_inv_def)
  then have "card (set (m_tracked_fd v)) = MaxTrackedFds" using inv by (simp add: tracked_inv_def distinct_card)
  then show False using room no by (simp add: tracked_dom [OF inv])
qed

lemma untrack_view:
  "length fds = length tys \<Longrightarrow> x \<noteq> - 1 \<Longrightarrow>
     map_of (zip (map (\<lambda>f. if f = fd then - 1 else f) fds) tys) x
   = (if x = fd then None else map_of (zip fds tys) x)" for x :: int
  by (induction fds tys rule: list_induct2) auto

lemma first_idx_map_of:
  "length fds = length tys \<Longrightarrow>
     (case first_idx (\<lambda>f. f = x) fds of Some i \<Rightarrow> tys ! i | None \<Rightarrow> d)
   = (case map_of (zip fds tys) x of None \<Rightarrow> d | Some t \<Rightarrow> t)"
proof (induction fds tys rule: list_induct2)
  case (Cons f fds t tys)
  have "(case map_option Suc m of Some i \<Rightarrow> (t # tys) ! i | None \<Rightarrow> d) = (case m of Some i \<Rightarrow> tys ! i | None \<Rightarrow> d)"
    for m by (cases m) simp_all
  then show ?case using Cons.IH by simp
qed simp

lemma untrack_shape:
  "distinct (filter (\<lambda>f. f \<noteq> - 1) fds) \<Longrightarrow>
     distinct (filter (\<lambda>f. f \<noteq> - 1) (map (\<lambda>f. if f = fd then - 1 else f) fds))" for fds :: "int list"
  by (induction fds) (auto split: if_splits)

interpretation fdt: type_table TrackFd UntrackFd GetTrackedType tracked_inv tracked_view MaxTrackedFds
proof (unfold_locales, goal_cases)
  case (1 v fd ty)
  let ?l = "m_tracked_fd v" and ?t = "m_tracked_type v"
  have len: "length ?l = length ?t" using 1(1) by (simp add: tracked_inv_def)
  have free: "\<exists>f \<in> set ?l. f = - 1 \<or> f = fd" using tracked_room [OF 1(1,4)] by blast
  have new: "fd \<noteq> - 1" using 1(2) by simp
  have "fd \<notin> dom (tracked_view v)" using 1(3) by (simp add: domIff)
  then have fresh: "fd \<notin> set ?l" using new unfolding tracked_dom [OF 1(1)] by simp
  obtain fds tys where s: "track_scan fd ty ?l ?t = (fds, tys)" by fastforce
  then have v: "TrackFd fd ty v = v\<lparr>m_tracked_fd := fds, m_tracked_type := tys\<rparr>"
    using 1(2) by (simp add: TrackFd_def)
  have sh: "length fds = length ?l \<and> length tys = length ?t
     \<and> distinct (filter (\<lambda>f. f \<noteq> - 1) fds) \<and> set fds \<subseteq> insert fd (set ?l)"
    using track_scan_shape [OF s len new fresh] 1(1) by (simp add: tracked_inv_def)
  have "\<forall>f \<in> set fds. - 1 \<le> f" using sh 1(1,2) by (fastforce simp: tracked_inv_def)
  then have "tracked_inv (TrackFd fd ty v)" using sh 1(1) by (simp add: v tracked_inv_def)
  moreover have "tracked_view (TrackFd fd ty v) x = ((tracked_view v)(fd \<mapsto> ty)) x" for x
    using track_scan_view [OF len new free s, of x] 1(2) by (auto simp: v tracked_view_def)
  ultimately show ?case by blast
next
  case (2 v fd)
  have "tracked_inv (UntrackFd fd v)" using 2(1) untrack_shape [of "m_tracked_fd v" fd]
    by (auto simp: tracked_inv_def UntrackFd_def)
  moreover have "tracked_view (UntrackFd fd v) x = ((tracked_view v)(fd := None)) x" for x
    using untrack_view [of "m_tracked_fd v" "m_tracked_type v" x fd] 2
    by (auto simp: tracked_view_def UntrackFd_def tracked_inv_def)
  ultimately show ?case by blast
next
  case (3 v fd)
  then show ?case
    using first_idx_map_of [of "m_tracked_fd v" "m_tracked_type v" "- 1" fd]
    by (simp add: GetTrackedType_def tracked_view_def tracked_inv_def)
qed

lemma tracked_init: "tracked_inv (service_init pid)" "tracked_view (service_init pid) = Map.empty"
proof -
  show "tracked_inv (service_init pid)" by (simp add: tracked_inv_def service_init_def)
  then have "dom (tracked_view (service_init pid)) = {}"
    unfolding tracked_dom [OF \<open>tracked_inv (service_init pid)\<close>]
    by (auto simp: service_init_def)
  then show "tracked_view (service_init pid) = Map.empty" by simp
qed

section \<open>The service as a map\<close>

fun service_op :: "fd_op \<Rightarrow> service \<Rightarrow> service" where
  "service_op (OpenFd fd ty) v = TrackFd fd ty v"
| "service_op (CloseFd fd) v = UntrackFd fd v"

lemma service_op_run: "service_op = fdt.run_op"
proof (intro ext)
  fix a v
  show "service_op a v = fdt.run_op a v" by (cases a) simp_all
qed

text \<open>As long as a process has at most 16 sockets open at a time, the type found for an fd is the one
  it was opened with, and \<open>-1\<close> once it is closed, whatever was opened and closed in between.\<close>

theorem tracked_types_refine_map:
  assumes "legal_ops MaxTrackedFds ops Map.empty" and "0 \<le> fd"
  shows "GetTrackedType fd (fold service_op ops (service_init pid))
       = (case fold map_op ops Map.empty fd of None \<Rightarrow> - 1 | Some t \<Rightarrow> t)"
  using fdt.run_type [OF tracked_init(1) _ assms(2), of ops pid] assms(1)
  by (simp add: tracked_init(2) service_op_run)

theorem tracked_types_refine_map_witness:
  "GetTrackedType 3 (fold service_op [OpenFd 3 2, OpenFd 4 1, CloseFd 3, OpenFd 5 2, OpenFd 3 1] (service_init 7)) = 1"
  using tracked_types_refine_map [of "[OpenFd 3 2, OpenFd 4 1, CloseFd 3, OpenFd 5 2, OpenFd 3 1]" 3 7]
  by (simp add: MaxTrackedFds_def)

end
