(* ===== verification/Drain.thy ===== *)
theory Drain
  imports FdTypes
begin

text \<open>
  What draining the relay queue does (\<open>DrainRawRelayQueue\<close>, \<open>DrainRelay\<close>): the queue is emptied, UDP
  packets are filed per port, TCP segments go to the owner's virtual endpoint. The frame relation
  \<open>vframe\<close> says what handling a segment leaves alone; \<open>bridge_inv\<close> is the invariant of the shared
  state.
\<close>

section \<open>What sending leaves alone\<close>

named_theorems frames \<open>frame relations of the operations\<close>

definition rx_eq :: "relay \<Rightarrow> relay \<Rightarrow> bool" where
  "rx_eq r r' \<longleftrightarrow> r' = r\<lparr>m_sent := m_sent r', m_next_frag_id := m_next_frag_id r'\<rparr>"

lemma rx_eq_iff:
  "rx_eq r r' \<longleftrightarrow> m_fd r' = m_fd r \<and> m_connected r' = m_connected r \<and> m_relay_addr r' = m_relay_addr r
     \<and> m_last_keepalive_tick r' = m_last_keepalive_tick r \<and> m_slots r' = m_slots r
     \<and> m_most_success_frag_id r' = m_most_success_frag_id r \<and> m_queue r' = m_queue r
     \<and> m_pump_started r' = m_pump_started r \<and> m_pump_stop r' = m_pump_stop r"
  unfolding rx_eq_def by (cases r; cases r') auto

lemma rx_eq_refl [simp]: "rx_eq r r" and
  rx_eq_trans: "rx_eq r r' \<Longrightarrow> rx_eq r' r'' \<Longrightarrow> rx_eq r r''"
  by (simp_all add: rx_eq_iff)

lemma rx_eq_wf: "rx_eq r r' \<Longrightarrow> relay_wf r' \<longleftrightarrow> relay_wf r"
  by (simp add: rx_eq_iff relay_wf_def)

lemma SendRaw_rx_eq: "rx_eq r (snd (SendRaw os d r))"
  by (simp add: SendRaw_def Let_def rx_eq_iff)

lemma send_frags_rx_eq: "rx_eq r (snd (send_frags left os packet i part pos r))"
proof (induction left os packet i part pos r rule: send_frags.induct)
  case (1 os packet i part pos r)
  then show ?case by simp
next
  case (2 left os packet i part pos r)
  obtain rc r' where s: "SendRaw os (FrameIpv4Frag # frag_body_at packet i part pos) r = (rc, r')" by fastforce
  then have "rx_eq r r'" using SendRaw_rx_eq [of r os "FrameIpv4Frag # frag_body_at packet i part pos"] by simp
  then show ?case using 2 [OF refl s [symmetric] refl] s rx_eq_trans by (auto simp: Let_def)
qed

lemma SendIpv4_rx_eq: "rx_eq r (snd (SendIpv4 os packet r))"
proof -
  have "rx_eq r (snd (send_frags n os packet i 0 0 (r\<lparr>m_next_frag_id := k\<rparr>)))" for n i k
    using send_frags_rx_eq [where r = "r\<lparr>m_next_frag_id := k\<rparr>"] by (simp add: rx_eq_iff)
  then show ?thesis by (simp add: SendIpv4_def SendFragmented_def Let_def SendRaw_rx_eq)
qed

definition vframe :: "'a vtcp_scheme \<Rightarrow> 'a vtcp_scheme \<Rightarrow> bool" where
  "vframe s s' \<longleftrightarrow> rx_eq (g_relay s) (g_relay s') \<and> g_active_ldn_instance s' = g_active_ldn_instance s
     \<and> g_tcp_listen_fd s' = g_tcp_listen_fd s \<and> g_next_synthetic_fd s' = g_next_synthetic_fd s
     \<and> vtcp.more s' = vtcp.more s"

lemma vframe_refl [simp, frames]: "vframe s s"
  by (simp add: vframe_def)

lemma vframe_trans: "vframe s s' \<Longrightarrow> vframe s' s'' \<Longrightarrow> vframe s s''"
  using rx_eq_trans by (auto simp: vframe_def)

lemma vframe_upd [frames]: "vframe s s' \<Longrightarrow> vframe s (upd_conn k f s')"
  by (simp add: vframe_def)

lemma vframe_if [frames]: "vframe s x \<Longrightarrow> vframe s y \<Longrightarrow> vframe s (if b then x else y)"
  by simp

lemma vframe_pend [frames]: "vframe s s' \<Longrightarrow> vframe s (s'\<lparr>g_pending_accepts := ps\<rparr>)"
  by (simp add: vframe_def)

lemma vframe_draws [frames]: "vframe s s' \<Longrightarrow> vframe s (s'\<lparr>g_random_draws := n\<rparr>)"
  by (simp add: vframe_def)

lemma SendTcpSegment_vframe: "vframe s (snd (SendTcpSegment env h p s))"
proof (cases "BuildTcp h p")
  case (Some b)
  then show ?thesis
    using SendIpv4_rx_eq [of "g_relay s" "e_sendto env" b]
    by (simp add: SendTcpSegment_def vframe_def split_beta)
qed (simp add: SendTcpSegment_def)

lemma vframe_send_seg [frames]: "vframe s s' \<Longrightarrow> vframe s (send_seg env h p s')"
  using SendTcpSegment_vframe vframe_trans unfolding send_seg_def by blast

lemma handle_data_vframe [frames]: "vframe s s' \<Longrightarrow> vframe s (handle_data env ip src port seqno p k s')"
  unfolding handle_data_def Let_def by (intro frames)

lemma HandleTcpSegment_vframe: "vframe s (HandleTcpSegment env me ip src port seqno ack flags p s)"
proof -
  have 1: "vframe s (handle_syn env ip src port seqno c s)" for c
    by (auto simp: handle_syn_def draw_random_def Let_def split: option.splits intro!: frames)
  have 2: "vframe s (handle_syn_ack env ip src port seqno ack c s)" for c
    by (auto simp: handle_syn_ack_def Let_def split: option.splits intro!: frames)
  have 3: "vframe s (handle_fin env ip src port seqno c s)" for c
    by (auto simp: handle_fin_def Let_def split: option.splits intro!: frames)
  have 4: "vframe s (handle_ack env ip src port seqno ack p c s)" for c
    by (auto simp: handle_ack_def Let_def split: option.splits intro!: frames)
  have 5: "vframe s (case c of None \<Rightarrow> s | Some k \<Rightarrow> upd_conn k f s)" for c f
    by (auto split: option.splits intro!: frames)
  show ?thesis unfolding HandleTcpSegment_def Let_def by (intro vframe_if vframe_refl 1 2 3 4 5)
qed

lemma CheckDataRetransmits_vframe: "vframe s (CheckDataRetransmits env ip now s)"
proof -
  have "vframe s (retransmit_conn env ip now k s)" for k and s :: "'a vtcp_scheme"
    by (auto simp: retransmit_conn_def Let_def intro!: frames)
  then have "vframe s (fold (retransmit_conn env ip now) ks s)" for ks and s :: "'a vtcp_scheme"
    by (induction ks arbitrary: s) (auto intro: vframe_trans)
  then show ?thesis by (simp add: CheckDataRetransmits_def)
qed

lemma bridge_more:
  fixes s s' :: bridge
  assumes "vtcp.more s' = vtcp.more s"
  shows "g_relay_connect_attempted s' = g_relay_connect_attempted s"
    "g_relay_enabled s' = g_relay_enabled s" "g_last_bridged_local_ip s' = g_last_bridged_local_ip s"
    "g_bridged_socket_count s' = g_bridged_socket_count s"
    "g_last_bridge_activity_ms s' = g_last_bridge_activity_ms s" "g_control_queue s' = g_control_queue s"
    "g_socket_stack_ready s' = g_socket_stack_ready s" "g_dummy_skip s' = g_dummy_skip s"
    "g_services s' = g_services s" "g_bsd_log s' = g_bsd_log s"
  using assms by (cases s; cases s'; simp)+

section \<open>Filing many packets\<close>

lemma take_take_append: "take n (take n xs @ ys) = take n (xs @ ys)"
  by (cases "n \<le> length xs") simp_all

context port_queue begin

lemma fold_push:
  "inv q \<Longrightarrow> length (contents q) \<le> cap \<Longrightarrow>
     inv (fold push xs q) \<and> contents (fold push xs q) = take cap (contents q @ map stored xs)"
proof (induction xs arbitrary: q)
  case Nil
  then show ?case by simp
next
  case (Cons x xs)
  have c: "contents (push x q) = take cap (contents q @ [stored x])" "length (contents (push x q)) \<le> cap"
    using push_contents [OF Cons.prems(1), of x] Cons.prems(2) by auto
  show ?case
    using Cons.IH [OF push_inv [OF Cons.prems(1), of x] c(2)] take_take_append [of cap "contents q @ [stored x]"]
    by (simp add: c(1))
qed

end

section \<open>The loop\<close>

text \<open>The entry a UDP packet becomes in the control queue; \<open>None\<close>: the packet is not filed there.\<close>

definition udp_entry :: "u8 list \<Rightarrow> control_packet option" where
  "udp_entry pkt =
     (if length pkt < 20 \<or> pkt ! 9 \<noteq> 17 then None
      else case ParseIpv4Udp pkt of
             Some (Some ((src_ip, dst_port), payload)) \<Rightarrow> Some \<lparr>cp_dst_port = dst_port, cp_data = pkt\<rparr>
           | _ \<Rightarrow> None)"

definition udp_entries :: "u8 list list \<Rightarrow> control_packet list" where
  "udp_entries pkts = List.map_filter udp_entry pkts"

lemma udp_entries_simps [simp]:
  "udp_entries [] = []"
  "udp_entries (p # ps) = (case udp_entry p of None \<Rightarrow> udp_entries ps | Some e \<Rightarrow> e # udp_entries ps)"
  by (simp_all add: udp_entries_def List.map_filter_simps split: option.split)

text \<open>Taking one packet touches the control queue by filing it, and else the state of the virtual
  endpoint only.\<close>

definition drain_frame :: "bridge \<Rightarrow> bridge \<Rightarrow> bool" where
  "drain_frame s s' \<longleftrightarrow>
     vframe s (s'\<lparr>g_control_queue := g_control_queue s,
                  g_relay := (g_relay s')\<lparr>m_queue := m_queue (g_relay s)\<rparr>\<rparr>)"

lemma drain_frame_refl [simp]: "drain_frame s s"
  by (simp add: drain_frame_def)

lemma drain_frame_vframe: "vframe s s' \<Longrightarrow> drain_frame s s'"
proof -
  assume v: "vframe s s'"
  then have "g_control_queue s = g_control_queue s'" "m_queue (g_relay s) = m_queue (g_relay s')"
    using bridge_more(6) [of s' s] by (simp_all add: vframe_def rx_eq_iff)
  then show ?thesis using v by (simp add: drain_frame_def)
qed

lemma drain_frame_iff:
  "drain_frame s s' \<longleftrightarrow> rx_eq (g_relay s) ((g_relay s')\<lparr>m_queue := m_queue (g_relay s)\<rparr>)
     \<and> g_active_ldn_instance s' = g_active_ldn_instance s
     \<and> g_tcp_listen_fd s' = g_tcp_listen_fd s \<and> g_next_synthetic_fd s' = g_next_synthetic_fd s
     \<and> g_relay_connect_attempted s' = g_relay_connect_attempted s
     \<and> g_relay_enabled s' = g_relay_enabled s \<and> g_last_bridged_local_ip s' = g_last_bridged_local_ip s
     \<and> g_bridged_socket_count s' = g_bridged_socket_count s
     \<and> g_last_bridge_activity_ms s' = g_last_bridge_activity_ms s
     \<and> g_socket_stack_ready s' = g_socket_stack_ready s \<and> g_watchdog_started s' = g_watchdog_started s
     \<and> g_drain_thread_started s' = g_drain_thread_started s \<and> g_dummy_skip s' = g_dummy_skip s
     \<and> g_services s' = g_services s \<and> g_bsd_log s' = g_bsd_log s"
  by (cases s; cases s') (auto simp: drain_frame_def vframe_def)

lemma drain_frame_trans: "drain_frame s s' \<Longrightarrow> drain_frame s' s'' \<Longrightarrow> drain_frame s s''"
  by (simp add: drain_frame_iff rx_eq_iff)

lemma drain_packet_spec:
  "drain_frame s (drain_packet env pkt s)
   \<and> m_queue (g_relay (drain_packet env pkt s)) = m_queue (g_relay s)
   \<and> g_control_queue (drain_packet env pkt s) = fold control_push (udp_entries [pkt]) (g_control_queue s)
   \<and> (vtcp_inv s \<longrightarrow> vtcp_inv (drain_packet env pkt s))"
proof (cases "20 \<le> length pkt \<and> pkt ! 9 = 17")
  case True
  have "drain_frame s (s\<lparr>g_control_queue := q\<rparr>)" for q by (simp add: drain_frame_def)
  moreover have "vtcp_inv (s\<lparr>g_control_queue := q\<rparr>) = vtcp_inv s" for q by (simp add: vtcp_inv_def)
  ultimately show ?thesis using True
    by (auto simp: drain_packet_def udp_entry_def split: option.splits)
next
  case False
  then have u: "udp_entry pkt = None" by (auto simp: udp_entry_def)
  define s' where "s' = drain_packet env pkt s"
  have "s' = s \<or> (\<exists>ioenv me ip src port seqno ack flags p.
      s' = HandleTcpSegment ioenv me ip src port seqno ack flags p s)"
    using False unfolding s'_def drain_packet_def
    by (cases "g_active_ldn_instance s"; cases "ParseIpv4Tcp pkt") (simp_all split: option.split, blast+)
  then have v: "vframe s s'" and inv: "vtcp_inv s \<longrightarrow> vtcp_inv s'"
    using HandleTcpSegment_vframe HandleTcpSegment_inv vframe_refl by metis+
  then have "m_queue (g_relay s') = m_queue (g_relay s)" "g_control_queue s' = g_control_queue s"
    using bridge_more(6) [of s' s] by (simp_all add: vframe_def rx_eq_iff)
  then show ?thesis using drain_frame_vframe [OF v] inv u by (simp add: s'_def)
qed

lemma drain_loop_spec:
  "ring_inv (m_queue (g_relay s)) \<Longrightarrow> n = rq_count (m_queue (g_relay s)) \<Longrightarrow>
   \<forall>p \<in> set (ring_contents (m_queue (g_relay s))). length p \<le> DrainPktSize \<Longrightarrow> s' = drain_loop env n s \<Longrightarrow>
     drain_frame s s' \<and> ring_inv (m_queue (g_relay s')) \<and> ring_contents (m_queue (g_relay s')) = []
     \<and> g_control_queue s'
         = fold control_push (udp_entries (ring_contents (m_queue (g_relay s)))) (g_control_queue s)
     \<and> (vtcp_inv s \<longrightarrow> vtcp_inv s')"
proof (induction n arbitrary: s)
  case 0
  then have "ring_contents (m_queue (g_relay s)) = []" using ring_nil_iff by simp
  then show ?case using 0 by simp
next
  case (Suc n)
  let ?q = "m_queue (g_relay s)"
  obtain x xs where c: "ring_contents ?q = x # xs"
    using Suc.prems(2) length_ring_contents [of ?q] by (cases "ring_contents ?q") auto
  obtain q r where p: "PopIpv4 DrainPktSize ?q = (q, r)" by fastforce
  have q: "ring_inv q" "ring_contents q = xs" "r = Popped x"
    using ring_inv_pop [OF Suc.prems(1), of DrainPktSize] ring_contents_pop [OF Suc.prems(1) c, of DrainPktSize]
      Suc.prems(3) c p by auto
  have len: "n = rq_count q" using length_ring_contents [of ?q] length_ring_contents [of q] c q(2) Suc.prems(2) by simp
  let ?s1 = "s\<lparr>g_relay := (g_relay s)\<lparr>m_queue := q\<rparr>\<rparr>"
  let ?s2 = "drain_packet env x ?s1"
  have step: "s' = drain_loop env n ?s2" using Suc.prems(4) p q(3) by simp
  note spec = drain_packet_spec [of ?s1 env x]
  have f1: "drain_frame s ?s1" by (simp add: drain_frame_iff rx_eq_iff)
  have v1: "vtcp_inv ?s1 = vtcp_inv s" by (simp add: vtcp_inv_def)
  have q2: "m_queue (g_relay ?s2) = q" using spec by simp
  have "drain_frame ?s2 s' \<and> ring_inv (m_queue (g_relay s')) \<and> ring_contents (m_queue (g_relay s')) = []
     \<and> g_control_queue s' = fold control_push (udp_entries xs) (g_control_queue ?s2)
     \<and> (vtcp_inv ?s2 \<longrightarrow> vtcp_inv s')"
    using Suc.IH [of ?s2, unfolded q2 q(2), OF q(1) len _ step] Suc.prems(3) c by simp
  moreover have "g_control_queue ?s2 = fold control_push (udp_entries [x]) (g_control_queue s)"
    using spec by simp
  moreover have "udp_entries (x # xs) = udp_entries [x] @ udp_entries xs" by (simp split: option.split)
  ultimately show ?case
    using drain_frame_trans [OF f1] drain_frame_trans spec v1 unfolding c by (metis fold_append comp_apply)
qed

lemma udp_entries_length: "e \<in> set (udp_entries pkts) \<Longrightarrow> cp_data e \<in> set pkts"
  by (induction pkts) (auto simp: udp_entry_def split: option.splits if_splits)

section \<open>Draining as a whole\<close>

definition drained :: "bridge \<Rightarrow> u8 list list" where
  "drained s = ring_contents (m_queue (g_relay s))"

lemma drain_cap: "PumpPktSize \<le> DrainPktSize" "PumpPktSize \<le> ControlDataSize"
  by (simp_all add: PumpPktSize_def DrainPktSize_def ControlDataSize_def frag_consts cap_defs)

lemma DrainRawRelayQueue_spec:
  assumes wf: "relay_wf (g_relay s)" and s': "s' = DrainRawRelayQueue env s"
  shows "drain_frame s s' \<and> relay_wf (g_relay s') \<and> drained s' = []
     \<and> g_control_queue s' = fold control_push (udp_entries (drained s)) (g_control_queue s)
     \<and> (vtcp_inv s \<longrightarrow> vtcp_inv s')"
proof -
  define s1 where "s1 = (case g_active_ldn_instance s of None \<Rightarrow> s
      | Some owner \<Rightarrow> CheckDataRetransmits (e_io env) (g_last_bridged_local_ip s) (e_now env) s)"
  have v: "vframe s s1" by (simp add: s1_def CheckDataRetransmits_vframe split: option.split)
  have i: "vtcp_inv s \<longrightarrow> vtcp_inv s1" by (simp add: s1_def CheckDataRetransmits_inv split: option.split)
  have q: "m_queue (g_relay s1) = m_queue (g_relay s)" "g_control_queue s1 = g_control_queue s"
    using v bridge_more(6) [of s1 s] by (simp_all add: vframe_def rx_eq_iff)
  have run: "s' = drain_loop env (rq_count (m_queue (g_relay s1))) s1"
    unfolding s' DrainRawRelayQueue_def Let_def s1_def by (rule refl)
  have big: "\<forall>p \<in> set (ring_contents (m_queue (g_relay s1))). length p \<le> DrainPktSize"
    using wf drain_cap(1) unfolding q by (auto simp: relay_wf_def)
  have ring: "ring_inv (m_queue (g_relay s1))" using wf unfolding q by (simp add: relay_wf_def)
  have L: "drain_frame s1 s'" "ring_inv (m_queue (g_relay s'))" "drained s' = []"
     "g_control_queue s' = fold control_push (udp_entries (drained s)) (g_control_queue s)"
     "vtcp_inv s1 \<longrightarrow> vtcp_inv s'"
    using drain_loop_spec [OF ring refl big run] by (simp_all add: q drained_def)
  have f: "drain_frame s s'" using drain_frame_trans [OF drain_frame_vframe [OF v] L(1)] .
  have "slots_wf (m_slots (g_relay s'))" using f wf by (simp add: drain_frame_iff rx_eq_iff relay_wf_def)
  then have "relay_wf (g_relay s')" using L(2,3) by (simp add: relay_wf_def drained_def)
  then show ?thesis using f L i by blast
qed

section \<open>Demultiplexing\<close>

definition entry_ok :: "control_packet \<Rightarrow> bool" where
  "entry_ok e \<longleftrightarrow> length (cp_data e) \<le> PumpPktSize
     \<and> (\<exists>ip payload. ParseIpv4Udp (cp_data e) = Some (Some ((ip, cp_dst_port e), payload)))"

lemma udp_entry_ok: "udp_entry pkt = Some e \<Longrightarrow> length pkt \<le> PumpPktSize \<Longrightarrow> entry_ok e"
  by (auto simp: udp_entry_def entry_ok_def split: option.splits if_splits)

lemma udp_entries_ok: "\<forall>p \<in> set pkts. length p \<le> PumpPktSize \<Longrightarrow> e \<in> set (udp_entries pkts) \<Longrightarrow> entry_ok e"
  by (induction pkts) (auto split: option.splits intro: udp_entry_ok)

lemma stored_id:
  "entry_ok e \<Longrightarrow> e\<lparr>cp_data := take ControlDataSize (cp_data e)\<rparr> = e"
  using drain_cap(2) by (simp add: entry_ok_def)

definition queue_ok :: "control_queue \<Rightarrow> bool" where
  "queue_ok q \<longleftrightarrow> control_inv q \<and> (\<forall>e \<in> set (control_contents q). entry_ok e)"

lemma control_length: "control_inv q \<Longrightarrow> length (control_contents q) \<le> ControlQueueSize"
  by (simp add: control_inv_def control_contents_def)

lemma fold_control_push:
  assumes q: "queue_ok q" and es: "\<forall>e \<in> set es. entry_ok e"
  shows "queue_ok (fold control_push es q)
     \<and> control_contents (fold control_push es q) = take ControlQueueSize (control_contents q @ es)"
proof -
  have "map (\<lambda>e. e\<lparr>cp_data := take ControlDataSize (cp_data e)\<rparr>) es = es"
    using es stored_id by (simp add: map_idI)
  then have "control_inv (fold control_push es q)
     \<and> control_contents (fold control_push es q) = take ControlQueueSize (control_contents q @ es)"
    using cq.fold_push [of q es] q control_length by (simp add: queue_ok_def)
  then show ?thesis using q es by (auto simp: queue_ok_def dest!: in_set_takeD)
qed

definition bridge_inv :: "bridge \<Rightarrow> bool" where
  "bridge_inv s \<longleftrightarrow> vtcp_inv s \<and> relay_wf (g_relay s) \<and> queue_ok (g_control_queue s)"

lemma drained_ok: "relay_wf (g_relay s) \<Longrightarrow> \<forall>p \<in> set (drained s). length p \<le> PumpPktSize"
  by (simp add: relay_wf_def drained_def)

lemma DrainRelay_spec:
  assumes inv: "bridge_inv s" and s': "s' = DrainRelay env s"
  shows "bridge_inv s'" and "drain_frame s s'" and "drained s' = []" and "queue_ok (g_control_queue s')"
    and "control_contents (g_control_queue s')
         = take ControlQueueSize (control_contents (g_control_queue s) @ udp_entries (drained s))"
proof -
  have wf: "relay_wf (g_relay s)" and q: "queue_ok (g_control_queue s)" using inv by (simp_all add: bridge_inv_def)
  have run: "s' = DrainRawRelayQueue env s" by (simp add: s' DrainRelay_def)
  note D = DrainRawRelayQueue_spec [OF wf run]
  have es: "\<forall>e \<in> set (udp_entries (drained s)). entry_ok e" using udp_entries_ok drained_ok [OF wf] by blast
  note F = fold_control_push [OF q es]
  show "bridge_inv s'" "drain_frame s s'" "drained s' = []" "queue_ok (g_control_queue s')"
    "control_contents (g_control_queue s')
         = take ControlQueueSize (control_contents (g_control_queue s) @ udp_entries (drained s))"
    using D F inv by (simp_all add: bridge_inv_def)
qed


lemma bridge_inv_init: "bridge_inv bridge_init"
proof -
  have v: "g_vtcp_conns bridge_init = g_vtcp_conns vtcp_init"
    "g_pending_accepts bridge_init = g_pending_accepts vtcp_init" "g_relay bridge_init = relay_init"
    "g_control_queue bridge_init = control_init"
    by (simp_all add: bridge_init_def vtcp_init_def vtcp.defs)
  have "vtcp_inv bridge_init" using vtcp_inv_init v by (simp add: vtcp_inv_def)
  then show ?thesis using relay_wf_init control_inv_init v by (simp add: bridge_inv_def queue_ok_def)
qed

definition sample_benv :: benv where
  "sample_benv =
     \<lparr>e_io = sample_env, e_bsd = (\<lambda>log c. \<lparr>br_rc = 0, br_ret = 0, br_err = 0, br_extra = 0, br_bufs = []\<rparr>),
      e_now = 50, e_tick = 0, e_inet_pton = (\<lambda>h. Some 0x0A010203), e_resolve = (\<lambda>q. None), e_host = [49],
      e_port = 11451, e_socket = 3, e_thread_ok = True, e_bsd_init_ok = True, e_socket_init_ok = True,
      e_nifm_ip = Some 0x0A0D0001\<rparr>"

text \<open>Instance 1 has bridged fd 7 to the control port and the relay is up.\<close>

definition bridge_up :: bridge where
  "bridge_up = bridge_init\<lparr>g_relay := relay_up, g_active_ldn_instance := Some 1,
     g_last_bridged_local_ip := 0x0A0D0001, g_bridged_socket_count := 1,
     g_services := (g_services bridge_init)(1 := (service_init 1)\<lparr>m_bridged_fd := 7,
       m_bridged_local_ip := 0x0A0D0001, m_bridged_local_port := LdnControlPort\<rparr>)\<rparr>"

lemma bridge_up_simps [simp]:
  "g_relay bridge_up = relay_up" "g_active_ldn_instance bridge_up = Some 1"
  "g_last_bridged_local_ip bridge_up = 0x0A0D0001" "g_bridged_socket_count bridge_up = 1"
  "g_services bridge_up 1 = (service_init 1)\<lparr>m_bridged_fd := 7, m_bridged_local_ip := 0x0A0D0001,
       m_bridged_local_port := LdnControlPort\<rparr>"
  "g_control_queue bridge_up = control_init" "g_relay_enabled bridge_up"
  "g_vtcp_conns bridge_up = replicate MaxVTcpConns vtcp_conn_init"
  "g_pending_accepts bridge_up = replicate MaxPendingAccepts pending_accept_init"
  "g_tcp_listen_fd bridge_up = - 1" "g_next_synthetic_fd bridge_up = 1000"
  by (simp_all add: bridge_up_def bridge_init_def vtcp_init_def vtcp.defs)

lemma bridge_inv_relay:
  "bridge_inv s \<Longrightarrow> relay_wf r \<Longrightarrow> bridge_inv (s\<lparr>g_relay := r\<rparr>)"
  by (simp add: bridge_inv_def vtcp_inv_def)

lemma relay_up_wf: "relay_wf relay_up" "m_connected relay_up"
  using relay_wf_init by (simp_all add: relay_up_def relay_wf_def)

lemma bridge_inv_up: "bridge_inv bridge_up"
  using bridge_inv_init relay_up_wf control_inv_init
  by (simp add: bridge_inv_def vtcp_inv_def queue_ok_def bridge_init_def vtcp_init_def vtcp.defs)

lemma BuildUdp_shape: "BuildUdp h p = Some b \<Longrightarrow> b ! 9 = 17 \<and> length b = 28 + length p"
  by (auto simp: BuildUdp_def Let_def ip_header_filled_def ip_header_def udp_header_def split: if_splits)

definition sample_udp_packet :: "u8 list" where
  "sample_udp_packet = the (BuildUdp sample_udp [9])"

lemma sample_udp_packet_simps:
  "BuildUdp sample_udp [9] = Some sample_udp_packet"
  "ParseIpv4Udp sample_udp_packet = Some (Some ((0x0A0D0001, LdnControlPort), [9]))"
  "length sample_udp_packet = 29" "sample_udp_packet ! 9 = 17"
  "udp_entry sample_udp_packet = Some \<lparr>cp_dst_port = LdnControlPort, cp_data = sample_udp_packet\<rparr>"
proof -
  obtain b where b: "BuildUdp sample_udp [9] = Some b"
    "ParseIpv4Udp b = Some (Some ((uh_src_ip sample_udp, uh_dst_port sample_udp), [9]))"
    using udp.build_fits [of "[9]" sample_udp] by (auto simp: cap_defs)
  have e: "sample_udp_packet = b" using b(1) by (simp add: sample_udp_packet_def)
  show 1: "BuildUdp sample_udp [9] = Some sample_udp_packet" using b(1) by (simp add: e)
  show 2: "ParseIpv4Udp sample_udp_packet = Some (Some ((0x0A0D0001, LdnControlPort), [9]))"
    using b(2) by (simp add: e sample_udp_def)
  show 3: "length sample_udp_packet = 29" "sample_udp_packet ! 9 = 17"
    using BuildUdp_shape [OF 1] by simp_all
  show "udp_entry sample_udp_packet = Some \<lparr>cp_dst_port = LdnControlPort, cp_data = sample_udp_packet\<rparr>"
    using 2 3 by (simp add: udp_entry_def)
qed

definition bridge_rx :: bridge where
  "bridge_rx = bridge_up\<lparr>g_relay := relay_up\<lparr>m_queue := ring_push sample_udp_packet ring_empty\<rparr>\<rparr>"

lemma bridge_rx_simps: "bridge_inv bridge_rx" "drained bridge_rx = [sample_udp_packet]"
  "g_control_queue bridge_rx = control_init"
proof -
  have c: "ring_contents (ring_push sample_udp_packet ring_empty) = [sample_udp_packet]"
    by (simp add: ring_contents_push ring_inv_empty) (simp add: ring_contents_def ring_empty_def QueueSize_def)
  then have "relay_wf (relay_up\<lparr>m_queue := ring_push sample_udp_packet ring_empty\<rparr>)"
    using relay_up_wf ring_inv_push [OF ring_inv_empty, of sample_udp_packet] sample_udp_packet_simps(3)
    by (simp add: relay_wf_def PumpPktSize_def frag_consts)
  then show "bridge_inv bridge_rx" unfolding bridge_rx_def by (rule bridge_inv_relay [OF bridge_inv_up])
  show "drained bridge_rx = [sample_udp_packet]" using c by (simp add: drained_def bridge_rx_def)
  show "g_control_queue bridge_rx = control_init" by (simp add: bridge_rx_def)
qed


end
