(* ===== verification/ConnIds.thy ===== *)
theory ConnIds
  imports Drain
begin

text \<open>
  Who a virtual connection belongs to (\<open>conn_id\<close>: in use, fd, peer) is changed by \<open>Accept\<close>, \<open>Connect\<close>
  and \<open>Close\<close> only: neither a segment nor a retransmission nor draining touches it, so that lookups by
  fd give the same connection before and after.
\<close>

definition conn_id :: "vtcp_conn \<Rightarrow> bool \<times> int \<times> u32 \<times> u16" where
  "conn_id c = (c_used c, c_fd c, c_peer_ip c, c_peer_port c)"

definition conn_ids :: "'a vtcp_scheme \<Rightarrow> (bool \<times> int \<times> u32 \<times> u16) list" where
  "conn_ids s = map conn_id (g_vtcp_conns s)"

named_theorems ids \<open>operations that keep the connection ids\<close>

lemma conn_ids_upd [ids]:
  assumes "conn_ids s' = conn_ids s" and "\<And>c. conn_id (f c) = conn_id c"
  shows "conn_ids (upd_conn k f s') = conn_ids s"
proof (cases "k < length (g_vtcp_conns s')")
  case True
  then have "conn_ids (upd_conn k f s') = conn_ids s'"
    using assms(2) by (auto simp: conn_ids_def map_update conn_at_def intro!: list_update_same_conv [THEN iffD2])
  then show ?thesis using assms(1) by simp
qed (use assms(1) in \<open>simp add: conn_ids_def list_update_beyond\<close>)

lemma conn_ids_frame [ids]:
  "conn_ids s' = conn_ids s \<Longrightarrow> conn_ids (send_seg env h p s') = conn_ids s"
  "conn_ids s' = conn_ids s \<Longrightarrow> conn_ids (s'\<lparr>g_pending_accepts := ps\<rparr>) = conn_ids s"
  "conn_ids s' = conn_ids s \<Longrightarrow> conn_ids (s'\<lparr>g_random_draws := n\<rparr>) = conn_ids s"
  "conn_ids s = conn_ids s"
  "conn_ids x = conn_ids s \<Longrightarrow> conn_ids y = conn_ids s \<Longrightarrow> conn_ids (if b then x else y) = conn_ids s"
  by (simp_all add: conn_ids_def)

lemma conn_id_simps [simp]:
  "conn_id (c\<lparr>c_established := b\<rparr>) = conn_id c" "conn_id (c\<lparr>c_syn_sent_awaiting_synack := b\<rparr>) = conn_id c"
  "conn_id (c\<lparr>c_our_seq := w\<rparr>) = conn_id c" "conn_id (c\<lparr>c_their_seq := w\<rparr>) = conn_id c"
  "conn_id (c\<lparr>c_inbox := xs\<rparr>) = conn_id c" "conn_id (c\<lparr>c_peer_closed := b\<rparr>) = conn_id c"
  "conn_id (c\<lparr>c_has_unacked_data := b\<rparr>) = conn_id c" "conn_id (c\<lparr>c_unacked_data := xs\<rparr>) = conn_id c"
  "conn_id (c\<lparr>c_unacked_seq := w\<rparr>) = conn_id c" "conn_id (c\<lparr>c_last_send_tick_ms := t\<rparr>) = conn_id c"
  "conn_id (c\<lparr>c_retransmit_count := n\<rparr>) = conn_id c"
  by (simp_all add: conn_id_def)

lemma handle_data_ids [ids]:
  "conn_ids s' = conn_ids s \<Longrightarrow> conn_ids (handle_data env ip src port seqno p k s') = conn_ids s"
  unfolding handle_data_def Let_def by (intro ids conn_id_simps) (simp_all add: conn_id_def)

lemma HandleTcpSegment_ids: "conn_ids (HandleTcpSegment env me ip src port seqno ack flags p s) = conn_ids s"
proof -
  have 1: "conn_ids (handle_syn env ip src port seqno c s) = conn_ids s" for c
    by (auto simp: handle_syn_def draw_random_def Let_def split: option.splits intro!: ids)
  have 2: "conn_ids (handle_syn_ack env ip src port seqno ack c s) = conn_ids s" for c
    by (auto simp: handle_syn_ack_def Let_def split: option.splits intro!: ids)
  have 3: "conn_ids (handle_fin env ip src port seqno c s) = conn_ids s" for c
    by (auto simp: handle_fin_def Let_def split: option.splits intro!: ids)
  have 4: "conn_ids (handle_ack env ip src port seqno ack p c s) = conn_ids s" for c
    by (auto simp: handle_ack_def Let_def split: option.splits intro!: ids)
  have 5: "conn_ids (case c of None \<Rightarrow> s | Some k \<Rightarrow> upd_conn k (\<lambda>c. c\<lparr>c_peer_closed := True\<rparr>) s) = conn_ids s"
    for c by (auto split: option.splits intro!: ids)
  show ?thesis unfolding HandleTcpSegment_def Let_def by (intro ids(6) 1 2 3 4 5 refl)
qed

lemma CheckDataRetransmits_ids: "conn_ids (CheckDataRetransmits env ip now s) = conn_ids s"
proof -
  have "conn_ids (retransmit_conn env ip now k s) = conn_ids s" for k and s :: "'a vtcp_scheme"
    by (auto simp: retransmit_conn_def Let_def intro!: ids)
  then have "conn_ids (fold (retransmit_conn env ip now) ks s) = conn_ids s" for ks and s :: "'a vtcp_scheme"
    by (induction ks arbitrary: s) simp_all
  then show ?thesis by (simp add: CheckDataRetransmits_def)
qed

lemma drain_packet_ids: "conn_ids (drain_packet env pkt s) = conn_ids s"
proof -
  have "conn_ids (s\<lparr>g_control_queue := q\<rparr>) = conn_ids s" for q by (simp add: conn_ids_def)
  then show ?thesis by (simp add: drain_packet_def HandleTcpSegment_ids split: option.split prod.split)
qed

lemma drain_loop_ids: "conn_ids (drain_loop env n s) = conn_ids s"
proof (induction n arbitrary: s)
  case 0
  then show ?case by simp
next
  case (Suc n)
  have "conn_ids (s\<lparr>g_relay := r\<rparr>) = conn_ids s" for r by (simp add: conn_ids_def)
  then show ?case by (simp add: Suc drain_packet_ids split: prod.split pop_result.split)
qed

lemma DrainRelay_ids: "conn_ids (DrainRelay env s) = conn_ids s"
  by (simp add: DrainRelay_def DrainRawRelayQueue_def Let_def drain_loop_ids CheckDataRetransmits_ids
      split: option.split)

text \<open>Lookups depend on the ids and the owner only.\<close>

lemma find_fd_ids:
  "FindVTcpConnByFd me fd s = (if g_active_ldn_instance s \<noteq> Some me then None
     else first_idx (\<lambda>(u, f, ip, port). u \<and> f = fd) (conn_ids s))"
  by (simp add: FindVTcpConnByFd_def conn_ids_def first_idx_map [symmetric] conn_id_def)

lemma find_fd_cong:
  "conn_ids s' = conn_ids s \<Longrightarrow> g_active_ldn_instance s' = g_active_ldn_instance s \<Longrightarrow>
     FindVTcpConnByFd me fd s' = FindVTcpConnByFd me fd s"
  by (simp add: find_fd_ids)

lemma find_fd_SomeD:
  "FindVTcpConnByFd me fd s = Some k \<Longrightarrow>
     k < length (g_vtcp_conns s) \<and> c_used (conn_at k s) \<and> c_fd (conn_at k s) = fd
     \<and> g_active_ldn_instance s = Some me"
  by (auto simp: FindVTcpConnByFd_def first_idx_Some_iff conn_at_def split: if_splits)

lemma CheckDataRetransmits_pend:
  "g_pending_accepts (CheckDataRetransmits env ip now s) = g_pending_accepts s"
proof -
  have "g_pending_accepts (retransmit_conn env ip now k s) = g_pending_accepts s" for k and s :: "'a vtcp_scheme"
    by (simp add: retransmit_conn_def Let_def)
  then have "g_pending_accepts (fold (retransmit_conn env ip now) ks s) = g_pending_accepts s"
    for ks and s :: "'a vtcp_scheme"
    by (induction ks arbitrary: s) simp_all
  then show ?thesis by (simp add: CheckDataRetransmits_def)
qed

text \<open>With nothing queued, draining only retransmits.\<close>

lemma DrainRelay_idle:
  assumes "drained s = []" and "k < length (g_vtcp_conns s)"
  shows "c_inbox (conn_at k (DrainRelay env s)) = c_inbox (conn_at k s)
     \<and> c_peer_closed (conn_at k (DrainRelay env s)) = c_peer_closed (conn_at k s)
     \<and> c_established (conn_at k (DrainRelay env s)) = c_established (conn_at k s)
     \<and> g_control_queue (DrainRelay env s) = g_control_queue s
     \<and> g_pending_accepts (DrainRelay env s) = g_pending_accepts s"
proof (cases "g_active_ldn_instance s")
  case None
  then show ?thesis using assms(1)
    by (simp add: DrainRelay_def DrainRawRelayQueue_def drained_def ring_nil_iff)
next
  case (Some owner)
  let ?s = "CheckDataRetransmits (e_io env) (g_last_bridged_local_ip s) (e_now env) s"
  have v: "vframe s ?s" by (rule CheckDataRetransmits_vframe)
  then have "rq_count (m_queue (g_relay ?s)) = 0"
    using assms(1) by (simp add: vframe_def rx_eq_iff drained_def ring_nil_iff)
  then have "DrainRelay env s = ?s" using Some by (simp add: DrainRelay_def DrainRawRelayQueue_def)
  moreover have "conn_at k ?s = retx (e_now env) (conn_at k s)"
    using CheckDataRetransmits_at [OF assms(2)] by blast
  moreover have "g_control_queue ?s = g_control_queue s" using bridge_more(6) [of ?s s] v by (simp add: vframe_def)
  moreover have "g_pending_accepts ?s = g_pending_accepts s" by (rule CheckDataRetransmits_pend)
  ultimately show ?thesis by (simp add: retx_def)
qed

end
