(* ===== verification/UdpPath.thy ===== *)
theory UdpPath
  imports ConnIds Commands
begin

text \<open>
  The path of a UDP datagram between two consoles, end to end: \<open>SendTo\<close> on one, the frames over an
  unordered transport, the pump, draining and \<open>RecvFrom\<close> on the other.
\<close>

section \<open>Sending\<close>

lemma EnsureRelayConnected_up:
  "g_relay_enabled s \<Longrightarrow> m_connected (g_relay s) \<Longrightarrow> EnsureRelayConnected env s = (True, s)"
  by (simp add: EnsureRelayConnected_def)

lemma BuildUdp_head:
  "BuildUdp h p = Some b \<Longrightarrow> b ! 0 = 0x45 \<and> be16 (b ! 20) (b ! 21) = uh_src_port h"
  by (auto simp: BuildUdp_def Let_def ip_header_filled_def ip_header_def udp_header_def split: if_splits)

text \<open>The datagram a bridged socket sends.\<close>

definition udp_out :: "service \<Rightarrow> u8 list \<Rightarrow> udp_hdr" where
  "udp_out v addr =
     \<lparr>uh_src_ip = m_bridged_local_ip v, uh_dst_ip = sockaddr_ip addr,
      uh_src_port = m_bridged_local_port v, uh_dst_port = sockaddr_port addr\<rparr>"

lemma cmd_SendTo_bridged:
  assumes "FindVTcpConnByFd me fd s = None" and "IsBridged fd (g_services s me)"
    and "g_relay_enabled s" and "m_connected (g_relay s)" and len: "length p \<le> 1400"
    and os: "accepts_all (e_sendto (e_io env))"
  shows "\<exists>b r. BuildUdp (udp_out (g_services s me) addr) p = Some b \<and> length b \<le> PumpPktSize \<and> 20 \<le> length b
     \<and> SendIpv4 (e_sendto (e_io env)) b (g_relay s) = r
     \<and> cmd_SendTo env me fd flags p addr s
        = (reply_local (int (length p)) ErrNone, TouchBridgeActivity env (s\<lparr>g_relay := snd r\<rparr>))"
proof -
  have "length p \<le> MaxBridgedPayload" using len by (simp add: cap_defs)
  then obtain b where b: "BuildUdp (udp_out (g_services s me) addr) p = Some b" using udp.build_fits by blast
  have bl: "length b \<le> PumpPktSize" "20 \<le> length b"
    using BuildUdp_shape [OF b] len by (simp_all add: PumpPktSize_def frag_consts)
  have parts: "frag_total_parts b \<le> 255" "0 < length b"
    using BuildUdp_shape [OF b] len by (simp_all add: frag_total_parts_def frag_consts)
  obtain rc r where r: "SendIpv4 (e_sendto (e_io env)) b (g_relay s) = (rc, r)" by fastforce
  have "0 \<le> rc" using SendIpv4_frames [OF os assms(4) parts(2,1) r] by blast
  then have "cmd_SendTo env me fd flags p addr s
        = (reply_local (int (length p)) ErrNone, TouchBridgeActivity env (s\<lparr>g_relay := r\<rparr>))"
    using assms(1-4) b r
    by (simp add: cmd_SendTo_def SendTo_udp_def EnsureRelayConnected_up Let_def udp_out_def)
  then show ?thesis using b bl r by simp
qed

section \<open>Receiving\<close>

lemma RecvFrom_udp_head:
  assumes q: "queue_ok (g_control_queue s)" and p: "p = m_bridged_local_port (g_services s me)"
    and v: "port_view p (g_control_queue s) = \<lparr>cp_dst_port = p, cp_data = b\<rparr> # rest"
    and b: "BuildUdp h payload = Some b"
  shows "fst (RecvFrom_udp env me n a s)
     = \<lparr>r_rc = 0, r_ret = int (length (take n payload)), r_err = ErrNone,
        r_len = length (take a (sockaddr_bytes (uh_src_ip h) (uh_src_port h))), r_data = take n payload,
        r_addr = take a (sockaddr_bytes (uh_src_ip h) (uh_src_port h))\<rparr>"
proof -
  obtain q' where q': "PopControlPacketForPort p (g_control_queue s) = Some (\<lparr>cp_dst_port = p, cp_data = b\<rparr>, q')"
    using cq.pop_defined [of "g_control_queue s" p] q v by (auto simp: queue_ok_def port_view_def)
  have "\<lparr>cp_dst_port = p, cp_data = b\<rparr> \<in> set (port_view p (g_control_queue s))" by (simp add: v)
  then have "length b \<le> PumpPktSize" using q by (auto simp: port_view_def of_port_def queue_ok_def entry_ok_def)
  then have t: "take ControlDataSize b = b" using drain_cap(2) by simp
  have u: "unat (b ! 0 AND 0x0F) * 4 = 20" using BuildUdp_head [OF b] by simp
  have "ParseIpv4Udp b = Some (Some ((uh_src_ip h, uh_dst_port h), payload))" using b by (rule udp.parse_build)
  then show ?thesis using BuildUdp_head [OF b] q' t u
    by (simp add: RecvFrom_udp_def Let_def p [symmetric] del: take_all_iff)
qed

text \<open>One datagram waiting in the relay queue of a bridge whose socket has nothing queued: draining files
  it under its port and \<open>RecvFrom\<close> returns it.\<close>

lemma drain_one_udp:
  assumes inv: "bridge_inv t" and wf: "relay_wf r" and one: "ring_contents (m_queue r) = [b]"
    and b: "BuildUdp h p = Some b" "length b \<le> PumpPktSize"
    and room: "cq_count (g_control_queue t) < ControlQueueSize"
    and fresh: "port_view (uh_dst_port h) (g_control_queue t) = []"
    and t': "t' = DrainRelay env (t\<lparr>g_relay := r\<rparr>)"
  shows "drain_frame (t\<lparr>g_relay := r\<rparr>) t' \<and> queue_ok (g_control_queue t')
     \<and> port_view (uh_dst_port h) (g_control_queue t') = [\<lparr>cp_dst_port = uh_dst_port h, cp_data = b\<rparr>]"
proof -
  let ?t = "t\<lparr>g_relay := r\<rparr>" and ?e = "\<lparr>cp_dst_port = uh_dst_port h, cp_data = b\<rparr>"
  have e: "udp_entry b = Some ?e"
    using BuildUdp_shape [OF b(1)] udp.parse_build [OF b(1)] by (simp add: udp_entry_def)
  have "drained ?t = [b]" using one by (simp add: drained_def)
  then have D: "drain_frame ?t t'" "g_control_queue t' = fold control_push [?e] (g_control_queue t)"
    using DrainRawRelayQueue_spec [of ?t t' env] wf e by (simp_all add: t' DrainRelay_def)
  have q: "queue_ok (g_control_queue t)" using inv by (simp add: bridge_inv_def)
  have F: "queue_ok (g_control_queue t')"
    "control_contents (g_control_queue t') = take ControlQueueSize (control_contents (g_control_queue t) @ [?e])"
    using fold_control_push [OF q, of "[?e]"] udp_entry_ok [OF e b(2)] by (simp_all add: D(2))
  have "length (control_contents (g_control_queue t)) < ControlQueueSize"
    using room q by (simp add: queue_ok_def control_inv_def control_contents_def)
  then have "port_view (uh_dst_port h) (g_control_queue t') = [?e]"
    using fresh F(2) by (simp add: port_view_def of_port_def)
  then show ?thesis using D(1) F(1) by blast
qed

lemma RecvFrom_delivers:
  assumes inv: "bridge_inv t" and wf: "relay_wf r" and one: "ring_contents (m_queue r) = [b]"
    and b: "BuildUdp h p = Some b" "length b \<le> PumpPktSize"
    and room: "cq_count (g_control_queue t) < ControlQueueSize"
    and fresh: "port_view (uh_dst_port h) (g_control_queue t) = []"
    and peer: "FindVTcpConnByFd me fd t = None" "IsBridged fd (g_services t me)"
      "m_bridged_local_port (g_services t me) = uh_dst_port h"
  shows "fst (cmd_RecvFrom env me fd flags n a (t\<lparr>g_relay := r\<rparr>))
     = \<lparr>r_rc = 0, r_ret = int (length (take n p)), r_err = ErrNone,
        r_len = length (take a (sockaddr_bytes (uh_src_ip h) (uh_src_port h))), r_data = take n p,
        r_addr = take a (sockaddr_bytes (uh_src_ip h) (uh_src_port h))\<rparr>"
proof -
  let ?t = "t\<lparr>g_relay := r\<rparr>"
  define t' where "t' = DrainRelay env ?t"
  have D: "drain_frame ?t t'" "queue_ok (g_control_queue t')"
    "port_view (uh_dst_port h) (g_control_queue t') = [\<lparr>cp_dst_port = uh_dst_port h, cp_data = b\<rparr>]"
    using drain_one_udp [OF inv wf one b room fresh t'_def] by blast+
  have sv: "g_services t' = g_services t" "g_active_ldn_instance t' = g_active_ldn_instance t"
    using D(1) by (simp_all add: drain_frame_iff)
  have find: "FindVTcpConnByFd me fd t' = None"
    using peer(1) sv(2) DrainRelay_ids [of env ?t] find_fd_cong [of t' t] by (simp add: t'_def conn_ids_def)
  have "fst (cmd_RecvFrom env me fd flags n a ?t) = fst (RecvFrom_udp env me n a t')"
    using find peer(2) sv(1) by (simp add: cmd_RecvFrom_def t'_def)
  then show ?thesis using RecvFrom_udp_head [OF D(2) _ D(3) b(1)] peer(3) sv(1) by simp
qed

section \<open>End to end\<close>


lemma bridge_up_socket:
  "FindVTcpConnByFd me fd bridge_up = None" "IsBridged 7 (g_services bridge_up 1)"
  "m_connected (g_relay bridge_up)" "accepts_all (e_sendto (e_io sample_benv))"
  "m_slots (g_relay bridge_up) = frag_slots_init" "drained bridge_up = []"
  "cq_count (g_control_queue bridge_up) < ControlQueueSize" "port_view p (g_control_queue bridge_up) = []"
  by (simp_all add: FindVTcpConnByFd_def first_idx_None_iff vtcp_conn_init_def IsBridged_def relay_up_def
      relay_init_def drained_def ring_contents_def ring_empty_def accepts_all_def sample_benv_def sample_env_def
      control_init_def ControlQueueSize_def port_view_def of_port_def control_contents_def
      del: One_nat_def)

lemma sockaddr_port_bytes [simp]: "sockaddr_port (sockaddr_bytes ip port) = port"
  by (simp add: sockaddr_port_def sockaddr_bytes_def SockaddrSize_def)

lemma sockaddr_ip_bytes [simp]: "sockaddr_ip (sockaddr_bytes ip port) = ip"
  by (simp add: sockaddr_ip_def sockaddr_bytes_def SockaddrSize_def)


end
