(* ===== verification/Ready.thy ===== *)
theory Ready
  imports UdpPath PollSelect
begin

text \<open>
  Readiness: what \<open>Poll\<close> reports as readable is what \<open>RecvFrom\<close> can deliver, no pending relay data is
  overlooked, and the real service is never asked about a synthetic fd.
\<close>

section \<open>RecvFrom on a drained bridge\<close>

lemma RecvFrom_udp_view:
  assumes q: "queue_ok (g_control_queue s)" and p: "p = m_bridged_local_port (g_services s me)"
  shows "if port_view p (g_control_queue s) = []
     then fst (RecvFrom_udp env me n a s) = reply_local (- 1) EWOULDBLOCK
     else r_err (fst (RecvFrom_udp env me n a s)) = ErrNone \<and> 0 \<le> r_ret (fst (RecvFrom_udp env me n a s))"
proof (cases "port_view p (g_control_queue s)")
  case Nil
  then have "PopControlPacketForPort p (g_control_queue s) = None"
    using cq.pop_None [of "g_control_queue s" p] q by (simp add: queue_ok_def port_view_def)
  then show ?thesis using Nil by (simp add: RecvFrom_udp_def p [symmetric])
next
  case (Cons e es)
  then obtain q' where q': "PopControlPacketForPort p (g_control_queue s) = Some (e, q')"
    using cq.pop_defined [of "g_control_queue s" p e es] q by (auto simp: queue_ok_def port_view_def)
  have "e \<in> set (port_view p (g_control_queue s))" by (simp add: Cons)
  then have "entry_ok e" using q by (auto simp: port_view_def of_port_def queue_ok_def)
  then obtain ip payload where "ParseIpv4Udp (take ControlDataSize (cp_data e)) = Some (Some ((ip, cp_dst_port e), payload))"
    using drain_cap(2) by (auto simp: entry_ok_def simp del: take_all_iff)
  then show ?thesis using q' Cons by (simp add: RecvFrom_udp_def p [symmetric] Let_def)
qed

lemma VFd_udp:
  "fd = m_bridged_fd (g_services s me) \<Longrightarrow> 0 \<le> fd \<Longrightarrow>
     VFdHasPendingRead me fd s \<longleftrightarrow> port_view (m_bridged_local_port (g_services s me)) (g_control_queue s) \<noteq> []"
  by (auto simp: VFdHasPendingRead_def port_view_def of_port_def control_contents_def filter_empty_conv)

lemma RecvFrom_tcp_ready:
  "if c_inbox (conn_at k s) = [] \<and> \<not> c_peer_closed (conn_at k s)
   then fst (RecvFrom_tcp env k n a s) = reply_local (- 1) EWOULDBLOCK
   else r_err (fst (RecvFrom_tcp env k n a s)) = ErrNone \<and> 0 \<le> r_ret (fst (RecvFrom_tcp env k n a s))"
  by (auto simp: RecvFrom_tcp_def reply_local_def Let_def split: prod.split)

text \<open>C19: What \<open>Poll\<close> and \<open>Select\<close> take for readable is exactly what \<open>RecvFrom\<close> delivers on, for the
  bridged UDP socket and for virtual TCP connections alike: on a ready fd it returns data or end of
  file, on any other one it would block, so a caller that reads on readiness never spins and
  never waits in vain.\<close>

theorem readiness_exact:
  assumes inv: "bridge_inv s" and idle: "drained s = []" and fd: "0 \<le> fd"
    and ours: "(IsBridged fd (g_services s me) \<and> FindVTcpConnByFd me fd s = None)
      \<or> (\<not> IsBridged fd (g_services s me) \<and> FindVTcpConnByFd me fd s \<noteq> None \<and> \<not> IsOwnTcpListenFd me fd s)"
    and r: "r = fst (cmd_RecvFrom env me fd flags n a s)"
  shows "if VFdHasPendingRead me fd s then r_err r = ErrNone \<and> 0 \<le> r_ret r
     else r_err r = EWOULDBLOCK \<and> r_ret r = - 1"
proof -
  let ?s = "DrainRelay env s"
  have wf: "relay_wf (g_relay s)" using inv by (simp add: bridge_inv_def)
  have f: "drain_frame s ?s" using DrainRawRelayQueue_spec [OF wf refl] by (simp add: DrainRelay_def)
  then have sv: "g_services ?s = g_services s" "g_active_ldn_instance ?s = g_active_ldn_instance s"
    by (simp_all add: drain_frame_iff)
  have find: "FindVTcpConnByFd me fd ?s = FindVTcpConnByFd me fd s"
    by (rule find_fd_cong [OF DrainRelay_ids sv(2)])
  show ?thesis
  proof (cases "FindVTcpConnByFd me fd s")
    case None
    then have b: "fd = m_bridged_fd (g_services s me)" "IsBridged fd (g_services ?s me)"
      using ours sv(1) by (auto simp: IsBridged_def)
    have q: "queue_ok (g_control_queue s)" using inv by (simp add: bridge_inv_def)
    have "0 < length (g_vtcp_conns s)" using inv by (simp add: bridge_inv_def vtcp_inv_def MaxVTcpConns_def)
    then have cq: "g_control_queue ?s = g_control_queue s" using DrainRelay_idle [OF idle] by blast
    have "r = fst (RecvFrom_udp env me n a ?s)" using None find b by (simp add: r cmd_RecvFrom_def)
    then show ?thesis
      using RecvFrom_udp_view [of ?s "m_bridged_local_port (g_services ?s me)" me env n a] q cq sv(1)
        VFd_udp [OF b(1) fd] by (auto simp: reply_local_def split: if_splits)
  next
    case (Some k)
    note kD = find_fd_SomeD [OF Some]
    have c: "c_inbox (conn_at k ?s) = c_inbox (conn_at k s)" "c_peer_closed (conn_at k ?s) = c_peer_closed (conn_at k s)"
      using DrainRelay_idle [OF idle, of k] kD by blast+
    have "r = fst (RecvFrom_tcp env k n a ?s)" using Some find by (simp add: r cmd_RecvFrom_def)
    moreover have "VFdHasPendingRead me fd s \<longleftrightarrow> c_inbox (conn_at k s) \<noteq> [] \<or> c_peer_closed (conn_at k s)"
      using ours Some fd by (simp add: VFdHasPendingRead_def IsBridged_def)
    ultimately show ?thesis
      using RecvFrom_tcp_ready [of k ?s env n a] c by (auto simp: reply_local_def split: if_splits)
  qed
qed

theorem readiness_exact_witness:
  "r_err (fst (cmd_RecvFrom sample_benv 1 7 0 100 16 bridge_up)) = EWOULDBLOCK"
proof -
  have "\<not> VFdHasPendingRead 1 7 bridge_up"
    using VFd_udp [of 7 bridge_up 1] bridge_up_socket(8) by (simp del: One_nat_def)
  then show ?thesis
    using readiness_exact [OF bridge_inv_up bridge_up_socket(6) _ disjI1 [OF conjI [OF bridge_up_socket(2,1)]] refl,
        of sample_benv 0 100 16] by simp
qed

section \<open>Poll\<close>

definition poll_mask :: u16 where
  "poll_mask = POLLIN OR POLLPRI OR POLLERR OR POLLHUP OR POLLNVAL"

lemma poll_mask_in [simp]: "(w OR POLLIN) AND poll_mask \<noteq> 0"
proof -
  have "bit ((w OR POLLIN) AND poll_mask) 0" by (simp add: poll_mask_def poll_flags bit_simps)
  then show ?thesis by (metis bit_0_eq bot_apply bot_bool_def)
qed

text \<open>What the injection loop does to one entry.\<close>

definition inject_one :: "nat \<Rightarrow> bridge \<Rightarrow> pollfd \<Rightarrow> pollfd" where
  "inject_one me s p =
     (if pf_revents p AND poll_mask \<noteq> 0 \<or> \<not> VFdHasPendingRead me (pf_fd p) s then p
      else p\<lparr>pf_revents := pf_revents p OR POLLIN\<rparr>)"

lemma poll_inject_nth:
  "distinct is \<Longrightarrow> set is \<subseteq> {..<length out} \<Longrightarrow> poll_inject me s is count out = (c, out') \<Longrightarrow>
     length out' = length out \<and> (\<forall>i < length out. out' ! i = (if i \<in> set is then inject_one me s (out ! i) else out ! i))"
proof (induction "is" arbitrary: count out)
  case Nil
  then show ?case by simp
next
  case (Cons i "is")
  define out1 where "out1 = out[i := inject_one me s (out ! i)]"
  obtain c1 where step: "poll_inject me s (i # is) count out = poll_inject me s is c1 out1"
    by (cases "pf_revents (out ! i) AND poll_mask \<noteq> 0 \<or> \<not> VFdHasPendingRead me (pf_fd (out ! i)) s")
      (use poll_mask_def in \<open>auto simp: out1_def inject_one_def\<close>)
  have IH: "length out' = length out1 \<and> (\<forall>j < length out1. out' ! j = (if j \<in> set is then inject_one me s (out1 ! j) else out1 ! j))"
    using Cons.IH [of out1 c1] Cons.prems step by (simp add: out1_def)
  show ?case
  proof (intro conjI allI impI)
    show "length out' = length out" using IH by (simp add: out1_def)
    fix j
    assume "j < length out"
    then show "out' ! j = (if j \<in> set (i # is) then inject_one me s (out ! j) else out ! j)"
      using IH Cons.prems(1) by (cases "j = i") (auto simp: out1_def)
  qed
qed

text \<open>The copying loop changes the \<open>revents\<close> of the forwarded entries only.\<close>

lemma poll_copy_nth:
  "poll_copy v rs fwd j count out = (c, out') \<Longrightarrow> length out' = length out
     \<and> (\<forall>i < length out. pf_fd (out' ! i) = pf_fd (out ! i) \<and> pf_events (out' ! i) = pf_events (out ! i)
          \<and> (i \<notin> set fwd \<longrightarrow> out' ! i = out ! i))"
proof (induction v rs fwd j count out rule: poll_copy.induct)
  case (1 v rs j count out)
  then show ?case by simp
next
  case (2 v rs i fwd j count out)
  define r where "r = (if pf_fd (out ! i) = m_bridged_fd v \<and> m_bridged_local_port v = LdnControlPort
               then poll_revents rs j AND NOT (POLLERR OR POLLHUP OR POLLNVAL) else poll_revents rs j)"
  define out1 where "out1 = out[i := (out ! i)\<lparr>pf_revents := r\<rparr>]"
  have step: "poll_copy v rs fwd (j + 1) (if r \<noteq> 0 then count + 1 else count) out1 = (c, out')"
    using 2(2) by (simp add: Let_def r_def out1_def)
  have "length out' = length out1
     \<and> (\<forall>k < length out1. pf_fd (out' ! k) = pf_fd (out1 ! k) \<and> pf_events (out' ! k) = pf_events (out1 ! k)
          \<and> (k \<notin> set fwd \<longrightarrow> out' ! k = out1 ! k))"
    using 2(1) [OF refl r_def, folded out1_def] step by blast
  moreover have "pf_fd (out1 ! k) = pf_fd (out ! k) \<and> pf_events (out1 ! k) = pf_events (out ! k)
      \<and> (k \<noteq> i \<longrightarrow> out1 ! k = out ! k)" if "k < length out" for k
    using that by (cases "k = i") (simp_all add: out1_def)
  ultimately show ?case by (simp add: out1_def)
qed

text \<open>The request that goes to the real service, and the shape of \<open>Poll\<close>'s answer.\<close>

definition poll_forwarded :: "nat \<Rightarrow> bridge \<Rightarrow> pollfd list \<Rightarrow> nat \<Rightarrow> nat list" where
  "poll_forwarded me s pfds n = filter (\<lambda>i. \<not> is_synthetic_fd me (pf_fd (pfds ! i)) s) [0..<n]"

definition poll_shape :: "pollfd list \<Rightarrow> nat \<Rightarrow> int \<Rightarrow> bool" where
  "poll_shape pfds cap nfds \<longleftrightarrow>
     0 \<le> nfds \<and> nfds \<le> int MaxPollFds \<and> nfds \<le> int (length pfds) \<and> nfds \<le> int cap"

lemma cmd_Poll_cases:
  assumes shape: "poll_shape pfds cap nfds" and s: "s = DrainRelay env s0"
  shows "\<exists>c1 o1 e. length o1 = nat nfds
     \<and> (\<forall>i < nat nfds. pf_fd (o1 ! i) = pf_fd (pfds ! i) \<and> pf_events (o1 ! i) = pf_events (pfds ! i)
          \<and> (i \<notin> set (poll_forwarded me s pfds (nat nfds)) \<longrightarrow> pf_revents (o1 ! i) = 0))
     \<and> cmd_Poll env real me pfds cap nfds timeout s0
         = (\<lparr>pr_rc = 0, pr_count = fst (poll_inject me s [0..<nat nfds] c1 o1), pr_err = e,
             pr_fds = snd (poll_inject me s [0..<nat nfds] c1 o1)\<rparr>, s)"
proof -
  let ?n = "nat nfds" and ?v = "g_services s me"
  let ?fwd = "poll_forwarded me s pfds ?n" and ?out0 = "map (\<lambda>p. p\<lparr>pf_revents := 0\<rparr>) (take ?n pfds)"
  let ?ask = "real (map (\<lambda>i. (pf_fd (pfds ! i), pf_events (pfds ! i))) ?fwd)
      (if \<exists>i \<in> set [0..<?n]. VFdHasPendingRead me (pf_fd (pfds ! i)) s then 0 else timeout)"
  obtain rc ret err rs where ask: "?ask = (rc, ret, err, rs)" by (cases ?ask) blast
  define res where "res = (if ?fwd \<noteq> [] then (if ret > 0 then
      (ErrReal err, poll_copy ?v rs ?fwd 0 0 ?out0) else (ErrReal err, 0, ?out0)) else (ErrNone, 0, ?out0))"
  obtain e c1 o1 where r: "res = (e, c1, o1)" by (cases res) blast
  have "?n \<le> length pfds" using shape by (simp add: poll_shape_def nat_le_iff)
  then have len: "length ?out0 = ?n" by simp
  have out0: "pf_fd (?out0 ! i) = pf_fd (pfds ! i) \<and> pf_events (?out0 ! i) = pf_events (pfds ! i)
      \<and> pf_revents (?out0 ! i) = 0" if "i < ?n" for i
    using that len shape by (simp add: poll_shape_def)
  have o1: "length o1 = length ?out0 \<and> (\<forall>i < length ?out0. pf_fd (o1 ! i) = pf_fd (?out0 ! i)
      \<and> pf_events (o1 ! i) = pf_events (?out0 ! i) \<and> (i \<notin> set ?fwd \<longrightarrow> o1 ! i = ?out0 ! i))"
  proof -
    have "o1 = ?out0 \<or> poll_copy ?v rs ?fwd 0 0 ?out0 = (c1, o1)"
      using r unfolding res_def by (auto split: if_splits)
    then show ?thesis
    proof
      assume "poll_copy ?v rs ?fwd 0 0 ?out0 = (c1, o1)"
      from poll_copy_nth [OF this] show ?thesis by blast
    qed simp
  qed
  have "cmd_Poll env real me pfds cap nfds timeout s0
         = (\<lparr>pr_rc = 0, pr_count = fst (poll_inject me s [0..<?n] c1 o1), pr_err = e,
             pr_fds = snd (poll_inject me s [0..<?n] c1 o1)\<rparr>, s)"
    using shape r ask unfolding cmd_Poll_def s [symmetric] Let_def poll_forwarded_def [symmetric] res_def
    by (simp add: poll_shape_def split_beta split: if_splits)
  then show ?thesis using o1 out0 len by (intro exI [of _ c1] exI [of _ o1] exI [of _ e]) auto
qed

text \<open>\<open>Poll\<close> overlooks nothing and invents nothing: every entry with pending relay data comes back
  with a readiness flag set, an entry for a synthetic fd has none unless it has such data, the
  entries keep their fds and interests.\<close>

theorem poll_reports_pending:
  assumes shape: "poll_shape pfds cap nfds" and s: "s = DrainRelay env s0"
    and run: "cmd_Poll env real me pfds cap nfds timeout s0 = (rep, s')" and i: "i < nat nfds"
  shows "s' = s \<and> length (pr_fds rep) = nat nfds
     \<and> pf_fd (pr_fds rep ! i) = pf_fd (pfds ! i) \<and> pf_events (pr_fds rep ! i) = pf_events (pfds ! i)
     \<and> (VFdHasPendingRead me (pf_fd (pfds ! i)) s \<longrightarrow> pf_revents (pr_fds rep ! i) AND poll_mask \<noteq> 0)
     \<and> (is_synthetic_fd me (pf_fd (pfds ! i)) s \<longrightarrow>
          pf_revents (pr_fds rep ! i) = (if VFdHasPendingRead me (pf_fd (pfds ! i)) s then POLLIN else 0))"
proof -
  obtain c1 o1 e where o1: "length o1 = nat nfds"
    "\<forall>i < nat nfds. pf_fd (o1 ! i) = pf_fd (pfds ! i) \<and> pf_events (o1 ! i) = pf_events (pfds ! i)
          \<and> (i \<notin> set (poll_forwarded me s pfds (nat nfds)) \<longrightarrow> pf_revents (o1 ! i) = 0)"
    and eq: "cmd_Poll env real me pfds cap nfds timeout s0
         = (\<lparr>pr_rc = 0, pr_count = fst (poll_inject me s [0..<nat nfds] c1 o1), pr_err = e,
             pr_fds = snd (poll_inject me s [0..<nat nfds] c1 o1)\<rparr>, s)"
    using cmd_Poll_cases [OF shape s, of me real timeout] by blast
  obtain c2 o2 where o2: "poll_inject me s [0..<nat nfds] c1 o1 = (c2, o2)" by fastforce
  have "length o2 = length o1 \<and> (\<forall>i < length o1. o2 ! i = (if i \<in> set [0..<nat nfds] then inject_one me s (o1 ! i) else o1 ! i))"
    by (rule poll_inject_nth [OF _ _ o2]) (auto simp: o1(1))
  then have nth: "length o2 = nat nfds" "o2 ! i = inject_one me s (o1 ! i)" using i o1(1) by simp_all
  have syn: "i \<notin> set (poll_forwarded me s pfds (nat nfds))" if "is_synthetic_fd me (pf_fd (pfds ! i)) s"
    using that by (simp add: poll_forwarded_def)
  have rep: "s' = s" "pr_fds rep = o2" using run eq o2 by auto
  show ?thesis unfolding rep using nth o1(2) i syn by (auto simp: inject_one_def)
qed

lemma bridge_rx_ready: "VFdHasPendingRead 1 7 (DrainRelay sample_benv bridge_rx)"
proof -
  let ?s = "DrainRelay sample_benv bridge_rx" and ?e = "\<lparr>cp_dst_port = LdnControlPort, cp_data = sample_udp_packet\<rparr>"
  have wf: "relay_wf (g_relay bridge_rx)" and q: "queue_ok (g_control_queue bridge_rx)"
    using bridge_rx_simps(1) by (simp_all add: bridge_inv_def)
  have D: "drain_frame bridge_rx ?s" "g_control_queue ?s = fold control_push [?e] control_init"
    using DrainRawRelayQueue_spec [OF wf refl, of sample_benv] sample_udp_packet_simps(5)
    by (simp_all add: DrainRelay_def bridge_rx_simps(2,3))
  have "entry_ok ?e" using sample_udp_packet_simps by (simp add: entry_ok_def PumpPktSize_def frag_consts)
  then have "control_contents (g_control_queue ?s) = [?e]"
    using fold_control_push [OF q, of "[?e]"] control_inv_init
    by (simp add: D(2) bridge_rx_simps(3) ControlQueueSize_def)
  then have v: "port_view LdnControlPort (g_control_queue ?s) \<noteq> []" by (simp add: port_view_def of_port_def)
  have sv: "g_services ?s 1 = g_services bridge_up 1"
    using D(1) by (simp add: drain_frame_iff bridge_rx_def)
  have "m_bridged_fd (g_services ?s 1) = 7" "m_bridged_local_port (g_services ?s 1) = LdnControlPort"
    unfolding sv bridge_up_simps by simp_all
  then show ?thesis using VFd_udp [of 7 ?s 1] v by simp
qed

theorem poll_reports_pending_witness:
  "pf_revents (pr_fds (fst (cmd_Poll sample_benv (\<lambda>q t. (0, 0, 0, [])) 1
      [\<lparr>pf_fd = 7, pf_events = POLLIN, pf_revents = 0\<rparr>] 1 1 100 bridge_rx)) ! 0) AND poll_mask \<noteq> 0"
proof -
  let ?p = "[\<lparr>pf_fd = 7, pf_events = POLLIN, pf_revents = 0\<rparr>]"
  obtain rep s' where run: "cmd_Poll sample_benv (\<lambda>q t. (0, 0, 0, [])) 1 ?p 1 1 100 bridge_rx = (rep, s')"
    by fastforce
  have shape: "poll_shape ?p 1 1" by (simp add: poll_shape_def MaxPollFds_def)
  show ?thesis using poll_reports_pending [OF shape refl run, of 0] bridge_rx_ready run by simp
qed

text \<open>The count \<open>Poll\<close> returns can exceed the number of ready entries: an fd that the real service
  reports as writable only and that has relay data pending is counted once for the real answer and
  once more when \<open>POLLIN\<close> is added, so a caller that polls one socket is told two are ready.\<close>

theorem poll_counts_twice:
  assumes s: "s = DrainRelay env s0" and real: "\<And>q t. real q t = (0, 1, 0, [w])"
    and w: "w \<noteq> 0" "w AND poll_mask = 0"
    and fd: "\<not> is_synthetic_fd me (pf_fd p) s" "VFdHasPendingRead me (pf_fd p) s"
    and run: "cmd_Poll env real me [p] 1 1 timeout s0 = (rep, s')"
  shows "length (pr_fds rep) = 1 \<and> pr_count rep = 2"
proof -
  have keep: "w AND NOT (POLLERR OR POLLHUP OR POLLNVAL) = w"
  proof (rule bit_word_eqI)
    fix n :: nat
    assume "n < LENGTH(16)"
    have "\<not> bit (w AND poll_mask) n" using w(2) by simp
    then show "bit (w AND NOT (POLLERR OR POLLHUP OR POLLNVAL)) n = bit w n"
      using \<open>n < LENGTH(16)\<close> by (auto simp: poll_mask_def bit_simps)
  qed
  have "poll_copy (g_services s me) [w] [0] 0 0 [p\<lparr>pf_revents := 0\<rparr>] = (1, [p\<lparr>pf_revents := w\<rparr>])"
    using keep w(1) by (simp add: poll_revents_def Let_def)
  moreover have "poll_inject me s [0] 1 [p\<lparr>pf_revents := w\<rparr>] = (2, [p\<lparr>pf_revents := w OR POLLIN\<rparr>])"
    using w(2) fd(2) by (simp add: poll_mask_def)
  ultimately show ?thesis
    using run fd unfolding cmd_Poll_def s [symmetric] Let_def real
    by (auto simp: MaxPollFds_def)
qed

theorem poll_counts_twice_witness:
  "pr_count (fst (cmd_Poll sample_benv (\<lambda>q t. (0, 1, 0, [POLLOUT])) 1
      [\<lparr>pf_fd = 7, pf_events = POLLIN OR POLLOUT, pf_revents = 0\<rparr>] 1 1 100 bridge_rx)) = 2"
proof -
  let ?p = "\<lparr>pf_fd = 7, pf_events = POLLIN OR POLLOUT, pf_revents = 0\<rparr>"
  obtain rep s' where run: "cmd_Poll sample_benv (\<lambda>q t. (0, 1, 0, [POLLOUT])) 1 [?p] 1 1 100 bridge_rx = (rep, s')"
    by fastforce
  let ?s = "DrainRelay sample_benv bridge_rx"
  have ids: "conn_ids bridge_rx = conn_ids bridge_up" "g_active_ldn_instance bridge_rx = g_active_ldn_instance bridge_up"
    by (simp_all add: bridge_rx_def conn_ids_def)
  have wf: "relay_wf (g_relay bridge_rx)" using bridge_rx_simps(1) by (simp add: bridge_inv_def)
  have "g_active_ldn_instance ?s = g_active_ldn_instance bridge_rx"
    using DrainRawRelayQueue_spec [OF wf refl, of sample_benv] by (simp add: DrainRelay_def drain_frame_iff)
  then have "FindVTcpConnByFd 1 7 ?s = FindVTcpConnByFd 1 7 bridge_up"
    using ids DrainRelay_ids by (intro find_fd_cong) simp_all
  then have "\<not> is_synthetic_fd 1 7 (DrainRelay sample_benv bridge_rx)"
    using bridge_up_socket(1) by (simp add: is_synthetic_fd_def)
  then show ?thesis
    using poll_counts_twice [OF refl _ _ _ _ _ run, of POLLOUT] bridge_rx_ready run
    by (simp add: poll_mask_def poll_flags)
qed

end
