(* ===== verification/SysInv.thy ===== *)
theory SysInv
  imports ConnIds Forward PollSelect
begin

text \<open>
  The invariant of the whole bridge and its preservation by every operation: the tables keep their
  sizes and bounds, the relay queue and the control queue are well-formed, and the fds handed out for
  accepted connections are all different. One lemma per operation, collected in \<open>keeps\<close>.
\<close>

section \<open>The invariant\<close>

text \<open>Synthetic fds start at 1000 and count up; no two connections in use share one.\<close>

definition synth_ok :: "(bool \<times> int \<times> u32 \<times> u16) list \<Rightarrow> int \<Rightarrow> bool" where
  "synth_ok ids next \<longleftrightarrow> 1000 \<le> next
     \<and> (\<forall>(u, fd, p) \<in> set ids. u \<longrightarrow> fd < next)
     \<and> (\<forall>i < length ids. \<forall>j < length ids. fst (ids ! i) \<longrightarrow> fst (ids ! j) \<longrightarrow> fst (snd (ids ! i)) = fst (snd (ids ! j))
          \<longrightarrow> 1000 \<le> fst (snd (ids ! i)) \<longrightarrow> i = j)"

definition sys_inv :: "bridge \<Rightarrow> bool" where
  "sys_inv s \<longleftrightarrow> bridge_inv s \<and> synth_ok (conn_ids s) (g_next_synthetic_fd s)"

named_theorems keeps \<open>operations that keep the invariant\<close>

lemma sys_inv_update [simp]:
  "sys_inv (s\<lparr>g_services := a\<rparr>) = sys_inv s" "sys_inv (s\<lparr>g_bsd_log := b\<rparr>) = sys_inv s"
  "sys_inv (s\<lparr>g_last_bridged_local_ip := c\<rparr>) = sys_inv s" "sys_inv (s\<lparr>g_bridged_socket_count := d\<rparr>) = sys_inv s"
  "sys_inv (s\<lparr>g_active_ldn_instance := e\<rparr>) = sys_inv s" "sys_inv (s\<lparr>g_last_bridge_activity_ms := f\<rparr>) = sys_inv s"
  "sys_inv (s\<lparr>g_relay_connect_attempted := g\<rparr>) = sys_inv s" "sys_inv (s\<lparr>g_relay_enabled := h\<rparr>) = sys_inv s"
  "sys_inv (s\<lparr>g_tcp_listen_fd := i\<rparr>) = sys_inv s" "sys_inv (s\<lparr>g_socket_stack_ready := j\<rparr>) = sys_inv s"
  "sys_inv (s\<lparr>g_watchdog_started := k\<rparr>) = sys_inv s" "sys_inv (s\<lparr>g_drain_thread_started := l\<rparr>) = sys_inv s"
  "sys_inv (s\<lparr>g_dummy_skip := m\<rparr>) = sys_inv s" "sys_inv (s\<lparr>g_random_draws := n\<rparr>) = sys_inv s"
  by (simp_all add: sys_inv_def bridge_inv_def vtcp_inv_def conn_ids_def)

lemma sys_inv_service [simp]: "sys_inv (upd_service me f s) = sys_inv s"
  by (simp add: upd_service_def)

lemma sys_inv_relay [keeps]: "sys_inv s \<Longrightarrow> relay_wf r \<Longrightarrow> sys_inv (s\<lparr>g_relay := r\<rparr>)"
  by (simp add: sys_inv_def bridge_inv_relay) (simp add: conn_ids_def)

lemma sys_inv_wf: "sys_inv s \<Longrightarrow> relay_wf (g_relay s)"
  by (simp add: sys_inv_def bridge_inv_def)

lemma sys_inv_if [keeps]: "sys_inv x \<Longrightarrow> sys_inv y \<Longrightarrow> sys_inv (if b then x else y)"
  by simp

text \<open>A step that keeps the ids and leaves the relay's receive side alone.\<close>

lemma sys_inv_vframe:
  assumes "sys_inv s" and "vframe s s'" and "conn_ids s' = conn_ids s" and "vtcp_inv s'"
  shows "sys_inv s'"
  using assms bridge_more(6) [of s' s] rx_eq_wf [of "g_relay s" "g_relay s'"]
  by (simp add: sys_inv_def bridge_inv_def vframe_def)

section \<open>The relay\<close>

lemma RelayClose_wf [keeps]: "relay_wf r \<Longrightarrow> relay_wf (RelayClose r)"
  using ring_inv_reset [of "m_queue r"] by (simp add: relay_wf_def RelayClose_def StopPump_def Let_def)

lemma RelayConnect_wf [keeps]: "relay_wf r \<Longrightarrow> relay_wf (snd (RelayConnect pton res ok sock now host port r))"
proof -
  have S: "m_slots (StartPump ok r') = m_slots r'" "m_queue (StartPump ok r') = m_queue r'" for r'
    by (simp_all add: StartPump_def Let_def)
  have "m_slots (snd (RelayConnect pton res ok sock now host port r)) = m_slots r
      \<and> m_queue (snd (RelayConnect pton res ok sock now host port r)) = m_queue r"
    by (simp add: RelayConnect_def Let_def S split: option.split list.split)
  then show "relay_wf r \<Longrightarrow> relay_wf (snd (RelayConnect pton res ok sock now host port r))"
    by (simp add: relay_wf_def)
qed

lemma SendIpv4_wf [keeps]: "relay_wf r \<Longrightarrow> relay_wf (snd (SendIpv4 os packet r))"
  using rx_eq_wf [OF SendIpv4_rx_eq] by blast

lemma EnsureSocketStack_keeps [simp]: "sys_inv (EnsureSocketStack env s) = sys_inv s"
  "g_relay (EnsureSocketStack env s) = g_relay s"
  by (simp_all add: EnsureSocketStack_def)

lemma ConnectRelayLocked_keeps [keeps]:
  assumes "sys_inv s"
  shows "sys_inv (snd (ConnectRelayLocked env s))"
proof -
  have "relay_wf (snd (RelayConnect pton res ok sock now host port (g_relay s)))"
    for pton res ok sock now host port
    by (rule RelayConnect_wf [OF sys_inv_wf [OF assms]])
  then show ?thesis using assms
    by (auto simp: ConnectRelayLocked_def Let_def split: prod.split intro!: sys_inv_relay) (metis snd_conv)
qed

lemma EnsureRelayConnected_keeps [keeps]: "sys_inv s \<Longrightarrow> sys_inv (snd (EnsureRelayConnected env s))"
  by (auto simp: EnsureRelayConnected_def intro: keeps)

lemma ForceReconnect_keeps [keeps]: "sys_inv s \<Longrightarrow> sys_inv (ForceReconnect env s)"
  unfolding ForceReconnect_def by (rule ConnectRelayLocked_keeps) (simp add: sys_inv_relay RelayClose_wf sys_inv_wf)

lemma BridgeStop_keeps [keeps]: "sys_inv s \<Longrightarrow> sys_inv (BridgeStop s)"
  by (simp add: BridgeStop_def sys_inv_relay RelayClose_wf sys_inv_wf)

lemma BridgeStart_keeps [keeps]: "sys_inv s \<Longrightarrow> sys_inv (BridgeStart env s)"
  by (auto simp: BridgeStart_def Let_def intro: keeps)

lemma watchdog_keeps [keeps]: "sys_inv s \<Longrightarrow> sys_inv (watchdog_tick env s)"
  by (simp add: watchdog_tick_def sys_inv_relay RelayClose_wf sys_inv_wf)

lemma service_destroy_keeps [keeps]: "sys_inv s \<Longrightarrow> sys_inv (service_destroy me s)"
  by (simp add: service_destroy_def Let_def)

lemma TouchBridgeActivity_keeps [simp]: "sys_inv (TouchBridgeActivity env s) = sys_inv s"
  by (simp add: TouchBridgeActivity_def)

lemma forward_keeps [simp]: "sys_inv (snd (forward env call s)) = sys_inv s"
  by (simp add: forward_def)

lemma sleep_step_keeps [keeps]: "sys_inv s \<Longrightarrow> sys_inv (sleep_step ds s)"
  using relay_feed_ok [OF sys_inv_wf, of s ds] by (auto simp: sleep_step_def intro: keeps)

section \<open>Draining\<close>

lemma DrainRelay_keeps [keeps]: "sys_inv s \<Longrightarrow> sys_inv (DrainRelay env s)"
  using DrainRelay_spec(1,2) [OF _ refl, of s env] DrainRelay_ids [of env s]
  by (simp add: sys_inv_def drain_frame_iff)

section \<open>Segments and connections\<close>

lemma send_seg_keeps [keeps]: "sys_inv s \<Longrightarrow> sys_inv (send_seg env h p s)"
  by (rule sys_inv_vframe [of s])
    (auto simp: conn_ids_def sys_inv_def bridge_inv_def intro: vframe_send_seg)

text \<open>An update of a connection that keeps its id and its bounds.\<close>

lemma upd_conn_keeps [keeps]:
  assumes "sys_inv s" and "\<And>c. conn_id (f c) = conn_id c" and "conn_ok (f (conn_at k s))"
  shows "sys_inv (upd_conn k f s)"
  using assms(1)
proof (rule sys_inv_vframe)
  show "vframe s (upd_conn k f s)" by (simp add: vframe_upd)
  show "conn_ids (upd_conn k f s) = conn_ids s" by (rule conn_ids_upd [OF refl assms(2)])
  show "vtcp_inv (upd_conn k f s)" using assms(1,3) by (simp add: vtcp_inv_upd sys_inv_def bridge_inv_def)
qed

lemma sys_inv_conn: "sys_inv s \<Longrightarrow> k < length (g_vtcp_conns s) \<Longrightarrow> conn_ok (conn_at k s)"
  by (simp add: sys_inv_def bridge_inv_def vtcp_inv_conn)

lemma vtcp_send_keeps [keeps]:
  assumes "sys_inv s" and "k < length (g_vtcp_conns s)" and "length p \<le> VTcpInboxCap"
  shows "sys_inv (snd (vtcp_send env ip now k p s))"
proof -
  have send: "sys_inv (snd (SendTcpSegment env h p s))" for h
    using send_seg_keeps [OF assms(1)] by (simp add: send_seg_def)
  show ?thesis
    using send sys_inv_conn [OF assms(1,2)] assms(3)
    by (auto simp: vtcp_send_def Let_def split_beta conn_id_def conn_ok_def conn_at_def intro!: upd_conn_keeps)
qed

lemma vtcp_read_keeps [keeps]:
  assumes "sys_inv s" and "k < length (g_vtcp_conns s)"
  shows "sys_inv (snd (vtcp_read n k s))"
  using assms sys_inv_conn [OF assms]
  by (auto simp: vtcp_read_def Let_def conn_id_def conn_ok_def intro!: upd_conn_keeps)

section \<open>Taking and freeing connections\<close>

lemma conn_ids_set: "conn_ids (upd_conn k f s) = (conn_ids s)[k := conn_id (f (conn_at k s))]"
  by (simp add: conn_ids_def map_update)

lemma synth_ok_update:
  assumes ok: "synth_ok ids n" and n: "n \<le> n'" and u: "u \<Longrightarrow> fd < n'"
    and new: "\<And>i. u \<Longrightarrow> 1000 \<le> fd \<Longrightarrow> i < length ids \<Longrightarrow> i \<noteq> k \<Longrightarrow> fst (ids ! i) \<Longrightarrow> fst (snd (ids ! i)) \<noteq> fd"
  shows "synth_ok (ids[k := (u, fd, p)]) n'"
proof -
  let ?ids = "ids[k := (u, fd, p)]"
  have inj: "i = j" if *: "i < length ?ids" "j < length ?ids" "fst (?ids ! i)" "fst (?ids ! j)"
      "fst (snd (?ids ! i)) = fst (snd (?ids ! j))" "1000 \<le> fst (snd (?ids ! i))" for i j
  proof -
    consider (both) "i = k" "j = k" | (left) "i = k" "j \<noteq> k" | (right) "i \<noteq> k" "j = k"
      | (none) "i \<noteq> k" "j \<noteq> k" by blast
    then show ?thesis
    proof cases
      case left
      then show ?thesis using * new [of j] by auto
    next
      case right
      then show ?thesis using * new [of i] by auto
    next
      case none
      then show ?thesis using * ok unfolding synth_ok_def by auto
    qed simp
  qed
  have "1000 \<le> n'" using ok n by (simp add: synth_ok_def)
  moreover have "f < n'" if "(True, f, q) \<in> set ?ids" for f q
    using set_list_update_cases [OF that] u ok n by (force simp: synth_ok_def)
  ultimately show ?thesis unfolding synth_ok_def using inj by (auto split: prod.split)
qed

lemma synth_ok_bound: "synth_ok ids n \<Longrightarrow> i < length ids \<Longrightarrow> fst (ids ! i) \<Longrightarrow> fst (snd (ids ! i)) < n"
  unfolding synth_ok_def by (metis (no_types, lifting) case_prodE nth_mem prod.sel)

lemma bridge_inv_upd: "bridge_inv s \<Longrightarrow> conn_ok (f (conn_at k s)) \<Longrightarrow> bridge_inv (upd_conn k f s)"
proof -
  have "g_control_queue (upd_conn k f s) = g_control_queue s" by (rule bridge_more(6)) simp
  then show "bridge_inv s \<Longrightarrow> conn_ok (f (conn_at k s)) \<Longrightarrow> bridge_inv (upd_conn k f s)"
    by (simp add: bridge_inv_def vtcp_inv_upd)
qed

lemma set_conn_keeps:
  assumes inv: "sys_inv s" and ok: "conn_ok (f (conn_at k s))"
    and id: "\<not> c_used (f (conn_at k s)) \<or> c_fd (f (conn_at k s)) < 1000"
  shows "sys_inv (upd_conn k f s)"
proof -
  have s: "bridge_inv s" "synth_ok (conn_ids s) (g_next_synthetic_fd s)" using inv by (simp_all add: sys_inv_def)
  have "1000 \<le> g_next_synthetic_fd s" using s(2) by (simp add: synth_ok_def)
  then have "synth_ok ((conn_ids s)[k := conn_id (f (conn_at k s))]) (g_next_synthetic_fd s)"
    unfolding conn_id_def using id by (intro synth_ok_update [OF s(2)]) auto
  then show ?thesis using bridge_inv_upd [of s f k] s(1) ok by (simp add: sys_inv_def conn_ids_set)
qed

lemma free_conn_keeps [keeps]: "sys_inv s \<Longrightarrow> sys_inv (upd_conn k (\<lambda>c. vtcp_conn_init) s)"
  by (rule set_conn_keeps) (simp_all add: conn_ok_init vtcp_conn_init_def conn_ok_def)

lemma alloc_SomeD:
  "AllocVTcpConn me s = Some (k, s') \<Longrightarrow> k < length (g_vtcp_conns s) \<and> \<not> c_used (conn_at k s)
     \<and> g_active_ldn_instance s = Some me \<and> s' = upd_conn k (\<lambda>c. vtcp_conn_init\<lparr>c_used := True\<rparr>) s"
  by (auto simp: AllocVTcpConn_def conn_at_def first_idx_Some_iff split: if_splits option.splits)

lemma alloc_keeps:
  "sys_inv s \<Longrightarrow> AllocVTcpConn me s = Some (k, s') \<Longrightarrow> sys_inv s'"
  by (auto dest!: alloc_SomeD intro!: set_conn_keeps simp: conn_ok_def vtcp_conn_init_def)

section \<open>The commands\<close>

lemma cmd_Socket_keeps [keeps]: "sys_inv s \<Longrightarrow> sys_inv (snd (cmd_Socket env me d t p s))"
  by (simp add: cmd_Socket_def forward_def Let_def)

lemma cmd_SocketExempt_keeps [keeps]: "sys_inv s \<Longrightarrow> sys_inv (snd (cmd_SocketExempt env me d t p s))"
  by (simp add: cmd_SocketExempt_def pass_def forward_def Let_def)

lemma bind_learn_ip_keeps: "sys_inv (snd (bind_learn_ip env fd s)) = sys_inv s"
  by (simp add: bind_learn_ip_def forward_def Let_def)

lemma bind_bridge_keeps: "sys_inv s \<Longrightarrow> sys_inv (bind_bridge env me fd port ip s)"
  by (auto simp: bind_bridge_def Let_def intro: keeps)

lemma cmd_Bind_keeps [keeps]: "sys_inv s \<Longrightarrow> sys_inv (snd (cmd_Bind env me fd addr s))"
proof -
  assume inv: "sys_inv s"
  have "sys_inv (case bind_learn_ip env fd s' of (ip, s3) \<Rightarrow> bind_bridge env me fd port ip s3)" if "sys_inv s'" for s' port
    using bind_learn_ip_keeps [of env fd s'] that bind_bridge_keeps by (cases "bind_learn_ip env fd s'") simp
  then show ?thesis using inv by (auto simp: cmd_Bind_def forward_def Let_def)
qed

lemma cmd_Listen_keeps [keeps]: "sys_inv s \<Longrightarrow> sys_inv (snd (cmd_Listen env me fd n s))"
  by (simp add: cmd_Listen_def forward_def Let_def)

lemma EnsureRelayConnected_conns:
  "g_vtcp_conns (snd (EnsureRelayConnected env s)) = g_vtcp_conns s"
  "g_active_ldn_instance (snd (EnsureRelayConnected env s)) = g_active_ldn_instance s"
  "g_services (snd (EnsureRelayConnected env s)) = g_services s"
  by (simp_all add: EnsureRelayConnected_def ConnectRelayLocked_def EnsureSocketStack_def Let_def split_beta)

lemma SendTo_tcp_keeps:
  assumes "sys_inv s" and "k < length (g_vtcp_conns s)"
  shows "sys_inv (snd (SendTo_tcp env me k p s))"
proof -
  obtain up s1 where e: "EnsureRelayConnected env s = (up, s1)" by fastforce
  have s1: "sys_inv s1" "k < length (g_vtcp_conns s1)"
    using EnsureRelayConnected_keeps [OF assms(1), of env] EnsureRelayConnected_conns(1) [of env s] assms(2)
    by (simp_all add: e)
  have "sys_inv (snd (vtcp_send io ip now k p s1))" if "length p \<le> VTcpInboxCap" for io ip now
    by (rule vtcp_send_keeps [OF s1 that])
  then show ?thesis using assms(1) s1 by (auto simp: SendTo_tcp_def e Let_def split: prod.split) (metis leI snd_conv)
qed

lemma SendTo_udp_keeps: "sys_inv s \<Longrightarrow> sys_inv (snd (SendTo_udp env me p addr s))"
proof -
  assume "sys_inv s"
  then have "sys_inv (snd (EnsureRelayConnected env s))" by (rule keeps)
  then show ?thesis
    using sys_inv_wf SendIpv4_wf
    by (auto simp: SendTo_udp_def Let_def split_beta split: option.split intro!: sys_inv_relay)
qed

lemma cmd_SendTo_keeps [keeps]: "sys_inv s \<Longrightarrow> sys_inv (snd (cmd_SendTo env me fd fl p addr s))"
  by (auto simp: cmd_SendTo_def forward_def SendTo_udp_keeps dest!: find_fd_SomeD intro!: SendTo_tcp_keeps
      split: option.split)

lemma pop_queue_ok: "queue_ok q \<Longrightarrow> PopControlPacketForPort p q = Some (e, q') \<Longrightarrow> queue_ok q'"
  using cq.pop_Some [of q p e q'] by (auto simp: queue_ok_def)

lemma sys_inv_queue: "sys_inv s \<Longrightarrow> queue_ok q \<Longrightarrow> sys_inv (s\<lparr>g_control_queue := q\<rparr>)"
  by (simp add: sys_inv_def bridge_inv_def vtcp_inv_def conn_ids_def)

lemma RecvFrom_udp_keeps: "sys_inv s \<Longrightarrow> sys_inv (snd (RecvFrom_udp env me n a s))"
proof -
  assume inv: "sys_inv s"
  then have "queue_ok (g_control_queue s)" by (simp add: sys_inv_def bridge_inv_def)
  then have "sys_inv (s\<lparr>g_control_queue := q'\<rparr>)" if "PopControlPacketForPort p (g_control_queue s) = Some (e, q')"
    for p e q'
    using sys_inv_queue [OF inv] pop_queue_ok that by blast
  then show ?thesis using inv by (auto simp: RecvFrom_udp_def Let_def split: option.split)
qed

lemma RecvFrom_tcp_keeps:
  "sys_inv s \<Longrightarrow> k < length (g_vtcp_conns s) \<Longrightarrow> sys_inv (snd (RecvFrom_tcp env k n a s))"
  using vtcp_read_keeps [of s k n] by (auto simp: RecvFrom_tcp_def Let_def split: prod.split)

lemma cmd_RecvFrom_keeps [keeps]: "sys_inv s \<Longrightarrow> sys_inv (snd (cmd_RecvFrom env me fd fl n a s))"
proof -
  assume "sys_inv s"
  then have d: "sys_inv (DrainRelay env s)" by (rule keeps)
  then show ?thesis
    using RecvFrom_udp_keeps [OF d] RecvFrom_tcp_keeps [OF d]
    by (auto simp: cmd_RecvFrom_def Let_def forward_def dest!: find_fd_SomeD split: option.split)
qed

lemma close_vtcp_keeps: "sys_inv s \<Longrightarrow> sys_inv (snd (close_vtcp env me fd s))"
  by (auto simp: close_vtcp_def Let_def split: option.split intro!: keeps)

lemma close_unbridge_keeps: "sys_inv s \<Longrightarrow> sys_inv (close_unbridge me s)"
proof -
  have wf: "relay_wf (g_relay s) \<Longrightarrow> relay_wf (RelayClose (g_relay s))" by (rule RelayClose_wf)
  have "g_relay (upd_service me f s') = g_relay s'" for f s' by (simp add: upd_service_def)
  then show "sys_inv s \<Longrightarrow> sys_inv (close_unbridge me s)"
    using wf by (auto simp: close_unbridge_def Let_def sys_inv_wf intro!: sys_inv_relay)
qed

lemma cmd_Close_keeps [keeps]: "sys_inv s \<Longrightarrow> sys_inv (snd (cmd_Close env me fd s))"
proof -
  assume "sys_inv s"
  then have "sys_inv (snd (close_vtcp env me fd s))" by (rule close_vtcp_keeps)
  then show ?thesis by (auto simp: cmd_Close_def forward_def Let_def split_beta intro!: close_unbridge_keeps)
qed

text \<open>\<open>Accept\<close> gives the new connection an fd that no other one in use has.\<close>

definition accept_conn :: "pending_accept \<Rightarrow> int \<Rightarrow> vtcp_conn" where
  "accept_conn p fd = vtcp_conn_init\<lparr>c_used := True, c_fd := fd, c_established := True,
     c_peer_ip := p_peer_ip p, c_peer_port := p_peer_port p,
     c_our_seq := p_our_isn p + 1, c_their_seq := p_their_isn p + 1\<rparr>"

lemma accept_scan_Some:
  "accept_scan left i me s = Some (k, s') \<Longrightarrow>
     \<exists>j. i \<le> j \<and> j < i + left \<and> p_used (g_pending_accepts s ! j) \<and> p_got_final_ack (g_pending_accepts s ! j)
       \<and> AllocVTcpConn me s = Some (k, upd_conn k (\<lambda>c. vtcp_conn_init\<lparr>c_used := True\<rparr>) s)
       \<and> s' = (upd_conn k (\<lambda>c. accept_conn (g_pending_accepts s ! j) (g_next_synthetic_fd s)) s)
              \<lparr>g_pending_accepts := (g_pending_accepts s)[j := (g_pending_accepts s ! j)\<lparr>p_used := False\<rparr>],
               g_next_synthetic_fd := g_next_synthetic_fd s + 1\<rparr>"
proof (induction left i me s rule: accept_scan.induct)
  case (1 i me s)
  then show ?case by simp
next
  case (2 left i me s)
  let ?p = "g_pending_accepts s ! i"
  show ?case
  proof (cases "p_used ?p \<and> p_got_final_ack ?p \<and> AllocVTcpConn me s \<noteq> None")
    case False
    then have "accept_scan left (i + 1) me s = Some (k, s')"
      using 2(3) by (auto simp: Let_def split: if_splits option.splits)
    then show ?thesis using 2 False by (auto simp: Let_def split: option.splits) (metis add_Suc_right Suc_leD add_Suc)+
  next
    case True
    then obtain k1 s1 where a: "AllocVTcpConn me s = Some (k1, s1)" by auto
    note aD = alloc_SomeD [OF a]
    have "k = k1" using 2(3) True a by (auto simp: Let_def)
    moreover have "s' = (upd_conn k (\<lambda>c. accept_conn ?p (g_next_synthetic_fd s)) s)
              \<lparr>g_pending_accepts := (g_pending_accepts s)[i := ?p\<lparr>p_used := False\<rparr>],
               g_next_synthetic_fd := g_next_synthetic_fd s + 1\<rparr>"
      using 2(3) True a aD by (auto simp: Let_def upd_conn_def conn_at_def accept_conn_def vtcp_conn_init_def)
    ultimately show ?thesis using True a aD by (intro exI [of _ i]) auto
  qed
qed

lemma accept_scan_keeps:
  assumes inv: "sys_inv s" and a: "accept_scan left i me s = Some (k, s')"
  shows "sys_inv s'"
proof -
  obtain j where alloc: "AllocVTcpConn me s = Some (k, upd_conn k (\<lambda>c. vtcp_conn_init\<lparr>c_used := True\<rparr>) s)"
    and s': "s' = (upd_conn k (\<lambda>c. accept_conn (g_pending_accepts s ! j) (g_next_synthetic_fd s)) s)
              \<lparr>g_pending_accepts := (g_pending_accepts s)[j := (g_pending_accepts s ! j)\<lparr>p_used := False\<rparr>],
               g_next_synthetic_fd := g_next_synthetic_fd s + 1\<rparr>"
    using accept_scan_Some [OF a] by blast
  let ?c = "accept_conn (g_pending_accepts s ! j) (g_next_synthetic_fd s)"
  have s: "bridge_inv s" "synth_ok (conn_ids s) (g_next_synthetic_fd s)" using inv by (simp_all add: sys_inv_def)
  have ok: "conn_ok ?c" by (simp add: accept_conn_def conn_ok_def vtcp_conn_init_def)
  have b: "bridge_inv (upd_conn k (\<lambda>c. ?c) s)" by (rule bridge_inv_upd [OF s(1) ok])
  have "pend_ok ((g_pending_accepts s)[j := (g_pending_accepts s ! j)\<lparr>p_used := False\<rparr>])"
    using s(1) by (intro pend_ok_keep) (simp_all add: bridge_inv_def vtcp_inv_def)
  then have "bridge_inv s'" using b by (simp add: s' bridge_inv_def vtcp_inv_def)
  moreover have "synth_ok ((conn_ids s)[k := conn_id ?c]) (g_next_synthetic_fd s + 1)"
  proof -
    have id: "conn_id ?c = (True, g_next_synthetic_fd s, p_peer_ip (g_pending_accepts s ! j),
        p_peer_port (g_pending_accepts s ! j))"
      by (simp add: accept_conn_def conn_id_def vtcp_conn_init_def)
    have "fst (snd (conn_ids s ! i)) \<noteq> g_next_synthetic_fd s" if "i < length (conn_ids s)" "fst (conn_ids s ! i)" for i
      using synth_ok_bound [OF s(2) that] by simp
    then show ?thesis unfolding id by (intro synth_ok_update [OF s(2)]) auto
  qed
  moreover have "conn_ids s' = (conn_ids s)[k := conn_id ?c]" using conn_ids_set by (simp add: s' conn_ids_def)
  ultimately show ?thesis by (simp add: sys_inv_def s')
qed

lemma cmd_Accept_keeps [keeps]: "sys_inv s \<Longrightarrow> sys_inv (snd (cmd_Accept env me fd n s))"
proof -
  assume inv: "sys_inv s"
  then have d: "sys_inv (DrainRelay env s)" by (rule keeps)
  show ?thesis using inv d accept_scan_keeps [OF d] by (auto simp: cmd_Accept_def Let_def forward_def split: option.split)
qed

lemma connect_wait_keeps:
  "sys_inv s \<Longrightarrow> sys_inv (snd (snd (connect_wait left env world me fd i s)))"
proof (induction left arbitrary: i s)
  case 0
  then show ?case by simp
next
  case (Suc left)
  obtain now ds where w: "world i = (now, ds)" by fastforce
  have "sys_inv (DrainRelay (env\<lparr>e_now := now\<rparr>) (sleep_step ds s))"
    by (rule DrainRelay_keeps [OF sleep_step_keeps [OF Suc.prems]])
  then show ?case using Suc.IH w by (simp add: Let_def)
qed

lemma connect_attempts_keeps:
  "sys_inv s \<Longrightarrow> sys_inv (snd (snd (connect_attempts left env world me fd syn i s)))"
proof (induction left env world me fd syn i s rule: connect_attempts.induct)
  case (1 env world me fd syn i s)
  then show ?case by simp
next
  case (2 left env world me fd syn i s)
  obtain est i' s2 where w: "connect_wait ConnectPollsPerAttempt env world me fd i (send_seg (e_io env) syn [] s) = (est, i', s2)"
    by (cases "connect_wait ConnectPollsPerAttempt env world me fd i (send_seg (e_io env) syn [] s)") blast
  then have "sys_inv s2"
    using connect_wait_keeps [OF send_seg_keeps [OF 2(2)], of ConnectPollsPerAttempt env world me fd i "e_io env" syn "[]"]
    by simp
  then show ?case using 2(1) [OF refl w [symmetric] refl refl] w by (simp add: Let_def)
qed

lemma draw_random_keeps: "sys_inv (snd (draw_random io s)) = sys_inv s"
  by (simp add: draw_random_def)

lemma cmd_Connect_keeps [keeps]:
  assumes inv: "sys_inv s" and fd: "fd < 1000"
  shows "sys_inv (snd (cmd_Connect env world me fd addr s))"
proof -
  have c: "sys_inv (snd (connect_vtcp env world me fd ip port s))" for ip port
  proof -
    obtain up s1 where e: "EnsureRelayConnected env s = (up, s1)" by fastforce
    then have s1: "sys_inv s1" using EnsureRelayConnected_keeps [OF inv, of env] by simp
    obtain isn s2 where d: "draw_random (e_io env) s1 = (isn, s2)" by fastforce
    then have s2: "sys_inv s2" using draw_random_keeps [of "e_io env" s1] s1 by simp
    show ?thesis
    proof (cases "AllocVTcpConn me s2")
      case None
      then show ?thesis using s1 s2 by (simp add: connect_vtcp_def e d)
    next
      case (Some r)
      obtain k s3 where r: "r = (k, s3)" by fastforce
      then have s3: "sys_inv s3" using alloc_keeps [OF s2] Some by blast
      define s4 where "s4 = upd_conn k (\<lambda>c. c\<lparr>c_fd := fd, c_peer_ip := ip, c_peer_port := port,
                             c_our_isn := isn, c_syn_sent_awaiting_synack := True\<rparr>) s3"
      have "conn_ok (conn_at k s3)" 
        using alloc_SomeD [OF Some [unfolded r]] by (simp add: conn_at_def conn_ok_def vtcp_conn_init_def)
      then have s4: "sys_inv s4" unfolding s4_def
        using fd by (intro set_conn_keeps [OF s3]) (simp_all add: conn_ok_def)
      define syn where "syn = seg (m_bridged_local_ip (g_services s4 me)) ip port isn 0 TCP_SYN"
      obtain est i s5 where a: "connect_attempts ConnectMaxAttempts env world me fd syn 0 s4 = (est, i, s5)"
        by (cases "connect_attempts ConnectMaxAttempts env world me fd syn 0 s4") blast
      then have s5: "sys_inv s5"
        using connect_attempts_keeps [OF s4, of ConnectMaxAttempts env world me fd syn 0] by simp
      have "snd (connect_vtcp env world me fd ip port s) = (if \<not> up then s1 else if \<not> est then
          (case FindVTcpConnByFd me fd s5 of None \<Rightarrow> s5 | Some k' \<Rightarrow> upd_conn k' (\<lambda>c. vtcp_conn_init) s5) else s5)"
        using a by (simp add: connect_vtcp_def e d Some r Let_def s4_def [symmetric] syn_def [symmetric])
      then show ?thesis using s1 s5 by (auto intro: keeps split: option.split)
    qed
  qed
  show ?thesis using c inv by (simp add: cmd_Connect_def forward_def)
qed

text \<open>What \<open>Poll\<close> and \<open>Select\<close> do to the state is the draining at their start.\<close>

lemma snd_letI: "(\<And>x. x = e \<Longrightarrow> snd (f x) = c) \<Longrightarrow> snd (Let e f) = c"
  by simp

lemma snd_splitI: "(\<And>x y. snd (f x y) = c) \<Longrightarrow> snd (case p of (x, y) \<Rightarrow> f x y) = c"
  by (cases p) simp

lemma snd_ifI: "snd x = c \<Longrightarrow> snd y = c \<Longrightarrow> snd (if b then x else y) = c"
  by simp

lemma cmd_Poll_keeps [keeps]:
  "sys_inv s \<Longrightarrow> sys_inv (snd (cmd_Poll env real me pfds cap n t s))"
proof -
  have "snd (cmd_Poll env real me pfds cap n t s) = DrainRelay env s"
    unfolding cmd_Poll_def by (intro snd_letI snd_splitI snd_ifI) simp_all
  then show "sys_inv s \<Longrightarrow> sys_inv (snd (cmd_Poll env real me pfds cap n t s))" by (simp add: keeps)
qed

lemma cmd_Select_keeps [keeps]:
  "sys_inv s \<Longrightarrow> sys_inv (snd (cmd_Select env real me n rs ws es words t s))"
proof -
  have "snd (cmd_Select env real me n rs ws es words t s) = DrainRelay env s"
    unfolding cmd_Select_def by (intro snd_letI snd_splitI snd_ifI) simp_all
  then show "sys_inv s \<Longrightarrow> sys_inv (snd (cmd_Select env real me n rs ws es words t s))" by (simp add: keeps)
qed

section \<open>The running system\<close>

text \<open>
  One rule per thing that can happen: a command of a client, a datagram burst handled by the pump
  thread, a keepalive, a wake-up of the drain thread or of the watchdog, the switches of the overlay,
  a session that opens or closes. The platform \<open>env\<close> may be another one in each step. A real fd is
  below 1000 (the fd table of \<^verbatim>\<open>bsd:u\<close> is small), which \<open>Connect\<close> relies on.
\<close>

inductive sys_step :: "bridge \<Rightarrow> bridge \<Rightarrow> bool" where
  socket: "sys_step s (snd (cmd_Socket env me d t p s))"
| socket_exempt: "sys_step s (snd (cmd_SocketExempt env me d t p s))"
| passed: "sys_step s (snd (pass env cmd args bufs s))"
| bind: "sys_step s (snd (cmd_Bind env me fd addr s))"
| listen: "sys_step s (snd (cmd_Listen env me fd n s))"
| accept: "sys_step s (snd (cmd_Accept env me fd n s))"
| connect: "fd < 1000 \<Longrightarrow> sys_step s (snd (cmd_Connect env world me fd addr s))"
| send_to: "sys_step s (snd (cmd_SendTo env me fd fl data addr s))"
| recv_from: "sys_step s (snd (cmd_RecvFrom env me fd fl n a s))"
| close: "sys_step s (snd (cmd_Close env me fd s))"
| poll: "sys_step s (snd (cmd_Poll env realp me pfds cap n timeout s))"
| select: "sys_step s (snd (cmd_Select env reals me n rs ws es words tm s))"
| pump: "sys_step s (sleep_step dgrams s)"
| keepalive: "sys_step s (s\<lparr>g_relay := CheckKeepalive (e_sendto (e_io env)) ns (e_tick (env :: benv)) (g_relay s)\<rparr>)"
| drain: "sys_step s (drain_thread_tick env s)"
| watchdog: "sys_step s (watchdog_tick env s)"
| stop: "sys_step s (BridgeStop s)"
| start: "sys_step s (BridgeStart env s)"
| reconnect: "sys_step s (ForceReconnect env s)"
| real_ip: "sys_step s (snd (GetRealIp env s))"
| should_mitm: "sys_step s (s\<lparr>g_dummy_skip := snd (ShouldMitm is_app prog pid (g_dummy_skip s))\<rparr>)"
| session: "sys_step s (s\<lparr>g_services := (g_services s)(me := service_init pid)\<rparr>)"
| session_end: "sys_step s (service_destroy me s)"

inductive sys_reachable :: "bridge \<Rightarrow> bool" where
  boot: "sys_reachable bridge_init"
| step: "sys_reachable s \<Longrightarrow> sys_step s s' \<Longrightarrow> sys_reachable s'"

lemma pass_keeps [keeps]: "sys_inv s \<Longrightarrow> sys_inv (snd (pass env cmd args bufs s))"
  by (simp add: pass_def)

lemma keepalive_keeps [keeps]:
  assumes "sys_inv s"
  shows "sys_inv (s\<lparr>g_relay := CheckKeepalive os ns t (g_relay s)\<rparr>)"
proof -
  have "rx_eq (g_relay s) (SendKeepalive os (g_relay s))" unfolding SendKeepalive_def by (rule SendRaw_rx_eq)
  then have "relay_wf (CheckKeepalive os ns t (g_relay s))"
    using sys_inv_wf [OF assms] by (simp add: CheckKeepalive_def rx_eq_iff relay_wf_def)
  then show ?thesis by (rule sys_inv_relay [OF assms])
qed

lemma GetRealIp_keeps [keeps]: "sys_inv s \<Longrightarrow> sys_inv (snd (GetRealIp env s))"
  by (simp add: GetRealIp_def Let_def)

lemma drain_thread_keeps [keeps]: "sys_inv s \<Longrightarrow> sys_inv (drain_thread_tick env s)"
proof -
  assume "sys_inv s"
  then have "sys_inv (DrainRelay env s)" by (rule keeps)
  then show ?thesis by (simp add: drain_thread_tick_def DrainRelay_def [symmetric] Let_def keeps split: option.split)
qed

lemma sys_step_inv: "sys_step s s' \<Longrightarrow> sys_inv s \<Longrightarrow> sys_inv s'"
  by (induction rule: sys_step.induct) (simp_all add: keeps)

lemma sys_inv_init: "sys_inv bridge_init"
proof -
  have "conn_ids bridge_init = replicate MaxVTcpConns (conn_id vtcp_conn_init)"
    by (simp add: conn_ids_def bridge_init_def vtcp_init_def vtcp.defs)
  then show ?thesis using bridge_inv_init
    by (simp add: sys_inv_def synth_ok_def conn_id_def vtcp_conn_init_def bridge_init_def vtcp_init_def vtcp.defs)
qed

interpretation bridge_sys: invariant_system bridge_init sys_step sys_inv
  by unfold_locales (auto intro: sys_inv_init sys_step_inv)

lemma sys_reachable_run: "sys_reachable s \<Longrightarrow> sys_step\<^sup>*\<^sup>* bridge_init s"
  by (induction rule: sys_reachable.induct) (auto intro: rtranclp.rtrancl_into_rtrancl)

lemma sys_reachable_inv: "sys_reachable s \<Longrightarrow> sys_inv s"
  by (rule bridge_sys.run_from_start [OF sys_reachable_run])

text \<open>The parts of the invariant, for the states that are reachable.\<close>

lemma reachable_bounds:
  assumes "sys_reachable s"
  shows "length (g_vtcp_conns s) = MaxVTcpConns"
    and "length (g_pending_accepts s) = MaxPendingAccepts"
    and "\<forall>c \<in> set (g_vtcp_conns s). length (c_inbox c) \<le> VTcpInboxCap
           \<and> length (c_unacked_data c) \<le> VTcpInboxCap \<and> c_retransmit_count c \<le> MaxDataRetransmits"
    and "\<forall>i < length (g_pending_accepts s). \<forall>j < length (g_pending_accepts s).
           p_used (g_pending_accepts s ! i) \<and> p_used (g_pending_accepts s ! j)
           \<and> p_peer_ip (g_pending_accepts s ! i) = p_peer_ip (g_pending_accepts s ! j) \<longrightarrow> i = j"
    and "length (control_contents (g_control_queue s)) \<le> ControlQueueSize"
    and "\<forall>e \<in> set (control_contents (g_control_queue s)).
           \<exists>ip payload. ParseIpv4Udp (cp_data e) = Some (Some ((ip, cp_dst_port e), payload))"
    and "length (ring_contents (m_queue (g_relay s))) \<le> QueueSize"
    and "\<forall>p \<in> set (ring_contents (m_queue (g_relay s))). length p \<le> PumpPktSize"
    and "\<forall>i < length (g_vtcp_conns s). \<forall>j < length (g_vtcp_conns s).
           c_used (conn_at i s) \<and> c_used (conn_at j s) \<and> c_fd (conn_at i s) = c_fd (conn_at j s)
           \<and> 1000 \<le> c_fd (conn_at i s) \<longrightarrow> i = j"
proof -
  have inv: "vtcp_inv s" "relay_wf (g_relay s)" "queue_ok (g_control_queue s)"
    and ids: "synth_ok (conn_ids s) (g_next_synthetic_fd s)"
    using sys_reachable_inv [OF assms] by (simp_all add: sys_inv_def bridge_inv_def)
  show "length (g_vtcp_conns s) = MaxVTcpConns"
    and "length (g_pending_accepts s) = MaxPendingAccepts"
    using inv(1) by (simp_all add: vtcp_inv_def)
  show "\<forall>c \<in> set (g_vtcp_conns s). length (c_inbox c) \<le> VTcpInboxCap
           \<and> length (c_unacked_data c) \<le> VTcpInboxCap \<and> c_retransmit_count c \<le> MaxDataRetransmits"
    using inv(1) by (simp add: vtcp_inv_def conn_ok_def)
  show "\<forall>i < length (g_pending_accepts s). \<forall>j < length (g_pending_accepts s).
           p_used (g_pending_accepts s ! i) \<and> p_used (g_pending_accepts s ! j)
           \<and> p_peer_ip (g_pending_accepts s ! i) = p_peer_ip (g_pending_accepts s ! j) \<longrightarrow> i = j"
    using inv(1) by (auto simp: vtcp_inv_def dest: pend_okD)
  show "length (control_contents (g_control_queue s)) \<le> ControlQueueSize"
    and "\<forall>e \<in> set (control_contents (g_control_queue s)).
           \<exists>ip payload. ParseIpv4Udp (cp_data e) = Some (Some ((ip, cp_dst_port e), payload))"
    using inv(3) control_length by (simp_all add: queue_ok_def entry_ok_def)
  show "length (ring_contents (m_queue (g_relay s))) \<le> QueueSize"
    and "\<forall>p \<in> set (ring_contents (m_queue (g_relay s))). length p \<le> PumpPktSize"
    using inv(2) by (simp_all add: relay_wf_def ring_inv_def)
  show "\<forall>i < length (g_vtcp_conns s). \<forall>j < length (g_vtcp_conns s).
           c_used (conn_at i s) \<and> c_used (conn_at j s) \<and> c_fd (conn_at i s) = c_fd (conn_at j s)
           \<and> 1000 \<le> c_fd (conn_at i s) \<longrightarrow> i = j"
    using ids by (simp add: synth_ok_def conn_ids_def conn_id_def conn_at_def)
qed



end
