(* ===== verification/Transparent.thy ===== *)
theory Transparent
  imports Ready SysInv
begin

text \<open>
  What an application that takes no part in local wireless play sees: every command on a socket that
  was never bridged is the same call to the real service and its reply, as if the module were not
  there. The reference is \<open>pure_forward\<close>. The one place where it is not (\<open>Poll\<close> swallows an error) is
  stated last.
\<close>

section \<open>The reference: a module that only forwards\<close>

definition pure_forward :: "benv \<Rightarrow> bsd_call \<Rightarrow> bridge \<Rightarrow> reply \<times> bridge" where
  "pure_forward env call s =
     (reply_real (e_bsd env (g_bsd_log s) call), s\<lparr>g_bsd_log := g_bsd_log s @ [call]\<rparr>)"

definition stranger :: "nat \<Rightarrow> bridge \<Rightarrow> bool" where
  "stranger me s \<longleftrightarrow> g_active_ldn_instance s \<noteq> Some me"

named_theorems strange \<open>the guards of the commands for an instance that owns nothing\<close>

lemma stranger_simps [strange]:
  assumes "stranger me s"
  shows "FindVTcpConnByFd me fd s = None" "IsOwnTcpListenFd me fd s = False" "is_synthetic_fd me fd s = False"
    "AllocVTcpConn me s = None"
  using assms by (simp_all add: stranger_def FindVTcpConnByFd_def IsOwnTcpListenFd_def is_synthetic_fd_def
      AllocVTcpConn_def)

lemma stranger_VFd [strange]: "stranger me s \<Longrightarrow> \<not> IsBridged fd (g_services s me) \<Longrightarrow> \<not> VFdHasPendingRead me fd s"
  by (auto simp: VFdHasPendingRead_def IsBridged_def strange)

text \<open>Draining on its behalf changes nothing the instance can see.\<close>

lemma drain_stranger:
  assumes "sys_reachable s"
  shows "stranger me (DrainRelay env s) = stranger me s"
    and "g_services (DrainRelay env s) = g_services s" and "g_bsd_log (DrainRelay env s) = g_bsd_log s"
proof -
  have "drain_frame s (DrainRelay env s)"
    using DrainRawRelayQueue_spec [OF sys_inv_wf [OF sys_reachable_inv [OF assms]] refl] by (simp add: DrainRelay_def)
  then show "stranger me (DrainRelay env s) = stranger me s"
    and "g_services (DrainRelay env s) = g_services s" and "g_bsd_log (DrainRelay env s) = g_bsd_log s"
    by (simp_all add: drain_frame_iff stranger_def)
qed

section \<open>The commands\<close>


text \<open>A session that opened a datagram socket and got a real fd.\<close>

definition other_state :: bridge where
  "other_state = snd (cmd_Socket sample_benv 3 2 SOCK_DGRAM 17 bridge_init)"

lemma other_state_ok: "sys_reachable other_state" "stranger 3 other_state" "\<not> IsBridged 5 (g_services other_state 3)"
proof -
  show "sys_reachable other_state"
    unfolding other_state_def by (rule sys_reachable.step [OF sys_reachable.boot sys_step.socket])
  have v: "g_services other_state 3 = TrackFd fd SOCK_DGRAM (service_init 0)"
    if "fd = br_ret (e_bsd sample_benv [] (cmd_call 2 [2, SOCK_DGRAM, 17] []))" for fd
    using that by (simp add: other_state_def cmd_Socket_def forward_def upd_service_def bridge_init_def
        vtcp_init_def vtcp.defs)
  have "m_bridged_fd (TrackFd fd SOCK_DGRAM w) = m_bridged_fd w" for fd w
    by (simp add: TrackFd_def split: prod.split)
  then show "\<not> IsBridged 5 (g_services other_state 3)"
    using v [OF refl] by (simp add: IsBridged_def service_init_def)
  show "stranger 3 other_state"
    by (simp add: stranger_def other_state_def cmd_Socket_def forward_def upd_service_def bridge_init_def
        vtcp_init_def vtcp.defs)
qed


section \<open>Poll\<close>

text \<open>The copying loop over entries none of which is the bridged fd.\<close>

lemma poll_copy_plain:
  assumes "j \<le> length out" and "\<forall>p \<in> set out. pf_fd p \<noteq> m_bridged_fd v"
  shows "poll_copy v rs [j..<length out] j c out
     = (c + int (length (filter (\<lambda>i. poll_revents rs i \<noteq> 0) [j..<length out])),
        take j out @ map (\<lambda>i. (out ! i)\<lparr>pf_revents := poll_revents rs i\<rparr>) [j..<length out])"
  using assms
proof (induction "length out - j" arbitrary: j c out)
  case 0
  then show ?case by simp
next
  case (Suc d)
  define out1 where "out1 = out[j := (out ! j)\<lparr>pf_revents := poll_revents rs j\<rparr>]"
  have j: "j < length out" "[j..<length out] = j # [Suc j..<length out]"
    using Suc.hyps(2) by (simp_all add: upt_conv_Cons)
  have "\<forall>p \<in> set out1. pf_fd p \<noteq> m_bridged_fd v"
    using Suc.prems(2) j(1) by (auto simp: out1_def dest!: set_list_update_cases)
  then have IH: "poll_copy v rs [Suc j..<length out] (Suc j) c' out1
     = (c' + int (length (filter (\<lambda>i. poll_revents rs i \<noteq> 0) [Suc j..<length out])),
        take (Suc j) out1 @ map (\<lambda>i. (out1 ! i)\<lparr>pf_revents := poll_revents rs i\<rparr>) [Suc j..<length out])" for c'
    using Suc.hyps(1) [of out1 "Suc j" c'] Suc.hyps(2) j(1) by (simp add: out1_def)
  have "pf_fd (out ! j) \<noteq> m_bridged_fd v" using Suc.prems(2) j(1) by simp
  then have "poll_copy v rs [j..<length out] j c out
      = poll_copy v rs [Suc j..<length out] (Suc j) (if poll_revents rs j \<noteq> 0 then c + 1 else c) out1"
    unfolding j(2) by (simp add: Let_def out1_def)
  moreover have "take (Suc j) out1 = take j out @ [(out ! j)\<lparr>pf_revents := poll_revents rs j\<rparr>]"
    using j(1) by (simp add: out1_def take_Suc_conv_app_nth)
  moreover have "map (\<lambda>i. (out1 ! i)\<lparr>pf_revents := poll_revents rs i\<rparr>) [Suc j..<length out]
      = map (\<lambda>i. (out ! i)\<lparr>pf_revents := poll_revents rs i\<rparr>) [Suc j..<length out]"
    by (simp add: out1_def)
  ultimately show ?case by (simp add: IH j(2) del: poll_copy.simps)
qed

lemma poll_inject_none:
  "\<forall>i \<in> set is. \<not> VFdHasPendingRead me (pf_fd (out ! i)) s \<Longrightarrow> poll_inject me s is c out = (c, out)"
  by (induction "is") simp_all

text \<open>For an instance that does not own the session, \<open>Poll\<close> over fds none of which is its bridged
  one asks the real service about exactly the same entries with the same timeout and returns its
  flags entry by entry - but its verdict only when that is positive: a real poll that fails
  (a negative result, or an error of the call itself) is reported as \<open>no fd is ready\<close>.\<close>

theorem unbridged_poll:
  assumes reach: "sys_reachable s" and owner: "stranger me s"
    and fds: "\<forall>p \<in> set pfds. pf_fd p \<noteq> m_bridged_fd (g_services s me)"
    and shape: "pfds \<noteq> []" "length pfds \<le> MaxPollFds" "length pfds \<le> cap"
    and real: "real (map (\<lambda>p. (pf_fd p, pf_events p)) pfds) timeout = (rc, ret, err, rs)"
  shows "fst (cmd_Poll env real me pfds cap (int (length pfds)) timeout s) =
     (if ret > 0
      then \<lparr>pr_rc = 0, pr_count = int (length (filter (\<lambda>i. poll_revents rs i \<noteq> 0) [0..<length pfds])),
            pr_err = ErrReal err,
            pr_fds = map (\<lambda>i. (pfds ! i)\<lparr>pf_revents := poll_revents rs i\<rparr>) [0..<length pfds]\<rparr>
      else \<lparr>pr_rc = 0, pr_count = 0, pr_err = ErrReal err, pr_fds = map (\<lambda>p. p\<lparr>pf_revents := 0\<rparr>) pfds\<rparr>)"
proof -
  let ?s = "DrainRelay env s" and ?n = "length pfds"
  define out0 where "out0 = map (\<lambda>p. p\<lparr>pf_revents := 0\<rparr>) pfds"
  have st: "stranger me ?s" "g_services ?s = g_services s" using drain_stranger [OF reach] owner by simp_all
  have no: "\<not> VFdHasPendingRead me (pf_fd p) ?s" if "p \<in> set pfds" for p
    using stranger_VFd [OF st(1), of "pf_fd p"] st(2) fds that by (auto simp: IsBridged_def)
  have pend: "(\<exists>i \<in> set [0..<?n]. VFdHasPendingRead me (pf_fd (pfds ! i)) ?s) = False" using no by simp
  have q: "map (\<lambda>i. (pf_fd (pfds ! i), pf_events (pfds ! i))) [0..<?n] = map (\<lambda>p. (pf_fd p, pf_events p)) pfds"
    by (rule nth_equalityI) simp_all
  have fwd: "filter (\<lambda>i. \<not> is_synthetic_fd me (pf_fd (pfds ! i)) ?s) [0..<?n] = [0..<?n]"
    using st(1) by (simp add: strange)
  have out0: "length out0 = ?n" "\<forall>p \<in> set out0. pf_fd p \<noteq> m_bridged_fd (g_services ?s me)"
    using fds st(2) by (auto simp: out0_def)
  define out1 where "out1 = map (\<lambda>i. (pfds ! i)\<lparr>pf_revents := poll_revents rs i\<rparr>) [0..<?n]"
  have copy: "poll_copy (g_services ?s me) rs [0..<?n] 0 0 out0
      = (int (length (filter (\<lambda>i. poll_revents rs i \<noteq> 0) [0..<?n])), out1)"
    using poll_copy_plain [OF _ out0(2), of 0 rs 0] out0(1) by (simp add: out0_def out1_def)
  have inj: "poll_inject me ?s [0..<?n] c out1 = (c, out1)" "poll_inject me ?s [0..<?n] c out0 = (c, out0)" for c
    by (rule poll_inject_none, simp add: no out0_def out1_def)+
  show ?thesis
    using shape unfolding cmd_Poll_def Let_def nat_int pend fwd q
    by (simp add: real copy inj fwd out0_def [symmetric] out1_def [symmetric])
qed

theorem unbridged_poll_witness:
  "pr_count (fst (cmd_Poll sample_benv (\<lambda>q t. (0, - 1, 9, [])) 3 [\<lparr>pf_fd = 5, pf_events = POLLIN, pf_revents = 0\<rparr>]
     1 1 100 other_state)) = 0"
proof -
  let ?p = "[\<lparr>pf_fd = 5, pf_events = POLLIN, pf_revents = 0\<rparr>]"
  have "\<forall>p \<in> set ?p. pf_fd p \<noteq> m_bridged_fd (g_services other_state 3)"
    using other_state_ok(3) by (simp add: IsBridged_def)
  from unbridged_poll [OF other_state_ok(1,2) this, of 1 "\<lambda>q t. (0, - 1, 9, [])" 100, OF _ _ _ refl]
  show ?thesis by (simp add: MaxPollFds_def)
qed

end
