(* ===== verification/Session.thy ===== *)
theory Session
  imports SysInv UdpPath
begin

text \<open>
  How a virtual connection comes to be on either side: \<open>Accept\<close> on the host (theorem \<open>accept_outcome\<close>) and
  \<open>Connect\<close> on the client (\<open>connect_outcome\<close>, and \<open>connect_silent_peer\<close> for a peer that never answers).
\<close>

section \<open>Nothing arrives\<close>

text \<open>With an empty relay queue and nothing to retransmit, draining does nothing at all.\<close>

lemma drain_quiet:
  assumes "drained s = []" and "\<forall>c \<in> set (g_vtcp_conns s). \<not> c_has_unacked_data c"
  shows "DrainRelay env s = s"
proof -
  have "retransmit_conn io ip now k s = s" if "k < length (g_vtcp_conns s)" for io ip now k
    using assms(2) that by (simp add: retransmit_conn_def conn_at_def)
  then have "fold (retransmit_conn io ip now) ks s = s" if "set ks \<subseteq> {..<length (g_vtcp_conns s)}" for io ip now ks
    using that by (induction ks) auto
  then have "CheckDataRetransmits io ip now s = s" for io ip now
    unfolding CheckDataRetransmits_def by (metis atLeast_upt order_refl)
  moreover have "rq_count (m_queue (g_relay s)) = 0" using assms(1) by (simp add: drained_def ring_nil_iff)
  ultimately show ?thesis by (simp add: DrainRelay_def DrainRawRelayQueue_def split: option.split)
qed

section \<open>Accept\<close>

definition acceptable :: "bridge \<Rightarrow> nat \<Rightarrow> bool" where
  "acceptable s j \<longleftrightarrow> p_used (g_pending_accepts s ! j) \<and> p_got_final_ack (g_pending_accepts s ! j)"

lemma accept_scan_None_iff:
  "accept_scan left i me s = None \<longleftrightarrow> AllocVTcpConn me s = None \<or> (\<forall>j. i \<le> j \<and> j < i + left \<longrightarrow> \<not> acceptable s j)"
proof (induction left i me s rule: accept_scan.induct)
  case (1 i me s)
  then show ?case by auto
next
  case (2 left i me s)
  have split: "(\<forall>j. i \<le> j \<and> j < i + Suc left \<longrightarrow> \<not> acceptable s j)
      \<longleftrightarrow> \<not> acceptable s i \<and> (\<forall>j. i + 1 \<le> j \<and> j < i + 1 + left \<longrightarrow> \<not> acceptable s j)"
  proof -
    have eq: "i \<le> j \<and> j < i + Suc left \<longleftrightarrow> j = i \<or> (i + 1 \<le> j \<and> j < i + 1 + left)" for j by auto
    show ?thesis unfolding eq by blast
  qed
  show ?case
  proof (cases "acceptable s i \<and> AllocVTcpConn me s \<noteq> None")
    case True
    then show ?thesis using split by (auto simp: acceptable_def Let_def)
  next
    case False
    then have "accept_scan (Suc left) i me s = accept_scan left (i + 1) me s"
      by (auto simp: acceptable_def Let_def split: option.split)
    moreover have "accept_scan left (i + 1) me s = None
        \<longleftrightarrow> AllocVTcpConn me s = None \<or> (\<forall>j. i + 1 \<le> j \<and> j < i + 1 + left \<longrightarrow> \<not> acceptable s j)"
    proof (cases "acceptable s i")
      case True
      then have "AllocVTcpConn me s = None" using False by blast
      moreover have "accept_scan n j me s = None" for n j
        using calculation by (induction n j me s rule: accept_scan.induct) (simp_all add: Let_def)
      ultimately show ?thesis by simp
    qed (use 2(1) in \<open>auto simp: acceptable_def\<close>)
    ultimately show ?thesis using False split by auto
  qed
qed

text \<open>The connection that a completed handshake becomes.\<close>

lemma accept_conn_simps [simp]:
  "c_used (accept_conn p fd)" "c_established (accept_conn p fd)" "c_fd (accept_conn p fd) = fd"
  "c_peer_ip (accept_conn p fd) = p_peer_ip p" "c_peer_port (accept_conn p fd) = p_peer_port p"
  "c_our_seq (accept_conn p fd) = p_our_isn p + 1" "c_their_seq (accept_conn p fd) = p_their_isn p + 1"
  "c_inbox (accept_conn p fd) = []" "\<not> c_has_unacked_data (accept_conn p fd)" "\<not> c_peer_closed (accept_conn p fd)"
  by (simp_all add: accept_conn_def vtcp_conn_init_def)

text \<open>C16: \<open>Accept\<close> on the session listener succeeds exactly when a handshake is complete and a connection
  slot is free, and would block otherwise and change nothing (beyond handling what has arrived). On success it takes one
  completed handshake, frees its entry, and returns an fd from 1000 up that no connection in use has;
  that fd then names an established, empty connection to the address it reports, whose next sequence
  numbers in both directions are one past the initial ones of the handshake.\<close>

theorem accept_outcome:
  assumes inv: "sys_inv s" and own: "IsOwnTcpListenFd me fd s" and s1: "s1 = DrainRelay env s"
    and run: "cmd_Accept env me fd m s = (r, s')"
  shows "if AllocVTcpConn me s1 \<noteq> None \<and> (\<exists>j < length (g_pending_accepts s1). acceptable s1 j)
     then \<exists>j k p. j < length (g_pending_accepts s1) \<and> p = g_pending_accepts s1 ! j \<and> acceptable s1 j
       \<and> r_err r = ErrNone \<and> r_ret r = g_next_synthetic_fd s \<and> 1000 \<le> r_ret r
       \<and> r_addr r = take m (sockaddr_bytes (p_peer_ip p) (p_peer_port p))
       \<and> (\<forall>c \<in> set (g_vtcp_conns s1). c_used c \<longrightarrow> c_fd c \<noteq> r_ret r)
       \<and> FindVTcpConnByFd me (r_ret r) s' = Some k \<and> conn_at k s' = accept_conn p (r_ret r)
       \<and> \<not> p_used (g_pending_accepts s' ! j)
     else r = reply_local (- 1) EWOULDBLOCK \<and> s' = s1"
proof -
  have D: "drain_frame s s1" "sys_inv s1"
    using DrainRawRelayQueue_spec [OF sys_inv_wf [OF inv] refl] DrainRelay_keeps [OF inv]
    by (simp_all add: s1 DrainRelay_def)
  then have next_fd: "g_next_synthetic_fd s1 = g_next_synthetic_fd s" by (simp add: drain_frame_iff)
  let ?scan = "accept_scan (length (g_pending_accepts s1)) 0 me s1"
  have none: "?scan = None \<longleftrightarrow> \<not> (AllocVTcpConn me s1 \<noteq> None \<and> (\<exists>j < length (g_pending_accepts s1). acceptable s1 j))"
    by (auto simp: accept_scan_None_iff)
  show ?thesis
  proof (cases ?scan)
    case None
    then show ?thesis using none run own s1 by (auto simp: cmd_Accept_def Let_def)
  next
    case (Some ks)
    obtain k s2 where ks: "ks = (k, s2)" by fastforce
    from accept_scan_Some [OF Some [unfolded ks]] obtain j where
      j: "j < length (g_pending_accepts s1)" "p_used (g_pending_accepts s1 ! j)" "p_got_final_ack (g_pending_accepts s1 ! j)"
      and alloc: "AllocVTcpConn me s1 = Some (k, upd_conn k (\<lambda>c. vtcp_conn_init\<lparr>c_used := True\<rparr>) s1)"
      and s2: "s2 = (upd_conn k (\<lambda>c. accept_conn (g_pending_accepts s1 ! j) (g_next_synthetic_fd s1)) s1)
              \<lparr>g_pending_accepts := (g_pending_accepts s1)[j := (g_pending_accepts s1 ! j)\<lparr>p_used := False\<rparr>],
               g_next_synthetic_fd := g_next_synthetic_fd s1 + 1\<rparr>"
      by auto
    let ?fd = "g_next_synthetic_fd s1" and ?p = "g_pending_accepts s1 ! j"
    note aD = alloc_SomeD [OF alloc]
    have at: "conn_at k s2 = accept_conn ?p ?fd" using aD by (simp add: s2 conn_at_def)
    have rep: "r_err r = ErrNone" "r_ret r = ?fd" "r_addr r = take m (sockaddr_bytes (p_peer_ip ?p) (p_peer_port ?p))"
      "s' = upd_service me (TrackFd ?fd SOCK_STREAM) s2"
      using run own Some ks at by (auto simp: cmd_Accept_def Let_def s1)
    have synth: "synth_ok (conn_ids s1) ?fd" using D(2) by (simp add: sys_inv_def)
    have fresh: "c_fd c \<noteq> ?fd" if "c \<in> set (g_vtcp_conns s1)" "c_used c" for c
      using synth that by (force simp: synth_ok_def conn_ids_def conn_id_def)
    have "FindVTcpConnByFd me ?fd s2 = Some k"
      using aD fresh unfolding FindVTcpConnByFd_def
      by (auto simp: s2 first_idx_Some_iff nth_list_update conn_at_def dest: nth_mem)
    moreover have "FindVTcpConnByFd me ?fd s' = FindVTcpConnByFd me ?fd s2"
      by (rule find_fd_cong) (simp_all add: rep(4) upd_service_def conn_ids_def)
    moreover have "conn_at k s' = conn_at k s2" by (simp add: rep(4) upd_service_def conn_at_def)
    moreover have "\<not> p_used (g_pending_accepts s' ! j)" using j(1) by (simp add: rep(4) upd_service_def s2)
    moreover have "1000 \<le> ?fd" using synth by (simp add: synth_ok_def)
    ultimately show ?thesis
      using none Some j rep fresh next_fd at by (auto simp: acceptable_def intro!: exI [of _ j])
  qed
qed

text \<open>A host with a listener and one completed handshake.\<close>

definition sample_pending :: pending_accept where
  "sample_pending = \<lparr>p_used = True, p_peer_ip = 0x0A0D0002, p_peer_port = 5555, p_our_isn = 4000,
     p_their_isn = 0xFFFFFFFF, p_got_final_ack = True\<rparr>"

definition bridge_host :: bridge where
  "bridge_host = bridge_up\<lparr>g_tcp_listen_fd := 8,
     g_pending_accepts := (replicate MaxPendingAccepts pending_accept_init)[0 := sample_pending]\<rparr>"

lemma sys_inv_up: "sys_inv bridge_up"
proof -
  have "conn_ids bridge_up = replicate MaxVTcpConns (conn_id vtcp_conn_init)" by (simp add: conn_ids_def)
  then show ?thesis using bridge_inv_up
    by (simp add: sys_inv_def synth_ok_def conn_id_def vtcp_conn_init_def)
qed

lemma bridge_host_ok: "sys_inv bridge_host" "DrainRelay env bridge_host = bridge_host"
proof -
  have "pend_ok (g_pending_accepts bridge_host)"
    by (simp add: pend_ok_def bridge_host_def nth_list_update pending_accept_init_def MaxPendingAccepts_def)
  then show "sys_inv bridge_host"
    using sys_inv_up by (simp add: sys_inv_def bridge_inv_def vtcp_inv_def bridge_host_def conn_ids_def)
  show "DrainRelay env bridge_host = bridge_host"
    using bridge_up_socket(6) by (intro drain_quiet) (simp_all add: bridge_host_def drained_def vtcp_conn_init_def)
qed

theorem accept_outcome_witness:
  "r_ret (fst (cmd_Accept sample_benv 1 8 16 bridge_host)) = 1000"
proof -
  obtain r s' where run: "cmd_Accept sample_benv 1 8 16 bridge_host = (r, s')" by fastforce
  have own: "IsOwnTcpListenFd 1 8 bridge_host" by (simp add: IsOwnTcpListenFd_def bridge_host_def)
  have "first_idx (\<lambda>c. \<not> c_used c) (g_vtcp_conns bridge_host) = Some 0"
    by (simp add: first_idx_Some_iff bridge_host_def MaxVTcpConns_def vtcp_conn_init_def)
  then have "AllocVTcpConn 1 bridge_host \<noteq> None" by (simp add: AllocVTcpConn_def bridge_host_def)
  moreover have "acceptable bridge_host 0" "0 < length (g_pending_accepts bridge_host)"
    by (simp_all add: acceptable_def bridge_host_def sample_pending_def MaxPendingAccepts_def)
  moreover have "g_next_synthetic_fd bridge_host = 1000" by (simp add: bridge_host_def)
  ultimately show ?thesis
    using accept_outcome [OF bridge_host_ok(1) own refl run] unfolding bridge_host_ok(2)
    by (auto simp: run simp del: One_nat_def split: if_splits)
qed

section \<open>Connect\<close>

text \<open>Waiting keeps the owner and the ids of the connections.\<close>

lemma sleep_step_ids:
  "conn_ids (sleep_step ds s) = conn_ids s" "g_active_ldn_instance (sleep_step ds s) = g_active_ldn_instance s"
  by (simp_all add: sleep_step_def conn_ids_def split: option.split)

lemma wait_step:
  assumes "sys_inv s" and "s1 = DrainRelay env' (sleep_step ds s)"
  shows "sys_inv s1" and "conn_ids s1 = conn_ids s" and "g_active_ldn_instance s1 = g_active_ldn_instance s"
proof -
  have k: "sys_inv (sleep_step ds s)" by (rule sleep_step_keeps [OF assms(1)])
  show "sys_inv s1" unfolding assms(2) by (rule DrainRelay_keeps [OF k])
  show "conn_ids s1 = conn_ids s" unfolding assms(2) by (simp add: DrainRelay_ids sleep_step_ids)
  show "g_active_ldn_instance s1 = g_active_ldn_instance s"
    using DrainRawRelayQueue_spec [OF sys_inv_wf [OF k] refl]
    by (simp add: assms(2) DrainRelay_def drain_frame_iff sleep_step_ids)
qed

lemma connect_wait_result:
  assumes "sys_inv s" and "connect_wait left env world me fd i s = (est, i', s')"
  shows "sys_inv s' \<and> conn_ids s' = conn_ids s \<and> g_active_ldn_instance s' = g_active_ldn_instance s
     \<and> i' \<le> i + left \<and> (est \<longrightarrow> conn_established me fd s') \<and> (\<not> est \<longrightarrow> i' = i + left)"
  using assms
proof (induction left arbitrary: i s)
  case 0
  then show ?case by simp
next
  case (Suc left)
  obtain now ds where w: "world i = (now, ds)" by fastforce
  define s1 where "s1 = DrainRelay (env\<lparr>e_now := now\<rparr>) (sleep_step ds s)"
  note st = wait_step [OF Suc.prems(1) s1_def]
  show ?case
  proof (cases "conn_established me fd s1")
    case True
    then show ?thesis using Suc.prems(2) w st by (simp add: Let_def s1_def [symmetric])
  next
    case False
    then have "connect_wait left env world me fd (i + 1) s1 = (est, i', s')"
      using Suc.prems(2) w by (simp add: Let_def s1_def)
    from Suc.IH [OF st(1) this] show ?thesis using st(2,3) by auto
  qed
qed

lemma connect_attempts_result:
  assumes "sys_inv s" and "connect_attempts left env world me fd syn i s = (est, i', s')"
  shows "sys_inv s' \<and> conn_ids s' = conn_ids s \<and> g_active_ldn_instance s' = g_active_ldn_instance s
     \<and> i' \<le> i + left * ConnectPollsPerAttempt \<and> (est \<longrightarrow> conn_established me fd s')
     \<and> (\<not> est \<longrightarrow> i' = i + left * ConnectPollsPerAttempt)"
  using assms
proof (induction left arbitrary: i s)
  case 0
  then show ?case by simp
next
  case (Suc left)
  define s1 where "s1 = send_seg (e_io env) syn [] s"
  have s1: "sys_inv s1" "conn_ids s1 = conn_ids s" "g_active_ldn_instance s1 = g_active_ldn_instance s"
    using send_seg_keeps [OF Suc.prems(1)] by (simp_all add: s1_def conn_ids_def)
  obtain e1 i1 s2 where w: "connect_wait ConnectPollsPerAttempt env world me fd i s1 = (e1, i1, s2)"
    by (cases "connect_wait ConnectPollsPerAttempt env world me fd i s1") blast
  note W = connect_wait_result [OF s1(1) w]
  show ?case
  proof (cases e1)
    case True
    then show ?thesis using Suc.prems(2) w W s1 by (auto simp: Let_def s1_def)
  next
    case False
    then have "connect_attempts left env world me fd syn i1 s2 = (est, i', s')"
      using Suc.prems(2) w by (simp add: Let_def s1_def)
    from Suc.IH [OF _ this] W s1 False show ?thesis by auto
  qed
qed

text \<open>Looking an fd up in a table in which one row was replaced.\<close>

lemma find_fd_set:
  assumes ids: "conn_ids s' = (conn_ids s)[k := (u, f, ip, port)]" and k: "k < length (conn_ids s)"
    and owner: "g_active_ldn_instance s = Some me" "g_active_ldn_instance s' = Some me"
    and new: "FindVTcpConnByFd me fd s = None"
  shows "FindVTcpConnByFd me fd s' = (if u \<and> f = fd then Some k else None)"
proof -
  let ?P = "\<lambda>(u, f, ip :: u32, port :: u16). u \<and> f = fd"
  have no: "\<forall>x \<in> set (conn_ids s). \<not> ?P x" using new owner(1) by (simp add: find_fd_ids first_idx_None_iff)
  show ?thesis
  proof (cases "u \<and> f = fd")
    case True
    then have "first_idx ?P (conn_ids s') = Some k"
      using k no unfolding first_idx_Some_iff ids by (auto simp: nth_list_update dest!: nth_mem)
    then show ?thesis using True owner(2) by (simp add: find_fd_ids)
  next
    case False
    then have "first_idx ?P (conn_ids s') = None"
      using no unfolding first_idx_None_iff ids by (auto dest!: set_list_update_cases)
    then show ?thesis using False owner(2) by (auto simp: find_fd_ids)
  qed
qed

definition connect_start :: "nat \<Rightarrow> int \<Rightarrow> u32 \<Rightarrow> u16 \<Rightarrow> u32 \<Rightarrow> bridge \<Rightarrow> bridge" where
  "connect_start k fd ip port isn s =
     upd_conn k (\<lambda>c. vtcp_conn_init\<lparr>c_used := True, c_fd := fd, c_peer_ip := ip, c_peer_port := port,
       c_our_isn := isn, c_syn_sent_awaiting_synack := True\<rparr>) s"

lemma connect_start_ok:
  assumes "sys_inv s" and "fd < 1000"
  shows "sys_inv (connect_start k fd ip port isn s)"
    and "conn_ids (connect_start k fd ip port isn s) = (conn_ids s)[k := (True, fd, ip, port)]"
    and "g_active_ldn_instance (connect_start k fd ip port isn s) = g_active_ldn_instance s"
    and "g_relay (connect_start k fd ip port isn s) = g_relay s"
    and "g_services (connect_start k fd ip port isn s) = g_services s"
  using assms bridge_more(9) [of "connect_start k fd ip port isn s" s]
  by (auto simp: connect_start_def conn_ids_set intro!: set_conn_keeps)
    (simp_all add: conn_ok_def vtcp_conn_init_def conn_id_def)

text \<open>The new connection is the one its fd names, not established and with nothing to retransmit.\<close>

lemma connect_start_new:
  assumes inv: "sys_inv s" and fd: "fd < 1000" and k: "k < length (g_vtcp_conns s)"
    and mine: "g_active_ldn_instance s = Some me" and new: "FindVTcpConnByFd me fd s = None"
    and s4: "s4 = connect_start k fd ip port isn s"
  shows "FindVTcpConnByFd me fd s4 = Some k" and "\<not> conn_established me fd s4"
    and "g_vtcp_conns s4 = (g_vtcp_conns s)[k := conn_at k s4]"
    and "(\<forall>c \<in> set (g_vtcp_conns s). \<not> c_has_unacked_data c) \<longrightarrow> (\<forall>c \<in> set (g_vtcp_conns s4). \<not> c_has_unacked_data c)"
proof -
  note S = connect_start_ok [OF inv fd, of k ip port isn, folded s4]
  show find: "FindVTcpConnByFd me fd s4 = Some k"
    using find_fd_set [OF S(2) _ mine _ new] S(3) mine k by (simp add: conn_ids_def)
  have at: "\<not> c_established (conn_at k s4)" "\<not> c_has_unacked_data (conn_at k s4)"
    using k by (simp_all add: s4 connect_start_def conn_at_upd vtcp_conn_init_def)
  show "\<not> conn_established me fd s4" using at(1) find by (simp add: conn_established_def)
  show tab: "g_vtcp_conns s4 = (g_vtcp_conns s)[k := conn_at k s4]"
    using k by (simp add: s4 connect_start_def conn_at_upd)
  show "(\<forall>c \<in> set (g_vtcp_conns s). \<not> c_has_unacked_data c) \<longrightarrow> (\<forall>c \<in> set (g_vtcp_conns s4). \<not> c_has_unacked_data c)"
    using at(2) set_list_update_cases unfolding tab by metis
qed

text \<open>The virtual branch of \<open>Connect\<close> as one equation: the slot, the attempts, the cleaning up.\<close>

lemma connect_vtcp_eq:
  assumes up: "g_relay_enabled s" "m_connected (g_relay s)" and alloc: "AllocVTcpConn me s = Some (k, t)"
    and isn: "isn = e_random (e_io env) (g_random_draws s)"
    and s4: "s4 = connect_start k fd ip port isn (s\<lparr>g_random_draws := g_random_draws s + 1\<rparr>)"
    and a: "connect_attempts ConnectMaxAttempts env world me fd
      (seg (m_bridged_local_ip (g_services s4 me)) ip port isn 0 TCP_SYN) 0 s4 = (est, i, s5)"
  shows "connect_vtcp env world me fd ip port s =
     (if est then (reply_local 0 ErrNone, s5)
      else (reply_local (- 1) ETIMEDOUT,
        case FindVTcpConnByFd me fd s5 of None \<Rightarrow> s5 | Some k' \<Rightarrow> upd_conn k' (\<lambda>c. vtcp_conn_init) s5))"
proof -
  define s2 where "s2 = s\<lparr>g_random_draws := g_random_draws s + 1\<rparr>"
  note aD = alloc_SomeD [OF alloc]
  have e: "EnsureRelayConnected env s = (True, s)" using up by (simp add: EnsureRelayConnected_def)
  have d: "draw_random (e_io env) s = (isn, s2)" by (simp add: draw_random_def isn s2_def)
  have al: "AllocVTcpConn me s2 = Some (k, upd_conn k (\<lambda>c. vtcp_conn_init\<lparr>c_used := True\<rparr>) s2)"
    using alloc by (auto simp: AllocVTcpConn_def s2_def split: if_splits option.splits)
  have st: "upd_conn k (\<lambda>c. c\<lparr>c_fd := fd, c_peer_ip := ip, c_peer_port := port, c_our_isn := isn,
      c_syn_sent_awaiting_synack := True\<rparr>) (upd_conn k (\<lambda>c. vtcp_conn_init\<lparr>c_used := True\<rparr>) s2) = s4"
    using aD by (simp add: s4 connect_start_def s2_def upd_conn_def conn_at_def)
  show ?thesis by (simp add: connect_vtcp_def e d al st a Let_def)
qed

text \<open>With the table full nothing is sent and nothing changes but the random number drawn.\<close>

lemma connect_full_table:
  assumes up: "g_relay_enabled s" "m_connected (g_relay s)" and mine: "g_active_ldn_instance s = Some me"
    and full: "AllocVTcpConn me s = None"
  shows "connect_vtcp env world me fd ip port s
      = (reply_local (- 1) ENOBUFS, s\<lparr>g_random_draws := g_random_draws s + 1\<rparr>)"
    and "\<forall>c \<in> set (g_vtcp_conns s). c_used c"
proof -
  have "AllocVTcpConn me (s\<lparr>g_random_draws := n\<rparr>) = None" for n
    using full mine by (auto simp: AllocVTcpConn_def split: option.splits)
  then show "connect_vtcp env world me fd ip port s
      = (reply_local (- 1) ENOBUFS, s\<lparr>g_random_draws := g_random_draws s + 1\<rparr>)"
    using up by (simp add: connect_vtcp_def EnsureRelayConnected_def draw_random_def)
  show "\<forall>c \<in> set (g_vtcp_conns s). c_used c"
    using full mine by (auto simp: AllocVTcpConn_def first_idx_None_iff split: option.splits)
qed

text \<open>What the attempts lead to when a slot \<open>k\<close> was free: the state \<open>s5\<close> after them, in which the fd names
  that slot.\<close>

lemma connect_run:
  assumes inv: "sys_inv s" and up: "g_relay_enabled s" "m_connected (g_relay s)"
    and mine: "g_active_ldn_instance s = Some me" and alloc: "AllocVTcpConn me s = Some (k, t)"
    and fd: "fd < 1000" and new: "FindVTcpConnByFd me fd s = None"
  shows "\<exists>est s5. connect_vtcp env world me fd ip port s =
      (if est then (reply_local 0 ErrNone, s5) else (reply_local (- 1) ETIMEDOUT, upd_conn k (\<lambda>c. vtcp_conn_init) s5))
     \<and> conn_ids s5 = (conn_ids s)[k := (True, fd, ip, port)] \<and> g_active_ldn_instance s5 = Some me
     \<and> FindVTcpConnByFd me fd s5 = Some k \<and> (est \<longrightarrow> c_established (conn_at k s5))"
proof -
  let ?s2 = "s\<lparr>g_random_draws := g_random_draws s + 1\<rparr>"
  define isn where "isn = e_random (e_io env) (g_random_draws s)"
  define s4 where "s4 = connect_start k fd ip port isn ?s2"
  have "sys_inv ?s2" using inv by simp
  note S4 = connect_start_ok [OF this fd, of k ip port isn, folded s4_def]
  obtain est i s5 where a: "connect_attempts ConnectMaxAttempts env world me fd
      (seg (m_bridged_local_ip (g_services s4 me)) ip port isn 0 TCP_SYN) 0 s4 = (est, i, s5)"
    by (cases "connect_attempts ConnectMaxAttempts env world me fd
      (seg (m_bridged_local_ip (g_services s4 me)) ip port isn 0 TCP_SYN) 0 s4") blast
  note A = connect_attempts_result [OF S4(1) a]
  have ids5: "conn_ids s5 = (conn_ids s)[k := (True, fd, ip, port)]" using A S4(2) by (simp add: conn_ids_def)
  have own5: "g_active_ldn_instance s5 = Some me" using A S4(3) mine by simp
  have k: "k < length (conn_ids s)" using alloc_SomeD [OF alloc] by (simp add: conn_ids_def)
  have find5: "FindVTcpConnByFd me fd s5 = Some k" using find_fd_set [OF ids5 k mine own5 new] by simp
  show ?thesis
    using connect_vtcp_eq [OF up alloc isn_def s4_def a] ids5 own5 find5 A
    by (intro exI [of _ est] exI [of _ s5]) (simp add: conn_established_def)
qed

text \<open>The id of a connection is its row in the table of ids.\<close>

lemma conn_ids_row:
  "conn_ids s' = (conn_ids s)[k := (True, fd, ip, port)] \<Longrightarrow> k < length (g_vtcp_conns s) \<Longrightarrow>
     c_peer_ip (conn_at k s') = ip \<and> c_peer_port (conn_at k s') = port"
proof -
  assume ids: "conn_ids s' = (conn_ids s)[k := (True, fd, ip, port)]" and k: "k < length (g_vtcp_conns s)"
  have "length (g_vtcp_conns s') = length (g_vtcp_conns s)" using arg_cong [OF ids, of length] by (simp add: conn_ids_def)
  then have "conn_id (conn_at k s') = (True, fd, ip, port)"
    using arg_cong [OF ids, of "\<lambda>xs. xs ! k"] k by (simp add: conn_ids_def conn_at_def)
  then show ?thesis by (simp add: conn_id_def)
qed

text \<open>A client with a stream socket whose peer is not there.\<close>

definition bridge_client :: bridge where
  "bridge_client = upd_service 1 (TrackFd 9 SOCK_STREAM) bridge_up"

definition host_addr :: "u8 list" where "host_addr = sockaddr_bytes 0x0A0D0002 LdnControlPort"

lemma bridge_client_ok:
  "sys_inv bridge_client" "g_relay_enabled bridge_client" "m_connected (g_relay bridge_client)"
  "g_active_ldn_instance bridge_client = Some 1" "GetTrackedType 9 (g_services bridge_client 1) = SOCK_STREAM"
  "sockaddr_port host_addr = LdnControlPort" "FindVTcpConnByFd 1 9 bridge_client = None"
  "drained bridge_client = []" "\<forall>c \<in> set (g_vtcp_conns bridge_client). \<not> c_has_unacked_data c"
  "AllocVTcpConn 1 bridge_client \<noteq> None"
proof -
  note d = bridge_client_def upd_service_def
  show "sys_inv bridge_client" using sys_inv_up by (simp add: bridge_client_def)
  show "g_relay_enabled bridge_client" "m_connected (g_relay bridge_client)" "g_active_ldn_instance bridge_client = Some 1"
    using bridge_up_socket(3) by (simp_all add: d)
  show "GetTrackedType 9 (g_services bridge_client 1) = SOCK_STREAM"
    by (simp add: d TrackFd_def GetTrackedType_def service_init_def MaxTrackedFds_def numeral_eq_Suc del: bridge_up_simps(5))
      (simp add: bridge_up_def service_init_def MaxTrackedFds_def numeral_eq_Suc Let_def)
  show "sockaddr_port host_addr = LdnControlPort"
    by (simp add: host_addr_def sockaddr_port_def sockaddr_bytes_def SockaddrSize_def)
  show "FindVTcpConnByFd 1 9 bridge_client = None"
    using bridge_up_socket(1) [of 1 9] find_fd_cong [of bridge_client bridge_up] by (simp add: d conn_ids_def)
  show "drained bridge_client = []" using bridge_up_socket(6) by (simp add: d drained_def)
  show "\<forall>c \<in> set (g_vtcp_conns bridge_client). \<not> c_has_unacked_data c" by (simp add: d vtcp_conn_init_def)
  have "first_idx (\<lambda>c. \<not> c_used c) (g_vtcp_conns bridge_client) = Some 0"
    by (simp add: first_idx_Some_iff d MaxVTcpConns_def vtcp_conn_init_def)
  then show "AllocVTcpConn 1 bridge_client \<noteq> None" by (simp add: AllocVTcpConn_def d)
qed



text \<open>The wait of one attempt when nothing arrives, and all six attempts.\<close>

lemma connect_wait_silent:
  assumes world: "\<forall>i. snd (world i) = []" and quiet: "\<And>env. DrainRelay env s = s"
    and est: "\<not> conn_established me fd s"
  shows "connect_wait left env world me fd i s = (False, i + left, s)"
proof (induction left arbitrary: i)
  case 0
  then show ?case by simp
next
  case (Suc left)
  obtain now where w: "world i = (now, [])" using world by (metis prod.collapse)
  then show ?case using est Suc by (simp add: sleep_step_def quiet)
qed

lemma SendIpv4_short:
  "m_connected r \<Longrightarrow> length P \<le> RELAY_MTU \<Longrightarrow> \<exists>rc. m_sent (snd (SendIpv4 os P r)) = m_sent r @ [(FrameIpv4 # P, rc)]"
  by (simp add: SendIpv4_def SendRaw_def Let_def)

lemma connect_attempts_silent:
  assumes world: "\<forall>i. snd (world i) = []" and idle: "drained s = []"
    and no: "\<forall>c \<in> set (g_vtcp_conns s). \<not> c_has_unacked_data c" and est: "\<not> conn_established me fd s"
    and up: "m_connected (g_relay s)" and syn: "BuildTcp syn [] = Some P"
  shows "\<exists>s'. connect_attempts left env world me fd syn i s = (False, i + left * ConnectPollsPerAttempt, s')
     \<and> g_vtcp_conns s' = g_vtcp_conns s \<and> g_active_ldn_instance s' = g_active_ldn_instance s
     \<and> map fst (m_sent (g_relay s')) = map fst (m_sent (g_relay s)) @ replicate left (FrameIpv4 # P)"
  using idle no est up
proof (induction left arbitrary: i s)
  case 0
  then show ?case by simp
next
  case (Suc left)
  define s1 where "s1 = send_seg (e_io env) syn [] s"
  have short: "length P \<le> RELAY_MTU" using BuildTcp_length [OF syn] by (simp add: frag_consts)
  obtain rc where sent: "m_sent (g_relay s1) = m_sent (g_relay s) @ [(FrameIpv4 # P, rc)]"
    using SendIpv4_short [OF Suc.prems(4) short, of "e_sendto (e_io env)"]
    by (auto simp: s1_def send_seg_def SendTcpSegment_def syn split_beta)
  have rx: "rx_eq (g_relay s) (g_relay s1)"
    using vframe_send_seg [of s s "e_io env" syn "[]"] by (simp add: vframe_def s1_def)
  then have q: "drained s1 = []" "m_connected (g_relay s1)"
    using Suc.prems(1,4) by (simp_all add: drained_def rx_eq_iff)
  have c: "g_vtcp_conns s1 = g_vtcp_conns s" "g_active_ldn_instance s1 = g_active_ldn_instance s"
    and at: "conn_at j s1 = conn_at j s" for j
    by (simp_all add: s1_def)
  have ne: "\<not> conn_established me fd s1"
    using Suc.prems(3) at find_fd_cong [of s1 s me fd] c by (simp add: conn_established_def conn_ids_def split: option.splits)
  have no1: "\<forall>c \<in> set (g_vtcp_conns s1). \<not> c_has_unacked_data c" using Suc.prems(2) c(1) by simp
  have "connect_wait ConnectPollsPerAttempt env world me fd i s1 = (False, i + ConnectPollsPerAttempt, s1)"
    by (rule connect_wait_silent [OF world drain_quiet [OF q(1) no1] ne])
  then have "connect_attempts (Suc left) env world me fd syn i s
      = connect_attempts left env world me fd syn (i + ConnectPollsPerAttempt) s1"
    by (simp add: s1_def Let_def)
  then show ?case
    using Suc.IH [OF q(1) no1 ne q(2), of "i + ConnectPollsPerAttempt"] c sent by (auto simp: add.assoc)
qed

text \<open>C32: A peer that never answers: when nothing arrives during the whole call and no connection has data
  to retransmit, \<open>Connect\<close> sends exactly six datagrams, all the same SYN segment with the drawn initial
  sequence number to the requested address, reports a timeout and leaves the table of
  connections as it found it, the slot it had taken being free again.\<close>

theorem connect_silent_peer:
  assumes inv: "sys_inv s" and up: "g_relay_enabled s" "m_connected (g_relay s)"
    and alloc: "AllocVTcpConn me s = Some (k, t)"
    and stream: "GetTrackedType fd (g_services s me) = SOCK_STREAM" "sockaddr_port addr = LdnControlPort"
    and fd: "fd < 1000" and new: "FindVTcpConnByFd me fd s = None"
    and world: "\<forall>i. snd (world i) = []" and idle: "drained s = []"
    and no: "\<forall>c \<in> set (g_vtcp_conns s). \<not> c_has_unacked_data c"
    and syn: "BuildTcp (seg (m_bridged_local_ip (g_services s me)) (sockaddr_ip addr) LdnControlPort
        (e_random (e_io env) (g_random_draws s)) 0 TCP_SYN) [] = Some P"
    and run: "cmd_Connect env world me fd addr s = (r, s')"
  shows "r = reply_local (- 1) ETIMEDOUT
     \<and> sent_frames (g_relay s) (g_relay s') = replicate ConnectMaxAttempts (FrameIpv4 # P)
     \<and> g_vtcp_conns s' = (g_vtcp_conns s)[k := vtcp_conn_init]"
proof -
  note aD = alloc_SomeD [OF alloc]
  let ?ip = "sockaddr_ip addr" and ?s2 = "s\<lparr>g_random_draws := g_random_draws s + 1\<rparr>"
  define isn where "isn = e_random (e_io env) (g_random_draws s)"
  define s4 where "s4 = connect_start k fd ?ip LdnControlPort isn ?s2"
  have "sys_inv ?s2" using inv by simp
  note S4 = connect_start_ok [OF \<open>sys_inv ?s2\<close> fd, of k ?ip LdnControlPort isn, folded s4_def]
  have "FindVTcpConnByFd me fd ?s2 = None" using new find_fd_cong [of ?s2 s] by (simp add: conn_ids_def)
  note N4 = connect_start_new [OF \<open>sys_inv ?s2\<close> fd _ _ this s4_def, simplified]
  have est: "\<not> conn_established me fd s4" and find: "FindVTcpConnByFd me fd s4 = Some k"
    and no4: "\<forall>c \<in> set (g_vtcp_conns s4). \<not> c_has_unacked_data c"
    using N4(1,2,4) aD no by simp_all
  have rel: "drained s4 = []" "m_connected (g_relay s4)" using idle up(2) S4(4) by (simp_all add: drained_def)
  have syn4: "BuildTcp (seg (m_bridged_local_ip (g_services s4 me)) ?ip LdnControlPort isn 0 TCP_SYN) [] = Some P"
    using syn S4(5) by (simp add: isn_def)
  obtain s5 where a: "connect_attempts ConnectMaxAttempts env world me fd
      (seg (m_bridged_local_ip (g_services s4 me)) ?ip LdnControlPort isn 0 TCP_SYN) 0 s4
        = (False, 0 + ConnectMaxAttempts * ConnectPollsPerAttempt, s5)"
    and s5: "g_vtcp_conns s5 = g_vtcp_conns s4" "g_active_ldn_instance s5 = g_active_ldn_instance s4"
      "map fst (m_sent (g_relay s5)) = map fst (m_sent (g_relay s4)) @ replicate ConnectMaxAttempts (FrameIpv4 # P)"
    using connect_attempts_silent [OF world rel(1) no4 est rel(2) syn4] by blast
  have "FindVTcpConnByFd me fd s5 = Some k"
    using find_fd_cong [of s5 s4] s5 find by (simp add: conn_ids_def)
  then have rs: "r = reply_local (- 1) ETIMEDOUT" "s' = upd_conn k (\<lambda>c. vtcp_conn_init) s5"
    using run connect_vtcp_eq [OF up alloc isn_def s4_def a] stream by (auto simp: cmd_Connect_def)
  have "drop (length (m_sent (g_relay s))) (map fst (m_sent (g_relay s5))) = replicate ConnectMaxAttempts (FrameIpv4 # P)"
    unfolding s5(3) S4(4) by simp
  then have "sent_frames (g_relay s) (g_relay s') = replicate ConnectMaxAttempts (FrameIpv4 # P)"
    by (simp add: sent_frames_def rs(2) drop_map)
  moreover have "g_vtcp_conns s' = (g_vtcp_conns s)[k := vtcp_conn_init]"
    using N4(3) aD by (simp add: rs(2) s5(1))
  ultimately show ?thesis using rs(1) by blast
qed

theorem connect_silent_peer_witness:
  "length (sent_frames (g_relay bridge_client)
     (g_relay (snd (cmd_Connect sample_benv (\<lambda>i. (0, [])) 1 9 host_addr bridge_client)))) = 6"
proof -
  obtain r s' where run: "cmd_Connect sample_benv (\<lambda>i. (0, [])) 1 9 host_addr bridge_client = (r, s')" by fastforce
  obtain k t where alloc: "AllocVTcpConn 1 bridge_client = Some (k, t)" using bridge_client_ok(10) by auto
  obtain P where P: "BuildTcp (seg (m_bridged_local_ip (g_services bridge_client 1)) (sockaddr_ip host_addr) LdnControlPort
        (e_random (e_io sample_benv) (g_random_draws bridge_client)) 0 TCP_SYN) [] = Some P"
    using tcp.build_fits [of "[]"] by (auto simp: cap_defs)
  show ?thesis
    using connect_silent_peer [OF bridge_client_ok(1-3) alloc bridge_client_ok(5,6) _ bridge_client_ok(7)
        _ bridge_client_ok(8,9) P run]
    by (simp add: run ConnectMaxAttempts_def del: One_nat_def)
qed

section \<open>A handshake whose answer was lost\<close>

text \<open>A segment from a given peer: port, sequence number, acknowledgement, flags, payload.\<close>

type_synonym peer_segment = "u16 \<times> u32 \<times> u32 \<times> u8 \<times> u8 list"

definition handle_from :: "benv \<Rightarrow> nat \<Rightarrow> u32 \<Rightarrow> u32 \<Rightarrow> peer_segment \<Rightarrow> bridge \<Rightarrow> bridge" where
  "handle_from env me ip src x s =
     (case x of (port, seqno, ack, flags, payload) \<Rightarrow>
        HandleTcpSegment (e_io env) me ip src port seqno ack flags payload s)"

lemma handle_from_wedged:
  assumes ok: "pend_ok (g_pending_accepts s)" and j: "j < length (g_pending_accepts s)"
    and p: "p = g_pending_accepts s ! j" "p_used p" "p_peer_ip p = src"
    and conn: "FindVTcpConnByPeer me src s = None" and x: "x = (port, seqno, ack, flags, payload)"
    and ack: "ack \<noteq> p_our_isn p + 1"
  shows "handle_from env me ip src x s = s"
proof -
  let ?ps = "g_pending_accepts s"
  have "first_idx (\<lambda>q. p_used q \<and> p_peer_ip q = src \<and> \<not> p_got_final_ack q \<and> ack = p_our_isn q + 1) ?ps = None"
    unfolding first_idx_None_iff
  proof
    fix q
    assume "q \<in> set ?ps"
    then obtain i where i: "i < length ?ps" "q = ?ps ! i" by (auto simp: in_set_conv_nth)
    then have "p_used q \<and> p_peer_ip q = src \<longrightarrow> i = j" using pend_okD [OF ok i(1) j] p by auto
    then show "\<not> (p_used q \<and> p_peer_ip q = src \<and> \<not> p_got_final_ack q \<and> ack = p_our_isn q + 1)"
      using i(2) p(1) ack by auto
  qed
  moreover have "\<exists>q \<in> set ?ps. p_used q \<and> p_peer_ip q = src" using j p by auto
  ultimately show ?thesis
    by (auto simp: handle_from_def x HandleTcpSegment_def conn Let_def handle_syn_def handle_syn_ack_def
        handle_fin_def handle_ack_def)
qed

text \<open>A host that has answered a peer's SYN never answers that peer again: as long as the initial
  sequence number it chose is not acknowledged - and it is only revealed in the SYN-ACK - no segment of
  the peer, be it the SYN sent again, a RST or a FIN, changes anything or is replied to. So when the
  SYN-ACK is lost, the six SYNs of the peer's \<open>Connect\<close> are all in vain, and the pending entry stays.\<close>

theorem lost_syn_ack_wedges_peer:
  assumes inv: "sys_inv s" and j: "j < length (g_pending_accepts s)"
    and p: "p = g_pending_accepts s ! j" "p_used p" "p_peer_ip p = src"
    and conn: "FindVTcpConnByPeer me src s = None"
    and unknown: "\<forall>(port, seqno, ack, flags, payload) \<in> set xs. ack \<noteq> p_our_isn p + 1"
  shows "fold (handle_from env me ip src) xs s = s"
  using unknown
proof (induction xs)
  case Nil
  then show ?case by simp
next
  case (Cons x xs)
  obtain port seqno ack flags payload where x: "x = (port, seqno, ack, flags, payload)" by (metis prod.exhaust)
  have "pend_ok (g_pending_accepts s)" using inv by (simp add: sys_inv_def bridge_inv_def vtcp_inv_def)
  then have "handle_from env me ip src x s = s"
    using handle_from_wedged [OF _ j p conn x] Cons.prems by (simp add: x)
  then show ?case using Cons by simp
qed

text \<open>The host of above before the final acknowledgement, and six SYNs of the peer.\<close>

definition bridge_wait :: bridge where
  "bridge_wait = bridge_host\<lparr>g_pending_accepts :=
     (replicate MaxPendingAccepts pending_accept_init)[0 := sample_pending\<lparr>p_got_final_ack := False\<rparr>]\<rparr>"

theorem lost_syn_ack_wedges_peer_witness:
  "fold (handle_from sample_benv 1 0x0A0D0001 0x0A0D0002) (replicate 6 (5555, 0xFFFFFFFF, 0, TCP_SYN, [])) bridge_wait
     = bridge_wait"
proof (rule lost_syn_ack_wedges_peer [where j = 0, OF _ _ refl])
  have "pend_ok (g_pending_accepts bridge_wait)"
    by (simp add: pend_ok_def bridge_wait_def nth_list_update pending_accept_init_def MaxPendingAccepts_def)
  then show "sys_inv bridge_wait"
    using bridge_host_ok(1) by (simp add: sys_inv_def bridge_inv_def vtcp_inv_def bridge_wait_def bridge_host_def conn_ids_def)
  show "FindVTcpConnByPeer 1 0x0A0D0002 bridge_wait = None"
    by (simp add: FindVTcpConnByPeer_def first_idx_None_iff bridge_wait_def bridge_host_def vtcp_conn_init_def)
qed (simp_all add: bridge_wait_def sample_pending_def MaxPendingAccepts_def)

end
