(* ===== verification/Lifecycle.thy ===== *)
theory Lifecycle
  imports Session
begin

text \<open>
  The life of a bridged socket, from the \<open>Bind\<close> that recognises the session port to the \<open>Close\<close> that lets
  the relay go, and the count of bridged sockets that decides about the relay connection.
\<close>

lemma EnsureRelayConnected_fields:
  "g_bridged_socket_count (snd (EnsureRelayConnected env s)) = g_bridged_socket_count s"
  "g_tcp_listen_fd (snd (EnsureRelayConnected env s)) = g_tcp_listen_fd s"
  "g_last_bridged_local_ip (snd (EnsureRelayConnected env s)) = g_last_bridged_local_ip s"
  by (simp_all add: EnsureRelayConnected_def ConnectRelayLocked_def EnsureSocketStack_def Let_def split_beta)

text \<open>\<open>Bind\<close> of a datagram socket to the session port.\<close>

definition session_addr :: "u8 list \<Rightarrow> bool" where
  "session_addr addr \<longleftrightarrow> SockaddrSize \<le> length addr \<and> sockaddr_port addr = LdnControlPort"

lemma bind_learn_ip_fields:
  assumes "bind_learn_ip env fd s = (ip, t)"
  shows "g_services t = g_services s" "g_bridged_socket_count t = g_bridged_socket_count s"
    "g_vtcp_conns t = g_vtcp_conns s" "g_tcp_listen_fd t = g_tcp_listen_fd s" "g_relay t = g_relay s"
    "g_relay_enabled t = g_relay_enabled s" "g_relay_connect_attempted t = g_relay_connect_attempted s"
  using assms by (auto simp: bind_learn_ip_def forward_def Let_def EnsureSocketStack_def split: if_splits)

lemma bind_effect:
  assumes ty: "GetTrackedType fd (g_services s me) = SOCK_DGRAM" and addr: "session_addr addr"
    and b: "b = snd (cmd_Bind env me fd addr s)"
  shows "\<exists>ip. g_services b = (g_services s)(me := (g_services s me)\<lparr>m_bridged_fd := fd,
           m_bridged_local_ip := ip, m_bridged_local_port := LdnControlPort\<rparr>)
      \<and> g_last_bridged_local_ip b = ip"
    and "g_active_ldn_instance b = Some me" and "g_bridged_socket_count b = g_bridged_socket_count s + 1"
    and "g_vtcp_conns b = g_vtcp_conns s" and "g_tcp_listen_fd b = g_tcp_listen_fd s"
    and "m_connected (g_relay s) \<Longrightarrow> g_relay_enabled s \<Longrightarrow> g_relay b = g_relay s \<and> g_relay_enabled b"
proof -
  define s1 where "s1 = s\<lparr>g_bsd_log := g_bsd_log s @ [cmd_call 13 [fd] [addr]]\<rparr>"
  obtain ip t where l: "bind_learn_ip env fd s1 = (ip, t)" by fastforce
  note f = bind_learn_ip_fields [OF l]
  define t1 where "t1 = (upd_service me (\<lambda>v. v\<lparr>m_bridged_fd := fd, m_bridged_local_ip := ip,
      m_bridged_local_port := LdnControlPort\<rparr>) t)\<lparr>g_last_bridged_local_ip := ip,
      g_bridged_socket_count := g_bridged_socket_count t + 1, g_active_ldn_instance := Some me\<rparr>"
  have eq: "b = snd (EnsureRelayConnected env t1)"
    using ty addr l by (simp add: b cmd_Bind_def forward_def session_addr_def bind_bridge_def s1_def t1_def
        upd_service_def Let_def)
  note E = EnsureRelayConnected_conns [of env t1] EnsureRelayConnected_fields [of env t1]
  show "\<exists>ip. g_services b = (g_services s)(me := (g_services s me)\<lparr>m_bridged_fd := fd,
           m_bridged_local_ip := ip, m_bridged_local_port := LdnControlPort\<rparr>) \<and> g_last_bridged_local_ip b = ip"
    using E f by (simp add: eq t1_def upd_service_def s1_def)
  show "g_active_ldn_instance b = Some me" "g_bridged_socket_count b = g_bridged_socket_count s + 1"
    "g_vtcp_conns b = g_vtcp_conns s" "g_tcp_listen_fd b = g_tcp_listen_fd s"
    using E f by (simp_all add: eq t1_def upd_service_def s1_def)
  show "m_connected (g_relay s) \<Longrightarrow> g_relay_enabled s \<Longrightarrow> g_relay b = g_relay s \<and> g_relay_enabled b"
    using f by (simp add: eq t1_def upd_service_def s1_def EnsureRelayConnected_def)
qed

text \<open>\<open>Close\<close> of a bridged datagram socket that carries no virtual connection.\<close>

lemma close_effect:
  assumes br: "IsBridged fd (g_services s me)" and conn: "FindVTcpConnByFd me fd s = None"
    and port: "m_bridged_local_port (g_services s me) = LdnControlPort"
    and owner: "g_active_ldn_instance s = Some me" and count: "0 < g_bridged_socket_count s"
    and c: "c = snd (cmd_Close env me fd s)"
  shows "\<not> IsBridged fd (g_services c me)" and "g_active_ldn_instance c = None"
    and "g_bridged_socket_count c = g_bridged_socket_count s - 1"
    and "g_relay c = (if g_bridged_socket_count s = 1 then RelayClose (g_relay s) else g_relay s)"
    and "g_bridged_socket_count s = 1 \<Longrightarrow> \<not> g_relay_connect_attempted c \<and> g_last_bridged_local_ip c = 0"
proof -
  define s1 where "s1 = (if IsOwnTcpListenFd me fd s then s\<lparr>g_tcp_listen_fd := - 1\<rparr> else s)"
  define s3 where "s3 = upd_service me (UntrackFd fd) (s1\<lparr>g_bsd_log := g_bsd_log s1 @ [cmd_call 26 [fd] []]\<rparr>)"
  have v: "IsBridged fd (g_services s3 me)" "m_bridged_local_port (g_services s3 me) = LdnControlPort"
    "g_active_ldn_instance s3 = Some me" "g_bridged_socket_count s3 = g_bridged_socket_count s" "g_relay s3 = g_relay s"
    using br port owner by (simp_all add: s3_def s1_def upd_service_def IsBridged_def UntrackFd_def)
  have "c = close_unbridge me s3"
    using conn v(1) by (simp add: c cmd_Close_def close_vtcp_def forward_def s1_def [symmetric] s3_def Let_def)
  then show "\<not> IsBridged fd (g_services c me)" "g_active_ldn_instance c = None"
    "g_bridged_socket_count c = g_bridged_socket_count s - 1"
    "g_relay c = (if g_bridged_socket_count s = 1 then RelayClose (g_relay s) else g_relay s)"
    "g_bridged_socket_count s = 1 \<Longrightarrow> \<not> g_relay_connect_attempted c \<and> g_last_bridged_local_ip c = 0"
    using v br count by (simp_all add: close_unbridge_def upd_service_def Let_def IsBridged_def)
qed

lemma RelayClose_down: "\<not> m_connected (RelayClose r) \<and> ring_contents (m_queue (RelayClose r)) = []"
  by (simp add: RelayClose_def Let_def ring_contents_def ring_reset_def)

section \<open>One socket\<close>


text \<open>An instance with a fresh datagram socket.\<close>

definition bridge_udp :: bridge where
  "bridge_udp = upd_service 1 (TrackFd 9 SOCK_DGRAM) bridge_init"

lemma bridge_udp_ok:
  "GetTrackedType 9 (g_services bridge_udp 1) = SOCK_DGRAM" "g_bridged_socket_count bridge_udp = 0"
  "\<forall>c \<in> set (g_vtcp_conns bridge_udp). \<not> c_used c" "session_addr host_addr"
proof -
  have s: "bridge_udp = bridge_init\<lparr>g_services := (g_services bridge_init)(1 := TrackFd 9 SOCK_DGRAM (service_init 0))\<rparr>"
    by (simp add: bridge_udp_def upd_service_def bridge_init_def vtcp_init_def vtcp.defs)
  show "GetTrackedType 9 (g_services bridge_udp 1) = SOCK_DGRAM"
    by (simp add: s TrackFd_def GetTrackedType_def service_init_def MaxTrackedFds_def numeral_eq_Suc)
  show "g_bridged_socket_count bridge_udp = 0" "\<forall>c \<in> set (g_vtcp_conns bridge_udp). \<not> c_used c"
    by (simp_all add: s bridge_init_def vtcp_init_def vtcp.defs vtcp_conn_init_def)
  show "session_addr host_addr"
    by (simp add: session_addr_def host_addr_def sockaddr_bytes_def SockaddrSize_def sockaddr_port_def)
qed


section \<open>Binding twice\<close>

text \<open>Binding the bridged socket a second time counts it twice: after closing it no socket is bridged any
  more, but the count is still 1 and the relay connection stays open.\<close>

theorem rebind_leaks_relay:
  assumes ty: "GetTrackedType fd (g_services s me) = SOCK_DGRAM" and fd: "0 \<le> fd" and addr: "session_addr addr"
    and first: "g_bridged_socket_count s = 0" and conn: "\<forall>c \<in> set (g_vtcp_conns s). c_used c \<longrightarrow> c_fd c \<noteq> fd"
    and up: "m_connected (g_relay s)" "g_relay_enabled s"
    and b: "b = snd (cmd_Bind env me fd addr (snd (cmd_Bind env me fd addr s)))"
    and c: "c = snd (cmd_Close env' me fd b)"
  shows "\<not> IsBridged fd (g_services c me) \<and> g_bridged_socket_count c = 1 \<and> m_connected (g_relay c)"
proof -
  note A = bind_effect [OF ty addr refl, of env]
  have "GetTrackedType fd (g_services (snd (cmd_Bind env me fd addr s)) me) = SOCK_DGRAM"
    using A(1) ty by (auto simp: GetTrackedType_def split: option.splits)
  note B = bind_effect [OF this addr b]
  have v: "IsBridged fd (g_services b me)" "m_bridged_local_port (g_services b me) = LdnControlPort"
    using B(1) fd by (auto simp: IsBridged_def)
  have n: "FindVTcpConnByFd me fd b = None"
    using conn A(4) B(2,4) by (simp add: FindVTcpConnByFd_def first_idx_None_iff)
  have count: "g_bridged_socket_count b = 2" using A(3) B(3) first by simp
  then have "0 < g_bridged_socket_count b" by simp
  note C = close_effect [OF v(1) n v(2) B(2) this c]
  show ?thesis using A(6) B(6) C up count by simp
qed

theorem rebind_leaks_relay_witness:
  "m_connected (g_relay (snd (cmd_Close sample_benv 1 9
     (snd (cmd_Bind sample_benv 1 9 host_addr (snd (cmd_Bind sample_benv 1 9 host_addr
        (bridge_udp\<lparr>g_relay := relay_up\<rparr>))))))))"
proof -
  have "g_relay_enabled (bridge_udp\<lparr>g_relay := relay_up\<rparr>)"
    by (simp add: bridge_udp_def upd_service_def bridge_init_def vtcp_init_def vtcp.defs)
  then show ?thesis
    using rebind_leaks_relay [of 9 "bridge_udp\<lparr>g_relay := relay_up\<rparr>" 1 host_addr, OF _ _ _ _ _ _ _ refl refl,
        of sample_benv sample_benv] bridge_udp_ok relay_up_wf by simp
qed

end
