(* ===== verification/Servers.thy ===== *)
theory Servers
  imports Prelude
begin

text \<open>
  The relay server list of \<^verbatim>\<open>src/source/cfg/servers.c\<close> (the overlay's copy of the file is in theory \<open>OverlayServers\<close>): the parser of
  \<^verbatim>\<open>servers.conf\<close> with the C library functions it uses (\<open>isspace\<close>, \<open>sscanf\<close> with \<open>%<n>s\<close>, \<open>strtol\<close> base 10,
  \<open>strrchr\<close>) on byte lists. A C string is the list of its bytes before the terminating NUL.
\<close>

section \<open>The C library on bytes\<close>

text \<open>The bytes of a string literal.\<close>

abbreviation ascii :: "string \<Rightarrow> u8 list" where "ascii s \<equiv> map of_char s"

definition c_isspace :: "u8 \<Rightarrow> bool" where
  "c_isspace c \<longleftrightarrow> c \<in> {9, 10, 11, 12, 13, 32}"

definition c_isdigit :: "u8 \<Rightarrow> bool" where
  "c_isdigit c \<longleftrightarrow> c \<in> {48, 49, 50, 51, 52, 53, 54, 55, 56, 57}"

text \<open>\<open>sscanf("%<n>s")\<close>: skip white space, then take at most \<open>n\<close> other characters; with what is left.\<close>

definition scan_word :: "nat \<Rightarrow> u8 list \<Rightarrow> (u8 list \<times> u8 list) option" where
  "scan_word n s =
     (let s1 = dropWhile c_isspace s;
          w = take n (takeWhile (\<lambda>c. \<not> c_isspace c) s1)
      in if w = [] then None else Some (w, drop (length w) s1))"

text \<open>\<open>strtol\<close> base 10, unbounded: a value that does not fit a \<open>long\<close> is saturated by the C function, which
  keeps it outside every range tested here.\<close>

definition digits_value :: "u8 list \<Rightarrow> int" where
  "digits_value ds = foldl (\<lambda>a d. a * 10 + (uint d - 48)) 0 ds"

definition c_strtol :: "u8 list \<Rightarrow> int" where
  "c_strtol s =
     (case dropWhile c_isspace s of
        [] \<Rightarrow> 0
      | c # r \<Rightarrow>
          if c = 45 then - digits_value (takeWhile c_isdigit r)
          else if c = 43 then digits_value (takeWhile c_isdigit r)
          else digits_value (takeWhile c_isdigit (c # r)))"

text \<open>The parts before and after the last occurrence of a character.\<close>

definition c_strrchr :: "u8 \<Rightarrow> u8 list \<Rightarrow> (u8 list \<times> u8 list) option" where
  "c_strrchr c s =
     (if c \<in> set s then Some (rev (tl (dropWhile (\<lambda>x. x \<noteq> c) (rev s))), rev (takeWhile (\<lambda>x. x \<noteq> c) (rev s)))
      else None)"

section \<open>The parser\<close>

definition SLPNXCFG_MAX_SERVERS :: nat where "SLPNXCFG_MAX_SERVERS = 10"
definition SLPNXCFG_NAME_MAX :: nat where "SLPNXCFG_NAME_MAX = 32"
definition SLPNXCFG_HOST_MAX :: nat where "SLPNXCFG_HOST_MAX = 128"

lemmas cfg_consts = SLPNXCFG_MAX_SERVERS_def SLPNXCFG_NAME_MAX_def SLPNXCFG_HOST_MAX_def

record SlpNxServer =
  srv_name :: "u8 list"
  srv_host :: "u8 list"
  srv_port :: u16

definition trim :: "u8 list \<Rightarrow> u8 list" where
  "trim s = rev (dropWhile (\<lambda>c. c \<in> {10, 13, 32, 9}) (rev s))"

definition make_server :: "u8 list \<Rightarrow> u8 list \<Rightarrow> int \<Rightarrow> SlpNxServer option" where
  "make_server name host port =
     (if port < 1 \<or> port > 65535 then None
      else Some \<lparr>srv_name = take (SLPNXCFG_NAME_MAX - 1) name,
                 srv_host = take (SLPNXCFG_HOST_MAX - 1) host, srv_port = of_int port\<rparr>)"

definition parse_line :: "u8 list \<Rightarrow> SlpNxServer option" where
  "parse_line line0 =
     (let line = trim (takeWhile (\<lambda>c. c \<noteq> 35) line0)
      in if line = [] then None
         else case scan_word 31 line of
                None \<Rightarrow> None
              | Some (name, r1) \<Rightarrow>
                  case scan_word 127 r1 of
                    None \<Rightarrow> None
                  | Some (host, r2) \<Rightarrow>
                      case scan_word 7 r2 of
                        Some (portstr, _) \<Rightarrow> make_server name host (c_strtol portstr)
                      | None \<Rightarrow>
                          (case c_strrchr 58 host of
                             Some (h, p) \<Rightarrow> make_server name h (c_strtol p)
                           | None \<Rightarrow> make_server name host 11451))"

text \<open>The loop over the lines; \<open>n\<close> servers have been stored. The line buffer holds 167 bytes and a NUL.\<close>

definition LineMax :: nat where "LineMax = SLPNXCFG_NAME_MAX + SLPNXCFG_HOST_MAX + 8 - 1"

lemma length_tl_dropWhile: "p \<noteq> [] \<Longrightarrow> length (dropWhile P p) - Suc 0 < length p"
  using length_dropWhile_le [of P p] by (cases p) (auto simp: less_Suc_eq_le)

function parse_lines :: "nat \<Rightarrow> u8 list \<Rightarrow> SlpNxServer list" where
  "parse_lines n p =
     (if n \<ge> SLPNXCFG_MAX_SERVERS \<or> p = [] then []
      else
        let line = takeWhile (\<lambda>c. c \<noteq> 0) (take LineMax (takeWhile (\<lambda>c. c \<noteq> 10) p));
            rest = dropWhile (\<lambda>c. c \<noteq> 10) p
        in case parse_line line of
             Some srv \<Rightarrow> srv # (if rest = [] then [] else parse_lines (n + 1) (tl rest))
           | None \<Rightarrow> if rest = [] then [] else parse_lines n (tl rest))"
  by pat_completeness auto
termination
  by (relation "measure (\<lambda>(n, p). length p)") (simp_all add: length_tl_dropWhile)

declare parse_lines.simps [simp del]

definition slpnxServersParse :: "u8 list \<Rightarrow> SlpNxServer list" where
  "slpnxServersParse text = parse_lines 0 text"

text \<open>The overlay's loader reads the file into a buffer of 1680 bytes; a file that cannot be opened leaves the
  list as it is.\<close>

definition slpnxServersLoad :: "u8 list option \<Rightarrow> SlpNxServer list \<Rightarrow> int \<times> SlpNxServer list" where
  "slpnxServersLoad file servers =
     (case file of
        None \<Rightarrow> (0, servers)
      | Some c \<Rightarrow>
          let parsed = slpnxServersParse
                (take (SLPNXCFG_MAX_SERVERS * (SLPNXCFG_NAME_MAX + SLPNXCFG_HOST_MAX + 8) - 1) c)
          in (int (length parsed), parsed))"

definition slpnxServersGet :: "SlpNxServer list \<Rightarrow> int \<Rightarrow> SlpNxServer option" where
  "slpnxServersGet servers index =
     (if index < 0 \<or> index \<ge> int (length servers) then None else Some (servers ! nat index))"

definition slpnxServersFindByName :: "SlpNxServer list \<Rightarrow> u8 list \<Rightarrow> int" where
  "slpnxServersFindByName servers name =
     (case first_idx (\<lambda>s. srv_name s = name) servers of Some i \<Rightarrow> int i | None \<Rightarrow> - 1)"

section \<open>What the parser accepts\<close>

definition plain :: "u8 list \<Rightarrow> bool" where
  "plain w \<longleftrightarrow> w \<noteq> [] \<and> (\<forall>c \<in> set w. \<not> c_isspace c)"

definition server_ok :: "SlpNxServer \<Rightarrow> bool" where
  "server_ok s \<longleftrightarrow> plain (srv_name s) \<and> length (srv_name s) < SLPNXCFG_NAME_MAX
     \<and> (\<forall>c \<in> set (srv_host s). \<not> c_isspace c) \<and> length (srv_host s) < SLPNXCFG_HOST_MAX \<and> srv_port s \<noteq> 0
     \<and> 0 \<notin> set (srv_name s) \<and> 0 \<notin> set (srv_host s)"

lemma scan_word_Some:
  assumes "scan_word n s = Some (w, rest)"
  shows "plain w" and "length w \<le> n" and "set w \<union> set rest \<subseteq> set s"
proof -
  let ?t = "takeWhile (\<lambda>c. \<not> c_isspace c) (dropWhile c_isspace s)"
  have w: "w = take n ?t" "w \<noteq> []" using assms by (auto simp: scan_word_def Let_def split: if_splits)
  show "plain w" using w by (auto simp: plain_def dest!: in_set_takeD set_takeWhileD)
  show "length w \<le> n" by (simp add: w(1))
  show "set w \<union> set rest \<subseteq> set s"
    using assms by (auto simp: scan_word_def Let_def split: if_splits
        dest!: in_set_takeD in_set_dropD set_takeWhileD set_dropWhileD)
qed

lemma split_at_first: "c \<in> set t \<Longrightarrow> t = takeWhile (\<lambda>x. x \<noteq> c) t @ c # tl (dropWhile (\<lambda>x. x \<noteq> c) t)"
  by (induction t) auto

lemma c_strrchr_Some:
  assumes "c_strrchr c s = Some (h, p)"
  shows "s = h @ c # p"
proof -
  have "c \<in> set (rev s)" using assms by (simp add: c_strrchr_def split: if_splits)
  from arg_cong [OF split_at_first [OF this], of rev] show ?thesis
    using assms by (auto simp: c_strrchr_def split: if_splits)
qed

lemma make_server_ok:
  assumes "plain name" and "\<forall>c \<in> set host. \<not> c_isspace c" and "make_server name host port = Some srv"
    and "0 \<notin> set name" and "0 \<notin> set host"
  shows "server_ok srv"
proof -
  have p: "0 < port" "port < 65536" and srv: "srv = \<lparr>srv_name = take 31 name, srv_host = take 127 host, srv_port = of_int port\<rparr>"
    using assms(3) by (auto simp: make_server_def cfg_consts split: if_splits)
  have "uint (of_int port :: u16) = port" using p by (simp add: unsigned_of_int take_bit_int_eq_self)
  then have "(of_int port :: u16) \<noteq> 0" using p(1) by (metis less_irrefl unsigned_0)
  then show ?thesis using assms(1,2,4,5) by (auto simp: server_ok_def srv cfg_consts plain_def dest!: in_set_takeD)
qed

lemma trim_set: "set (trim l) \<subseteq> set l"
  by (auto simp: trim_def dest!: set_dropWhileD)

lemma parse_line_ok:
  assumes "parse_line l = Some srv" and "0 \<notin> set l"
  shows "server_ok srv"
proof -
  let ?l = "trim (takeWhile (\<lambda>c. c \<noteq> 35) l)"
  obtain name r1 host r2 where w: "scan_word 31 ?l = Some (name, r1)" "scan_word 127 r1 = Some (host, r2)"
    using assms by (auto simp: parse_line_def Let_def split: if_splits option.splits)
  have pl: "plain name" "\<forall>c \<in> set host. \<not> c_isspace c"
    using scan_word_Some(1) [OF w(1)] scan_word_Some(1) [OF w(2)] by (simp_all add: plain_def)
  have "set ?l \<subseteq> set l" using trim_set by (fastforce dest: set_takeWhileD)
  then have z: "0 \<notin> set name" "0 \<notin> set host"
    using assms(2) scan_word_Some(3) [OF w(1)] scan_word_Some(3) [OF w(2)] by auto
  have "set h \<subseteq> set host" if "c_strrchr 58 host = Some (h, q)" for h q
    using c_strrchr_Some [OF that] by auto
  moreover obtain h q where "make_server name h q = Some srv" "h = host \<or> (\<exists>t. c_strrchr 58 host = Some (h, t))"
    using assms w by (auto simp: parse_line_def Let_def split: if_splits option.splits)
  ultimately show ?thesis using pl z make_server_ok by blast
qed

lemma parse_lines_ok: "srv \<in> set (parse_lines n p) \<Longrightarrow> server_ok srv"
proof (induction n p rule: parse_lines.induct)
  case (1 n p)
  have "0 \<notin> set (takeWhile (\<lambda>c. c \<noteq> 0) xs)" for xs :: "u8 list" by (auto dest: set_takeWhileD)
  note ok = parse_line_ok [OF _ this]
  from 1 show ?case
    by (subst (asm) (2) parse_lines.simps) (auto simp: Let_def split: if_splits option.splits intro: ok)
qed

lemma parse_lines_length: "length (parse_lines n p) \<le> SLPNXCFG_MAX_SERVERS - n"
proof (induction "length p" arbitrary: n p rule: less_induct)
  case less
  let ?q = "tl (dropWhile (\<lambda>c. c \<noteq> 10) p)"
  show ?case
  proof (cases "n \<ge> SLPNXCFG_MAX_SERVERS \<or> p = []")
    case True
    then show ?thesis by (simp add: parse_lines.simps)
  next
    case False
    then have "length (parse_lines m ?q) \<le> SLPNXCFG_MAX_SERVERS - m" for m
      by (intro less) (simp add: length_tl_dropWhile)
    from this [of n] this [of "n + 1"] show ?thesis
      using False by (subst parse_lines.simps) (auto simp: Let_def split: option.split)
  qed
qed

section \<open>Decimal numbers\<close>

text \<open>What \<open>printf("%d")\<close> writes for a non-negative number.\<close>

fun decimal :: "nat \<Rightarrow> u8 list" where
  "decimal n = (if n < 10 then [of_nat (48 + n)] else decimal (n div 10) @ [of_nat (48 + n mod 10)])"

declare decimal.simps [simp del]

lemma digit_ok: "d < 10 \<Longrightarrow> c_isdigit (of_nat (48 + d)) \<and> uint (of_nat (48 + d) :: u8) = 48 + int d"
proof -
  assume "d < 10"
  then have "d \<in> {0, 1, 2, 3, 4, 5, 6, 7, 8, 9}" by auto
  then show ?thesis by (auto simp: c_isdigit_def)
qed

lemma decimal_digits: "\<forall>c \<in> set (decimal n). c_isdigit c"
proof (induction n rule: decimal.induct)
  case (1 n)
  then show ?case by (subst decimal.simps) (use digit_ok in auto)
qed

lemma decimal_nonempty [simp]: "decimal n \<noteq> []"
  by (subst decimal.simps) simp

lemma digits_value_decimal: "digits_value (decimal n) = int n"
proof (induction n rule: decimal.induct)
  case (1 n)
  have "digits_value (ds @ [d]) = digits_value ds * 10 + (uint d - 48)" for ds d
    by (simp add: digits_value_def)
  then show ?case
    using 1 digit_ok [of n] digit_ok [of "n mod 10"]
    by (subst decimal.simps) (auto simp: digits_value_def zdiv_int zmod_int)
qed

lemma length_decimal: "n < 10 ^ k \<Longrightarrow> 0 < k \<Longrightarrow> length (decimal n) \<le> k"
proof (induction k arbitrary: n)
  case 0
  then show ?case by simp
next
  case (Suc k)
  show ?case
  proof (cases "n < 10")
    case True
    then show ?thesis by (simp add: decimal.simps)
  next
    case False
    then have "0 < k" "n div 10 < 10 ^ k" using Suc.prems(1) by (cases k; simp add: less_mult_imp_div_less mult.commute)+
    then show ?thesis using Suc.IH [of "n div 10"] False by (subst decimal.simps) simp
  qed
qed

lemma digit_facts: "c_isdigit c \<Longrightarrow> \<not> c_isspace c \<and> c \<noteq> 45 \<and> c \<noteq> 43 \<and> c \<noteq> 58 \<and> c \<noteq> 35 \<and> c \<noteq> 0 \<and> c \<noteq> 10"
  by (auto simp: c_isdigit_def c_isspace_def)

lemma c_strtol_decimal: "rest = [] \<or> \<not> c_isdigit (hd rest) \<Longrightarrow> c_strtol (decimal n @ rest) = int n"
proof -
  assume rest: "rest = [] \<or> \<not> c_isdigit (hd rest)"
  obtain c r where c: "decimal n = c # r" by (cases "decimal n") auto
  have d: "c_isdigit c" "\<forall>x \<in> set r. c_isdigit x" using decimal_digits [of n] by (simp_all add: c)
  have "takeWhile c_isdigit (decimal n @ rest) = decimal n"
    using rest decimal_digits [of n] by (cases rest) (auto simp: takeWhile_append2)
  then show ?thesis using d digit_facts [OF d(1)] digits_value_decimal [of n] by (simp add: c_strtol_def c)
qed

section \<open>Reading back a printed list\<close>

text \<open>A line of \<^verbatim>\<open>servers.conf\<close>, in one of the two documented formats.\<close>

definition server_line :: "(SlpNxServer \<Rightarrow> bool) \<Rightarrow> SlpNxServer \<Rightarrow> u8 list" where
  "server_line three s =
     srv_name s @ [32] @ srv_host s @ [if three s then 32 else 58] @ decimal (unat (srv_port s))"

definition servers_text :: "(SlpNxServer \<Rightarrow> bool) \<Rightarrow> SlpNxServer list \<Rightarrow> u8 list" where
  "servers_text three srvs = concat (map (\<lambda>s. server_line three s @ [10]) srvs)"

definition printable :: "(SlpNxServer \<Rightarrow> bool) \<Rightarrow> SlpNxServer \<Rightarrow> bool" where
  "printable three s \<longleftrightarrow> plain (srv_name s) \<and> length (srv_name s) \<le> 31 \<and> plain (srv_host s)
     \<and> length (srv_host s) + (if three s then 0 else 6) \<le> 127 \<and> srv_port s \<noteq> 0
     \<and> (\<forall>c \<in> set (srv_name s @ srv_host s). c \<noteq> 35 \<and> c \<noteq> 0)"

lemma scan_word_token:
  assumes "plain w" and "0 < n" and "rest = [] \<or> c_isspace (hd rest)" and "\<forall>c \<in> set pre. c_isspace c"
  shows "scan_word n (pre @ w @ rest) = Some (take n w, drop n w @ rest)"
proof -
  obtain c v where w: "w = c # v" using assms(1) by (cases w) (auto simp: plain_def)
  have "dropWhile c_isspace (pre @ w @ rest) = w @ rest"
    using assms(1,4) by (simp add: w plain_def)
  moreover have "takeWhile (\<lambda>c. \<not> c_isspace c) (w @ rest) = w"
    using assms(1,3) by (cases rest) (auto simp: plain_def takeWhile_append2)
  moreover have "take n w \<noteq> []" using assms(2) by (simp add: w)
  moreover have "drop (length (take n w)) (w @ rest) = drop n w @ rest" by (cases "n \<le> length w") (simp_all add: min_def)
  ultimately show ?thesis by (simp add: scan_word_def Let_def)
qed

lemma scan_word_plain:
  assumes "plain w" and "length w \<le> n" and "rest = [] \<or> c_isspace (hd rest)" and "\<forall>c \<in> set pre. c_isspace c"
  shows "scan_word n (pre @ w @ rest) = Some (w, rest)"
  using scan_word_token [OF assms(1) _ assms(3,4), of n] assms(1,2) by (cases w) (auto simp: plain_def)

lemma c_strrchr_last: "c \<notin> set p \<Longrightarrow> c_strrchr c (h @ c # p) = Some (h, p)"
proof -
  assume "c \<notin> set p"
  then have "takeWhile (\<lambda>x. x \<noteq> c) (rev p @ c # rev h) = rev p" "dropWhile (\<lambda>x. x \<noteq> c) (rev p @ c # rev h) = c # rev h"
    by (induction p rule: rev_induct) auto
  then show ?thesis by (simp add: c_strrchr_def)
qed

lemma trim_digits: "ds \<noteq> [] \<Longrightarrow> \<forall>c \<in> set ds. c_isdigit c \<Longrightarrow> trim (xs @ ds) = xs @ ds"
  using digit_facts [of "last ds"] by (cases ds rule: rev_cases) (auto simp: trim_def c_isdigit_def)

lemma port_digits:
  fixes p :: u16
  defines "ds \<equiv> decimal (unat p)"
  shows "\<forall>c \<in> set ds. c_isdigit c" and "ds \<noteq> []" and "plain ds" and "length ds \<le> 5" and "c_strtol ds = uint p"
proof -
  show d: "\<forall>c \<in> set ds. c_isdigit c" "ds \<noteq> []" by (simp_all add: ds_def decimal_digits)
  then show "plain ds" using digit_facts by (auto simp: plain_def)
  have "unat p < 65536" using unsigned_less [of p] by simp
  then show "length ds \<le> 5" unfolding ds_def by (intro length_decimal) simp_all
  show "c_strtol ds = uint p" using c_strtol_decimal [of "[]" "unat p"] by (simp add: ds_def)
qed

lemma printable_server:
  assumes "printable three s"
  shows "make_server (srv_name s) (srv_host s) (uint (srv_port s)) = Some s"
proof -
  have "uint (srv_port s) \<noteq> 0" using assms by (simp add: printable_def unsigned_eq_0_iff)
  then have "0 < uint (srv_port s)" using uint_ge_0 by (metis order_le_imp_less_or_eq)
  moreover have "uint (srv_port s) < 65536" using uint_lt2p [of "srv_port s"] by simp
  ultimately show ?thesis using assms by (simp add: make_server_def cfg_consts printable_def split: if_splits)
qed

text \<open>A printed line fits the line buffer and has no character that would end or cut it.\<close>

lemma server_line_bytes:
  assumes "printable three s"
  shows "\<forall>c \<in> set (server_line three s). c \<noteq> 10 \<and> c \<noteq> 0 \<and> c \<noteq> 35"
    and "length (server_line three s) \<le> LineMax" and "trim (server_line three s) = server_line three s"
proof -
  note D = port_digits [of "srv_port s"]
  have "c_isspace 10" by (simp add: c_isspace_def)
  then show "\<forall>c \<in> set (server_line three s). c \<noteq> 10 \<and> c \<noteq> 0 \<and> c \<noteq> 35"
    using assms D(1) digit_facts by (auto simp: server_line_def plain_def printable_def)
  show "length (server_line three s) \<le> LineMax"
    using assms D(4) by (auto simp: server_line_def LineMax_def cfg_consts printable_def split: if_splits)
  show "trim (server_line three s) = server_line three s"
    using trim_digits [OF D(2,1)] unfolding server_line_def append_assoc [symmetric] by blast
qed

lemma parse_line_printed:
  assumes ok: "printable three s"
  shows "parse_line (server_line three s) = Some s"
proof -
  let ?ds = "decimal (unat (srv_port s))"
  note D = port_digits [of "srv_port s"] and B = server_line_bytes [OF ok]
  have sp: "c_isspace 32" "\<not> c_isspace 58" by (simp_all add: c_isspace_def)
  have hash: "takeWhile (\<lambda>c. c \<noteq> 35) (server_line three s) = server_line three s"
    using B(1) by (simp add: takeWhile_eq_all_conv)
  have ne: "server_line three s \<noteq> []" by (simp add: server_line_def)
  have w1: "scan_word 31 (server_line three s) = Some (srv_name s, 32 # srv_host s @ [if three s then 32 else 58] @ ?ds)"
    using scan_word_plain [of "srv_name s" 31 "32 # srv_host s @ [if three s then 32 else 58] @ ?ds" "[]"] ok sp
    by (simp add: server_line_def printable_def)
  note step = hash B(3) ne w1 D(5) printable_server [OF ok]
  show ?thesis
  proof (cases "three s")
    case True
    then have w2: "scan_word 127 (32 # srv_host s @ 32 # ?ds) = Some (srv_host s, 32 # ?ds)"
      using scan_word_plain [of "srv_host s" 127 "32 # ?ds" "[32]"] ok sp by (simp add: printable_def)
    have "scan_word 7 (32 # ?ds) = Some (?ds, [])"
      using scan_word_plain [OF D(3), of 7 "[]" "[32]"] D(4) sp by simp
    then show ?thesis unfolding parse_line_def Let_def by (simp add: step w2 True)
  next
    case False
    have "plain (srv_host s @ 58 # ?ds)" using ok D(3) sp by (auto simp: plain_def printable_def)
    then have w2: "scan_word 127 (32 # srv_host s @ 58 # ?ds) = Some (srv_host s @ 58 # ?ds, [])"
      using scan_word_plain [of "srv_host s @ 58 # ?ds" 127 "[]" "[32]"] ok D(4) False sp by (simp add: printable_def)
    have "c_strrchr 58 (srv_host s @ 58 # ?ds) = Some (srv_host s, ?ds)"
      using D(1) digit_facts by (intro c_strrchr_last) auto
    moreover have "scan_word 7 [] = None" by (simp add: scan_word_def)
    ultimately show ?thesis unfolding parse_line_def Let_def by (simp add: step w2 False)
  qed
qed

lemma parse_lines_printed:
  "\<forall>s \<in> set srvs. printable three s \<Longrightarrow> n + length srvs \<le> SLPNXCFG_MAX_SERVERS \<Longrightarrow>
     parse_lines n (servers_text three srvs) = srvs"
proof (induction srvs arbitrary: n)
  case Nil
  then show ?case by (simp add: servers_text_def parse_lines.simps)
next
  case (Cons s srvs)
  note P = parse_line_printed [of three s] and B = server_line_bytes [of three s]
  let ?l = "server_line three s"
  have t: "servers_text three (s # srvs) = ?l @ 10 # servers_text three srvs" by (simp add: servers_text_def)
  have l: "takeWhile (\<lambda>c. c \<noteq> 10) (?l @ 10 # xs) = ?l" "dropWhile (\<lambda>c. c \<noteq> 10) (?l @ 10 # xs) = 10 # xs"
    "takeWhile (\<lambda>c. c \<noteq> 0) ?l = ?l" for xs
    using B(1) Cons.prems(1) by (simp_all add: takeWhile_append2 dropWhile_append2 takeWhile_eq_all_conv)
  have "take LineMax ?l = ?l" using B(2) Cons.prems(1) by simp
  then show ?case
    using Cons by (subst parse_lines.simps) (simp add: t Let_def l P)
qed

text \<open>C34: A server list printed in the documented formats (\<open>name host:port\<close> or \<open>name host port\<close>, one
  per line) is read back exactly, entry by entry and in order, as long as it has at most ten entries and
  the names and hosts fit their fields.\<close>

theorem servers_roundtrip:
  assumes "\<forall>s \<in> set srvs. printable three s" and "length srvs \<le> SLPNXCFG_MAX_SERVERS"
  shows "slpnxServersParse (servers_text three srvs) = srvs"
  using parse_lines_printed [of srvs three 0] assms by (simp add: slpnxServersParse_def)

definition sample_server :: SlpNxServer where
  "sample_server = \<lparr>srv_name = [108, 111], srv_host = [49, 46, 50], srv_port = 11451\<rparr>"

theorem servers_roundtrip_witness:
  "slpnxServersParse (servers_text (\<lambda>s. False) [sample_server, sample_server]) = [sample_server, sample_server]"
  by (rule servers_roundtrip) (simp_all add: printable_def sample_server_def plain_def c_isspace_def cfg_consts)

text \<open>Whatever the file holds, at most ten servers are read, and each has a name of 1 to 31 and a host of
  at most 127 characters, both without white space and NUL, and a port other than 0.\<close>

theorem servers_parse_bounds:
  "length (slpnxServersParse conf) \<le> SLPNXCFG_MAX_SERVERS
   \<and> list_all server_ok (slpnxServersParse conf)"
  using parse_lines_length [of 0 conf] parse_lines_ok [of _ 0 conf]
  by (auto simp: slpnxServersParse_def list_all_iff)

section \<open>Names that do not fit\<close>

lemma trim_plain: "plain w \<Longrightarrow> trim (xs @ w) = xs @ w"
  by (cases w rule: rev_cases) (auto simp: trim_def plain_def c_isspace_def)

lemma plain_drop: "plain w \<Longrightarrow> n < length w \<Longrightarrow> plain (drop n w)"
  by (auto simp: plain_def dest: in_set_dropD)

text \<open>A name of more than 31 characters is not cut: what does not fit is read as the host, and the
  first seven characters of the real address as the port. A line with such a name is either dropped
  or, when the address starts with a number (a dotted quad), accepted with the rest of the name as its
  host and the first number of the address as its port.\<close>

theorem long_name_misread:
  assumes "plain w" and "31 < length w" and "length w \<le> 158" and "plain a"
    and "\<forall>c \<in> set (w @ a). c \<noteq> 35"
  shows "parse_line (w @ [32] @ a) = make_server (take 31 w) (drop 31 w) (c_strtol (take 7 a))"
proof -
  have "\<forall>c \<in> set (w @ [32] @ a). c \<noteq> 35" using assms(5) by auto
  then have l: "takeWhile (\<lambda>c. c \<noteq> 35) (w @ [32] @ a) = w @ [32] @ a" "trim (w @ [32] @ a) = w @ [32] @ a"
    using trim_plain [OF assms(4), of "w @ [32]"] by (auto simp: takeWhile_eq_all_conv)
  have sp: "c_isspace 32" by (simp add: c_isspace_def)
  have "scan_word 31 (w @ 32 # a) = Some (take 31 w, drop 31 w @ 32 # a)"
    using scan_word_token [OF assms(1), of 31 "32 # a" "[]"] sp by simp
  moreover have "scan_word 127 (drop 31 w @ 32 # a) = Some (drop 31 w, 32 # a)"
    using scan_word_plain [OF plain_drop [OF assms(1,2)], of 127 "32 # a" "[]"] assms(3) sp by simp
  moreover have "scan_word 7 (32 # a) = Some (take 7 a, drop 7 a)"
    using scan_word_token [OF assms(4), of 7 "[]" "[32]"] sp by simp
  ultimately show ?thesis unfolding parse_line_def Let_def l by simp
qed

text \<open>A 32-character name and the address \<open>10.0.0.1:11451\<close>: host \<open>a\<close>, port 10.\<close>

theorem long_name_misread_witness:
  "parse_line (replicate 32 97 @ [32] @ [49, 48, 46, 48, 46, 48, 46, 49, 58, 49, 49, 52, 53, 49])
     = Some \<lparr>srv_name = replicate 31 97, srv_host = [97], srv_port = 10\<rparr>"
proof -
  have "c_strtol [49, 48, 46, 48, 46, 48, 46] = 10"
    by (simp add: c_strtol_def c_isspace_def c_isdigit_def digits_value_def)
  then show ?thesis
    using long_name_misread [of "replicate 32 97" "[49, 48, 46, 48, 46, 48, 46, 49, 58, 49, 49, 52, 53, 49]"]
    by (simp add: plain_def c_isspace_def make_server_def cfg_consts)
qed

end
