(* ===== verification/Config.thy ===== *)
theory Config
  imports Servers Drain
begin

text \<open>
  The relay selection and the IPC service of the overlay: \<open>RuntimeCfg\<close> (\<^verbatim>\<open>src/source/cfg/runtime_cfg.cpp\<close>)
  with its two files on the SD card, and \<open>ConfigService\<close> (\<^verbatim>\<open>src/source/cfg/cfg_service.cpp\<close>), whose
  commands act on the selection and on the bridge. The file system is the parameter \<open>sd_env\<close>: whether
  its calls succeed, and what \<open>sscanf\<close> stores for a number that does not fit an \<open>int\<close>.
\<close>

section \<open>State\<close>

record sd_env =
  sd_read_ok :: bool
  sd_delete_ok :: bool
  sd_create_ok :: bool
  sd_open_ok :: bool
  sd_write_ok :: bool
  sd_int_overflow :: "int \<Rightarrow> int"

record config =
  m_sel_index :: int
  g_servers :: "SlpNxServer list"
  sd_conf :: "u8 list option"
  sd_selected :: "u8 list option"

definition config_init :: "u8 list option \<Rightarrow> u8 list option \<Rightarrow> config" where
  "config_init conf selected = \<lparr>m_sel_index = - 1, g_servers = [], sd_conf = conf, sd_selected = selected\<rparr>"

text \<open>\<open>10.102.227.153\<close>\<close>

definition DefaultRelayHost :: "u8 list" where
  "DefaultRelayHost = [49, 48, 46, 49, 48, 50, 46, 50, 50, 55, 46, 49, 53, 51]"

definition DefaultRelayPort :: u16 where "DefaultRelayPort = 11451"

section \<open>The files\<close>

definition ReadConfigText :: "sd_env \<Rightarrow> u8 list option \<Rightarrow> nat \<Rightarrow> u8 list option" where
  "ReadConfigText e file cap =
     (case file of
        None \<Rightarrow> None
      | Some c \<Rightarrow> if length c > 0 \<and> length c < cap - 1 \<and> sd_read_ok e then Some c else None)"

text \<open>\<open>sscanf("%d")\<close>: the number read, unbounded.\<close>

definition c_scan_int :: "u8 list \<Rightarrow> int option" where
  "c_scan_int s =
     (let s1 = dropWhile c_isspace s;
          neg = (s1 \<noteq> [] \<and> hd s1 = 45);
          s2 = (if s1 \<noteq> [] \<and> (hd s1 = 45 \<or> hd s1 = 43) then tl s1 else s1);
          ds = takeWhile c_isdigit s2
      in if ds = [] then None else Some (if neg then - digits_value ds else digits_value ds))"

definition ReadPersistedSelection :: "sd_env \<Rightarrow> config \<Rightarrow> int option" where
  "ReadPersistedSelection e c =
     (case ReadConfigText e (sd_selected c) 16 of
        None \<Rightarrow> None
      | Some buf \<Rightarrow>
          (case c_scan_int (takeWhile (\<lambda>b. b \<noteq> 0) buf) of
             None \<Rightarrow> None
           | Some v \<Rightarrow>
               let idx = (if - (2 ^ 31) \<le> v \<and> v < 2 ^ 31 then v else sd_int_overflow e v)
               in if idx < 0 then None else Some idx))"

definition print_int :: "int \<Rightarrow> u8 list" where
  "print_int i = (if i < 0 then 45 # decimal (nat (- i)) else decimal (nat i))"

definition PersistSelection :: "sd_env \<Rightarrow> int \<Rightarrow> config \<Rightarrow> config" where
  "PersistSelection e index c =
     (let body = print_int index @ [10];
          c1 = (if sd_delete_ok e then c\<lparr>sd_selected := None\<rparr> else c)
      in if sd_selected c1 \<noteq> None \<or> \<not> sd_create_ok e then c1
         else if sd_open_ok e \<and> sd_write_ok e then c1\<lparr>sd_selected := Some body\<rparr>
         else c1\<lparr>sd_selected := Some (replicate (length body) 0)\<rparr>)"

section \<open>RuntimeCfg\<close>

definition ReloadServers :: "sd_env \<Rightarrow> config \<Rightarrow> int \<times> config" where
  "ReloadServers e c =
     (case ReadConfigText e (sd_conf c) 4096 of
        None \<Rightarrow> (0, c)
      | Some buf \<Rightarrow>
          let servers = slpnxServersParse buf;
              count = int (length servers);
              keep = (if m_sel_index c < 0 \<or> m_sel_index c \<ge> count then (if count > 0 then 0 else - 1)
                      else m_sel_index c);
              sel = (case ReadPersistedSelection e c of
                       Some p \<Rightarrow> if p < count then p else keep
                     | None \<Rightarrow> keep)
          in (count, c\<lparr>g_servers := servers, m_sel_index := sel\<rparr>))"

definition ServerCount :: "config \<Rightarrow> int" where "ServerCount c = int (length (g_servers c))"

definition GetSelectedIndex :: "config \<Rightarrow> int" where "GetSelectedIndex c = m_sel_index c"

definition ServerName :: "config \<Rightarrow> int \<Rightarrow> u8 list" where
  "ServerName c i = (case slpnxServersGet (g_servers c) i of Some s \<Rightarrow> srv_name s | None \<Rightarrow> [])"

definition ServerHost :: "config \<Rightarrow> int \<Rightarrow> u8 list" where
  "ServerHost c i = (case slpnxServersGet (g_servers c) i of Some s \<Rightarrow> srv_host s | None \<Rightarrow> [])"

definition ServerPort :: "config \<Rightarrow> int \<Rightarrow> u16" where
  "ServerPort c i = (case slpnxServersGet (g_servers c) i of Some s \<Rightarrow> srv_port s | None \<Rightarrow> 0)"

definition SelectServer :: "sd_env \<Rightarrow> u32 \<Rightarrow> config \<Rightarrow> bool \<times> config" where
  "SelectServer e index c =
     (if sint index \<ge> int (length (g_servers c)) then (False, c)
      else (True, PersistSelection e (sint index) (c\<lparr>m_sel_index := sint index\<rparr>)))"

definition GetSelectedHostPort :: "nat \<Rightarrow> config \<Rightarrow> u8 list \<times> u16" where
  "GetSelectedHostPort host_cap c =
     (case slpnxServersGet (g_servers c) (m_sel_index c) of
        Some s \<Rightarrow> (take (host_cap - 1) (srv_host s), srv_port s)
      | None \<Rightarrow> (take (host_cap - 1) DefaultRelayHost, DefaultRelayPort))"

section \<open>ConfigService\<close>

text \<open>\<open>0.1.0\<close>\<close>

definition Version :: "u8 list" where "Version = [48, 46, 49, 46, 48]"

definition padded :: "nat \<Rightarrow> u8 list \<Rightarrow> u8 list" where
  "padded n s = take (n - 1) s @ replicate (n - length (take (n - 1) s)) 0"

definition copy_str :: "nat \<Rightarrow> u8 list \<Rightarrow> u8 list" where
  "copy_str out_size str = take (min out_size 128) (padded 128 str)"

definition inet_ntoa :: "u32 \<Rightarrow> u8 list" where
  "inet_ntoa ip = decimal (unat (b32_3 ip)) @ [46] @ decimal (unat (b32_2 ip)) @ [46]
     @ decimal (unat (b32_1 ip)) @ [46] @ decimal (unat (b32_0 ip))"

definition ip_to_str :: "u32 \<Rightarrow> nat \<Rightarrow> u8 list" where
  "ip_to_str ip out_cap = (if ip = 0 then [] else take (out_cap - 1) (inet_ntoa ip))"

definition cfg_GetVersion :: "nat \<Rightarrow> u8 list" where
  "cfg_GetVersion out_size = take (min out_size 32) (padded 32 Version)"

record cfg_system =
  cs_cfg :: config
  cs_bridge :: bridge

text \<open>The platform with the selected relay, as \<open>ConnectRelayLocked\<close> sees it.\<close>

definition cfg_benv :: "config \<Rightarrow> benv \<Rightarrow> benv" where
  "cfg_benv c env = env\<lparr>e_host := fst (GetSelectedHostPort 128 c), e_port := snd (GetSelectedHostPort 128 c)\<rparr>"

record state_sizes =
  z_connected :: nat
  z_enabled :: nat
  z_sel_index :: nat
  z_host :: nat
  z_port :: nat
  z_local_ip :: nat
  z_real_ip :: nat

record state_out =
  o_connected :: u32
  o_enabled :: u32
  o_sel_index :: u32
  o_host :: "u8 list"
  o_port :: u32
  o_local_ip :: "u8 list"
  o_real_ip :: "u8 list"

text \<open>The four numbers are written whatever the size of their out-buffers: \<open>None\<close> is a write past the end.\<close>

definition cfg_GetState :: "benv \<Rightarrow> state_sizes \<Rightarrow> cfg_system \<Rightarrow> (state_out \<times> cfg_system) option" where
  "cfg_GetState env z s =
     (let (h, p) = GetSelectedHostPort 16 (cs_cfg s);
          (real_ip, b) = GetRealIp env (cs_bridge s)
      in if z_connected z < 4 \<or> z_enabled z < 4 \<or> z_sel_index z < 4 \<or> z_port z < 4 then None
         else Some (\<lparr>o_connected = (if IsRelayConnected (cs_bridge s) then 1 else 0),
                     o_enabled = (if IsRelayEnabled (cs_bridge s) then 1 else 0),
                     o_sel_index = of_int (m_sel_index (cs_cfg s)),
                     o_host = copy_str (z_host z) h, o_port = ucast p,
                     o_local_ip = copy_str (z_local_ip z) (ip_to_str (GetLocalIp (cs_bridge s)) 16),
                     o_real_ip = copy_str (z_real_ip z) (ip_to_str real_ip 16)\<rparr>,
                    s\<lparr>cs_bridge := b\<rparr>))"

datatype cfg_result = CfgSuccess | ResultInvalidRequestSize

definition cfg_SelectServer :: "sd_env \<Rightarrow> u32 \<Rightarrow> cfg_system \<Rightarrow> cfg_result \<times> cfg_system" where
  "cfg_SelectServer e index s =
     (let (ok, c) = SelectServer e index (cs_cfg s)
      in (if ok then CfgSuccess else ResultInvalidRequestSize, s\<lparr>cs_cfg := c\<rparr>))"

definition cfg_Reload :: "sd_env \<Rightarrow> cfg_system \<Rightarrow> cfg_system" where
  "cfg_Reload e s = s\<lparr>cs_cfg := snd (ReloadServers e (cs_cfg s))\<rparr>"

definition cfg_Reconnect :: "benv \<Rightarrow> cfg_system \<Rightarrow> cfg_system" where
  "cfg_Reconnect env s = s\<lparr>cs_bridge := ForceReconnect (cfg_benv (cs_cfg s) env) (cs_bridge s)\<rparr>"

definition cfg_Start :: "benv \<Rightarrow> cfg_system \<Rightarrow> cfg_system" where
  "cfg_Start env s = s\<lparr>cs_bridge := BridgeStart (cfg_benv (cs_cfg s) env) (cs_bridge s)\<rparr>"

definition cfg_Stop :: "cfg_system \<Rightarrow> cfg_system" where
  "cfg_Stop s = s\<lparr>cs_bridge := BridgeStop (cs_bridge s)\<rparr>"

section \<open>The selection\<close>

text \<open>The upper half of \<open>u32\<close> is negative as an \<open>int\<close>.\<close>

lemma sint_top: "(0x80000000 :: u32) \<le> w \<Longrightarrow> sint w < 0"
proof -
  assume "(0x80000000 :: u32) \<le> w"
  then have "2 ^ 31 \<le> uint w" by (simp add: word_le_def)
  moreover have "uint w < 2 ^ 32" using uint_lt2p [of w] by simp
  ultimately have "uint w div 2 ^ 31 = 1" by simp
  then have "bit (uint w) 31" by (simp add: bit_iff_odd)
  then show "sint w < 0" by (simp add: sint_uint)
qed

definition config_inv :: "config \<Rightarrow> bool" where
  "config_inv c \<longleftrightarrow> m_sel_index c < int (length (g_servers c)) \<and> length (g_servers c) \<le> SLPNXCFG_MAX_SERVERS
     \<and> (\<forall>s \<in> set (g_servers c). server_ok s)"

definition sd_works :: "sd_env \<Rightarrow> bool" where
  "sd_works e \<longleftrightarrow> sd_read_ok e \<and> sd_delete_ok e \<and> sd_create_ok e \<and> sd_open_ok e \<and> sd_write_ok e"

lemma PersistSelection_fields [simp]:
  "m_sel_index (PersistSelection e i c) = m_sel_index c" "g_servers (PersistSelection e i c) = g_servers c"
  "sd_conf (PersistSelection e i c) = sd_conf c"
  by (simp_all add: PersistSelection_def Let_def)

lemma PersistSelection_works:
  "sd_works e \<Longrightarrow> sd_selected (PersistSelection e i c) = Some (print_int i @ [10])"
  by (simp add: PersistSelection_def sd_works_def Let_def)

text \<open>\<open>sscanf\<close> reads back what \<open>snprintf\<close> printed.\<close>

lemma takeWhile_decimal: "takeWhile c_isdigit (decimal n @ [10]) = decimal n"
proof -
  have "\<not> c_isdigit 10" by (simp add: c_isdigit_def)
  then show ?thesis using decimal_digits [of n] by (simp add: takeWhile_append2)
qed

lemma c_scan_int_print: "c_scan_int (print_int i @ [10]) = Some i"
proof -
  obtain c r where c: "decimal (nat i) = c # r" by (cases "decimal (nat i)") auto
  have "c_isdigit c" using decimal_digits [of "nat i"] by (simp add: c)
  note f = digit_facts [OF this]
  have tw: "takeWhile c_isdigit (c # r @ [10]) = decimal (nat i)" using takeWhile_decimal [of "nat i"] by (simp add: c)
  have sp: "\<not> c_isspace 45" by (simp add: c_isspace_def)
  show ?thesis
  proof (cases "i < 0")
    case True
    then show ?thesis
      using sp by (simp add: c_scan_int_def print_int_def Let_def takeWhile_decimal digits_value_decimal)
  next
    case False
    then have "print_int i @ [10] = c # r @ [10]" by (simp add: print_int_def c)
    then show ?thesis using False f tw
      by (simp add: c_scan_int_def Let_def digits_value_decimal)
  qed
qed

lemma print_int_bytes: "b \<in> set (print_int i) \<Longrightarrow> b \<noteq> 0 \<and> b \<noteq> 10"
proof -
  have d: "b \<noteq> 0 \<and> b \<noteq> 10" if "b \<in> set (decimal n)" for n
    using digit_facts [of b] decimal_digits [of n] that by blast
  assume "b \<in> set (print_int i)"
  then have "b = 45 \<or> b \<in> set (decimal (nat (- i))) \<or> b \<in> set (decimal (nat i))"
    by (auto simp: print_int_def split: if_splits)
  then show "b \<noteq> 0 \<and> b \<noteq> 10" using d by fastforce
qed

lemma persisted_read:
  assumes "sd_works e" and "0 \<le> i" and "i < 100"
  shows "ReadPersistedSelection e (PersistSelection e i c) = Some i"
proof -
  have "length (decimal (nat i)) \<le> 2" using assms by (intro length_decimal) (simp_all add: nat_less_iff)
  then have r: "ReadConfigText e (Some (print_int i @ [10])) 16 = Some (print_int i @ [10])"
    using assms(1,2) by (simp add: ReadConfigText_def sd_works_def print_int_def)
  have "takeWhile (\<lambda>b. b \<noteq> 0) (print_int i @ [10]) = print_int i @ [10]"
    using print_int_bytes by (simp add: takeWhile_eq_all_conv)
  then show ?thesis
    using assms(2,3) by (simp add: ReadPersistedSelection_def PersistSelection_works [OF assms(1)] r c_scan_int_print)
qed

lemma ReloadServers_inv: "config_inv c \<Longrightarrow> config_inv (snd (ReloadServers e c))"
proof -
  have "length (slpnxServersParse buf) \<le> SLPNXCFG_MAX_SERVERS" "\<forall>s \<in> set (slpnxServersParse buf). server_ok s" for buf
    using parse_lines_length [of 0 buf] parse_lines_ok [of _ 0 buf] by (auto simp: slpnxServersParse_def)
  then show "config_inv c \<Longrightarrow> config_inv (snd (ReloadServers e c))"
    by (auto simp: ReloadServers_def config_inv_def Let_def split: option.split)
qed

text \<open>C35: The selection survives a reboot: when a server of the loaded list is selected and the SD card
  works, the next boot, which reads the two files anew, selects the same server and so the same relay
  address and port.\<close>

theorem selection_survives_reboot:
  assumes sd: "sd_works e" and conf: "ReadConfigText e (sd_conf c) 4096 = Some buf"
    and loaded: "g_servers c = slpnxServersParse buf"
    and index: "0 \<le> sint index" and run: "SelectServer e index c = (True, c')"
    and boot: "d = snd (ReloadServers e (config_init (sd_conf c') (sd_selected c')))"
  shows "m_sel_index d = sint index \<and> m_sel_index c' = sint index \<and> g_servers d = g_servers c
     \<and> GetSelectedHostPort cap d = GetSelectedHostPort cap c'"
proof -
  have lt: "sint index < int (length (slpnxServersParse buf))" and
    c': "c' = PersistSelection e (sint index) (c\<lparr>m_sel_index := sint index\<rparr>)"
    using run loaded by (auto simp: SelectServer_def split: if_splits)
  have "length (slpnxServersParse buf) \<le> 10"
    using parse_lines_length [of 0 buf] by (simp add: slpnxServersParse_def cfg_consts)
  then have "sint index < 100" using lt by simp
  from persisted_read [OF sd index this]
  have "ReadPersistedSelection e (config_init (sd_conf c') (sd_selected c')) = Some (sint index)"
    by (simp add: ReadPersistedSelection_def c' config_init_def)
  then have "d = config_init (sd_conf c') (sd_selected c')\<lparr>g_servers := slpnxServersParse buf, m_sel_index := sint index\<rparr>"
    using lt conf by (simp add: boot ReloadServers_def c' config_init_def Let_def)
  then show ?thesis by (simp add: c' loaded GetSelectedHostPort_def)
qed

text \<open>A list of two servers, of which the second is selected.\<close>

definition sample_conf :: "u8 list" where
  "sample_conf = servers_text (\<lambda>s. False) [sample_server, sample_server]"

definition sample_sd :: sd_env where
  "sample_sd = \<lparr>sd_read_ok = True, sd_delete_ok = True, sd_create_ok = True, sd_open_ok = True,
     sd_write_ok = True, sd_int_overflow = (\<lambda>v. - 1)\<rparr>"

definition sample_config :: config where
  "sample_config = (config_init (Some sample_conf) None)\<lparr>g_servers := [sample_server, sample_server], m_sel_index := 0\<rparr>"

lemma sample_conf_ok:
  "ReadConfigText sample_sd (Some sample_conf) 4096 = Some sample_conf"
  "slpnxServersParse sample_conf = [sample_server, sample_server]"
proof -
  have ok: "printable (\<lambda>s. False) sample_server"
    by (simp add: printable_def sample_server_def plain_def c_isspace_def)
  show "slpnxServersParse sample_conf = [sample_server, sample_server]"
    using parse_lines_printed [of "[sample_server, sample_server]" "\<lambda>s. False" 0] ok
    by (simp add: slpnxServersParse_def sample_conf_def cfg_consts)
  have "length (server_line (\<lambda>s. False) sample_server) \<le> 167"
    using server_line_bytes(2) [OF ok] by (simp add: LineMax_def cfg_consts)
  then show "ReadConfigText sample_sd (Some sample_conf) 4096 = Some sample_conf"
    by (simp add: ReadConfigText_def sample_conf_def servers_text_def sample_sd_def)
qed

theorem selection_survives_reboot_witness:
  "m_sel_index (snd (ReloadServers sample_sd (config_init (Some sample_conf)
     (sd_selected (snd (SelectServer sample_sd 1 sample_config)))))) = 1"
proof -
  obtain c' where run: "SelectServer sample_sd 1 sample_config = (True, c')"
    by (simp add: SelectServer_def sample_config_def)
  have conf': "sd_conf c' = Some sample_conf"
    using run by (auto simp: SelectServer_def sample_config_def config_init_def split: if_splits)
  have sd: "sd_works sample_sd" by (simp add: sd_works_def sample_sd_def)
  have c: "sd_conf sample_config = Some sample_conf" "g_servers sample_config = [sample_server, sample_server]"
    by (simp_all add: sample_config_def config_init_def)
  have "m_sel_index (snd (ReloadServers sample_sd (config_init (sd_conf c') (sd_selected c')))) = sint (1 :: u32)"
    using selection_survives_reboot [OF sd _ _ _ run refl, of sample_conf] sample_conf_ok c by simp
  then show ?thesis by (simp add: run conf')
qed

text \<open>An index of \<open>2 ^ 31\<close> or more passes the range check of \<open>SelectServer\<close>, which compares it as a
  negative \<open>int\<close>: the command reports success, no server is selected, the relay falls back to the
  built-in default, and what is persisted is ignored at the next boot.\<close>

theorem select_server_unchecked:
  assumes "0x80000000 \<le> index"
  shows "fst (SelectServer e index c) \<and> m_sel_index (snd (SelectServer e index c)) < 0
     \<and> GetSelectedHostPort 128 (snd (SelectServer e index c)) = (DefaultRelayHost, DefaultRelayPort)
     \<and> (sd_works e \<longrightarrow> ReadPersistedSelection e (snd (SelectServer e index c)) = None)"
proof -
  have neg: "sint index < 0" using assms by (rule sint_top)
  have c': "SelectServer e index c = (True, PersistSelection e (sint index) (c\<lparr>m_sel_index := sint index\<rparr>))"
    using neg by (simp add: SelectServer_def)
  have "ReadPersistedSelection e (snd (SelectServer e index c)) = None" if sd: "sd_works e"
  proof (cases "ReadConfigText e (Some (print_int (sint index) @ [10])) 16")
    case None
    then show ?thesis by (simp add: c' ReadPersistedSelection_def PersistSelection_works [OF sd])
  next
    case (Some buf)
    then have "buf = print_int (sint index) @ [10]" by (auto simp: ReadConfigText_def split: if_splits)
    moreover have "takeWhile (\<lambda>b. b \<noteq> 0) (print_int (sint index) @ [10]) = print_int (sint index) @ [10]"
      using print_int_bytes by (simp add: takeWhile_eq_all_conv)
    moreover have "- (2 ^ 31) \<le> sint index" using sint_greater_eq [of index] by simp
    ultimately show ?thesis using neg Some
      by (simp add: c' ReadPersistedSelection_def PersistSelection_works [OF sd] c_scan_int_print)
  qed
  moreover have "take 127 DefaultRelayHost = DefaultRelayHost" by (simp add: DefaultRelayHost_def)
  ultimately show ?thesis using neg by (simp add: c' GetSelectedHostPort_def slpnxServersGet_def)
qed

theorem select_server_unchecked_witness:
  "m_sel_index (snd (SelectServer sample_sd 0xFFFFFFFF sample_config)) < 0"
  using select_server_unchecked [of "0xFFFFFFFF" sample_sd sample_config] by simp

section \<open>Reconnecting\<close>

text \<open>\<open>SelectServer\<close> followed by \<open>Reconnect\<close> switches the bridge to the chosen relay at once: when its
  host is a dotted address and a socket can be had, the bridge is enabled and connected to that
  address and port, and nothing received from the previous relay is left in the queue.\<close>

theorem reconnect_uses_selection:
  assumes run: "cfg_SelectServer e index sys = (CfgSuccess, sys1)" and index: "0 \<le> sint index"
    and srv: "srv = g_servers (cs_cfg sys) ! nat (sint index)" and ok: "length (srv_host srv) < SLPNXCFG_HOST_MAX"
    and ip: "e_inet_pton env (srv_host srv) = Some ip" and sock: "0 \<le> e_socket env"
    and b: "b = cs_bridge (cfg_Reconnect env sys1)"
  shows "g_relay_enabled b \<and> m_connected (g_relay b) \<and> m_relay_addr (g_relay b) = (ip, srv_port srv)
     \<and> ring_contents (m_queue (g_relay b)) = []"
proof -
  obtain c where c: "SelectServer e index (cs_cfg sys) = (True, c)" "sys1 = sys\<lparr>cs_cfg := c\<rparr>"
    using run by (auto simp: cfg_SelectServer_def split: prod.splits if_splits)
  have sel: "m_sel_index c = sint index" "g_servers c = g_servers (cs_cfg sys)" "sint index < int (length (g_servers c))"
    using c(1) by (auto simp: SelectServer_def split: if_splits)
  have "GetSelectedHostPort 128 c = (srv_host srv, srv_port srv)"
    using sel index ok by (simp add: GetSelectedHostPort_def slpnxServersGet_def srv cfg_consts)
  then have env: "e_host (cfg_benv c env) = srv_host srv" "e_port (cfg_benv c env) = srv_port srv"
    "e_inet_pton (cfg_benv c env) = e_inet_pton env" "e_socket (cfg_benv c env) = e_socket env"
    by (simp_all add: cfg_benv_def)
  have "ring_contents (ring_reset q) = []" for q by (simp add: ring_contents_def ring_reset_def)
  then show ?thesis
    using ip sock unfolding b c(2)
    by (simp add: cfg_Reconnect_def ForceReconnect_def ConnectRelayLocked_def RelayConnect_def RelayClose_def
        StartPump_def StopPump_def EnsureSocketStack_def env Let_def)
qed

definition sample_system :: cfg_system where
  "sample_system = \<lparr>cs_cfg = sample_config, cs_bridge = bridge_up\<rparr>"

theorem reconnect_uses_selection_witness:
  "m_relay_addr (g_relay (cs_bridge (cfg_Reconnect sample_benv (snd (cfg_SelectServer sample_sd 1 sample_system)))))
     = (0x0A010203, 11451)"
proof -
  have "fst (cfg_SelectServer sample_sd 1 sample_system) = CfgSuccess"
    by (simp add: cfg_SelectServer_def SelectServer_def sample_system_def sample_config_def)
  then obtain sys1 where run: "cfg_SelectServer sample_sd 1 sample_system = (CfgSuccess, sys1)"
    by (metis prod.collapse)
  have c: "g_servers (cs_cfg sample_system) = [sample_server, sample_server]"
    by (simp add: sample_system_def sample_config_def)
  show ?thesis
    using reconnect_uses_selection [OF run _ refl _ _ _ refl, of sample_benv "0x0A010203"]
    by (simp add: run c sample_server_def cfg_consts sample_benv_def)
qed

end
