(* ===== verification/Overlay.thy ===== *)
theory Overlay
  imports Config
begin

text \<open>
  The Tesla overlay (\<^verbatim>\<open>src/overlay/source/main.cpp\<close>) and its client of the configuration service
  (\<^verbatim>\<open>src/overlay/source/slpnxcfg.c\<close>), together with the command table of the service
  (\<^verbatim>\<open>src/source/cfg/cfg_service.hpp\<close>) through which the two meet. A user interface is the list of its
  elements; what a button does is a \<open>listener\<close>. The service manager, the session and \<open>fopen\<close> are the
  parameter \<open>ipc_env\<close>.
\<close>

section \<open>The command table\<close>

datatype cfg_request = CfgRequest (req_cmd: nat) (req_in: "u32 list") (req_bufs: "nat list")

datatype cfg_reply = NoReply | VersionReply "u8 list" | StateReply state_out

datatype ipc_rc = Rc cfg_result | RcTransport u32

definition R_SUCCEEDED :: "ipc_rc \<Rightarrow> bool" where "R_SUCCEEDED rc \<longleftrightarrow> rc = Rc CfgSuccess"

text \<open>
  \<^item> \<open>ie_has_service\<close>, \<open>ie_get_service\<close> answer the two requests to the service manager;
  \<^item> \<open>ie_lost cmd\<close> is the error of a request that does not reach the service, \<open>ie_bad_request\<close> the
    answer of the IPC framework to a request that fits no command;
  \<^item> \<open>ie_fopen_ok\<close>, \<open>ie_fread\<close>: whether the overlay can open the server list, and how much it can read.
\<close>

record ipc_env =
  ie_sd :: sd_env
  ie_bridge :: benv
  ie_has_service :: "u32 + bool"
  ie_get_service :: u32
  ie_not_installed :: u32
  ie_lost :: "nat \<Rightarrow> u32 option"
  ie_bad_request :: u32
  ie_fopen_ok :: bool
  ie_fread :: nat

definition cfg_dispatch :: "ipc_env \<Rightarrow> cfg_request \<Rightarrow> cfg_system \<Rightarrow> (ipc_rc \<times> cfg_reply \<times> cfg_system) option" where
  "cfg_dispatch i q s =
     (if req_cmd q = 65000 \<and> req_in q = [] \<and> length (req_bufs q) = 1 then
        Some (Rc CfgSuccess, VersionReply (cfg_GetVersion (req_bufs q ! 0)), s)
      else if req_cmd q = 65001 \<and> req_in q = [] \<and> length (req_bufs q) = 7 then
        map_option (\<lambda>(out, s'). (Rc CfgSuccess, StateReply out, s'))
          (cfg_GetState (ie_bridge i)
             \<lparr>z_connected = req_bufs q ! 0, z_enabled = req_bufs q ! 1, z_sel_index = req_bufs q ! 2,
              z_host = req_bufs q ! 3, z_port = req_bufs q ! 4, z_local_ip = req_bufs q ! 5,
              z_real_ip = req_bufs q ! 6\<rparr> s)
      else if req_cmd q = 65002 \<and> length (req_in q) = 1 \<and> req_bufs q = [] then
        Some (let (rc, s') = cfg_SelectServer (ie_sd i) (req_in q ! 0) s in (Rc rc, NoReply, s'))
      else if req_cmd q = 65003 \<and> req_in q = [] \<and> req_bufs q = [] then
        Some (Rc CfgSuccess, NoReply, cfg_Reload (ie_sd i) s)
      else if req_cmd q = 65004 \<and> req_in q = [] \<and> req_bufs q = [] then
        Some (Rc CfgSuccess, NoReply, cfg_Reconnect (ie_bridge i) s)
      else if req_cmd q = 65005 \<and> req_in q = [] \<and> req_bufs q = [] then
        Some (Rc CfgSuccess, NoReply, cfg_Start (ie_bridge i) s)
      else if req_cmd q = 65006 \<and> req_in q = [] \<and> req_bufs q = [] then
        Some (Rc CfgSuccess, NoReply, cfg_Stop s)
      else Some (RcTransport (ie_bad_request i), NoReply, s))"

section \<open>The client\<close>

definition serviceDispatch :: "ipc_env \<Rightarrow> cfg_request \<Rightarrow> cfg_system \<Rightarrow> (ipc_rc \<times> cfg_reply \<times> cfg_system) option" where
  "serviceDispatch i q s =
     (case ie_lost i (req_cmd q) of
        Some rc \<Rightarrow> Some (RcTransport rc, NoReply, s)
      | None \<Rightarrow> cfg_dispatch i q s)"

text \<open>\<open>smGetService\<close> blocks on a name that nobody has registered: it is only called after the query.\<close>

definition slpnxCfgGetConfig :: "ipc_env \<Rightarrow> u32" where
  "slpnxCfgGetConfig i =
     (case ie_has_service i of
        Inl rc \<Rightarrow> rc
      | Inr has_service \<Rightarrow> if \<not> has_service then ie_not_installed i else ie_get_service i)"

definition slpnxCfgGetVersion :: "ipc_env \<Rightarrow> cfg_system \<Rightarrow> (ipc_rc \<times> cfg_reply \<times> cfg_system) option" where
  "slpnxCfgGetVersion i s = serviceDispatch i (CfgRequest 65000 [] [32]) s"

definition slpnxCfgGetState :: "ipc_env \<Rightarrow> cfg_system \<Rightarrow> (ipc_rc \<times> cfg_reply \<times> cfg_system) option" where
  "slpnxCfgGetState i s = serviceDispatch i (CfgRequest 65001 [] [4, 4, 4, 128, 4, 16, 16]) s"

definition slpnxCfgSelectServer :: "ipc_env \<Rightarrow> u32 \<Rightarrow> cfg_system \<Rightarrow> (ipc_rc \<times> cfg_reply \<times> cfg_system) option" where
  "slpnxCfgSelectServer i index s = serviceDispatch i (CfgRequest 65002 [index] []) s"

definition slpnxCfgReload :: "ipc_env \<Rightarrow> cfg_system \<Rightarrow> (ipc_rc \<times> cfg_reply \<times> cfg_system) option" where
  "slpnxCfgReload i s = serviceDispatch i (CfgRequest 65003 [] []) s"

definition slpnxCfgReconnect :: "ipc_env \<Rightarrow> cfg_system \<Rightarrow> (ipc_rc \<times> cfg_reply \<times> cfg_system) option" where
  "slpnxCfgReconnect i s = serviceDispatch i (CfgRequest 65004 [] []) s"

definition slpnxCfgStart :: "ipc_env \<Rightarrow> cfg_system \<Rightarrow> (ipc_rc \<times> cfg_reply \<times> cfg_system) option" where
  "slpnxCfgStart i s = serviceDispatch i (CfgRequest 65005 [] []) s"

definition slpnxCfgStop :: "ipc_env \<Rightarrow> cfg_system \<Rightarrow> (ipc_rc \<times> cfg_reply \<times> cfg_system) option" where
  "slpnxCfgStop i s = serviceDispatch i (CfgRequest 65006 [] []) s"

section \<open>The pages\<close>

definition c_str :: "u8 list \<Rightarrow> u8 list" where "c_str b = takeWhile (\<lambda>c. c \<noteq> 0) b"

datatype listener = NoListener | OnServer nat | OnOpenServers | OnStart | OnStop | OnReconnect

text \<open>An item has a label and may have a value, which can be dimmed.\<close>

type_synonym row = "u8 list \<times> bool"

datatype elm = CategoryHeader "u8 list" | ListItem (elm_label: "u8 list") (elm_value: "row option") (elm_click: listener)

record overlay =
  g_haveSvc :: bool
  g_version :: "u8 list"
  g_cfg_error :: u32
  g_connected_val :: u32
  g_enabled_val :: u32
  g_sel_val :: u32
  g_port_val :: u32
  g_host_val :: "u8 list"
  ov_servers :: "SlpNxServer list"

definition overlay_init :: overlay where
  "overlay_init = \<lparr>g_haveSvc = False, g_version = 63 # replicate 31 0, g_cfg_error = 0, g_connected_val = 0,
     g_enabled_val = 1, g_sel_val = 0, g_port_val = 0, g_host_val = replicate 128 0, ov_servers = []\<rparr>"

definition SERVERS_CONF :: "u8 list" where
  "SERVERS_CONF = ascii ''sdmc:/config/switch-lan-play-nx/servers.conf''"

text \<open>\<open>std::format("{}:{}", host, port)\<close>\<close>

definition host_port :: "u8 list \<Rightarrow> nat \<Rightarrow> u8 list" where
  "host_port host port = host @ [58] @ decimal port"

text \<open>The mark of the selected server, a bullet and a space in UTF-8.\<close>

definition bullet :: "u8 list" where "bullet = [0xE2, 0x97, 0x8F, 0x20]"

definition server_item :: "overlay \<Rightarrow> nat \<Rightarrow> elm list" where
  "server_item ov i =
     (case slpnxServersGet (ov_servers ov) (int i) of
        None \<Rightarrow> []
      | Some srv \<Rightarrow>
          let selected = (of_nat i = g_sel_val ov)
          in [ListItem (srv_name srv)
                (Some ((if selected then bullet else []) @ host_port (srv_host srv) (unat (srv_port srv)), \<not> selected))
                (OnServer i)])"

definition ServerGui_createUI :: "overlay \<Rightarrow> elm list" where
  "ServerGui_createUI ov =
     (let count = length (ov_servers ov)
      in if count = 0 then
           [ListItem (ascii ''no servers configured'') None NoListener, ListItem SERVERS_CONF None NoListener]
         else CategoryHeader (ascii ''Select a relay'')
              # concat (map (server_item ov) [0..<min count SLPNXCFG_MAX_SERVERS]))"

text \<open>The listener of a server row: \<open>key_A\<close> is whether the A button is among the keys pressed.\<close>

definition ServerGui_click :: "ipc_env \<Rightarrow> bool \<Rightarrow> nat \<Rightarrow> overlay \<Rightarrow> cfg_system \<Rightarrow> (bool \<times> overlay \<times> cfg_system) option" where
  "ServerGui_click i key_A index ov s =
     (if \<not> key_A then Some (False, ov, s)
      else if g_haveSvc ov then do {
        (_, _, s1) \<leftarrow> slpnxCfgSelectServer i (of_nat index) s;
        (_, _, s2) \<leftarrow> slpnxCfgReconnect i s1;
        Some (True, ov\<lparr>g_sel_val := of_nat index\<rparr>, s2)
      }
      else Some (True, ov, s))"

record main_gui =
  m_frame :: "u8 list option"
  m_realIp :: "row option"
  m_status :: "row option"
  m_serverIp :: "row option"
  m_serverRow :: "row option"
  m_frameCount :: u32
  mg_list :: "elm list"

definition main_gui_new :: main_gui where
  "main_gui_new = \<lparr>m_frame = None, m_realIp = None, m_status = None, m_serverIp = None, m_serverRow = None,
     m_frameCount = 0, mg_list = []\<rparr>"

text \<open>\<open>setValue\<close> through a pointer that may be null.\<close>

definition setValue :: "row \<Rightarrow> row option \<Rightarrow> row option" where
  "setValue r = map_option (\<lambda>_. r)"

definition show_state :: "state_out \<Rightarrow> overlay \<Rightarrow> main_gui \<Rightarrow> main_gui" where
  "show_state out ov m =
     (let real_ip = c_str (o_real_ip out); host = c_str (o_host out);
          srv = slpnxServersGet (ov_servers ov) (sint (o_sel_index out));
          state = (if o_connected out \<noteq> 0 then ascii ''Connected''
                   else if o_enabled out \<noteq> 0 then ascii ''Offline'' else ascii ''Stopped'')
      in m\<lparr>m_realIp := setValue (if real_ip \<noteq> [] then real_ip else ascii ''(unavailable)'', real_ip = []) (m_realIp m),
           m_status := setValue (state, o_connected out = 0) (m_status m),
           m_serverIp := setValue (host_port host (unat (o_port out)), False) (m_serverIp m),
           m_serverRow := setValue (case srv of Some v \<Rightarrow> srv_name v | None \<Rightarrow> ascii ''none'', srv = None) (m_serverRow m),
           m_frame := map_option (\<lambda>_. c_str (g_version ov)
              @ (case srv of Some v \<Rightarrow> [0x20, 0x20, 0xC2, 0xB7, 0x20, 0x20] @ srv_name v | None \<Rightarrow> [])) (m_frame m)\<rparr>)"

definition refresh :: "ipc_env \<Rightarrow> overlay \<Rightarrow> main_gui \<Rightarrow> cfg_system \<Rightarrow> (overlay \<times> main_gui \<times> cfg_system) option" where
  "refresh i ov m s =
     (if \<not> g_haveSvc ov then Some (ov, m, s)
      else do {
        (rc, reply, s1) \<leftarrow> slpnxCfgGetState i s;
        case reply of
          StateReply out \<Rightarrow>
            if R_SUCCEEDED rc then
              Some (ov\<lparr>g_connected_val := o_connected out, g_enabled_val := o_enabled out, g_sel_val := o_sel_index out,
                       g_port_val := o_port out, g_host_val := padded 128 (c_str (o_host out))\<rparr>,
                    show_state out ov m, s1)
            else Some (ov, m\<lparr>m_status := setValue (ascii ''service lost'', True) (m_status m)\<rparr>, s1)
        | _ \<Rightarrow> Some (ov, m\<lparr>m_status := setValue (ascii ''service lost'', True) (m_status m)\<rparr>, s1)
      })"

definition BuildNotRunningUI :: "ipc_env \<Rightarrow> overlay \<Rightarrow> (u32 \<Rightarrow> u8 list) \<Rightarrow> elm list" where
  "BuildNotRunningUI i ov hex =
     (if g_cfg_error ov = ie_not_installed i then
        [CategoryHeader (ascii ''Sysmodule not running''),
         ListItem (ascii ''switch-lan-play-nx isn'' @ [39] @ ascii ''t'') None NoListener,
         ListItem (ascii ''installed or hasn'' @ [39] @ ascii ''t started.'') None NoListener,
         CategoryHeader (ascii ''To fix''),
         ListItem (ascii ''1. Install via the top-level'') None NoListener,
         ListItem (ascii ''   Makefile'' @ [39] @ ascii ''s PACK target'') None NoListener,
         ListItem (ascii ''2. Reboot the console'') None NoListener]
      else
        [CategoryHeader (ascii ''slpnx:cfg unavailable''),
         ListItem (ascii ''connect failed 0x'' @ hex (g_cfg_error ov)) None NoListener,
         ListItem (ascii ''Try rebooting the console.'') None NoListener])"

definition AddAction :: "string \<Rightarrow> listener \<Rightarrow> elm" where
  "AddAction label action = ListItem (ascii label) None action"

definition MainGui_createUI ::
  "ipc_env \<Rightarrow> (u32 \<Rightarrow> u8 list) \<Rightarrow> overlay \<Rightarrow> main_gui \<Rightarrow> cfg_system \<Rightarrow> (overlay \<times> main_gui \<times> cfg_system) option" where
  "MainGui_createUI i hex ov m s =
     (let m1 = m\<lparr>m_frame := Some (c_str (g_version ov))\<rparr>
      in if \<not> g_haveSvc ov then Some (ov, m1\<lparr>mg_list := BuildNotRunningUI i ov hex\<rparr>, s)
         else
           let none = (ov_servers ov = []);
               m2 = m1\<lparr>m_realIp := Some ([], False), m_serverIp := Some ([], False), m_status := Some ([], False),
                      m_serverRow := (if none then m_serverRow m1 else Some ([], False)),
                      mg_list :=
                        [ListItem (ascii ''IP'') None NoListener, CategoryHeader (ascii ''Relay'')]
                        @ (if none then
                             [ListItem (ascii ''Selected'') (Some (ascii ''none configured'', True)) NoListener,
                              ListItem SERVERS_CONF None NoListener]
                           else [ListItem (ascii ''Selected'') None OnOpenServers])
                        @ [ListItem (ascii ''Server IP'') None NoListener, ListItem (ascii ''State'') None NoListener,
                           CategoryHeader (ascii ''Controls''), AddAction ''Start'' OnStart, AddAction ''Stop'' OnStop,
                           AddAction ''Reconnect'' OnReconnect]\<rparr>
           in refresh i ov m2 s)"

definition MainGui_update :: "ipc_env \<Rightarrow> overlay \<Rightarrow> main_gui \<Rightarrow> cfg_system \<Rightarrow> (overlay \<times> main_gui \<times> cfg_system) option" where
  "MainGui_update i ov m s =
     (let m1 = m\<lparr>m_frameCount := m_frameCount m + 1\<rparr>
      in if m_frameCount m1 mod 30 = 0 then refresh i ov m1 s else Some (ov, m1, s))"

text \<open>The listener that \<open>AddAction\<close> gives a control: the action, then a refresh.\<close>

definition action_click ::
  "ipc_env \<Rightarrow> (cfg_system \<Rightarrow> (ipc_rc \<times> cfg_reply \<times> cfg_system) option) \<Rightarrow> overlay \<Rightarrow> main_gui \<Rightarrow> cfg_system
     \<Rightarrow> (bool \<times> overlay \<times> main_gui \<times> cfg_system) option" where
  "action_click i action ov m s = do {
     (_, _, s1) \<leftarrow> action s;
     (ov1, m1, s2) \<leftarrow> refresh i ov m s1;
     Some (True, ov1, m1, s2)
   }"

text \<open>\<open>OnOpenServers\<close> changes to the selection page.\<close>

definition MainGui_click ::
  "ipc_env \<Rightarrow> bool \<Rightarrow> listener \<Rightarrow> overlay \<Rightarrow> main_gui \<Rightarrow> cfg_system \<Rightarrow> (bool \<times> overlay \<times> main_gui \<times> cfg_system) option" where
  "MainGui_click i key_A l ov m s =
     (if \<not> key_A then Some (False, ov, m, s)
      else case l of
             OnStart \<Rightarrow> action_click i (slpnxCfgStart i) ov m s
           | OnStop \<Rightarrow> action_click i (slpnxCfgStop i) ov m s
           | OnReconnect \<Rightarrow> action_click i (slpnxCfgReconnect i) ov m s
           | OnOpenServers \<Rightarrow> Some (True, ov, m, s)
           | _ \<Rightarrow> Some (False, ov, m, s))"

section \<open>Opening the overlay\<close>

text \<open>The service writes the reply over the beginning of \<open>g_version\<close>; a failed call leaves it.\<close>

definition read_version :: "cfg_reply \<Rightarrow> u8 list \<Rightarrow> u8 list" where
  "read_version reply old = (case reply of VersionReply b \<Rightarrow> b @ drop (length b) old | _ \<Rightarrow> old)"

definition initServices :: "ipc_env \<Rightarrow> overlay \<Rightarrow> cfg_system \<Rightarrow> (overlay \<times> cfg_system) option" where
  "initServices i ov s = do {
     let rc = slpnxCfgGetConfig i;
     let ov1 = ov\<lparr>g_cfg_error := rc, g_haveSvc := (rc = 0)\<rparr>;
     (ov2, s2) \<leftarrow>
       (if g_haveSvc ov1 then do {
          (_, reply, s1) \<leftarrow> slpnxCfgGetVersion i s;
          (_, _, s2) \<leftarrow> slpnxCfgReload i s1;
          Some (ov1\<lparr>g_version := read_version reply (g_version ov1)\<rparr>, s2)
        }
        else Some (ov1, s));
     let file = (if ie_fopen_ok i then map_option (take (ie_fread i)) (sd_conf (cs_cfg s2)) else None);
     Some (ov2\<lparr>ov_servers := snd (slpnxServersLoad file (ov_servers ov2))\<rparr>, s2)
   }"


section \<open>Client and service agree\<close>

definition ipc_works :: "ipc_env \<Rightarrow> bool" where
  "ipc_works i \<longleftrightarrow> ie_has_service i = Inr True \<and> ie_get_service i = 0 \<and> (\<forall>cmd. ie_lost i cmd = None)"

named_theorems client \<open>what a client call that reaches the service does\<close>

lemma client_calls [client]:
  assumes "ipc_works i"
  shows "slpnxCfgGetVersion i s = Some (Rc CfgSuccess, VersionReply (cfg_GetVersion 32), s)"
    and "slpnxCfgSelectServer i index s
       = Some (let (rc, s') = cfg_SelectServer (ie_sd i) index s in (Rc rc, NoReply, s'))"
    and "slpnxCfgReload i s = Some (Rc CfgSuccess, NoReply, cfg_Reload (ie_sd i) s)"
    and "slpnxCfgReconnect i s = Some (Rc CfgSuccess, NoReply, cfg_Reconnect (ie_bridge i) s)"
    and "slpnxCfgStart i s = Some (Rc CfgSuccess, NoReply, cfg_Start (ie_bridge i) s)"
    and "slpnxCfgStop i s = Some (Rc CfgSuccess, NoReply, cfg_Stop s)"
  using assms
  by (simp_all add: ipc_works_def serviceDispatch_def cfg_dispatch_def slpnxCfgGetVersion_def slpnxCfgSelectServer_def
      slpnxCfgReload_def slpnxCfgReconnect_def slpnxCfgStart_def slpnxCfgStop_def)

text \<open>The buffers of \<open>slpnxCfgGetState\<close> hold what the service writes.\<close>

definition client_state :: "benv \<Rightarrow> cfg_system \<Rightarrow> state_out" where
  "client_state env s =
     (let (h, p) = GetSelectedHostPort 16 (cs_cfg s); ip = fst (GetRealIp env (cs_bridge s))
      in \<lparr>o_connected = (if IsRelayConnected (cs_bridge s) then 1 else 0),
          o_enabled = (if IsRelayEnabled (cs_bridge s) then 1 else 0),
          o_sel_index = of_int (m_sel_index (cs_cfg s)), o_host = copy_str 128 h, o_port = ucast p,
          o_local_ip = copy_str 16 (ip_to_str (GetLocalIp (cs_bridge s)) 16),
          o_real_ip = copy_str 16 (ip_to_str ip 16)\<rparr>)"

lemma client_GetState [client]:
  "ipc_works i \<Longrightarrow> slpnxCfgGetState i s
     = Some (Rc CfgSuccess, StateReply (client_state (ie_bridge i) s),
             s\<lparr>cs_bridge := snd (GetRealIp (ie_bridge i) (cs_bridge s))\<rparr>)"
  by (simp add: ipc_works_def serviceDispatch_def cfg_dispatch_def slpnxCfgGetState_def cfg_GetState_def
      client_state_def split_beta Let_def)

lemma GetState_safe: "slpnxCfgGetState i s \<noteq> None"
  by (cases "ie_lost i 65001")
    (simp_all add: serviceDispatch_def cfg_dispatch_def slpnxCfgGetState_def cfg_GetState_def split_beta Let_def)

text \<open>No call of the overlay makes the service write past a buffer, whether its requests arrive or not.\<close>

lemma refresh_safe: "refresh i ov m s \<noteq> None"
  using GetState_safe [of i s] by (auto simp: refresh_def split: cfg_reply.splits)

lemma simple_calls_safe:
  "slpnxCfgGetVersion i s \<noteq> None" "slpnxCfgSelectServer i index s \<noteq> None" "slpnxCfgReload i s \<noteq> None"
  "slpnxCfgReconnect i s \<noteq> None" "slpnxCfgStart i s \<noteq> None" "slpnxCfgStop i s \<noteq> None"
  by (simp_all add: serviceDispatch_def cfg_dispatch_def slpnxCfgGetVersion_def slpnxCfgSelectServer_def
      slpnxCfgReload_def slpnxCfgReconnect_def slpnxCfgStart_def slpnxCfgStop_def split: option.split prod.split)

lemmas safe_simps = Option.bind_eq_None_conv split_beta simple_calls_safe refresh_safe Let_def

theorem overlay_calls_safe:
  "initServices i ov s \<noteq> None \<and> refresh i ov m s \<noteq> None \<and> MainGui_createUI i hex ov m s \<noteq> None
   \<and> MainGui_update i ov m s \<noteq> None \<and> MainGui_click i key_A l ov m s \<noteq> None
   \<and> ServerGui_click i key_A index ov s \<noteq> None"
  by (simp add: initServices_def MainGui_createUI_def MainGui_update_def MainGui_click_def action_click_def ServerGui_click_def safe_simps
      split: listener.split del: not_None_eq)


section \<open>What the user sees\<close>

lemma c_str_append: "0 \<notin> set s \<Longrightarrow> c_str (s @ 0 # r) = s"
  unfolding c_str_def by (subst takeWhile_append2) auto

lemma padded_zero: "length s < n \<Longrightarrow> padded n s = s @ 0 # replicate (n - Suc (length s)) 0"
proof -
  assume "length s < n"
  then obtain k where "n = Suc (length s + k)" using less_iff_Suc_add by blast
  then show ?thesis by (simp add: padded_def)
qed

lemma c_str_padded: "0 \<notin> set s \<Longrightarrow> length s < n \<Longrightarrow> c_str (padded n s) = s"
  by (simp add: padded_zero c_str_append)

lemma c_str_copy_str:
  assumes "0 \<notin> set s" and "length s < n" and "n \<le> 128"
  shows "c_str (copy_str n s) = s"
proof -
  obtain k where "n = Suc (length s + k)" using assms(2) less_iff_Suc_add by blast
  then have "copy_str n s = s @ 0 # take k (replicate (128 - Suc (length s)) 0)"
    using assms by (simp add: copy_str_def padded_zero)
  then show ?thesis using c_str_append [OF assms(1)] by simp
qed

text \<open>The address that the bridge connects to has no NUL in its host.\<close>

lemma selected_host:
  assumes "config_inv c"
  shows "0 \<notin> set (fst (GetSelectedHostPort cap c))"
proof (cases "slpnxServersGet (g_servers c) (m_sel_index c)")
  case None
  then show ?thesis by (auto simp: GetSelectedHostPort_def DefaultRelayHost_def dest!: in_set_takeD)
next
  case (Some srv)
  then have "srv \<in> set (g_servers c)" by (auto simp: slpnxServersGet_def split: if_splits)
  then show ?thesis using assms Some
    by (auto simp: GetSelectedHostPort_def config_inv_def server_ok_def dest!: in_set_takeD)
qed

lemma selected_cut: "fst (GetSelectedHostPort 16 c) = take 15 (fst (GetSelectedHostPort 128 c))"
  "snd (GetSelectedHostPort n c) = snd (GetSelectedHostPort m c)"
  by (simp_all add: GetSelectedHostPort_def split: option.split)

text \<open>The main page tells the state of the bridge: when a refresh reaches the service, the state line reads
  Connected exactly when the relay is connected, and otherwise Offline or Stopped as the bridge is
  enabled or not; the server line shows the port and the first 15 characters of the host that the bridge
  connects to.\<close>

theorem refresh_shows_state:
  assumes ipc: "ipc_works i" and svc: "g_haveSvc ov" and inv: "config_inv (cs_cfg s)"
    and rows: "m_status m \<noteq> None" "m_serverIp m \<noteq> None"
    and run: "refresh i ov m s = Some (ov', m', s')"
    and addr: "(h, p) = GetSelectedHostPort 128 (cs_cfg s)"
  shows "m_status m' = Some (if IsRelayConnected (cs_bridge s) then (ascii ''Connected'', False)
       else if IsRelayEnabled (cs_bridge s) then (ascii ''Offline'', True) else (ascii ''Stopped'', True))
     \<and> m_serverIp m' = Some (host_port (take 15 h) (unat p), False) \<and> cs_cfg s' = cs_cfg s"
proof -
  let ?o = "client_state (ie_bridge i) s"
  have m': "m' = show_state ?o ov m" "s' = s\<lparr>cs_bridge := snd (GetRealIp (ie_bridge i) (cs_bridge s))\<rparr>"
    using run svc by (simp_all add: refresh_def client [OF ipc] R_SUCCEEDED_def)
  have hp: "fst (GetSelectedHostPort 16 (cs_cfg s)) = take 15 h" "snd (GetSelectedHostPort 16 (cs_cfg s)) = p"
    using addr selected_cut(1) [of "cs_cfg s"] selected_cut(2) [of 16 "cs_cfg s" 128] by (metis fst_conv, metis snd_conv)
  have "0 \<notin> set (take 15 h)" using selected_host [OF inv, of 16] hp by simp
  then have host: "c_str (o_host ?o) = take 15 h"
    by (simp add: client_state_def split_beta Let_def hp c_str_copy_str)
  have "unat p < 65536" using unsigned_less [of p] by simp
  then have port: "unat (o_port ?o) = unat p"
    by (simp add: client_state_def split_beta Let_def hp unsigned_ucast_eq take_bit_nat_eq_self)
  have conn: "o_connected ?o \<noteq> 0 \<longleftrightarrow> IsRelayConnected (cs_bridge s)" "o_enabled ?o \<noteq> 0 \<longleftrightarrow> IsRelayEnabled (cs_bridge s)"
    by (simp_all add: client_state_def split_beta Let_def)
  show ?thesis using rows host port conn
    by (auto simp: m' show_state_def Let_def setValue_def)
qed


section \<open>Choosing a server\<close>

text \<open>What opening the overlay leaves behind: both sides have read the list anew.\<close>

lemma initServices_opened:
  assumes "ipc_works i" and "initServices i ov s = Some (ov1, s1)"
  shows "g_haveSvc ov1" and "s1 = cfg_Reload (ie_sd i) s"
    and "ov_servers ov1 = snd (slpnxServersLoad
           (if ie_fopen_ok i then map_option (take (ie_fread i)) (sd_conf (cs_cfg s1)) else None) (ov_servers ov))"
  using assms(2) by (auto simp: initServices_def client [OF assms(1)] ipc_works_def slpnxCfgGetConfig_def Let_def
      split: if_splits) (use assms(1) in \<open>simp_all add: ipc_works_def\<close>)

lemma ReloadServers_read:
  "ReadConfigText e (sd_conf c) 4096 = Some buf \<Longrightarrow>
   g_servers (snd (ReloadServers e c)) = slpnxServersParse buf \<and> sd_conf (snd (ReloadServers e c)) = Some buf"
  by (cases "sd_conf c") (auto simp: ReloadServers_def Let_def ReadConfigText_def split: if_splits option.splits)

text \<open>A list of at most 1679 bytes is the same on both sides.\<close>

lemma open_syncs_lists:
  assumes ipc: "ipc_works i" and sd: "ie_fopen_ok i" "length buf \<le> ie_fread i" "length buf \<le> 1679"
    and conf: "ReadConfigText (ie_sd i) (sd_conf (cs_cfg s)) 4096 = Some buf"
    and run: "initServices i ov s = Some (ov1, s1)"
  shows "ov_servers ov1 = slpnxServersParse buf" and "g_servers (cs_cfg s1) = slpnxServersParse buf"
proof -
  note o = initServices_opened [OF ipc run] and r = ReloadServers_read [OF conf]
  show "g_servers (cs_cfg s1) = slpnxServersParse buf" using r by (simp add: o(2) cfg_Reload_def)
  have "sd_conf (cs_cfg s1) = Some buf" using r by (simp add: o(2) cfg_Reload_def)
  then show "ov_servers ov1 = slpnxServersParse buf"
    using sd by (simp add: o(3) slpnxServersLoad_def Let_def cfg_consts)
qed

lemma server_row:
  assumes "ListItem name (Some (shown, faint)) (OnServer k) \<in> set (ServerGui_createUI ov)"
  shows "k < length (ov_servers ov)" and "k < 10" and "name = srv_name (ov_servers ov ! k)"
    and "shown = (if faint then [] else bullet)
           @ host_port (srv_host (ov_servers ov ! k)) (unat (srv_port (ov_servers ov ! k)))"
  using assms
  by (auto simp: ServerGui_createUI_def server_item_def slpnxServersGet_def cfg_consts Let_def split: if_splits)



section \<open>A list that the service cannot read\<close>

text \<open>A server list of 4095 bytes or more is ignored by the service, while the overlay shows its first
  entries: after a boot with such a list, picking any row changes nothing in the service, which keeps
  using the built-in relay, and yet marks the row as the selected one.\<close>

theorem long_list_pick_ignored:
  assumes ipc: "ipc_works i" and conf: "sd_conf (cs_cfg s) = Some c" "4095 \<le> length c"
    and fresh: "g_servers (cs_cfg s) = []" "m_sel_index (cs_cfg s) = - 1"
    and run: "initServices i ov s = Some (ov1, s1)" and k: "k < 10"
    and click: "ServerGui_click i True k ov1 s1 = Some (ok, ov2, s2)"
  shows "cs_cfg s2 = cs_cfg s \<and> GetSelectedHostPort 128 (cs_cfg s2) = (DefaultRelayHost, DefaultRelayPort)
     \<and> g_sel_val ov2 = of_nat k"
proof -
  have "sint (of_nat k :: u32) = int k" using k by (simp add: signed_of_nat signed_take_bit_int_eq_self)
  moreover have "s1 = s"
    using initServices_opened(2) [OF ipc run] conf by (simp add: cfg_Reload_def ReloadServers_def ReadConfigText_def)
  ultimately have "s2 = cfg_Reconnect (ie_bridge i) s" "ov2 = ov1\<lparr>g_sel_val := of_nat k\<rparr>"
    using click initServices_opened(1) [OF ipc run] fresh
    by (auto simp: ServerGui_click_def client [OF ipc] cfg_SelectServer_def SelectServer_def)
  moreover have "take 127 DefaultRelayHost = DefaultRelayHost" by (simp add: DefaultRelayHost_def)
  ultimately show ?thesis
    using fresh by (simp add: cfg_Reconnect_def GetSelectedHostPort_def slpnxServersGet_def)
qed

section \<open>A sample run\<close>

definition sample_ipc :: ipc_env where
  "sample_ipc = \<lparr>ie_sd = sample_sd, ie_bridge = sample_benv, ie_has_service = Inr True, ie_get_service = 0,
     ie_not_installed = 1, ie_lost = (\<lambda>cmd. None), ie_bad_request = 2, ie_fopen_ok = True, ie_fread = 100000\<rparr>"

lemma sample_ipc_works: "ipc_works sample_ipc"
  by (simp add: ipc_works_def sample_ipc_def)

definition sample_boot :: cfg_system where
  "sample_boot = \<lparr>cs_cfg = config_init (Some sample_conf) None, cs_bridge = bridge_up\<rparr>"

lemma sample_conf_length: "length sample_conf \<le> 1679"
proof -
  have "printable (\<lambda>s. False) sample_server"
    by (simp add: printable_def sample_server_def plain_def c_isspace_def)
  then have "length (server_line (\<lambda>s. False) sample_server) \<le> 167"
    using server_line_bytes(2) by (fastforce simp: LineMax_def cfg_consts)
  then show ?thesis by (simp add: sample_conf_def servers_text_def)
qed

lemma sample_opened:
  assumes "initServices sample_ipc overlay_init sample_boot = Some (ov1, s1)"
  shows "ov_servers ov1 = [sample_server, sample_server]" "g_servers (cs_cfg s1) = [sample_server, sample_server]"
  using open_syncs_lists [OF sample_ipc_works _ _ sample_conf_length _ assms] sample_conf_length
  by (simp_all add: sample_ipc_def sample_boot_def config_init_def sample_conf_ok)



theorem refresh_shows_state_witness:
  "\<exists>ov' m' s'. refresh sample_ipc (overlay_init\<lparr>g_haveSvc := True\<rparr>)
       (main_gui_new\<lparr>m_status := Some ([], False), m_serverIp := Some ([], False)\<rparr>) sample_boot = Some (ov', m', s')
     \<and> m_status m' = Some (ascii ''Connected'', False)
     \<and> m_serverIp m' = Some (host_port DefaultRelayHost 11451, False)"
proof -
  let ?ov = "overlay_init\<lparr>g_haveSvc := True\<rparr>"
  let ?m = "main_gui_new\<lparr>m_status := Some ([], False), m_serverIp := Some ([], False)\<rparr>"
  obtain ov' m' s' where run: "refresh sample_ipc ?ov ?m sample_boot = Some (ov', m', s')"
    using refresh_safe [of sample_ipc ?ov ?m sample_boot] by fast
  have inv: "config_inv (cs_cfg sample_boot)"
    by (simp add: config_inv_def sample_boot_def config_init_def)
  have addr: "(DefaultRelayHost, DefaultRelayPort) = GetSelectedHostPort 128 (cs_cfg sample_boot)"
    by (simp add: sample_boot_def config_init_def GetSelectedHostPort_def slpnxServersGet_def DefaultRelayHost_def)
  have up: "IsRelayConnected (cs_bridge sample_boot)"
    by (simp add: IsRelayConnected_def sample_boot_def relay_up_def)
  have cut: "take 15 DefaultRelayHost = DefaultRelayHost" by (simp add: DefaultRelayHost_def)
  from refresh_shows_state [OF sample_ipc_works _ inv _ _ run addr] up cut run show ?thesis
    by (simp add: DefaultRelayPort_def)
qed

text \<open>A list followed by 5000 empty lines.\<close>

theorem long_list_pick_ignored_witness:
  "\<exists>ov1 s1 ok ov2 s2.
     initServices sample_ipc overlay_init
       (sample_boot\<lparr>cs_cfg := config_init (Some (sample_conf @ replicate 5000 10)) None\<rparr>) = Some (ov1, s1)
     \<and> ServerGui_click sample_ipc True 1 ov1 s1 = Some (ok, ov2, s2)
     \<and> GetSelectedHostPort 128 (cs_cfg s2) = (DefaultRelayHost, DefaultRelayPort) \<and> g_sel_val ov2 = 1"
proof -
  let ?s = "sample_boot\<lparr>cs_cfg := config_init (Some (sample_conf @ replicate 5000 10)) None\<rparr>"
  obtain ov1 s1 where run: "initServices sample_ipc overlay_init ?s = Some (ov1, s1)"
    using overlay_calls_safe [of sample_ipc overlay_init ?s] by fast
  obtain ok ov2 s2 where click: "ServerGui_click sample_ipc True 1 ov1 s1 = Some (ok, ov2, s2)"
    using overlay_calls_safe [where i = sample_ipc and key_A = True and index = 1 and ov = ov1 and s = s1] by fast
  from long_list_pick_ignored [OF sample_ipc_works _ _ _ _ run _ click] run click
  show ?thesis by (auto simp: config_init_def)
qed

end
