(* ===== verification/System.thy ===== *)
theory System
  imports SysInv Overlay
begin

text \<open>
  The whole program: the bridge of theory \<open>SysInv\<close> and the configuration of theory \<open>Config\<close> side by side,
  with the overlay's commands and a reboot, which keeps nothing but the SD card.
\<close>

definition boot :: "sd_env \<Rightarrow> u8 list option \<Rightarrow> u8 list option \<Rightarrow> cfg_system" where
  "boot e conf selected =
     \<lparr>cs_cfg = snd (ReloadServers e (config_init conf selected)), cs_bridge = bridge_init\<rparr>"

text \<open>The user may replace \<^verbatim>\<open>servers.conf\<close> at any time (\<open>edit\<close>); \<open>platform\<close> is any other step of the bridge,
  on a platform whose relay is the selected one.\<close>

inductive full_step :: "cfg_system \<Rightarrow> cfg_system \<Rightarrow> bool" where
  platform: "sys_step (cs_bridge s) b \<Longrightarrow> full_step s (s\<lparr>cs_bridge := b\<rparr>)"
| select: "full_step s (snd (cfg_SelectServer e index s))"
| reload: "full_step s (cfg_Reload e s)"
| reconnect: "full_step s (cfg_Reconnect env s)"
| start: "full_step s (cfg_Start env s)"
| stop: "full_step s (cfg_Stop s)"
| get_state: "cfg_GetState env z s = Some (out, s') \<Longrightarrow> full_step s s'"
| edit: "full_step s (s\<lparr>cs_cfg := (cs_cfg s)\<lparr>sd_conf := conf\<rparr>\<rparr>)"
| reboot: "full_step s (boot e (sd_conf (cs_cfg s)) (sd_selected (cs_cfg s)))"

definition full_inv :: "cfg_system \<Rightarrow> bool" where
  "full_inv s \<longleftrightarrow> sys_inv (cs_bridge s) \<and> config_inv (cs_cfg s)"

lemma config_inv_init: "config_inv (config_init conf selected)"
  by (simp add: config_inv_def config_init_def)

lemma SelectServer_inv: "config_inv c \<Longrightarrow> config_inv (snd (SelectServer e index c))"
  by (auto simp: SelectServer_def config_inv_def)

lemma full_inv_boot: "full_inv (boot e conf selected)"
  using sys_inv_init ReloadServers_inv [OF config_inv_init] by (simp add: full_inv_def boot_def)

lemma full_step_inv: "full_step s s' \<Longrightarrow> full_inv s \<Longrightarrow> full_inv s'"
proof (induction rule: full_step.induct)
  case (platform s b)
  then show ?case using sys_step_inv by (simp add: full_inv_def)
next
  case (get_state env z s out s')
  then have "s' = s\<lparr>cs_bridge := snd (GetRealIp env (cs_bridge s))\<rparr>"
    by (auto simp: cfg_GetState_def Let_def split: prod.splits if_splits)
  then show ?case using get_state(2) by (simp add: full_inv_def keeps)
next
  case (edit s conf)
  then show ?case by (simp add: full_inv_def config_inv_def)
next
  case (reboot s e)
  then show ?case by (simp add: full_inv_boot)
qed (simp_all add: full_inv_def cfg_SelectServer_def split_beta SelectServer_inv cfg_Reload_def ReloadServers_inv
    cfg_Reconnect_def cfg_Start_def cfg_Stop_def keeps)

interpretation full: invariant_system "boot e conf selected" full_step full_inv for e conf selected
  by unfold_locales (auto intro: full_inv_boot full_step_inv)

text \<open>C36: Whatever commands, relay traffic, edits of the server list and reboots have happened, in any order, the
  relay that the bridge connects to next is either an entry of the list last read, whose host fits the
  buffer uncut and whose port is not 0, or the built-in default; an index is never taken beyond the end of
  the list.\<close>

theorem selected_relay_valid:
  assumes "full_step\<^sup>*\<^sup>* (boot e conf selected) s"
  shows "m_sel_index (cs_cfg s) < int (length (g_servers (cs_cfg s)))
     \<and> (GetSelectedHostPort 128 (cs_cfg s) = (DefaultRelayHost, DefaultRelayPort)
        \<or> (\<exists>srv \<in> set (g_servers (cs_cfg s)). GetSelectedHostPort 128 (cs_cfg s) = (srv_host srv, srv_port srv)
             \<and> srv_port srv \<noteq> 0))"
proof -
  let ?c = "cs_cfg s"
  have inv: "config_inv ?c" using full.run_from_start [OF assms] by (simp add: full_inv_def)
  show ?thesis
  proof (cases "m_sel_index ?c < 0")
    case True
    then show ?thesis by (simp add: GetSelectedHostPort_def slpnxServersGet_def DefaultRelayHost_def)
  next
    case False
    let ?srv = "g_servers ?c ! nat (m_sel_index ?c)"
    have m: "?srv \<in> set (g_servers ?c)" using inv False by (simp add: config_inv_def nat_less_iff)
    then have "server_ok ?srv" using inv by (simp add: config_inv_def)
    then have "GetSelectedHostPort 128 ?c = (srv_host ?srv, srv_port ?srv) \<and> srv_port ?srv \<noteq> 0"
      using False inv by (simp add: GetSelectedHostPort_def slpnxServersGet_def config_inv_def server_ok_def cfg_consts)
    then show ?thesis using m inv by (auto simp: config_inv_def)
  qed
qed

theorem selected_relay_valid_witness:
  "m_sel_index (cs_cfg (snd (cfg_SelectServer sample_sd 0xFFFFFFFF (boot sample_sd (Some sample_conf) None))))
     < int (length (g_servers (cs_cfg (snd (cfg_SelectServer sample_sd 0xFFFFFFFF (boot sample_sd (Some sample_conf) None))))))"
proof -
  have "full_step\<^sup>*\<^sup>* (boot sample_sd (Some sample_conf) None)
      (snd (cfg_SelectServer sample_sd 0xFFFFFFFF (boot sample_sd (Some sample_conf) None)))"
    by (rule r_into_rtranclp, rule full_step.select)
  from selected_relay_valid [OF this] show ?thesis by blast
qed


section \<open>The overlay in front of the system\<close>

lemma dispatch_step:
  assumes "serviceDispatch i q s = Some (rc, reply, s')"
  shows "full_step\<^sup>*\<^sup>* s s'"
proof -
  have get: "full_step\<^sup>*\<^sup>* s t" if "cfg_GetState env z s = Some (out, t)" for env z out t
    using full_step.get_state [OF that] by (rule r_into_rtranclp)
  have sel: "full_step\<^sup>*\<^sup>* s t" if "cfg_SelectServer e index s = (r, t)" for e index r t
    using full_step.select [of s e index] that by (metis r_into_rtranclp snd_conv)
  show ?thesis
    using assms
    by (auto simp: serviceDispatch_def cfg_dispatch_def Let_def split: option.splits if_splits prod.splits
        intro: get sel full_step.intros)
qed

lemma client_steps:
  "slpnxCfgGetVersion i s = Some (rc, reply, s') \<Longrightarrow> full_step\<^sup>*\<^sup>* s s'"
  "slpnxCfgGetState i s = Some (rc, reply, s') \<Longrightarrow> full_step\<^sup>*\<^sup>* s s'"
  "slpnxCfgSelectServer i index s = Some (rc, reply, s') \<Longrightarrow> full_step\<^sup>*\<^sup>* s s'"
  "slpnxCfgReload i s = Some (rc, reply, s') \<Longrightarrow> full_step\<^sup>*\<^sup>* s s'"
  "slpnxCfgReconnect i s = Some (rc, reply, s') \<Longrightarrow> full_step\<^sup>*\<^sup>* s s'"
  "slpnxCfgStart i s = Some (rc, reply, s') \<Longrightarrow> full_step\<^sup>*\<^sup>* s s'"
  "slpnxCfgStop i s = Some (rc, reply, s') \<Longrightarrow> full_step\<^sup>*\<^sup>* s s'"
  by (auto simp: slpnxCfgGetVersion_def slpnxCfgGetState_def slpnxCfgSelectServer_def slpnxCfgReload_def
      slpnxCfgReconnect_def slpnxCfgStart_def slpnxCfgStop_def dest: dispatch_step)

text \<open>The overlay with its main page, and everything else that may happen meanwhile (\<open>other\<close>). Closing it
  ends its process: it is opened with fresh state (\<open>open_overlay\<close>).\<close>

inductive overlay_step :: "overlay \<times> main_gui \<times> cfg_system \<Rightarrow> overlay \<times> main_gui \<times> cfg_system \<Rightarrow> bool" where
  other: "full_step s s' \<Longrightarrow> overlay_step (ov, m, s) (ov, m, s')"
| open_overlay: "initServices i overlay_init s = Some (ov', s') \<Longrightarrow> overlay_step (ov, m, s) (ov', main_gui_new, s')"
| main_page: "MainGui_createUI i hex ov main_gui_new s = Some (ov', m', s') \<Longrightarrow> overlay_step (ov, m, s) (ov', m', s')"
| update: "MainGui_update i ov m s = Some (ov', m', s') \<Longrightarrow> overlay_step (ov, m, s) (ov', m', s')"
| control: "MainGui_click i key_A l ov m s = Some (r, ov', m', s') \<Longrightarrow> overlay_step (ov, m, s) (ov', m', s')"
| pick: "ServerGui_click i key_A k ov s = Some (r, ov', s') \<Longrightarrow> overlay_step (ov, m, s) (ov', m, s')"

definition overlay_inv :: "overlay \<Rightarrow> bool" where
  "overlay_inv ov \<longleftrightarrow> length (ov_servers ov) \<le> SLPNXCFG_MAX_SERVERS \<and> list_all server_ok (ov_servers ov)
     \<and> length (g_version ov) = 32 \<and> length (g_host_val ov) = 128"

lemma refresh_cases:
  assumes "refresh i ov m s = Some (ov', m', s')"
  obtains (idle) "ov' = ov" "s' = s"
  | (lost) rc reply where "ov' = ov" "slpnxCfgGetState i s = Some (rc, reply, s')"
  | (shown) rc out where "slpnxCfgGetState i s = Some (rc, StateReply out, s')"
      "ov' = ov\<lparr>g_connected_val := o_connected out, g_enabled_val := o_enabled out, g_sel_val := o_sel_index out,
                g_port_val := o_port out, g_host_val := padded 128 (c_str (o_host out))\<rparr>"
proof (cases "g_haveSvc ov")
  case True
  obtain rc reply s1 where g: "slpnxCfgGetState i s = Some (rc, reply, s1)" using GetState_safe [of i s] by fast
  show ?thesis
  proof (cases "\<exists>out. reply = StateReply out \<and> R_SUCCEEDED rc")
    case c: True
    then show ?thesis using assms True g shown by (auto simp: refresh_def)
  next
    case False
    then have "ov' = ov \<and> s' = s1" using assms True g by (cases reply) (auto simp: refresh_def split: if_splits)
    then show ?thesis using g lost by blast
  qed
qed (use assms idle in \<open>simp add: refresh_def\<close>)

lemma refresh_step:
  assumes "refresh i ov m s = Some (ov', m', s')"
  shows "full_step\<^sup>*\<^sup>* s s'" and "overlay_inv ov \<Longrightarrow> overlay_inv ov'"
proof -
  have "length (padded 128 x) = 128" for x by (simp add: padded_def)
  with assms show "full_step\<^sup>*\<^sup>* s s'" and "overlay_inv ov \<Longrightarrow> overlay_inv ov'"
    by (elim refresh_cases; auto simp: overlay_inv_def dest: client_steps)+
qed

lemma read_version_length:
  "slpnxCfgGetVersion i s = Some (rc, reply, s') \<Longrightarrow> length old = 32 \<Longrightarrow> length (read_version reply old) = 32"
proof -
  assume "slpnxCfgGetVersion i s = Some (rc, reply, s')" and "length old = 32"
  moreover from this have "reply = NoReply \<or> reply = VersionReply (cfg_GetVersion 32)"
    by (auto simp: slpnxCfgGetVersion_def serviceDispatch_def cfg_dispatch_def split: option.splits)
  moreover have "length (cfg_GetVersion 32) = 32" by (simp add: cfg_GetVersion_def padded_def Version_def)
  ultimately show ?thesis by (auto simp: read_version_def)
qed

lemma slpnxServersLoad_ok:
  "length ss \<le> SLPNXCFG_MAX_SERVERS \<and> list_all server_ok ss \<Longrightarrow>
   length (snd (slpnxServersLoad file ss)) \<le> SLPNXCFG_MAX_SERVERS \<and> list_all server_ok (snd (slpnxServersLoad file ss))"
  using parse_lines_length [of 0] parse_lines_ok [of _ 0]
  by (auto simp: slpnxServersLoad_def slpnxServersParse_def Let_def list_all_iff split: option.split)

lemma initServices_step:
  assumes "initServices i ov s = Some (ov', s')"
  shows "full_step\<^sup>*\<^sup>* s s'" and "overlay_inv ov \<Longrightarrow> overlay_inv ov'"
proof -
  show "full_step\<^sup>*\<^sup>* s s'" using assms
    by (auto simp: initServices_def bind_eq_Some_conv Let_def split: if_splits dest!: client_steps intro: rtranclp_trans)
  show "overlay_inv ov \<Longrightarrow> overlay_inv ov'" using assms slpnxServersLoad_ok
    by (auto simp: initServices_def bind_eq_Some_conv Let_def overlay_inv_def read_version_length split: if_splits)
qed

lemma overlay_step_full: "overlay_step (ov, m, s) (ov', m', s') \<Longrightarrow> full_step\<^sup>*\<^sup>* s s'"
proof (induction "(ov, m, s)" "(ov', m', s')" rule: overlay_step.induct)
  case (main_page i hex)
  then show ?case by (auto simp: MainGui_createUI_def Let_def split: if_splits dest: refresh_step(1))
next
  case (update i)
  then show ?case by (auto simp: MainGui_update_def Let_def split: if_splits dest: refresh_step(1))
next
  case (control i key_A l r)
  then show ?case
    by (auto simp: MainGui_click_def action_click_def bind_eq_Some_conv split: if_splits listener.splits
        dest!: refresh_step(1) client_steps intro: rtranclp_trans)
next
  case (pick i key_A k r)
  then show ?case
    by (auto simp: ServerGui_click_def bind_eq_Some_conv split: if_splits dest!: client_steps intro: rtranclp_trans)
qed (auto dest: initServices_step(1))

lemma overlay_inv_init: "overlay_inv overlay_init"
  by (simp add: overlay_inv_def overlay_init_def)

lemma overlay_step_inv: "overlay_step (ov, m, s) (ov', m', s') \<Longrightarrow> overlay_inv ov \<Longrightarrow> overlay_inv ov'"
proof (induction "(ov, m, s)" "(ov', m', s')" rule: overlay_step.induct)
  case (open_overlay i)
  then show ?case using initServices_step(2) overlay_inv_init by blast
next
  case (main_page i hex)
  then show ?case by (auto simp: MainGui_createUI_def Let_def split: if_splits dest: refresh_step(2))
next
  case (update i)
  then show ?case by (auto simp: MainGui_update_def Let_def split: if_splits dest: refresh_step(2))
next
  case (control i key_A l r)
  then show ?case
    by (auto simp: MainGui_click_def action_click_def bind_eq_Some_conv split: if_splits listener.splits dest: refresh_step(2))
next
  case (pick i key_A k r)
  then show ?case
    by (auto simp: ServerGui_click_def bind_eq_Some_conv overlay_inv_def split: if_splits)
qed simp

definition session_inv :: "overlay \<times> main_gui \<times> cfg_system \<Rightarrow> bool" where
  "session_inv x = (case x of (ov, m, s) \<Rightarrow> overlay_inv ov \<and> full_inv s)"

interpretation session: invariant_system "(overlay_init, main_gui_new, boot e conf selected)" overlay_step session_inv
  for e conf selected
proof unfold_locales
  show "session_inv (overlay_init, main_gui_new, boot e conf selected)"
    by (simp add: session_inv_def overlay_inv_init full_inv_boot)
next
  fix x y assume "overlay_step x y" and "session_inv x"
  then show "session_inv y"
    using overlay_step_inv full.run_keeps_inv [OF overlay_step_full] by (cases x; cases y) (auto simp: session_inv_def)
qed

lemma overlay_run_full: "overlay_step\<^sup>*\<^sup>* x y \<Longrightarrow> full_step\<^sup>*\<^sup>* (snd (snd x)) (snd (snd y))"
proof (induction rule: rtranclp_induct)
  case (step y z)
  then show ?case using overlay_step_full by (cases y; cases z) (auto intro: rtranclp_trans)
qed simp



end
