(* ===== verification/Logging.thy ===== *)
theory Logging
  imports Packet Servers "HOL-Library.Sublist"
begin

text \<open>
  The log file (\<^verbatim>\<open>src/source/debug.cpp\<close>) and the two diagnostic printers of the bridge
  (\<^verbatim>\<open>src/source/bsd/bsd_bridge_service.cpp\<close>). The file system is the parameter \<open>fs_env\<close> of each call: which
  of its operations succeed, and what a write leaves in the file. The text that \<open>TSNPrintf\<close> and
  \<open>TVSNPrintf\<close> produce (they cut it to their buffer and return the length they wrote) is an argument.
\<close>

section \<open>The log file\<close>

record logger =
  g_logging_enabled :: bool
  LogOffset :: nat
  log_file :: "u8 list option"

text \<open>\<open>f_write n c off b\<close>: result and new content of the \<open>n\<close>-th write of the call, of \<open>b\<close> at \<open>off\<close> into a file with content \<open>c\<close>.\<close>

record fs_env =
  f_has_ok :: bool
  f_create_ok :: bool
  f_open_ok :: bool
  f_size_ok :: bool
  f_prefix :: "u8 list"
  f_write :: "nat \<Rightarrow> u8 list \<Rightarrow> nat \<Rightarrow> u8 list \<Rightarrow> bool \<times> u8 list"

definition log_init :: "u8 list option \<Rightarrow> logger" where
  "log_init f = \<lparr>g_logging_enabled = True, LogOffset = 0, log_file = f\<rparr>"

definition OpenLogFileForAppend :: "fs_env \<Rightarrow> logger \<Rightarrow> bool \<times> logger" where
  "OpenLogFileForAppend e s =
     (if \<not> f_has_ok e then (False, s)
      else if log_file s = None then
        if \<not> f_create_ok e then (False, s)
        else (f_open_ok e, s\<lparr>log_file := Some [], LogOffset := 0\<rparr>)
      else (f_open_ok e, s))"

definition log_Initialize :: "fs_env \<Rightarrow> logger \<Rightarrow> bool \<times> logger" where
  "log_Initialize e s =
     (if \<not> g_logging_enabled s then (True, s)
      else if \<not> f_has_ok e then (False, s)
      else if log_file s = None \<and> \<not> f_create_ok e then (False, s)
      else
        let c = (case log_file s of None \<Rightarrow> [] | Some c \<Rightarrow> c); s1 = s\<lparr>log_file := Some c\<rparr>
        in if \<not> f_open_ok e \<or> \<not> f_size_ok e then (False, s1) else (True, s1\<lparr>LogOffset := length c\<rparr>))"

definition SetLogging :: "fs_env \<Rightarrow> u32 \<Rightarrow> logger \<Rightarrow> bool \<times> logger" where
  "SetLogging e enabled s =
     (let s1 = s\<lparr>g_logging_enabled := (enabled \<noteq> 0)\<rparr>
      in if g_logging_enabled s1 then log_Initialize e s1 else (True, s1))"

definition GetLogging :: "logger \<Rightarrow> u32" where
  "GetLogging s = (if g_logging_enabled s then 1 else 0)"

text \<open>\<open>WriteFile\<close> at \<open>LogOffset\<close>, which then moves past what was written.\<close>

definition log_write :: "fs_env \<Rightarrow> nat \<Rightarrow> u8 list \<Rightarrow> logger \<Rightarrow> bool \<times> logger" where
  "log_write e n b s =
     (case log_file s of
        None \<Rightarrow> (False, s)
      | Some c \<Rightarrow>
          let (ok, c') = f_write e n c (LogOffset s) b; s1 = s\<lparr>log_file := Some c'\<rparr>
          in if ok then (True, s1\<lparr>LogOffset := LogOffset s + length b\<rparr>) else (False, s1))"

definition LogPrefix :: "fs_env \<Rightarrow> logger \<Rightarrow> bool \<times> logger" where
  "LogPrefix e s = log_write e 0 (f_prefix e) s"

definition LogStr :: "fs_env \<Rightarrow> u8 list \<Rightarrow> logger \<Rightarrow> logger" where
  "LogStr e text s =
     (if g_logging_enabled s then
        let (opened, s1) = OpenLogFileForAppend e s
        in if opened then
             let (ok, s2) = LogPrefix e s1
             in if ok then snd (log_write e 1 text s2) else s2
           else s1
      else s)"

definition hex_digit :: "nat \<Rightarrow> u8" where
  "hex_digit d = (if d < 10 then of_nat (48 + d) else of_nat (87 + d))"

text \<open>\<open>"%02x"\<close> of a byte.\<close>

definition hex2 :: "u8 \<Rightarrow> u8 list" where
  "hex2 b = [hex_digit (unat b div 16), hex_digit (unat b mod 16)]"

definition hex_line :: "u8 list \<Rightarrow> u8 list" where
  "hex_line bs = concat (map hex2 bs) @ [10]"

text \<open>The loop of \<open>LogHexImpl\<close> over the data from position \<open>i\<close>, in steps of 16; it stops at a write that fails.\<close>

function hex_loop :: "fs_env \<Rightarrow> u8 list \<Rightarrow> nat \<Rightarrow> logger \<Rightarrow> logger" where
  "hex_loop e dat i s =
     (if i < length dat then
        let (ok, s1) = log_write e (i div 16) (hex_line (take (min (length dat - i) 16) (drop i dat))) s
        in if ok then hex_loop e dat (i + 16) s1 else s1
      else s)"
  by pat_completeness auto
termination
  by (relation "measure (\<lambda>(e, dat, i, s). length dat - i)") auto

declare hex_loop.simps [simp del]

text \<open>\<open>e0\<close> is the file system during the \<open>LogFormatImpl\<close> that announces the dump.\<close>

definition LogHexImpl :: "fs_env \<Rightarrow> fs_env \<Rightarrow> u8 list \<Rightarrow> u8 list \<Rightarrow> logger \<Rightarrow> logger" where
  "LogHexImpl e0 e header dat s =
     (if g_logging_enabled s then
        let s1 = LogStr e0 header s; (opened, s2) = OpenLogFileForAppend e s1
        in if opened then hex_loop e dat 0 s2 else s2
      else s)"

section \<open>The diagnostic printers of the bridge\<close>

definition LanMagic :: u32 where "LanMagic = 0x11451400"

definition LdnPacketTypeName :: "u8 \<Rightarrow> string" where
  "LdnPacketTypeName ty =
     (if ty = 0 then ''Scan'' else if ty = 1 then ''ScanResp'' else if ty = 2 then ''Connect''
      else if ty = 3 then ''SyncNetwork'' else ''?'')"

text \<open>\<open>Some None\<close>: nothing is logged; \<open>None\<close>: a read outside the payload.\<close>

definition LogLdnPacketIfRecognized :: "string \<Rightarrow> u8 list \<Rightarrow> u8 list option option" where
  "LogLdnPacketIfRecognized direction payload =
     (if length payload < 12 then Some None
      else do {
        b0 \<leftarrow> rd payload 0; b1 \<leftarrow> rd payload 1; b2 \<leftarrow> rd payload 2; b3 \<leftarrow> rd payload 3;
        let magic = be32 b3 b2 b1 b0;
        if magic \<noteq> LanMagic then Some None
        else do {
          ty \<leftarrow> rd payload 4;
          compressed \<leftarrow> rd payload 5;
          l0 \<leftarrow> rd payload 6; l1 \<leftarrow> rd payload 7;
          d0 \<leftarrow> rd payload 8; d1 \<leftarrow> rd payload 9;
          let len = be16 l1 l0;
          let decompress_length = be16 d1 d0;
          if 12 + unat len > length payload then Some None
          else Some (Some (ascii ''BsdBridge: LDN '' @ ascii direction @ ascii '' type='' @ ascii (LdnPacketTypeName ty)
                 @ ascii '' len='' @ decimal (unat len) @ ascii '' compressed='' @ decimal (unat compressed)
                 @ ascii '' decompress_len='' @ decimal (unat decompress_length) @ [10]))
        }
      })"

definition BytesPerLine :: nat where "BytesPerLine = 16"
definition MaxCapture :: nat where "MaxCapture = 224"

text \<open>The \<open>snprintf\<close>s into \<open>hex\<close>: each writes two digits, a space and the terminating NUL, the next one over it.\<close>

fun hex_fill :: "nat \<Rightarrow> u8 list \<Rightarrow> u8 list \<Rightarrow> u8 list option" where
  "hex_fill i [] hex = Some hex"
| "hex_fill i (b # bs) hex = do { hex' \<leftarrow> wr_range hex (i * 3) (hex2 b @ [32, 0]); hex_fill (i + 1) bs hex' }"

text \<open>One line: \<open>junk\<close> is what the uninitialised buffer held.\<close>

definition hex_chunk :: "u8 list \<Rightarrow> u8 list \<Rightarrow> u8 list option" where
  "hex_chunk junk bs = do {
     hex \<leftarrow> hex_fill 0 bs junk;
     hex' \<leftarrow> wr_range hex (if length bs * 3 > 0 then length bs * 3 - 1 else 0) [0];
     Some (takeWhile (\<lambda>c. c \<noteq> 0) hex')
   }"

text \<open>\<open>"%04zx"\<close> of an offset below \<open>2 ^ 16\<close>\<close>

definition hex4 :: "nat \<Rightarrow> u8 list" where
  "hex4 n = [hex_digit (n div 4096 mod 16), hex_digit (n div 256 mod 16), hex_digit (n div 16 mod 16), hex_digit (n mod 16)]"

function nonctl_lines :: "u8 list \<Rightarrow> nat \<Rightarrow> nat \<Rightarrow> u8 list \<Rightarrow> u8 list list option" where
  "nonctl_lines junk n off payload =
     (if off < n then do {
        let line_n = (if n - off < BytesPerLine then n - off else BytesPerLine);
        bytes \<leftarrow> rd_range payload off line_n;
        hex \<leftarrow> hex_chunk junk bytes;
        rest \<leftarrow> nonctl_lines junk n (off + BytesPerLine) payload;
        Some ((ascii ''BsdBridge:   ['' @ hex4 off @ ascii ''] '' @ hex @ [10]) # rest)
      }
      else Some [])"
  by pat_completeness auto
termination
  by (relation "measure (\<lambda>(junk, n, off, payload). n - off)") (auto simp: BytesPerLine_def)

declare nonctl_lines.simps [simp del]

definition LogNonControlUdpPayload :: "u8 list \<Rightarrow> string \<Rightarrow> u16 \<Rightarrow> u8 list \<Rightarrow> u8 list list option" where
  "LogNonControlUdpPayload junk direction local_port payload =
     (if local_port = LdnControlPort then Some []
      else do {
        let n = (if length payload < MaxCapture then length payload else MaxCapture);
        rest \<leftarrow> nonctl_lines junk n 0 payload;
        Some ((ascii ''BsdBridge: non-control UDP '' @ ascii direction @ ascii '' (local port '' @ decimal (unat local_port)
               @ ascii '') '' @ decimal (length payload) @ ascii '' bytes''
               @ (if length payload > MaxCapture then ascii '' (truncated for log)'' else []) @ [10]) # rest)
      })"


section \<open>Nothing logged is overwritten\<close>

text \<open>A write touches nothing before its offset, and one that succeeds leaves its bytes there.\<close>

definition fs_sound :: "fs_env \<Rightarrow> bool" where
  "fs_sound e \<longleftrightarrow> (\<forall>n c off b. off \<le> length c \<longrightarrow>
     (case f_write e n c off b of (ok, c') \<Rightarrow>
        take off c' = take off c \<and> off \<le> length c'
        \<and> (ok \<longrightarrow> off + length b \<le> length c' \<and> take (off + length b) c' = take off c @ b)))"

text \<open>What has been logged: the file up to \<open>LogOffset\<close>.\<close>

definition log_view :: "logger \<Rightarrow> u8 list" where
  "log_view s = (case log_file s of None \<Rightarrow> [] | Some c \<Rightarrow> take (LogOffset s) c)"

definition log_wf :: "logger \<Rightarrow> bool" where
  "log_wf s \<longleftrightarrow> (case log_file s of None \<Rightarrow> True | Some c \<Rightarrow> LogOffset s \<le> length c)"

lemma log_write_view:
  assumes "fs_sound e" and "log_wf s" and "log_file s \<noteq> None" and "log_write e n b s = (ok, s')"
  shows "log_wf s'" and "log_file s' \<noteq> None" and "g_logging_enabled s' = g_logging_enabled s"
    and "log_view s' = log_view s @ (if ok then b else [])"
proof -
  obtain c where c: "log_file s = Some c" "LogOffset s \<le> length c"
    using assms(2,3) by (auto simp: log_wf_def)
  obtain r c' where w: "f_write e n c (LogOffset s) b = (r, c')" by fastforce
  then have "take (LogOffset s) c' = take (LogOffset s) c" "LogOffset s \<le> length c'"
    "r \<Longrightarrow> LogOffset s + length b \<le> length c' \<and> take (LogOffset s + length b) c' = take (LogOffset s) c @ b"
    using assms(1) c(2) by (auto simp: fs_sound_def split: prod.splits)
  then show "log_wf s'" and "log_file s' \<noteq> None" and "g_logging_enabled s' = g_logging_enabled s"
    and "log_view s' = log_view s @ (if ok then b else [])"
    using assms(4) c w by (auto simp: log_write_def log_wf_def log_view_def Let_def split: if_splits)
qed

lemma OpenLog_view:
  assumes "log_wf s" and "OpenLogFileForAppend e s = (opened, s')"
  shows "log_wf s'" and "log_view s' = log_view s" and "opened \<Longrightarrow> log_file s' \<noteq> None"
    and "g_logging_enabled s' = g_logging_enabled s"
  using assms by (auto simp: OpenLogFileForAppend_def log_wf_def log_view_def split: if_splits)

text \<open>What a call appends: nothing, the prefix alone when writing the text failed, or the whole line.\<close>

definition line_parts :: "fs_env \<Rightarrow> u8 list \<Rightarrow> u8 list set" where
  "line_parts e text = {[], f_prefix e, f_prefix e @ text}"

lemma LogStr_view:
  assumes "fs_sound e" and "log_wf s"
  shows "log_wf (LogStr e text s)" and "g_logging_enabled (LogStr e text s) = g_logging_enabled s"
    and "\<exists>d \<in> line_parts e text. log_view (LogStr e text s) = log_view s @ d"
proof -
  obtain opened s1 where o: "OpenLogFileForAppend e s = (opened, s1)" by fastforce
  note O = OpenLog_view [OF assms(2) o]
  obtain ok s2 where p: "LogPrefix e s1 = (ok, s2)" by fastforce
  obtain ok2 s3 where t: "log_write e (Suc 0) text s2 = (ok2, s3)" by fastforce
  show "log_wf (LogStr e text s)" and "g_logging_enabled (LogStr e text s) = g_logging_enabled s"
    and "\<exists>d \<in> line_parts e text. log_view (LogStr e text s) = log_view s @ d"
  proof (atomize (full), cases "g_logging_enabled s \<and> opened")
    case True
    note P = log_write_view [OF assms(1) O(1) O(3) p [unfolded LogPrefix_def]]
    note T = log_write_view [OF assms(1) P(1,2) t]
    show "log_wf (LogStr e text s) \<and> g_logging_enabled (LogStr e text s) = g_logging_enabled s
        \<and> (\<exists>d \<in> line_parts e text. log_view (LogStr e text s) = log_view s @ d)"
      using True O P T by (cases ok; cases ok2) (auto simp: LogStr_def o p t line_parts_def)
  next
    case False
    then show "log_wf (LogStr e text s) \<and> g_logging_enabled (LogStr e text s) = g_logging_enabled s
        \<and> (\<exists>d \<in> line_parts e text. log_view (LogStr e text s) = log_view s @ d)"
      using O assms(2) by (auto simp: LogStr_def o line_parts_def)
  qed
qed

lemma hex_loop_view:
  assumes "fs_sound e" and "log_wf s" and "log_file s \<noteq> None"
  shows "log_wf (hex_loop e dat i s) \<and> g_logging_enabled (hex_loop e dat i s) = g_logging_enabled s
     \<and> prefix (log_view s) (log_view (hex_loop e dat i s))"
  using assms
proof (induction e dat i s rule: hex_loop.induct)
  case (1 e dat i s)
  let ?b = "hex_line (take (min (length dat - i) 16) (drop i dat))"
  obtain ok s1 where w: "log_write e (i div 16) ?b s = (ok, s1)" by fastforce
  note W = log_write_view [OF "1.prems" w]
  have u: "hex_loop e dat i s = (if i < length dat then if ok then hex_loop e dat (i + 16) s1 else s1 else s)"
    by (subst hex_loop.simps) (simp add: w)
  show ?case
    using "1.IH" [OF _ w [symmetric] refl] "1.prems" W by (cases ok) (auto simp: u dest: append_prefixD)
qed

lemma LogHexImpl_view:
  assumes "fs_sound e0" and "fs_sound e" and "log_wf s"
  shows "log_wf (LogHexImpl e0 e header dat s) \<and> prefix (log_view s) (log_view (LogHexImpl e0 e header dat s))"
proof -
  note L = LogStr_view [OF assms(1,3), of header]
  obtain opened s2 where o: "OpenLogFileForAppend e (LogStr e0 header s) = (opened, s2)" by fastforce
  note O = OpenLog_view [OF L(1) o]
  have "prefix (log_view s) (log_view s2)" using L(3) O(2) by auto
  moreover have "log_wf (hex_loop e dat 0 s2)" "prefix (log_view s2) (log_view (hex_loop e dat 0 s2))" if "opened"
    using hex_loop_view [OF assms(2) O(1) O(3)] that by blast+
  ultimately show ?thesis
    using O(1) assms(3) by (auto simp: LogHexImpl_def o Let_def intro: prefix_order.trans)
qed

text \<open>A call of the logging interface.\<close>

datatype log_op = LogFormatCall fs_env "u8 list" | LogHexCall fs_env fs_env "u8 list" "u8 list" | SetLoggingCall fs_env u32

fun log_exec :: "log_op \<Rightarrow> logger \<Rightarrow> logger" where
  "log_exec (LogFormatCall e text) s = LogStr e text s"
| "log_exec (LogHexCall e0 e header dat) s = LogHexImpl e0 e header dat s"
| "log_exec (SetLoggingCall e enabled) s = snd (SetLogging e enabled s)"

fun op_sound :: "log_op \<Rightarrow> bool" where
  "op_sound (LogFormatCall e text) \<longleftrightarrow> fs_sound e"
| "op_sound (LogHexCall e0 e header dat) \<longleftrightarrow> fs_sound e0 \<and> fs_sound e"
| "op_sound (SetLoggingCall e enabled) \<longleftrightarrow> True"

lemma log_view_prefix_file: "log_wf s \<Longrightarrow> log_file s = Some c \<Longrightarrow> prefix (log_view s) c"
  by (simp add: log_view_def take_is_prefix)

text \<open>The file is never removed by the program, and \<open>Initialize\<close> sets the offset to its end.\<close>

definition log_open :: "logger \<Rightarrow> bool" where
  "log_open s \<longleftrightarrow> log_wf s \<and> log_file s \<noteq> None"

lemma log_write_file: "log_file s \<noteq> None \<Longrightarrow> log_file (snd (log_write e n b s)) \<noteq> None"
  by (auto simp: log_write_def Let_def split: option.split prod.split)

lemma OpenLog_file: "log_file s \<noteq> None \<Longrightarrow> log_file (snd (OpenLogFileForAppend e s)) \<noteq> None"
  by (auto simp: OpenLogFileForAppend_def)

lemma LogStr_file: "log_file s \<noteq> None \<Longrightarrow> log_file (LogStr e text s) \<noteq> None"
  unfolding LogStr_def LogPrefix_def Let_def split_beta
  by (auto simp del: not_None_eq intro!: log_write_file OpenLog_file)

lemma hex_loop_file: "log_file s \<noteq> None \<Longrightarrow> log_file (hex_loop e dat i s) \<noteq> None"
proof (induction e dat i s rule: hex_loop.induct)
  case (1 e dat i s)
  let ?w = "log_write e (i div 16) (hex_line (take (min (length dat - i) 16) (drop i dat))) s"
  have "log_file (snd ?w) \<noteq> None" by (rule log_write_file [OF "1.prems"])
  moreover obtain ok s1 where w: "?w = (ok, s1)" by fastforce
  ultimately show ?case
    using "1.IH" [OF _ w [symmetric] refl] "1.prems" by (subst hex_loop.simps) (simp add: w)
qed

lemma LogHexImpl_file: "log_file s \<noteq> None \<Longrightarrow> log_file (LogHexImpl e0 e header dat s) \<noteq> None"
  unfolding LogHexImpl_def Let_def split_beta
  by (auto simp del: not_None_eq intro!: hex_loop_file OpenLog_file LogStr_file)

lemma Initialize_view:
  "log_open s \<Longrightarrow> log_open (snd (log_Initialize e s)) \<and> prefix (log_view s) (log_view (snd (log_Initialize e s)))"
  by (cases "log_file s") (auto simp: log_Initialize_def log_open_def log_wf_def log_view_def Let_def take_is_prefix)

lemma log_exec_view:
  assumes "log_open s" and "op_sound x"
  shows "log_open (log_exec x s) \<and> prefix (log_view s) (log_view (log_exec x s))"
proof (cases x)
  case (LogFormatCall e t)
  then show ?thesis using LogStr_view [of e s t] LogStr_file assms by (auto simp: log_open_def simp del: not_None_eq)
next
  case (LogHexCall e0 e header dat)
  then show ?thesis using LogHexImpl_view LogHexImpl_file assms by (simp add: log_open_def del: not_None_eq)
next
  case (SetLoggingCall e enabled)
  have "log_open (s\<lparr>g_logging_enabled := v\<rparr>) \<and> log_view (s\<lparr>g_logging_enabled := v\<rparr>) = log_view s" for v
    using assms(1) by (auto simp: log_open_def log_wf_def log_view_def)
  then show ?thesis using Initialize_view [of "s\<lparr>g_logging_enabled := True\<rparr>"] SetLoggingCall
    by (auto simp: SetLogging_def Let_def)
qed

lemma log_run_view:
  "log_open s \<Longrightarrow> \<forall>x \<in> set xs. op_sound x \<Longrightarrow>
   log_open (fold log_exec xs s) \<and> prefix (log_view s) (log_view (fold log_exec xs s))"
proof (induction xs arbitrary: s)
  case (Cons x xs)
  then show ?case using log_exec_view [of s x] by (auto intro: prefix_order.trans)
qed simp


text \<open>A file system that only fails at the first write of a call, on a file with one line.\<close>

definition sample_fs :: "nat \<Rightarrow> fs_env" where
  "sample_fs failing = \<lparr>f_has_ok = True, f_create_ok = True, f_open_ok = True, f_size_ok = True, f_prefix = [91, 93],
     f_write = (\<lambda>n c off b. if n = failing then (False, c) else (True, take off c @ b @ drop (off + length b) c))\<rparr>"

lemma sample_fs_sound: "fs_sound (sample_fs k)"
  by (simp add: fs_sound_def sample_fs_def)


section \<open>Reading a dump back\<close>

definition hex_value :: "u8 \<Rightarrow> nat" where
  "hex_value c = (if unat c < 58 then unat c - 48 else unat c - 87)"

fun unhex :: "u8 list \<Rightarrow> u8 list" where
  "unhex (a # b # r) =
     (if a = 32 then unhex (b # r) else of_nat (16 * hex_value a + hex_value b) # unhex r)"
| "unhex _ = []"

lemma hex_digit_facts: "d < 16 \<Longrightarrow> hex_value (hex_digit d) = d \<and> hex_digit d \<noteq> 32 \<and> hex_digit d \<noteq> 0 \<and> hex_digit d \<noteq> 10"
proof -
  assume "d < 16"
  then have "d \<in> {0, 1, 2, 3, 4, 5, 6, 7, 8, 9, 10, 11, 12, 13, 14, 15}" unfolding insert_iff empty_iff by arith
  then show ?thesis by (auto simp: hex_value_def hex_digit_def)
qed

lemma unhex_hex2: "unhex (hex2 b @ r) = b # unhex r"
proof -
  have "unat b < 256" using unsigned_less [of b] by simp
  then have "unat b div 16 < 16" "unat b mod 16 < 16" by (simp_all add: div_less_iff_less_mult)
  note f = hex_digit_facts [OF this(1)] hex_digit_facts [OF this(2)]
  have v: "16 * (unat b div 16) + unat b mod 16 = unat b" by simp
  have "(of_nat (16 * (unat b div 16) + unat b mod 16) :: u8) = b" unfolding v by simp
  then show ?thesis using f by (simp add: hex2_def)
qed

lemma unhex_dump: "unhex (concat (map hex2 bs)) = bs"
  by (induction bs) (simp_all add: unhex_hex2)

text \<open>What \<open>hex_fill\<close> leaves in the buffer, and the line after the last space was cut.\<close>

definition spaced :: "u8 list \<Rightarrow> u8 list" where
  "spaced bs = concat (map (\<lambda>b. hex2 b @ [32]) bs)"

lemma length_spaced: "length (spaced bs) = length bs * 3"
  by (induction bs) (simp_all add: spaced_def hex2_def)

lemma length_hex2 [simp]: "length (hex2 b) = 2"
  by (simp add: hex2_def)

lemma hex_fill_spaced:
  "(i + length bs) * 3 < length hex \<Longrightarrow> bs \<noteq> [] \<Longrightarrow>
   hex_fill i bs hex = Some (take (i * 3) hex @ spaced bs @ [0] @ drop ((i + length bs) * 3 + 1) hex)"
proof (induction bs arbitrary: i hex)
  case (Cons b bs)
  let ?h = "take (i * 3) hex @ (hex2 b @ [32, 0]) @ drop (i * 3 + 4) hex"
  have w: "wr_range hex (i * 3) (hex2 b @ [32, 0]) = Some ?h"
    using Cons.prems(1) by (simp add: wr_range_def)
  have l: "length ?h = length hex" using Cons.prems(1) by simp
  show ?case
  proof (cases "bs = []")
    case True
    then show ?thesis using w by (simp add: spaced_def add.commute)
  next
    case False
    have "take ((i + 1) * 3) ?h = take (i * 3) hex @ hex2 b @ [32]"
      using Cons.prems(1) by (simp add: hex2_def)
    moreover have "drop ((i + 1 + length bs) * 3 + 1) ?h = drop ((i + length (b # bs)) * 3 + 1) hex"
      using Cons.prems(1) False by (simp add: add.commute add.left_commute)
    ultimately show ?thesis
      using Cons.IH [of "i + 1" ?h] Cons.prems(1) False l by (simp add: w spaced_def)
  qed
qed simp

lemma spaced_last: "bs \<noteq> [] \<Longrightarrow> spaced bs = butlast (spaced bs) @ [32]"
  by (cases bs rule: rev_cases) (simp_all add: spaced_def butlast_append)

lemma spaced_no_nul: "0 \<notin> set (spaced bs)"
proof -
  have "0 \<notin> set (hex2 b)" for b
  proof -
    have "unat b < 256" using unsigned_less [of b] by simp
    then have "unat b div 16 < 16" "unat b mod 16 < 16" by (simp_all add: div_less_iff_less_mult)
    then show ?thesis using hex_digit_facts by (simp add: hex2_def)
  qed
  then show ?thesis by (simp add: spaced_def)
qed

lemma hex_chunk_spaced:
  assumes "bs \<noteq> []" and "length bs * 3 < length junk"
  shows "hex_chunk junk bs = Some (butlast (spaced bs))"
proof -
  let ?t = "[0] @ drop (length bs * 3 + 1) junk" and ?n = "length bs * 3 - 1"
  have f: "hex_fill 0 bs junk = Some (spaced bs @ ?t)"
    using hex_fill_spaced [of 0 bs junk] assms by simp
  have n: "length (butlast (spaced bs)) = ?n" using length_spaced [of bs] by simp
  have s: "spaced bs @ ?t = butlast (spaced bs) @ 32 # ?t" using spaced_last [OF assms(1)] by simp
  have w: "wr_range (spaced bs @ ?t) ?n [0] = Some (butlast (spaced bs) @ 0 # ?t)"
    unfolding s using n by (simp add: wr_range_def)
  have "0 \<notin> set (butlast (spaced bs))" using spaced_no_nul by (meson in_set_butlastD)
  then have "takeWhile (\<lambda>c. c \<noteq> 0) (butlast (spaced bs) @ 0 # ?t) = butlast (spaced bs)"
    by (subst takeWhile_append2) auto
  then show ?thesis using assms(1) f w by (simp add: hex_chunk_def)
qed

lemma unhex_space: "r \<noteq> [] \<Longrightarrow> unhex (32 # r) = unhex r"
  by (cases r) auto

lemma unhex_line: "bs \<noteq> [] \<Longrightarrow> unhex (butlast (spaced bs) @ [10]) = bs"
proof (induction bs)
  case (Cons b bs)
  have u: "spaced (b # bs) = hex2 b @ 32 # spaced bs" by (simp add: spaced_def)
  show ?case
  proof (cases "bs = []")
    case True
    then show ?thesis using unhex_hex2 [of b "[10]"] by (simp add: spaced_def butlast_append)
  next
    case False
    then have "spaced bs \<noteq> []" using length_spaced [of bs] by force
    then have "butlast (spaced (b # bs)) = hex2 b @ 32 # butlast (spaced bs)" by (simp add: u butlast_append)
    then show ?thesis using Cons.IH [OF False] by (simp add: unhex_hex2 unhex_space)
  qed
qed simp

text \<open>The bytes shown by a line of the dump, behind its 20 characters of heading.\<close>

definition line_bytes :: "u8 list \<Rightarrow> u8 list" where "line_bytes l = unhex (drop 20 l)"

lemma nonctl_lines_spec:
  assumes "n \<le> length payload" and "length junk = BytesPerLine * 3 + 1"
  shows "\<exists>ls. nonctl_lines junk n off payload = Some ls
     \<and> concat (map line_bytes ls) = take (n - off) (drop off payload) \<and> (\<forall>l \<in> set ls. length l \<le> 68)"
  using assms
proof (induction junk n off payload rule: nonctl_lines.induct)
  case (1 junk n off payload)
  show ?case
  proof (cases "off < n")
    case True
    let ?k = "if n - off < BytesPerLine then n - off else BytesPerLine"
    let ?bs = "take ?k (drop off payload)"
    have rd: "rd_range payload off ?k = Some ?bs" using True "1.prems"(1) by (auto simp: rd_range_def)
    have bs: "length ?bs = ?k" "?bs \<noteq> []" using True "1.prems"(1) by (auto simp: BytesPerLine_def)
    have hex: "hex_chunk junk ?bs = Some (butlast (spaced ?bs))"
      using hex_chunk_spaced [OF bs(2)] bs(1) "1.prems"(2) by (auto simp: BytesPerLine_def)
    obtain ls where ls: "nonctl_lines junk n (off + BytesPerLine) payload = Some ls"
      "concat (map line_bytes ls) = take (n - (off + BytesPerLine)) (drop (off + BytesPerLine) payload)"
      "\<forall>l \<in> set ls. length l \<le> 68"
      using "1.IH" [OF True refl rd hex "1.prems"] by blast
    let ?l = "ascii ''BsdBridge:   ['' @ hex4 off @ ascii ''] '' @ butlast (spaced ?bs) @ [10]"
    have "line_bytes ?l = ?bs" using unhex_line [OF bs(2)] by (simp add: line_bytes_def hex4_def)
    moreover have "?bs @ take (n - (off + BytesPerLine)) (drop (off + BytesPerLine) payload)
        = take (n - off) (drop off payload)"
    proof (cases "n - off < BytesPerLine")
      case False
      then have "n - off = BytesPerLine + (n - (off + BytesPerLine))" by simp
      from arg_cong [OF this, of "\<lambda>k. take k (drop off payload)"] False show ?thesis
        by (simp add: take_add add.commute)
    qed simp
    moreover have "length ?l \<le> 68"
      using bs(1) length_spaced [of ?bs] by (auto simp: hex4_def BytesPerLine_def)
    ultimately show ?thesis
      using True rd hex ls by (subst nonctl_lines.simps) (simp add: Let_def)
  qed (subst nonctl_lines.simps, simp)
qed

text \<open>The dump of a game's datagram writes inside its buffers, shows the first 224 bytes of the payload, 16 per
  line, and no line of it comes near the 256 bytes of the log's own buffer.\<close>

theorem nonctl_dump_exact:
  assumes "length junk = BytesPerLine * 3 + 1" and "local_port \<noteq> LdnControlPort"
  shows "\<exists>header ls. LogNonControlUdpPayload junk direction local_port payload = Some (header # ls)
     \<and> concat (map line_bytes ls) = take MaxCapture payload \<and> (\<forall>l \<in> set ls. length l \<le> 68)"
proof -
  let ?n = "if length payload < MaxCapture then length payload else MaxCapture"
  have "?n \<le> length payload" by simp
  from nonctl_lines_spec [OF this assms(1), of 0] obtain ls where
    "nonctl_lines junk ?n 0 payload = Some ls" "concat (map line_bytes ls) = take ?n payload"
    "\<forall>l \<in> set ls. length l \<le> 68"
    by auto
  moreover have "take ?n payload = take MaxCapture payload" by simp
  ultimately show ?thesis using assms(2) by (simp add: LogNonControlUdpPayload_def Let_def)
qed

theorem nonctl_dump_exact_witness:
  "\<exists>header ls. LogNonControlUdpPayload (replicate 49 7) ''send'' 30000 [1, 2, 255] = Some (header # ls)
     \<and> concat (map line_bytes ls) = [1, 2, 255]"
  using nonctl_dump_exact [of "replicate 49 7" 30000 "''send''" "[1, 2, 255]"]
  by (auto simp: BytesPerLine_def MaxCapture_def LdnControlPort_def)

text \<open>The recogniser of LDN packets reads only inside the payload, whatever that holds.\<close>

theorem ldn_log_safe: "LogLdnPacketIfRecognized direction payload \<noteq> None"
proof (cases "length payload < 12")
  case False
  then have "payload \<noteq> []" by auto
  then show ?thesis using False by (simp add: LogLdnPacketIfRecognized_def rd_simps Let_def)
qed (simp add: LogLdnPacketIfRecognized_def)

text \<open>A line written to a log that can be written: the prefix and the text are appended.\<close>

theorem log_line_appended:
  assumes "fs_sound e" and "log_wf s" and "g_logging_enabled s" and "f_has_ok e" "f_create_ok e" "f_open_ok e"
    and "\<forall>n c off b. fst (f_write e n c off b)"
  shows "log_view (LogStr e line s) = log_view s @ f_prefix e @ line"
proof -
  obtain opened s1 where o: "OpenLogFileForAppend e s = (opened, s1)" by fastforce
  note O = OpenLog_view [OF assms(2) o]
  have opened: "opened" using o assms(4-6) by (auto simp: OpenLogFileForAppend_def split: if_splits)
  have ok: "fst (log_write e n b t)" if "log_file t \<noteq> None" for n b t
    using that assms(7) by (auto simp: log_write_def Let_def split: prod.split) (metis fst_conv)
  obtain s2 where p: "LogPrefix e s1 = (True, s2)"
    using ok [OF O(3) [OF opened], of 0 "f_prefix e"] by (metis LogPrefix_def prod.collapse)
  note P = log_write_view [OF assms(1) O(1) O(3) [OF opened] p [unfolded LogPrefix_def]]
  obtain s3 where t: "log_write e 1 line s2 = (True, s3)"
    using ok [OF P(2), of 1 line] by (metis prod.collapse)
  from log_write_view(4) [OF assms(1) P(1,2) t] show ?thesis
    using assms(3) opened O(2) P(4) t by (simp add: LogStr_def o p)
qed

end
