(* ===== verification/Startup.thy ===== *)
theory Startup
  imports Logging System
begin

text \<open>
  The process of the sysmodule (\<^verbatim>\<open>src/source/main.cpp\<close>): the heap that is created on first use by whichever
  thread comes first, and the boot sequence. The heap is a step relation over the program counters of
  all threads, one step per access to shared memory; memory is taken to be sequentially consistent.
\<close>

section \<open>The heap\<close>

text \<open>Where a thread is in \<open>GetHeapHandle\<close>: \<open>AtEntry\<close> is outside of it or before its first test.\<close>

datatype heap_pc = AtEntry | AtLock | AtTest | AtCreate | AtPublish | AtUnlock | AtRead | Returned "nat option"

record heap_state =
  g_heap_handle :: "nat option"
  g_heap_initialized :: bool
  g_heap_init_mutex :: "nat option"
  h_created :: nat
  h_pc :: "nat \<Rightarrow> heap_pc"

definition heap_init :: heap_state where
  "heap_init = \<lparr>g_heap_handle = None, g_heap_initialized = False, g_heap_init_mutex = None, h_created = 0,
     h_pc = (\<lambda>t. AtEntry)\<rparr>"

definition goto :: "nat \<Rightarrow> heap_pc \<Rightarrow> heap_state \<Rightarrow> heap_state" where
  "goto t pc s = s\<lparr>h_pc := (h_pc s)(t := pc)\<rparr>"

text \<open>\<open>CreateExpHeap\<close> returns a new handle, the number of heaps created so far.\<close>

definition GetHeapHandle_step :: "nat \<Rightarrow> heap_state \<Rightarrow> heap_state option" where
  "GetHeapHandle_step t s =
     (case h_pc s t of
        AtEntry \<Rightarrow> Some (goto t (if g_heap_initialized s then AtRead else AtLock) s)
      | AtLock \<Rightarrow> if g_heap_init_mutex s = None then Some (goto t AtTest (s\<lparr>g_heap_init_mutex := Some t\<rparr>)) else None
      | AtTest \<Rightarrow> Some (goto t (if g_heap_initialized s then AtUnlock else AtCreate) s)
      | AtCreate \<Rightarrow> Some (goto t AtPublish (s\<lparr>g_heap_handle := Some (h_created s), h_created := h_created s + 1\<rparr>))
      | AtPublish \<Rightarrow> Some (goto t AtUnlock (s\<lparr>g_heap_initialized := True\<rparr>))
      | AtUnlock \<Rightarrow> Some (goto t AtRead (s\<lparr>g_heap_init_mutex := None\<rparr>))
      | AtRead \<Rightarrow> Some (goto t (Returned (g_heap_handle s)) s)
      | Returned h \<Rightarrow> Some (goto t AtEntry s))"

inductive heap_step :: "heap_state \<Rightarrow> heap_state \<Rightarrow> bool" where
  thread: "GetHeapHandle_step t s = Some s' \<Longrightarrow> heap_step s s'"

inductive_cases heap_stepE: "heap_step s s'"

definition holds_lock :: "heap_pc \<Rightarrow> bool" where
  "holds_lock pc \<longleftrightarrow> pc \<in> {AtTest, AtCreate, AtPublish, AtUnlock}"

text \<open>The owner of the mutex alone is between its lock and its unlock; the heap exists once it is published,
  and before that only while its creator is about to publish it.\<close>

definition thread_inv :: "heap_state \<Rightarrow> nat \<Rightarrow> bool" where
  "thread_inv s t \<longleftrightarrow> (holds_lock (h_pc s t) \<longleftrightarrow> g_heap_init_mutex s = Some t)
     \<and> (case h_pc s t of
          AtCreate \<Rightarrow> \<not> g_heap_initialized s \<and> h_created s = 0
        | AtPublish \<Rightarrow> \<not> g_heap_initialized s \<and> h_created s = 1 \<and> g_heap_handle s = Some 0
        | AtUnlock \<Rightarrow> g_heap_initialized s
        | AtRead \<Rightarrow> g_heap_initialized s
        | Returned h \<Rightarrow> g_heap_initialized s \<and> h = Some 0
        | _ \<Rightarrow> True)"

definition shared_inv :: "heap_state \<Rightarrow> bool" where
  "shared_inv s \<longleftrightarrow>
     (if g_heap_initialized s then h_created s = 1 \<and> g_heap_handle s = Some 0
      else h_created s = 0 \<or> (case g_heap_init_mutex s of None \<Rightarrow> False | Some u \<Rightarrow> h_pc s u = AtPublish))"

definition heap_inv :: "heap_state \<Rightarrow> bool" where
  "heap_inv s \<longleftrightarrow> shared_inv s \<and> (\<forall>t. thread_inv s t)"

lemmas heap_defs = GetHeapHandle_step_def goto_def holds_lock_def thread_inv_def shared_inv_def

lemma heap_inv_init: "heap_inv heap_init"
  by (simp add: heap_inv_def heap_defs heap_init_def)

lemma step_shared: "GetHeapHandle_step t s = Some s' \<Longrightarrow> shared_inv s \<Longrightarrow> thread_inv s t \<Longrightarrow> shared_inv s'"
  by (cases "h_pc s t"; cases "g_heap_init_mutex s") (auto simp: heap_defs split: if_splits)

lemma step_self: "GetHeapHandle_step t s = Some s' \<Longrightarrow> shared_inv s \<Longrightarrow> thread_inv s t \<Longrightarrow> thread_inv s' t"
  by (cases "h_pc s t") (auto simp: heap_defs split: if_splits)

lemma step_other:
  assumes "GetHeapHandle_step t s = Some s'" and "thread_inv s t" and "thread_inv s u" and "u \<noteq> t"
  shows "thread_inv s' u"
  using assms by (cases "h_pc s t"; cases "h_pc s u") (auto simp: heap_defs split: if_splits)

lemma heap_step_inv: "heap_step s s' \<Longrightarrow> heap_inv s \<Longrightarrow> heap_inv s'"
proof (erule heap_stepE)
  fix t
  assume "GetHeapHandle_step t s = Some s'" and "heap_inv s"
  then show "heap_inv s'"
    unfolding heap_inv_def using step_shared step_self step_other by metis
qed

interpretation heap: invariant_system heap_init heap_step heap_inv
  by unfold_locales (auto intro: heap_inv_init heap_step_inv)

text \<open>The owner of the mutex runs on to its release.\<close>

definition releases :: "nat \<Rightarrow> heap_state \<Rightarrow> bool" where
  "releases t s \<longleftrightarrow> (\<exists>s'. heap_step\<^sup>*\<^sup>* s s' \<and> h_pc s' t = AtRead \<and> g_heap_init_mutex s' = None
     \<and> (\<forall>u. u \<noteq> t \<longrightarrow> h_pc s' u = h_pc s u))"

lemma releases_step:
  "GetHeapHandle_step t s = Some s1 \<Longrightarrow> releases t s1 \<Longrightarrow> \<forall>u. u \<noteq> t \<longrightarrow> h_pc s1 u = h_pc s u \<Longrightarrow> releases t s"
  unfolding releases_def by (metis converse_rtranclp_into_rtranclp heap_step.thread)

lemma release_AtUnlock: "h_pc s t = AtUnlock \<Longrightarrow> releases t s"
  unfolding releases_def
  by (rule exI [of _ "goto t AtRead (s\<lparr>g_heap_init_mutex := None\<rparr>)"])
    (auto simp: GetHeapHandle_step_def goto_def intro!: r_into_rtranclp heap_step.thread [of t])

lemma release_AtPublish: "h_pc s t = AtPublish \<Longrightarrow> releases t s"
  by (rule releases_step [OF _ release_AtUnlock]) (auto simp: GetHeapHandle_step_def goto_def)

lemma release_AtCreate: "h_pc s t = AtCreate \<Longrightarrow> releases t s"
  by (rule releases_step [OF _ release_AtPublish]) (auto simp: GetHeapHandle_step_def goto_def)

lemma release_AtTest: "h_pc s t = AtTest \<Longrightarrow> releases t s"
proof (cases "g_heap_initialized s")
  case True
  assume "h_pc s t = AtTest"
  with True show ?thesis
    by (intro releases_step [OF _ release_AtUnlock]) (auto simp: GetHeapHandle_step_def goto_def)
next
  case False
  assume "h_pc s t = AtTest"
  with False show ?thesis
    by (intro releases_step [OF _ release_AtCreate]) (auto simp: GetHeapHandle_step_def goto_def)
qed

lemma owner_releases: "holds_lock (h_pc s t) \<Longrightarrow> releases t s"
  using release_AtUnlock release_AtPublish release_AtCreate release_AtTest by (auto simp: holds_lock_def)

text \<open>A thread inside \<open>GetHeapHandle\<close> can be run to its return.\<close>

definition can_return :: "nat \<Rightarrow> heap_state \<Rightarrow> bool" where
  "can_return t s \<longleftrightarrow> (\<exists>s' h. heap_step\<^sup>*\<^sup>* s s' \<and> h_pc s' t = Returned h)"

lemma can_return_run: "heap_step\<^sup>*\<^sup>* s s1 \<Longrightarrow> can_return t s1 \<Longrightarrow> can_return t s"
  unfolding can_return_def by (meson rtranclp_trans)

lemma can_return_step: "GetHeapHandle_step t s = Some s1 \<Longrightarrow> can_return t s1 \<Longrightarrow> can_return t s"
  using can_return_run heap_step.thread by (metis r_into_rtranclp)

lemma return_AtRead: "h_pc s t = AtRead \<Longrightarrow> can_return t s"
  unfolding can_return_def
  by (rule exI [of _ "goto t (Returned (g_heap_handle s)) s"])
    (auto simp: GetHeapHandle_step_def goto_def intro!: r_into_rtranclp heap_step.thread [of t])

lemma return_owner: "holds_lock (h_pc s t) \<Longrightarrow> can_return t s"
  using owner_releases return_AtRead can_return_run unfolding releases_def by metis

lemma return_AtLock_free: "h_pc s t = AtLock \<Longrightarrow> g_heap_init_mutex s = None \<Longrightarrow> can_return t s"
  by (rule can_return_step [OF _ return_owner]) (auto simp: GetHeapHandle_step_def goto_def holds_lock_def)

lemma return_AtLock:
  assumes inv: "heap_inv s" and at: "h_pc s t = AtLock"
  shows "can_return t s"
proof (cases "g_heap_init_mutex s")
  case (Some u)
  then have "holds_lock (h_pc s u)" using inv by (simp add: heap_inv_def thread_inv_def)
  moreover from this have "t \<noteq> u" using at by (auto simp: holds_lock_def)
  ultimately obtain s1 where "heap_step\<^sup>*\<^sup>* s s1" "g_heap_init_mutex s1 = None" "h_pc s1 t = AtLock"
    using owner_releases at unfolding releases_def by metis
  then show ?thesis using can_return_run return_AtLock_free by blast
qed (use return_AtLock_free at in blast)

lemma returns: "heap_inv s \<Longrightarrow> can_return t s"
proof (cases "h_pc s t")
  case AtEntry
  assume inv: "heap_inv s"
  let ?s1 = "goto t (if g_heap_initialized s then AtRead else AtLock) s"
  have run: "GetHeapHandle_step t s = Some ?s1" using AtEntry by (simp add: GetHeapHandle_step_def)
  have "heap_inv ?s1" using heap_step_inv [OF heap_step.thread [OF run] inv] .
  then have "can_return t ?s1"
    using return_AtRead [of ?s1 t] return_AtLock [of ?s1 t] by (cases "g_heap_initialized s") (simp_all add: goto_def)
  then show ?thesis by (rule can_return_step [OF run])
next
  case (Returned h)
  then show ?thesis unfolding can_return_def by blast
qed (use return_AtRead return_AtLock return_owner in \<open>auto simp: holds_lock_def\<close>)



section \<open>The boot sequence\<close>

text \<open>The results of the platform, and the file system during each line of the log (\<open>be_fs 0\<close> during \<open>Initialize\<close>).\<close>

record boot_env =
  be_sm_ok :: bool
  be_mount_ok :: bool
  be_mitm_ok :: bool
  be_cfg_ok :: bool
  be_mitm_thread_ok :: bool
  be_cfg_thread_ok :: bool
  be_sd :: sd_env
  be_fs :: "nat \<Rightarrow> fs_env"

datatype boot_event =
  SmInitialize | FsInitialize | FsSetAllocator | FsNoAutoAbort | MountSdCard | RegisterMitmServer | StartMitmThread
  | LoadConfig | RegisterConfigService | StartConfigThread | WaitMitmThread

record sysmodule =
  sm_events :: "boot_event list"
  sm_log :: logger
  sm_sys :: cfg_system

datatype boot_result = Aborted string sysmodule | Up sysmodule

definition did :: "boot_event \<Rightarrow> sysmodule \<Rightarrow> sysmodule" where
  "did ev s = s\<lparr>sm_events := sm_events s @ [ev]\<rparr>"

definition R_ABORT_UNLESS :: "bool \<Rightarrow> string \<Rightarrow> sysmodule \<Rightarrow> (sysmodule \<Rightarrow> boot_result) \<Rightarrow> boot_result" where
  "R_ABORT_UNLESS ok what s k = (if ok then k s else Aborted what s)"

definition log_say :: "boot_env \<Rightarrow> nat \<Rightarrow> string \<Rightarrow> sysmodule \<Rightarrow> sysmodule" where
  "log_say e n line s = s\<lparr>sm_log := LogStr (be_fs e n) (ascii line @ [10]) (sm_log s)\<rparr>"

definition InitializeSystemModule :: "boot_env \<Rightarrow> sysmodule \<Rightarrow> boot_result" where
  "InitializeSystemModule e s =
     R_ABORT_UNLESS (be_sm_ok e) ''sm::Initialize'' (did SmInitialize s) (\<lambda>s1.
       let s2 = did FsNoAutoAbort (did FsSetAllocator (did FsInitialize s1))
       in R_ABORT_UNLESS (be_mount_ok e) ''fs::MountSdCard'' (did MountSdCard s2) Up)"

definition main_Main :: "boot_env \<Rightarrow> sysmodule \<Rightarrow> boot_result" where
  "main_Main e s =
     (let (logged, l) = log_Initialize (be_fs e 0) (sm_log s)
      in R_ABORT_UNLESS logged ''log::Initialize'' (s\<lparr>sm_log := l\<rparr>) (\<lambda>s1.
         R_ABORT_UNLESS (be_mitm_ok e) ''RegisterMitmServer''
             (did RegisterMitmServer (log_say e 1 ''switch-lan-play-nx: main'' s1)) (\<lambda>s2.
         R_ABORT_UNLESS (be_mitm_thread_ok e) ''CreateThread''
             (log_say e 2 ''switch-lan-play-nx: registered as bsd:u mitm'' s2) (\<lambda>s3.
         let s4 = did LoadConfig (did StartMitmThread s3);
             s5 = s4\<lparr>sm_sys := (sm_sys s4)\<lparr>cs_cfg := snd (ReloadServers (be_sd e) (cs_cfg (sm_sys s4)))\<rparr>\<rparr>
         in R_ABORT_UNLESS (be_cfg_ok e) ''RegisterObjectForServer'' (did RegisterConfigService s5) (\<lambda>s6.
         R_ABORT_UNLESS (be_cfg_thread_ok e) ''CreateThread'' s6 (\<lambda>s7.
         Up (did WaitMitmThread (log_say e 3 ''switch-lan-play-nx: registered as slpnx:cfg'' (did StartConfigThread s7)))))))))"

definition sysmodule_init :: "u8 list option \<Rightarrow> u8 list option \<Rightarrow> u8 list option \<Rightarrow> sysmodule" where
  "sysmodule_init f conf selected =
     \<lparr>sm_events = [], sm_log = log_init f, sm_sys = \<lparr>cs_cfg = config_init conf selected, cs_bridge = bridge_init\<rparr>\<rparr>"

definition boot_process :: "boot_env \<Rightarrow> sysmodule \<Rightarrow> boot_result" where
  "boot_process e s = (case InitializeSystemModule e s of Up s1 \<Rightarrow> main_Main e s1 | Aborted w s1 \<Rightarrow> Aborted w s1)"

text \<open>A \<open>bsd:u\<close> session that \<open>ShouldMitm\<close> wants: a new instance of the service, and the answer of the framework.\<close>

definition OnNeedsToAccept :: "boot_env \<Rightarrow> string \<Rightarrow> u32 \<Rightarrow> nat \<Rightarrow> u64 \<Rightarrow> sysmodule \<Rightarrow> u32 \<times> sysmodule" where
  "OnNeedsToAccept e line rc me pid s =
     (let s1 = log_say e 4 line s; b = cs_bridge (sm_sys s1);
          s2 = s1\<lparr>sm_sys := (sm_sys s1)\<lparr>cs_bridge := b\<lparr>g_services := (g_services b)(me := service_init pid)\<rparr>\<rparr>\<rparr>
      in (rc, log_say e 5 ''switch-lan-play-nx: OnNeedsToAccept'' s2))"

lemma log_say_log: "fs_sound (be_fs e n) \<Longrightarrow> log_open (sm_log s) \<Longrightarrow>
  log_open (sm_log (log_say e n line s)) \<and> prefix (log_view (sm_log s)) (log_view (sm_log (log_say e n line s)))"
  using log_exec_view [of "sm_log s" "LogFormatCall (be_fs e n) (ascii line @ [10])"] by (simp add: log_say_def)

lemma log_say_rest [simp]: "sm_sys (log_say e n line s) = sm_sys s" "sm_events (log_say e n line s) = sm_events s"
  "sm_sys (did ev s) = sm_sys s" "sm_log (did ev s) = sm_log s" "sm_events (did ev s) = sm_events s @ [ev]"
  by (simp_all add: log_say_def did_def)

lemma log_opened:
  "log_Initialize e (log_init (Some old)) = (True, l) \<Longrightarrow> log_open l \<and> log_view l = old"
  by (auto simp: log_Initialize_def log_init_def log_open_def log_wf_def log_view_def Let_def split: if_splits)

lemma Main_up:
  assumes "\<And>n. fs_sound (be_fs e n)" and "sm_log s0 = log_init (Some old)" and "main_Main e s0 = Up s"
  shows "prefix old (log_view (sm_log s))"
    and "sm_sys s = (sm_sys s0)\<lparr>cs_cfg := snd (ReloadServers (be_sd e) (cs_cfg (sm_sys s0)))\<rparr>"
    and "sm_events s = sm_events s0 @ [RegisterMitmServer, StartMitmThread, LoadConfig, RegisterConfigService,
           StartConfigThread, WaitMitmThread]"
proof -
  obtain l where l: "log_Initialize (be_fs e 0) (sm_log s0) = (True, l)"
    using assms(3) by (auto simp: main_Main_def R_ABORT_UNLESS_def split: prod.splits if_splits)
  define s1 where "s1 = log_say e 1 ''switch-lan-play-nx: main'' (s0\<lparr>sm_log := l\<rparr>)"
  define s2 where "s2 = log_say e 2 ''switch-lan-play-nx: registered as bsd:u mitm'' (did RegisterMitmServer s1)"
  define s3 where "s3 = (did LoadConfig (did StartMitmThread s2))
    \<lparr>sm_sys := (sm_sys s2)\<lparr>cs_cfg := snd (ReloadServers (be_sd e) (cs_cfg (sm_sys s2)))\<rparr>\<rparr>"
  have s: "s = did WaitMitmThread (log_say e 3 ''switch-lan-play-nx: registered as slpnx:cfg''
      (did StartConfigThread (did RegisterConfigService s3)))"
    using assms(3) by (simp add: main_Main_def R_ABORT_UNLESS_def l s1_def s2_def s3_def Let_def split: if_splits)
  show "sm_sys s = (sm_sys s0)\<lparr>cs_cfg := snd (ReloadServers (be_sd e) (cs_cfg (sm_sys s0)))\<rparr>"
    and "sm_events s = sm_events s0 @ [RegisterMitmServer, StartMitmThread, LoadConfig, RegisterConfigService,
           StartConfigThread, WaitMitmThread]"
    by (simp_all add: s s1_def s2_def s3_def)
  have o: "log_open l" "log_view l = old" using log_opened l assms(2) by metis+
  have 1: "log_open (sm_log s1)" "prefix old (log_view (sm_log s1))"
    using log_say_log [of e 1 "s0\<lparr>sm_log := l\<rparr>"] assms(1) o by (simp_all add: s1_def)
  have 2: "log_open (sm_log s2)" "prefix old (log_view (sm_log s2))"
    using log_say_log [of e 2 "did RegisterMitmServer s1"] assms(1) 1 by (auto simp: s2_def intro: prefix_order.trans)
  have 3: "sm_log s3 = sm_log s2" by (simp add: s3_def)
  show "prefix old (log_view (sm_log s))"
    using log_say_log [of e 3 "did StartConfigThread (did RegisterConfigService s3)"] assms(1) 2
    by (auto simp: s 3 intro: prefix_order.trans)
qed

lemma Initialize_up:
  "InitializeSystemModule e s = Up s1 \<Longrightarrow> s1 = s\<lparr>sm_events := sm_events s @ [SmInitialize, FsInitialize,
     FsSetAllocator, FsNoAutoAbort, MountSdCard]\<rparr>"
  by (auto simp: InitializeSystemModule_def R_ABORT_UNLESS_def did_def Let_def split: if_splits)

text \<open>A process that comes up is in the state from which the runs of theory \<open>System\<close> start; it registered as
  the mitm before it read the configuration, and the log of earlier boots is kept.\<close>

theorem boot_process_start:
  assumes "\<And>n. fs_sound (be_fs e n)" and "boot_process e (sysmodule_init (Some old) conf selected) = Up s"
  shows "sm_sys s = boot (be_sd e) conf selected \<and> prefix old (log_view (sm_log s))
     \<and> (\<exists>before between after. sm_events s = before @ RegisterMitmServer # between @ LoadConfig # after)"
proof -
  obtain s1 where i: "InitializeSystemModule e (sysmodule_init (Some old) conf selected) = Up s1"
    and m: "main_Main e s1 = Up s"
    using assms(2) by (auto simp: boot_process_def split: boot_result.splits)
  note s1 = Initialize_up [OF i]
  have "sm_log s1 = log_init (Some old)" by (simp add: s1 sysmodule_init_def)
  note M = Main_up [OF assms(1) this m]
  have "sm_events s = sm_events s1 @ RegisterMitmServer # [StartMitmThread] @ LoadConfig
      # [RegisterConfigService, StartConfigThread, WaitMitmThread]" using M(3) by simp
  then have "\<exists>before between after. sm_events s = before @ RegisterMitmServer # between @ LoadConfig # after" by blast
  then show ?thesis using M(1,2) by (simp add: s1 sysmodule_init_def boot_def)
qed

end
