(* ===== verification/Process.thy ===== *)
theory Process
  imports Startup
begin

text \<open>
  The rest of the process of the sysmodule: the dispatch threads of \<^verbatim>\<open>src/source/main.cpp\<close>, the allocation functions
  and the C++ operators that go through the heap of theory \<open>Startup\<close>, and the sizes of the socket stack
  (\<^verbatim>\<open>src/source/bsd/bsd_bridge_service.cpp\<close>).
\<close>

section \<open>The dispatch threads\<close>

definition TotalThreads :: nat where "TotalThreads = 1"
definition NumExtraThreads :: nat where "NumExtraThreads = TotalThreads - 1"

datatype thread_event = CreateThread nat | SetThreadName nat | StartThread nat | LoopProcess | WaitThread nat

text \<open>\<open>Inl\<close>: aborted after these events.\<close>

fun create_extra :: "nat \<Rightarrow> (nat \<Rightarrow> bool) \<Rightarrow> nat \<Rightarrow> thread_event list \<Rightarrow> thread_event list + thread_event list" where
  "create_extra 0 ok i evs = Inr evs"
| "create_extra (Suc left) ok i evs =
     (if ok i then create_extra left ok (i + 1) (evs @ [CreateThread i, SetThreadName i]) else Inl evs)"

definition ProcessForServerOnAllThreads :: "nat \<Rightarrow> (nat \<Rightarrow> bool) \<Rightarrow> thread_event list + thread_event list" where
  "ProcessForServerOnAllThreads extra ok =
     (case create_extra extra ok 0 [] of
        Inl evs \<Rightarrow> Inl evs
      | Inr evs \<Rightarrow> Inr (evs @ map StartThread [0..<extra] @ [LoopProcess] @ map WaitThread [0..<extra]))"

lemma create_extra_ok:
  "\<forall>j \<in> {i..<i + left}. ok j \<Longrightarrow>
     create_extra left ok i evs = Inr (evs @ concat (map (\<lambda>j. [CreateThread j, SetThreadName j]) [i..<i + left]))"
proof (induction left ok i evs rule: create_extra.induct)
  case (2 left ok i evs)
  then have "ok i" by simp
  moreover have "[i..<i + Suc left] = i # [i + 1..<i + 1 + left]" by (simp add: upt_conv_Cons)
  ultimately show ?case using 2 by simp
qed simp

lemma create_extra_fails:
  "j \<in> {i..<i + left} \<Longrightarrow> \<not> ok j \<Longrightarrow> \<exists>evs'. create_extra left ok i evs = Inl evs'
     \<and> set evs' \<subseteq> set evs \<union> range CreateThread \<union> range SetThreadName"
proof (induction left ok i evs rule: create_extra.induct)
  case (2 left ok i evs)
  show ?case
  proof (cases "ok i")
    case True
    then have "j \<in> {i + 1..<i + 1 + left}" using 2(2,3) by (cases "j = i") auto
    from 2(1) [OF True this 2(3)] True show ?thesis by auto
  qed auto
qed simp

text \<open>The program is built with one dispatching thread, as two sessions of one client need; nothing is created and no
  platform result matters.\<close>

theorem one_dispatch_thread: "ProcessForServerOnAllThreads NumExtraThreads ok = Inr [LoopProcess]"
  by (simp add: ProcessForServerOnAllThreads_def NumExtraThreads_def TotalThreads_def)

text \<open>With any number of threads: either one could not be created and none was started, or all of them were
  created, started before the caller dispatches, and waited for after it.\<close>

theorem dispatch_threads:
  "case ProcessForServerOnAllThreads n ok of
     Inl evs \<Rightarrow> (\<exists>j < n. \<not> ok j) \<and> (\<forall>i. StartThread i \<notin> set evs) \<and> LoopProcess \<notin> set evs
   | Inr evs \<Rightarrow> (\<forall>j < n. ok j) \<and> (\<exists>before. evs = before @ map StartThread [0..<n] @ LoopProcess # map WaitThread [0..<n]
       \<and> set before = (\<Union>j < n. {CreateThread j, SetThreadName j}))"
proof (cases "\<forall>j < n. ok j")
  case True
  then show ?thesis using create_extra_ok [of 0 n ok "[]"]
    by (simp add: ProcessForServerOnAllThreads_def lessThan_atLeast0)
next
  case False
  then obtain j where "j < n" "\<not> ok j" by blast
  then show ?thesis using create_extra_fails [of j 0 n ok "[]"] False
    by (auto simp: ProcessForServerOnAllThreads_def)
qed

section \<open>Memory\<close>

text \<open>A call of \<open>GetHeapHandle\<close> that no other thread interrupts: at most seven accesses to its return.\<close>

fun run_call :: "nat \<Rightarrow> nat \<Rightarrow> heap_state \<Rightarrow> (nat option \<times> heap_state) option" where
  "run_call 0 t s = None"
| "run_call (Suc n) t s =
     (case GetHeapHandle_step t s of
        None \<Rightarrow> None
      | Some s1 \<Rightarrow> (case h_pc s1 t of Returned h \<Rightarrow> Some (h, goto t AtEntry s1) | _ \<Rightarrow> run_call n t s1))"

definition GetHeapHandle :: "nat \<Rightarrow> heap_state \<Rightarrow> (nat option \<times> heap_state) option" where
  "GetHeapHandle t s = run_call 7 t s"

text \<open>The heap library: what an allocation of a heap returns is the parameter \<open>lm\<close>, a function of the calls before it.\<close>

datatype heap_call = AllocateFromExpHeap "nat option" nat | FreeToExpHeap "nat option" nat

record memory =
  mm_heap :: heap_state
  mm_calls :: "heap_call list"

definition Allocate :: "(heap_call list \<Rightarrow> nat) \<Rightarrow> nat \<Rightarrow> nat \<Rightarrow> memory \<Rightarrow> (nat \<times> memory) option" where
  "Allocate lm t n m =
     (case GetHeapHandle t (mm_heap m) of
        None \<Rightarrow> None
      | Some (h, s) \<Rightarrow> let calls = mm_calls m @ [AllocateFromExpHeap h n] in Some (lm calls, \<lparr>mm_heap = s, mm_calls = calls\<rparr>))"

definition Deallocate :: "nat \<Rightarrow> nat \<Rightarrow> nat \<Rightarrow> memory \<Rightarrow> memory option" where
  "Deallocate t p n m =
     (case GetHeapHandle t (mm_heap m) of
        None \<Rightarrow> None
      | Some (h, s) \<Rightarrow> Some \<lparr>mm_heap = s, mm_calls = mm_calls m @ [FreeToExpHeap h p]\<rparr>)"

text \<open>The eight operators \<open>new\<close> and \<open>delete\<close> of the process.\<close>

datatype alloc_op = New nat | NewNothrow nat | Delete nat | DeleteSized nat nat
  | NewArray nat | NewArrayNothrow nat | DeleteArray nat | DeleteArraySized nat nat

fun run_op :: "(heap_call list \<Rightarrow> nat) \<Rightarrow> nat \<Rightarrow> alloc_op \<Rightarrow> memory \<Rightarrow> (nat option \<times> memory) option" where
  "run_op lm t (New n) m = map_option (map_prod Some id) (Allocate lm t n m)"
| "run_op lm t (NewNothrow n) m = map_option (map_prod Some id) (Allocate lm t n m)"
| "run_op lm t (Delete p) m = map_option (Pair None) (Deallocate t p 0 m)"
| "run_op lm t (DeleteSized p n) m = map_option (Pair None) (Deallocate t p n m)"
| "run_op lm t (NewArray n) m = map_option (map_prod Some id) (Allocate lm t n m)"
| "run_op lm t (NewArrayNothrow n) m = map_option (map_prod Some id) (Allocate lm t n m)"
| "run_op lm t (DeleteArray p) m = map_option (Pair None) (Deallocate t p 0 m)"
| "run_op lm t (DeleteArraySized p n) m = map_option (Pair None) (Deallocate t p n m)"

fun run_ops :: "(heap_call list \<Rightarrow> nat) \<Rightarrow> (nat \<times> alloc_op) list \<Rightarrow> memory \<Rightarrow> memory option" where
  "run_ops lm [] m = Some m"
| "run_ops lm ((t, op1) # ops) m = (case run_op lm t op1 m of None \<Rightarrow> None | Some (r, m') \<Rightarrow> run_ops lm ops m')"

definition memory_init :: memory where
  "memory_init = \<lparr>mm_heap = heap_init, mm_calls = []\<rparr>"

text \<open>Between calls nobody is inside \<open>GetHeapHandle\<close>.\<close>

definition heap_idle :: "heap_state \<Rightarrow> bool" where
  "heap_idle s \<longleftrightarrow> g_heap_init_mutex s = None \<and> (\<forall>t. h_pc s t = AtEntry)
     \<and> (if g_heap_initialized s then h_created s = 1 \<and> g_heap_handle s = Some 0 else h_created s = 0)"

lemma GetHeapHandle_idle:
  assumes "heap_idle s"
  shows "\<exists>s'. GetHeapHandle t s = Some (Some 0, s') \<and> heap_idle s' \<and> g_heap_initialized s'"
  using assms
  by (cases "g_heap_initialized s")
    (simp_all add: GetHeapHandle_def eval_nat_numeral GetHeapHandle_step_def goto_def heap_idle_def)

lemma Allocate_idle:
  assumes "heap_idle (mm_heap m)"
  shows "\<exists>m'. Allocate lm t n m = Some (lm (mm_calls m'), m') \<and> heap_idle (mm_heap m') \<and> mm_calls m' = mm_calls m @ [AllocateFromExpHeap (Some 0) n]"
  using GetHeapHandle_idle [OF assms, of t] by (auto simp: Allocate_def Let_def)

lemma Deallocate_idle:
  assumes "heap_idle (mm_heap m)"
  shows "\<exists>m'. Deallocate t p n m = Some m' \<and> heap_idle (mm_heap m') \<and> mm_calls m' = mm_calls m @ [FreeToExpHeap (Some 0) p]"
  using GetHeapHandle_idle [OF assms, of t] by (auto simp: Deallocate_def)

text \<open>The call of the heap library that an operator comes down to; the sizes of sized \<open>delete\<close> are ignored.\<close>

fun op_call :: "alloc_op \<Rightarrow> heap_call" where
  "op_call (New n) = AllocateFromExpHeap (Some 0) n"
| "op_call (NewNothrow n) = AllocateFromExpHeap (Some 0) n"
| "op_call (Delete p) = FreeToExpHeap (Some 0) p"
| "op_call (DeleteSized p n) = FreeToExpHeap (Some 0) p"
| "op_call (NewArray n) = AllocateFromExpHeap (Some 0) n"
| "op_call (NewArrayNothrow n) = AllocateFromExpHeap (Some 0) n"
| "op_call (DeleteArray p) = FreeToExpHeap (Some 0) p"
| "op_call (DeleteArraySized p n) = FreeToExpHeap (Some 0) p"

lemma run_op_idle:
  assumes "heap_idle (mm_heap m)"
  shows "\<exists>r m'. run_op lm t o1 m = Some (r, m') \<and> heap_idle (mm_heap m') \<and> mm_calls m' = mm_calls m @ [op_call o1]"
  using Allocate_idle [OF assms, of lm t] Deallocate_idle [OF assms, of t] by (cases o1) fastforce+

text \<open>Every operator of every thread goes to the one heap, in the order of the calls, from the very first one on (static
  constructors allocate before \<open>Main\<close>).\<close>

theorem one_heap_for_all:
  "\<exists>m. run_ops lm ops memory_init = Some m \<and> mm_calls m = map (op_call \<circ> snd) ops"
proof -
  have "\<exists>m'. run_ops lm ops m = Some m' \<and> mm_calls m' = mm_calls m @ map (op_call \<circ> snd) ops" if "heap_idle (mm_heap m)" for m
    using that
  proof (induction ops arbitrary: m)
    case (Cons p ops)
    obtain t o1 where p: "p = (t, o1)" by fastforce
    obtain r m1 where m1: "run_op lm t o1 m = Some (r, m1)" "heap_idle (mm_heap m1)" "mm_calls m1 = mm_calls m @ [op_call o1]"
      using run_op_idle [OF Cons.prems] by blast
    then show ?case using Cons.IH [OF m1(2)] by (auto simp: p)
  qed simp
  moreover have "heap_idle (mm_heap memory_init)" by (simp add: memory_init_def heap_idle_def heap_init_def)
  ultimately show ?thesis by (metis append_Nil memory.select_convs(2) memory_init_def)
qed

section \<open>The socket stack\<close>

text \<open>\<open>SocketInitConfig\<close> and \<open>BsdInitConfig\<close> of libnx, the fields the code sets.\<close>

record SocketInitConfig =
  tcp_tx_buf_size :: u32
  tcp_rx_buf_size :: u32
  tcp_tx_buf_max_size :: u32
  tcp_rx_buf_max_size :: u32
  udp_tx_buf_size :: u32
  udp_rx_buf_size :: u32
  sb_efficiency :: u32
  num_bsd_sessions :: u32

definition LibnxSocketInitConfig :: SocketInitConfig where
  "LibnxSocketInitConfig =
     \<lparr>tcp_tx_buf_size = 0x800, tcp_rx_buf_size = 0x1000, tcp_tx_buf_max_size = 0x2000, tcp_rx_buf_max_size = 0x2000,
      udp_tx_buf_size = 0x2000, udp_rx_buf_size = 0x2000, sb_efficiency = 4, num_bsd_sessions = 3\<rparr>"

text \<open>\<open>util::AlignUp\<close> is the parameter \<open>align\<close>; its result has the type of its argument, so that sum and product
  are ones of \<open>u32\<close>.\<close>

definition MemoryPageSize :: u32 where "MemoryPageSize = 0x1000"

definition GetLibnxBsdTransferMemorySize :: "(u32 \<Rightarrow> u32 \<Rightarrow> u32) \<Rightarrow> SocketInitConfig \<Rightarrow> u32" where
  "GetLibnxBsdTransferMemorySize align config =
     (let tcp_tx_max = (if tcp_tx_buf_max_size config \<noteq> 0 then tcp_tx_buf_max_size config else tcp_tx_buf_size config);
          tcp_rx_max = (if tcp_rx_buf_max_size config \<noteq> 0 then tcp_rx_buf_max_size config else tcp_rx_buf_size config);
          sum = tcp_tx_max + tcp_rx_max + udp_tx_buf_size config + udp_rx_buf_size config
      in sb_efficiency config * align sum MemoryPageSize)"

text \<open>The buffer of the socket stack has 128 KiB, for any \<open>AlignUp\<close> that leaves a multiple of the page size alone.\<close>

theorem transfer_memory_size:
  assumes "\<And>x. x mod MemoryPageSize = 0 \<Longrightarrow> align x MemoryPageSize = x"
  shows "GetLibnxBsdTransferMemorySize align LibnxSocketInitConfig = 0x20000"
  using assms [of "0x8000"]
  by (simp add: GetLibnxBsdTransferMemorySize_def LibnxSocketInitConfig_def MemoryPageSize_def)

theorem transfer_memory_size_witness:
  "GetLibnxBsdTransferMemorySize (\<lambda>x m. (x + (m - 1)) AND NOT (m - 1)) LibnxSocketInitConfig = 0x20000"
  by (simp add: GetLibnxBsdTransferMemorySize_def LibnxSocketInitConfig_def MemoryPageSize_def)

end
