(* ===== verification/Interface.thy ===== *)
theory Interface
  imports Forward
begin

text \<open>
  The command table of the \<open>bsd:u\<close> service (\<^verbatim>\<open>src/source/bsd/interfaces/ibsd_mitm_service.hpp\<close>): the number,
  the reply fields in the order of their declaration, the scalars and the buffers of every command and
  the firmware from which it exists; where the framework puts the reply fields on the wire; and
  the dispatch of the commands of theory \<open>Forward\<close> by their numbers.
\<close>

section \<open>The table\<close>

datatype scalar = S32 | U32 | U64

text \<open>A reply field: the result (\<open>out_fd\<close>, \<open>out_size\<close>, \<open>out_count\<close>, \<open>out_ret\<close>, \<open>out_result\<close>), the error number, or a length.\<close>

datatype out_field = Res (out_type: scalar) | Err (out_type: scalar) | Ext (out_type: scalar)

record bsd_method =
  mt_id :: nat
  mt_name :: string
  mt_outs :: "out_field list"
  mt_ins :: "scalar list"
  mt_in_bufs :: nat
  mt_out_bufs :: nat
  mt_since :: nat

definition mt :: "nat \<Rightarrow> string \<Rightarrow> out_field list \<Rightarrow> scalar list \<Rightarrow> nat \<Rightarrow> nat \<Rightarrow> bsd_method" where
  "mt i name outs ins nin nout = \<lparr>mt_id = i, mt_name = name, mt_outs = outs, mt_ins = ins, mt_in_bufs = nin,
     mt_out_bufs = nout, mt_since = 1\<rparr>"

text \<open>Raw structs (\<open>LibraryConfigData\<close>, \<open>SelectInData\<close>) are counted among the in-buffers.\<close>

definition IBsdBridgeService :: "bsd_method list" where
  "IBsdBridgeService =
     [mt 0 ''RegisterClient'' [Res U64] [U64, U64] 1 0,
      mt 2 ''Socket'' [Res S32, Err S32] [S32, S32, S32] 0 0,
      mt 3 ''SocketExempt'' [Res S32, Err S32] [S32, S32, S32] 0 0,
      mt 4 ''Open'' [Res S32, Err S32] [S32] 1 0,
      mt 5 ''Select'' [Res S32, Err S32] [] 4 3,
      mt 6 ''Poll'' [Res S32, Err S32] [S32, S32] 1 1,
      mt 7 ''Sysctl'' [Res S32, Err S32, Ext U64] [] 2 1,
      mt 8 ''Recv'' [Res S32, Err S32] [S32, S32] 0 1,
      mt 9 ''RecvFrom'' [Res S32, Err S32, Ext U32] [S32, S32] 0 2,
      mt 10 ''Send'' [Res S32, Err S32] [S32, S32] 1 0,
      mt 11 ''SendTo'' [Res S32, Err S32] [S32, S32] 2 0,
      mt 12 ''Accept'' [Res S32, Err S32, Ext U32] [S32] 0 1,
      mt 13 ''Bind'' [Res S32, Err S32] [S32] 1 0,
      mt 14 ''Connect'' [Res S32, Err S32] [S32] 1 0,
      mt 15 ''GetPeerName'' [Res S32, Err S32, Ext U32] [S32] 0 1,
      mt 16 ''GetSockName'' [Res S32, Err S32, Ext U32] [S32] 0 1,
      mt 17 ''GetSockOpt'' [Res S32, Err S32, Ext U32] [S32, S32, S32] 0 1,
      mt 18 ''Listen'' [Res S32, Err S32] [S32, S32] 0 0,
      mt 19 ''Ioctl'' [Res S32, Err S32] [S32, U32, U32] 4 4,
      mt 20 ''Fcntl'' [Res S32, Err S32] [S32, S32, S32] 0 0,
      mt 21 ''SetSockOpt'' [Res S32, Err S32] [S32, S32, S32] 1 0,
      mt 22 ''Shutdown'' [Res S32, Err S32] [S32, S32] 0 0,
      mt 23 ''ShutdownAllSockets'' [Res S32, Err S32] [S32] 0 0,
      mt 24 ''Write'' [Res S32, Err S32] [S32] 1 0,
      mt 25 ''Read'' [Res S32, Err S32] [S32] 0 1,
      mt 26 ''Close'' [Res S32, Err S32] [S32] 0 0,
      mt 27 ''DuplicateSocket'' [Res S32, Err S32] [S32, U64] 0 0,
      mt 28 ''GetResourceStatistics'' [Err S32] [U64] 0 1,
      (mt 29 ''RecvMMsg'' [Res S32, Err S32] [S32, S32, S32, S32] 0 1)\<lparr>mt_since := 3\<rparr>,
      (mt 30 ''SendMMsg'' [Res S32, Err S32] [S32, S32, S32] 1 0)\<lparr>mt_since := 3\<rparr>,
      (mt 31 ''EventFd'' [Res S32, Err S32] [U64, S32] 0 0)\<lparr>mt_since := 7\<rparr>,
      (mt 32 ''RegisterResourceStatisticsName'' [Err S32] [U64] 1 0)\<lparr>mt_since := 15\<rparr>,
      (mt 33 ''RegisterClientShared'' [Res U64] [U64, U64] 1 0)\<lparr>mt_since := 10\<rparr>]"

definition method_of :: "nat \<Rightarrow> bsd_method option" where
  "method_of i = List.find (\<lambda>m. mt_id m = i) IBsdBridgeService"

section \<open>The reply on the wire\<close>

definition align_of :: "scalar \<Rightarrow> nat" where
  "align_of t = (case t of U64 \<Rightarrow> 8 | _ \<Rightarrow> 4)"

text \<open>The framework sorts the fields by alignment (\<open>arrange\<close>, a parameter) and lays them out one after the
  other, with their offsets.\<close>

fun lay_out :: "nat \<Rightarrow> out_field list \<Rightarrow> (nat \<times> out_field) list" where
  "lay_out off [] = []"
| "lay_out off (f # r) =
     (let k = align_of (out_type f); o' = (off + k - 1) div k * k in (o', f) # lay_out (o' + k) r)"

definition reply_layout :: "(out_field list \<Rightarrow> out_field list) \<Rightarrow> out_field list \<Rightarrow> (nat \<times> out_field) list" where
  "reply_layout arrange outs = lay_out 0 (arrange outs)"

section \<open>The forwarded commands by number\<close>

text \<open>A request: its scalars, its in-buffers and the sizes of its out-buffers.\<close>

record request =
  rq_cmd :: nat
  rq_args :: "int list"
  rq_bufs :: "u8 list list"
  rq_outs :: "nat list"

definition dispatch_forwarded :: "benv \<Rightarrow> request \<Rightarrow> (bridge \<Rightarrow> bsd_reply \<times> bridge) option" where
  "dispatch_forwarded env q =
     (let c = rq_cmd q; a = (\<lambda>i. rq_args q ! i); b = (\<lambda>i. rq_bufs q ! i); n = (\<lambda>i. rq_outs q ! i)
      in if c = 4 then Some (cmd_Open env (a 0) (b 0))
         else if c = 7 then Some (cmd_Sysctl env (b 0) (b 1) (n 0))
         else if c = 8 then Some (cmd_Recv env (a 0) (a 1) (n 0))
         else if c = 10 then Some (cmd_Send env (a 0) (a 1) (b 0))
         else if c = 15 then Some (cmd_GetPeerName env (a 0) (n 0))
         else if c = 16 then Some (cmd_GetSockName env (a 0) (n 0))
         else if c = 17 then Some (cmd_GetSockOpt env (a 0) (a 1) (a 2) (n 0))
         else if c = 19 then Some (cmd_Ioctl env (a 0) (of_int (a 1)) (of_int (a 2)) [b 0, b 1, b 2, b 3] [n 0, n 1, n 2, n 3])
         else if c = 20 then Some (cmd_Fcntl env (a 0) (a 1) (a 2))
         else if c = 21 then Some (cmd_SetSockOpt env (a 0) (a 1) (a 2) (b 0))
         else if c = 22 then Some (cmd_Shutdown env (a 0) (a 1))
         else if c = 23 then Some (cmd_ShutdownAllSockets env (a 0))
         else if c = 24 then Some (cmd_Write env (a 0) (b 0))
         else if c = 25 then Some (cmd_Read env (a 0) (n 0))
         else if c = 27 then Some (cmd_DuplicateSocket env (a 0) (of_int (a 1)))
         else if c = 28 then Some (cmd_GetResourceStatistics env (of_int (a 0)) (n 0))
         else if c = 29 then Some (cmd_RecvMMsg env (a 0) (a 1) (a 2) (a 3) (n 0))
         else if c = 30 then Some (cmd_SendMMsg env (a 0) (a 1) (a 2) (b 0))
         else if c = 31 then Some (cmd_EventFd env (of_int (a 0)) (a 1))
         else if c = 32 then Some (cmd_RegisterResourceStatisticsName env (of_int (a 0)) (b 0))
         else None)"

text \<open>A number that the table does not declare never reaches the service: the framework forwards the message.\<close>

definition dispatch_undeclared :: "benv \<Rightarrow> request \<Rightarrow> (bridge \<Rightarrow> bsd_reply \<times> bridge) option" where
  "dispatch_undeclared env q =
     (if method_of (rq_cmd q) = None
      then Some (pass env (rq_cmd q) (rq_args q @ map int (rq_outs q)) (rq_bufs q)) else None)"

section \<open>What is forwarded is what was asked\<close>

definition fits :: "scalar \<Rightarrow> int \<Rightarrow> bool" where
  "fits t v \<longleftrightarrow> (case t of S32 \<Rightarrow> - (2 ^ 31) \<le> v \<and> v < 2 ^ 31 | U32 \<Rightarrow> 0 \<le> v \<and> v < 2 ^ 32 | U64 \<Rightarrow> 0 \<le> v \<and> v < 2 ^ 64)"

definition well_formed :: "request \<Rightarrow> bool" where
  "well_formed q \<longleftrightarrow>
     (case method_of (rq_cmd q) of
        None \<Rightarrow> True
      | Some m \<Rightarrow> list_all2 fits (mt_ins m) (rq_args q) \<and> length (rq_bufs q) = mt_in_bufs m
          \<and> length (rq_outs q) = mt_out_bufs m)"

lemma dispatch_complete:
  "rq_cmd q \<in> {4, 7, 8, 10, 15, 16, 17, 19, 20, 21, 22, 23, 24, 25, 27, 28, 29, 30, 31, 32} \<longleftrightarrow> dispatch_forwarded env q \<noteq> None"
  by (auto simp: dispatch_forwarded_def Let_def)

lemma uint_of_int: "fits U64 v \<Longrightarrow> uint (of_int v :: u64) = v" "fits U32 v \<Longrightarrow> uint (of_int v :: u32) = v"
  by (simp_all add: fits_def unsigned_of_int take_bit_int_eq_self)

lemma length_shapes:
  "length xs = Suc 0 \<longleftrightarrow> (\<exists>a. xs = [a])" "length xs = 2 \<longleftrightarrow> (\<exists>a b. xs = [a, b])"
  "length xs = 4 \<longleftrightarrow> (\<exists>a b c d. xs = [a, b, c, d])"
  by (auto simp: length_Suc_conv numeral_eq_Suc)

lemmas shape_simps = list_all2_Cons1 list_all2_Nil length_shapes

lemma method_at:
  "method_of 4 = Some (mt 4 ''Open'' [Res S32, Err S32] [S32] 1 0)"
  "method_of 7 = Some (mt 7 ''Sysctl'' [Res S32, Err S32, Ext U64] [] 2 1)"
  "method_of 8 = Some (mt 8 ''Recv'' [Res S32, Err S32] [S32, S32] 0 1)"
  "method_of 10 = Some (mt 10 ''Send'' [Res S32, Err S32] [S32, S32] 1 0)"
  "method_of 15 = Some (mt 15 ''GetPeerName'' [Res S32, Err S32, Ext U32] [S32] 0 1)"
  "method_of 16 = Some (mt 16 ''GetSockName'' [Res S32, Err S32, Ext U32] [S32] 0 1)"
  "method_of 17 = Some (mt 17 ''GetSockOpt'' [Res S32, Err S32, Ext U32] [S32, S32, S32] 0 1)"
  "method_of 19 = Some (mt 19 ''Ioctl'' [Res S32, Err S32] [S32, U32, U32] 4 4)"
  "method_of 20 = Some (mt 20 ''Fcntl'' [Res S32, Err S32] [S32, S32, S32] 0 0)"
  "method_of 21 = Some (mt 21 ''SetSockOpt'' [Res S32, Err S32] [S32, S32, S32] 1 0)"
  "method_of 22 = Some (mt 22 ''Shutdown'' [Res S32, Err S32] [S32, S32] 0 0)"
  "method_of 23 = Some (mt 23 ''ShutdownAllSockets'' [Res S32, Err S32] [S32] 0 0)"
  "method_of 24 = Some (mt 24 ''Write'' [Res S32, Err S32] [S32] 1 0)"
  "method_of 25 = Some (mt 25 ''Read'' [Res S32, Err S32] [S32] 0 1)"
  "method_of 27 = Some (mt 27 ''DuplicateSocket'' [Res S32, Err S32] [S32, U64] 0 0)"
  "method_of 28 = Some (mt 28 ''GetResourceStatistics'' [Err S32] [U64] 0 1)"
  "method_of 29 = Some ((mt 29 ''RecvMMsg'' [Res S32, Err S32] [S32, S32, S32, S32] 0 1)\<lparr>mt_since := 3\<rparr>)"
  "method_of 30 = Some ((mt 30 ''SendMMsg'' [Res S32, Err S32] [S32, S32, S32] 1 0)\<lparr>mt_since := 3\<rparr>)"
  "method_of 31 = Some ((mt 31 ''EventFd'' [Res S32, Err S32] [U64, S32] 0 0)\<lparr>mt_since := 7\<rparr>)"
  "method_of 32 = Some ((mt 32 ''RegisterResourceStatisticsName'' [Err S32] [U64] 1 0)\<lparr>mt_since := 15\<rparr>)"
  by (simp_all add: method_of_def IBsdBridgeService_def mt_def)

text \<open>C24: A command that the module has no business with is passed on as it came: for every request whose
  scalars and buffers have the declared shape, what the real service gets is the same command number
  with the same scalars, in-buffers and out-buffer sizes, and its answer is the reply; that includes every
  number that the interface does not declare.\<close>

theorem forwarded_untouched:
  assumes "well_formed q" and "dispatch_forwarded env q = Some f \<or> dispatch_undeclared env q = Some f"
  shows "f s = forward env (cmd_call (rq_cmd q) (rq_args q @ map int (rq_outs q)) (rq_bufs q)) s"
proof (cases "dispatch_forwarded env q")
  case None
  then show ?thesis using assms(2) by (auto simp: dispatch_undeclared_def pass_def split: if_splits)
next
  case (Some g)
  then have "rq_cmd q \<in> {4, 7, 8, 10, 15, 16, 17, 19, 20, 21, 22, 23, 24, 25, 27, 28, 29, 30, 31, 32}"
    using dispatch_complete [of q env] by simp
  then consider "rq_cmd q = 4" | "rq_cmd q = 7" | "rq_cmd q = 8" | "rq_cmd q = 10" | "rq_cmd q = 15" | "rq_cmd q = 16"
    | "rq_cmd q = 17" | "rq_cmd q = 19" | "rq_cmd q = 20" | "rq_cmd q = 21" | "rq_cmd q = 22" | "rq_cmd q = 23"
    | "rq_cmd q = 24" | "rq_cmd q = 25" | "rq_cmd q = 27" | "rq_cmd q = 28" | "rq_cmd q = 29" | "rq_cmd q = 30"
    | "rq_cmd q = 31" | "rq_cmd q = 32" by (elim insertE emptyE)
  then show ?thesis
    using assms Some
    by cases (auto simp: well_formed_def method_at mt_def shape_simps dispatch_forwarded_def dispatch_undeclared_def
        passed_defs uint_of_int)
qed

definition sample_request :: request where
  "sample_request = \<lparr>rq_cmd = 17, rq_args = [5, 65535, 4103], rq_bufs = [], rq_outs = [4]\<rparr>"

theorem forwarded_untouched_witness:
  "\<forall>env s. \<exists>f. dispatch_forwarded env sample_request = Some f
     \<and> f s = forward env (cmd_call 17 [5, 65535, 4103, 4] []) s"
proof (intro allI)
  fix env s
  obtain f where f: "dispatch_forwarded env sample_request = Some f"
    using dispatch_complete [of sample_request env] by (auto simp: sample_request_def)
  have "well_formed sample_request" by (simp add: well_formed_def method_at mt_def fits_def sample_request_def)
  from forwarded_untouched [OF this, of env f s] f
  show "\<exists>f. dispatch_forwarded env sample_request = Some f
     \<and> f s = forward env (cmd_call 17 [5, 65535, 4103, 4] []) s" by (simp add: sample_request_def)
qed

section \<open>The words of a reply\<close>



text \<open>The numbers are declared once each, and \<open>StartMonitoring\<close> (1) is not among them.\<close>

lemma interface_numbers: "distinct (map mt_id IBsdBridgeService)" "method_of 1 = None" "length IBsdBridgeService = 33"
  by (simp_all add: IBsdBridgeService_def method_of_def mt_def)

text \<open>Two replies have no result word: their error number is the first word.\<close>

lemma reply_without_result:
  assumes "\<And>xs. \<forall>x \<in> set xs. align_of (out_type x) = 4 \<Longrightarrow> arrange xs = xs"
  shows "map (\<lambda>c. map_option (\<lambda>m. reply_layout arrange (mt_outs m)) (method_of c)) [28, 32]
     = [Some [(0, Err S32)], Some [(0, Err S32)]]"
  by (simp add: method_at mt_def reply_layout_def assms align_of_def)

end
