(* ===== verification/Selects.thy ===== *)
theory Selects
  imports Ready
begin

text \<open>
  What \<open>Select\<close> reports: the fd sets as bit masks of 32-bit words, the clearing of synthetic fds before the
  call is forwarded and the injection of the fds of the module afterwards.
\<close>

section \<open>Bits of an fd set\<close>

lemma bit_one_shifted: "bit (2 ^ (m mod 32) :: u32) n \<longleftrightarrow> n = m mod 32"
  by (auto simp: bit_simps)

definition fd_in :: "u32 list \<Rightarrow> int \<Rightarrow> bool" where
  "fd_in ws fd \<longleftrightarrow> 0 \<le> fd \<and> nat fd div 32 < length ws"

lemma same_bit: "0 \<le> fd \<Longrightarrow> 0 \<le> g \<Longrightarrow> nat g div 32 = nat fd div 32 \<Longrightarrow> nat g mod 32 = nat fd mod 32 \<Longrightarrow> g = fd"
  by (metis div_mult_mod_eq nat_eq_iff2)

lemma fdset_set_bit:
  assumes "fd_in ws fd" and "fd_in ws g"
  shows "fdset_has (ws[nat fd div 32 := (ws ! (nat fd div 32)) OR push_bit (nat fd mod 32) 1]) g
     \<longleftrightarrow> fdset_has ws g \<or> g = fd"
  using assms same_bit [of fd g]
  by (cases "nat g div 32 = nat fd div 32") (auto simp: fdset_has_def fd_in_def bit_or_iff bit_one_shifted)

lemma fdset_clear_bit:
  assumes "fd_in ws fd" and "fd_in ws g"
  shows "fdset_has (ws[nat fd div 32 := (ws ! (nat fd div 32)) AND NOT (push_bit (nat fd mod 32) 1)]) g
     \<longleftrightarrow> fdset_has ws g \<and> g \<noteq> fd"
proof -
  have "nat g mod 32 < LENGTH(32)" by simp
  then show ?thesis using assms same_bit [of fd g]
    by (cases "nat g div 32 = nat fd div 32")
      (auto simp: fdset_has_def fd_in_def bit_and_iff bit_not_iff_eq bit_one_shifted)
qed

section \<open>Clearing\<close>

lemma select_clear_spec:
  assumes "\<forall>fd \<in> set fds. fd div 32 < length ws" and "fd_in ws g"
  shows "length (select_clear me s orig fds ws) = length ws
     \<and> (fdset_has (select_clear me s orig fds ws) g
        \<longleftrightarrow> fdset_has ws g \<and> \<not> (nat g \<in> set fds \<and> fdset_has orig g \<and> is_synthetic_fd me g s))"
  using assms
proof (induction fds arbitrary: ws)
  case (Cons fd fds)
  let ?ws = "ws[fd div 32 := (ws ! (fd div 32)) AND NOT (push_bit (fd mod 32) 1)]"
  have g: "0 \<le> g" using Cons.prems(2) by (simp add: fd_in_def)
  have "fdset_has ?ws g \<longleftrightarrow> fdset_has ws g \<and> g \<noteq> int fd"
    using fdset_clear_bit [of ws "int fd" g] Cons.prems by (simp add: fd_in_def)
  moreover have "fd_in ?ws g" "\<forall>fd \<in> set fds. fd div 32 < length ?ws" using Cons.prems by (simp_all add: fd_in_def)
  ultimately show ?case
    using Cons.IH [of ws] Cons.IH [of ?ws] Cons.prems g by auto
qed simp

section \<open>Injection\<close>

lemma select_inject_spec:
  assumes "select_inject me s fd (c, out) = (c', out')"
  shows "length out' = length out"
    and "fd_in out g \<Longrightarrow> fdset_has out' g \<longleftrightarrow> fdset_has out g \<or> (g = fd \<and> VFdHasPendingRead me fd s)"
    and "c' = (if 0 \<le> c \<and> fd_in out fd \<and> VFdHasPendingRead me fd s \<and> \<not> fdset_has out fd then c + 1 else c)"
proof -
  have "(c', out') =
     (if fd_in out fd \<and> VFdHasPendingRead me fd s \<and> \<not> fdset_has out fd
      then (if 0 \<le> c then c + 1 else c, out[nat fd div 32 := (out ! (nat fd div 32)) OR push_bit (nat fd mod 32) 1])
      else (c, out))"
    using assms by (auto simp: select_inject_def fd_in_def not_less Suc_le_eq split: if_splits)
  then show "length out' = length out"
    and "fd_in out g \<Longrightarrow> fdset_has out' g \<longleftrightarrow> fdset_has out g \<or> (g = fd \<and> VFdHasPendingRead me fd s)"
    and "c' = (if 0 \<le> c \<and> fd_in out fd \<and> VFdHasPendingRead me fd s \<and> \<not> fdset_has out fd then c + 1 else c)"
    using fdset_set_bit [of out fd g] by (auto split: if_splits)
qed

text \<open>The fds that are new in the result.\<close>

definition new_fds :: "nat \<Rightarrow> bridge \<Rightarrow> int list \<Rightarrow> u32 list \<Rightarrow> int set" where
  "new_fds me s fds out = {fd \<in> set fds. fd_in out fd \<and> VFdHasPendingRead me fd s \<and> \<not> fdset_has out fd}"

lemma fold_inject_spec:
  assumes "fold (select_inject me s) fds (c, out) = (c', out')"
  shows "length out' = length out
     \<and> (\<forall>g. fd_in out g \<longrightarrow> (fdset_has out' g \<longleftrightarrow> fdset_has out g \<or> (g \<in> set fds \<and> VFdHasPendingRead me g s)))
     \<and> c' = (if 0 \<le> c then c + int (card (new_fds me s fds out)) else c)"
  using assms
proof (induction fds arbitrary: c out)
  case Nil
  then show ?case by (simp add: new_fds_def)
next
  case (Cons fd fds)
  obtain c1 out1 where 1: "select_inject me s fd (c, out) = (c1, out1)" by fastforce
  note S = select_inject_spec [OF 1]
  have len: "fd_in out1 g = fd_in out g" for g using S(1) by (simp add: fd_in_def)
  note IH = Cons.IH [OF Cons.prems [unfolded fold_simps 1]]
  have new: "new_fds me s (fd # fds) out
      = (if fd_in out fd \<and> VFdHasPendingRead me fd s \<and> \<not> fdset_has out fd then {fd} else {}) \<union> new_fds me s fds out1"
    using S(2) by (auto simp: new_fds_def len)
  have "fd \<notin> new_fds me s fds out1" if "fd_in out fd \<and> VFdHasPendingRead me fd s"
    using S(2) that by (auto simp: new_fds_def len)
  moreover have "finite (new_fds me s fds out1)" by (simp add: new_fds_def)
  ultimately have "c' = (if 0 \<le> c then c + int (card (new_fds me s (fd # fds) out)) else c)"
    using IH S(3) by (auto simp: new split: if_splits)
  then show ?case using IH S(1,2) by (auto simp: len)
qed


section \<open>The answer\<close>

text \<open>The fds the injection visits, and that nothing else can have relay data.\<close>

definition select_fds :: "nat \<Rightarrow> bridge \<Rightarrow> int list" where
  "select_fds me s = m_bridged_fd (g_services s me) #
     (if g_active_ldn_instance s = Some me then
        g_tcp_listen_fd s # map c_fd (filter c_used (g_vtcp_conns s))
      else [])"

lemma VFd_in_select_fds: "VFdHasPendingRead me fd s \<Longrightarrow> fd \<in> set (select_fds me s)"
  by (auto simp: VFdHasPendingRead_def select_fds_def IsOwnTcpListenFd_def conn_at_def
      dest: find_fd_SomeD split: if_splits option.splits)

definition select_shape :: "int \<Rightarrow> u32 list \<Rightarrow> nat \<Rightarrow> bool" where
  "select_shape nfds rs out_words \<longleftrightarrow> 0 < nfds \<and> nfds \<le> MaxSelectFds
     \<and> (nat nfds + 31) div 32 \<le> length rs \<and> (nat nfds + 31) div 32 \<le> out_words"

lemma cmd_Select_cases:
  assumes shape: "select_shape nfds rs out_words" and s: "s = DrainRelay env s0"
    and real: "real nfds (select_clear me s rs [0..<nat nfds] (take ((nat nfds + 31) div 32) rs)) wr er
        (if \<exists>fd < nat nfds. VFdHasPendingRead me (int fd) s then Some (0, 0) else timeout) = (rc, ret, err, r, w, e)"
  shows "cmd_Select env real me nfds rs wr er out_words timeout s0
     = (\<lparr>sr_rc = rc, sr_count = fst (fold (select_inject me s) (select_fds me s) (ret, r)), sr_err = ErrReal err,
         sr_read = snd (fold (select_inject me s) (select_fds me s) (ret, r)), sr_write = w, sr_error = e\<rparr>, s)"
proof -
  have "(\<exists>fd \<in> set [0..<nat nfds]. VFdHasPendingRead me (int fd) s) = (\<exists>fd < nat nfds. VFdHasPendingRead me (int fd) s)"
    by auto
  moreover have "(nat nfds + 31) div 32 \<noteq> 0" using shape unfolding select_shape_def by linarith
  ultimately show ?thesis
    using shape real unfolding cmd_Select_def s [symmetric] Let_def select_fds_def [symmetric]
    by (simp add: select_shape_def split_beta)
qed


lemma fd_in_range: "select_shape nfds rs n \<Longrightarrow> 0 \<le> fd \<Longrightarrow> fd < nfds \<Longrightarrow> nat fd div 32 < (nat nfds + 31) div 32"
  unfolding select_shape_def by linarith

lemma fdset_has_take: "nat fd div 32 < n \<Longrightarrow> fdset_has (take n ws) fd = fdset_has ws fd"
  by (simp add: fdset_has_def)

lemma select_forwarded:
  assumes shape: "select_shape nfds rs n" and fd: "0 \<le> fd" "fd < nfds"
  shows "fdset_has (select_clear me s rs [0..<nat nfds] (take ((nat nfds + 31) div 32) rs)) fd
     \<longleftrightarrow> fdset_has rs fd \<and> \<not> is_synthetic_fd me fd s"
proof -
  let ?w = "(nat nfds + 31) div 32"
  have w: "length (take ?w rs) = ?w" using shape by (simp add: select_shape_def)
  have "\<forall>k \<in> set [0..<nat nfds]. k div 32 < length (take ?w rs)" unfolding w by auto
  moreover have "fd_in (take ?w rs) fd" using fd_in_range [OF shape fd] fd(1) by (simp only: fd_in_def w)
  ultimately show ?thesis
    using select_clear_spec [of "[0..<nat nfds]" "take ?w rs" fd me s rs] fd fdset_has_take [OF fd_in_range [OF shape fd]]
    by auto
qed

lemma select_injected:
  assumes "fold (select_inject me s) (select_fds me s) (ret, r) = (count, out)"
  shows "\<forall>fd. 0 \<le> fd \<longrightarrow> nat fd div 32 < length r \<longrightarrow> (fdset_has out fd \<longleftrightarrow> fdset_has r fd \<or> VFdHasPendingRead me fd s)"
    and "count = (if 0 \<le> ret then ret + int (card {fd. 0 \<le> fd \<and> nat fd div 32 < length r \<and>
       VFdHasPendingRead me fd s \<and> \<not> fdset_has r fd}) else ret)"
proof -
  have "new_fds me s (select_fds me s) r
      = {fd. 0 \<le> fd \<and> nat fd div 32 < length r \<and> VFdHasPendingRead me fd s \<and> \<not> fdset_has r fd}"
    using VFd_in_select_fds by (auto simp: new_fds_def fd_in_def)
  then show "\<forall>fd. 0 \<le> fd \<longrightarrow> nat fd div 32 < length r \<longrightarrow> (fdset_has out fd \<longleftrightarrow> fdset_has r fd \<or> VFdHasPendingRead me fd s)"
    and "count = (if 0 \<le> ret then ret + int (card {fd. 0 \<le> fd \<and> nat fd div 32 < length r \<and>
       VFdHasPendingRead me fd s \<and> \<not> fdset_has r fd}) else ret)"
    using fold_inject_spec [OF assms] VFd_in_select_fds [of me _ s] by (auto simp: fd_in_def)
qed

text \<open>C25: \<open>Select\<close> with a proper shape asks the real service about exactly the fds the caller asked about
  that are not synthetic, does not let it block when relay data is pending, and reports as readable
  exactly the fds the real service reports and those with pending relay data, counting every fd it
  adds once (and none when the real call failed).\<close>

theorem select_exact:
  assumes shape: "select_shape nfds rs out_words"
    and out: "\<forall>fwd t. length (fst (snd (snd (snd (real nfds fwd wr er t))))) = out_words"
  shows "\<exists>fwd t rc ret err r w e. real nfds fwd wr er t = (rc, ret, err, r, w, e)
     \<and> (\<forall>fd. 0 \<le> fd \<and> fd < nfds \<longrightarrow>
          (fdset_has fwd fd \<longleftrightarrow> fdset_has rs fd \<and> \<not> is_synthetic_fd me fd (DrainRelay env s)))
     \<and> t = (if \<exists>fd < nat nfds. VFdHasPendingRead me (int fd) (DrainRelay env s) then Some (0, 0) else timeout)
     \<and> (\<forall>fd. 0 \<le> fd \<and> fd < nfds \<longrightarrow>
          (fdset_has (sr_read (fst (cmd_Select env real me nfds rs wr er out_words timeout s))) fd
             \<longleftrightarrow> fdset_has r fd \<or> VFdHasPendingRead me fd (DrainRelay env s)))
     \<and> sr_count (fst (cmd_Select env real me nfds rs wr er out_words timeout s))
         = (if 0 \<le> ret then ret + int (card {fd. 0 \<le> fd \<and> nat fd div 32 < out_words \<and>
              VFdHasPendingRead me fd (DrainRelay env s) \<and> \<not> fdset_has r fd}) else ret)"
proof -
  define d where "d = DrainRelay env s"
  let ?fwd = "select_clear me d rs [0..<nat nfds] (take ((nat nfds + 31) div 32) rs)"
  let ?t = "if \<exists>fd < nat nfds. VFdHasPendingRead me (int fd) d then Some (0, 0) else timeout"
  obtain rc ret err r w e where real: "real nfds ?fwd wr er ?t = (rc, ret, err, r, w, e)"
    by (cases "real nfds ?fwd wr er ?t") blast
  obtain count out where inj: "fold (select_inject me d) (select_fds me d) (ret, r) = (count, out)" by fastforce
  have len: "length r = out_words" using out [rule_format, of ?fwd ?t] by (simp only: real fst_conv snd_conv)
  have in_r: "0 \<le> fd \<Longrightarrow> fd < nfds \<Longrightarrow> nat fd div 32 < length r" for fd
    using fd_in_range [OF shape, of fd] shape unfolding len select_shape_def by linarith
  have fwd: "\<forall>fd. 0 \<le> fd \<and> fd < nfds \<longrightarrow> (fdset_has ?fwd fd \<longleftrightarrow> fdset_has rs fd \<and> \<not> is_synthetic_fd me fd d)"
    using select_forwarded [OF shape] by blast
  have rd: "\<forall>fd. 0 \<le> fd \<and> fd < nfds \<longrightarrow> (fdset_has out fd \<longleftrightarrow> fdset_has r fd \<or> VFdHasPendingRead me fd d)"
    using select_injected(1) [OF inj] in_r by blast
  note count = select_injected(2) [OF inj, unfolded len]
  have ans: "fst (cmd_Select env real me nfds rs wr er out_words timeout s)
      = \<lparr>sr_rc = rc, sr_count = count, sr_err = ErrReal err, sr_read = out, sr_write = w, sr_error = e\<rparr>"
    using cmd_Select_cases [where env = env and real = real and me = me and wr = wr and er = er and timeout = timeout,
        OF shape d_def real] inj by simp
  show ?thesis
    unfolding ans d_def [symmetric] select_reply.simps
    by (rule exI [where x = ?fwd], rule exI [where x = ?t], rule exI [where x = rc], rule exI [where x = ret],
        rule exI [where x = err], rule exI [where x = r], rule exI [where x = w], rule exI [where x = e])
      (rule conjI [OF real conjI [OF fwd conjI [OF refl conjI [OF rd count]]]])
qed

definition sample_select :: real_select where
  "sample_select n a b c t = (0, - 1, 9, [0], [0], [0])"

theorem select_exact_witness:
  "sr_count (fst (cmd_Select sample_benv sample_select 1 8 [0x80] [0] [0] 1 None bridge_up)) = - 1"
proof -
  have shape: "select_shape 8 [0x80] 1" by (simp add: select_shape_def MaxSelectFds_def)
  have out: "\<forall>fwd t. length (fst (snd (snd (snd (sample_select 8 fwd [0] [0] t))))) = 1"
    by (simp add: sample_select_def)
  from select_exact [where real = sample_select and wr = "[0]" and er = "[0]" and me = 1 and env = sample_benv
      and s = bridge_up and timeout = None, OF shape out]
  obtain fwd t rc ret err r w e where r: "sample_select 8 fwd [0] [0] t = (rc, ret, err, r, w, e)"
    and c: "sr_count (fst (cmd_Select sample_benv sample_select 1 8 [0x80] [0] [0] 1 None bridge_up))
      = (if 0 \<le> ret then ret + int (card {fd. 0 \<le> fd \<and> nat fd div 32 < 1 \<and>
              VFdHasPendingRead 1 fd (DrainRelay sample_benv bridge_up) \<and> \<not> fdset_has r fd}) else ret)"
    by blast
  have "ret = - 1" using r by (simp only: sample_select_def prod.inject)
  then show ?thesis unfolding c by simp
qed

end
