(* ===== verification/Reliable.thy ===== *)
theory Reliable
  imports VTcpStream ConnIds "HOL-Library.Sublist"
begin

text \<open>
  Both ends of a virtual TCP connection and the relay between them: what an acknowledgement means. The
  relay may lose, repeat and reorder segments. One console sends data on the connection, the other
  acknowledges it.
\<close>

section \<open>The connection\<close>

text \<open>The two consoles: platform, service instance, virtual address, port and connection of each.\<close>

record peer_link =
  l_env_a :: env
  l_me_a :: nat
  l_ip_a :: u32
  l_port_a :: u16
  l_conn_a :: nat
  l_env_b :: env
  l_me_b :: nat
  l_ip_b :: u32
  l_port_b :: u16
  l_conn_b :: nat

text \<open>\<open>d_sent\<close>: what \<open>SendTo\<close> accepted; \<open>d_read\<close>: what the other application has read; \<open>d_data\<close> and \<open>d_acks\<close>:
  the segments (number, acknowledgement, payload) and acknowledgements that were sent, any of which may
  arrive at any time; \<open>d_gave_up\<close>: a retransmission was given up; \<open>d_overlap\<close>: something was sent before the
  previous segment was acknowledged.\<close>

record duplex =
  d_a :: vtcp
  d_b :: vtcp
  d_sent :: "u8 list"
  d_read :: "u8 list"
  d_data :: "(u32 \<times> u32 \<times> u8 list) set"
  d_acks :: "(u32 \<times> u32) set"
  d_gave_up :: bool
  d_overlap :: bool

abbreviation ca :: "peer_link \<Rightarrow> duplex \<Rightarrow> vtcp_conn" where "ca L s \<equiv> conn_at (l_conn_a L) (d_a s)"
abbreviation cb :: "peer_link \<Rightarrow> duplex \<Rightarrow> vtcp_conn" where "cb L s \<equiv> conn_at (l_conn_b L) (d_b s)"

text \<open>An arriving data segment; it is acknowledged when it was taken into the inbox.\<close>

definition data_arrives :: "peer_link \<Rightarrow> u32 \<Rightarrow> u32 \<Rightarrow> u8 list \<Rightarrow> vtcp \<Rightarrow> vtcp" where
  "data_arrives L q ak p b =
     HandleTcpSegment (l_env_b L) (l_me_b L) (l_ip_b L) (l_ip_a L) (l_port_a L) q ak (TCP_PSH OR TCP_ACK) p b"

definition ack_arrives :: "peer_link \<Rightarrow> u32 \<Rightarrow> u32 \<Rightarrow> vtcp \<Rightarrow> vtcp" where
  "ack_arrives L q ak a = HandleTcpSegment (l_env_a L) (l_me_a L) (l_ip_a L) (l_ip_b L) (l_port_b L) q ak TCP_ACK [] a"

definition acked_with :: "peer_link \<Rightarrow> vtcp \<Rightarrow> vtcp \<Rightarrow> (u32 \<times> u32) set" where
  "acked_with L b b' =
     (let c = conn_at (l_conn_b L) b; c' = conn_at (l_conn_b L) b'
      in if length (c_inbox c') > length (c_inbox c) then {(c_our_seq c', c_their_seq c')} else {})"

inductive duplex_step :: "peer_link \<Rightarrow> duplex \<Rightarrow> duplex \<Rightarrow> bool" for L where
  send: "p \<noteq> [] \<Longrightarrow> vtcp_send (l_env_a L) (l_ip_a L) now (l_conn_a L) p (d_a s) = (rc, a') \<Longrightarrow> 0 \<le> rc \<Longrightarrow>
    duplex_step L s (s\<lparr>d_a := a', d_sent := d_sent s @ p,
      d_data := insert (c_our_seq (ca L s), c_their_seq (ca L s), p) (d_data s),
      d_overlap := d_overlap s \<or> c_has_unacked_data (ca L s)\<rparr>)"
| send_fails: "vtcp_send (l_env_a L) (l_ip_a L) now (l_conn_a L) p (d_a s) = (rc, a') \<Longrightarrow> rc < 0 \<Longrightarrow>
    duplex_step L s (s\<lparr>d_a := a'\<rparr>)"
| retransmit: "a' = CheckDataRetransmits (l_env_a L) (l_ip_a L) now (d_a s) \<Longrightarrow>
    duplex_step L s (s\<lparr>d_a := a',
      d_data := (if c_has_unacked_data (ca L s)
         then insert (c_unacked_seq (ca L s), c_their_seq (ca L s), c_unacked_data (ca L s)) (d_data s) else d_data s),
      d_gave_up := d_gave_up s \<or> (c_has_unacked_data (ca L s) \<and> \<not> c_has_unacked_data (conn_at (l_conn_a L) a'))\<rparr>)"
| data: "(q, ak, p) \<in> d_data s \<Longrightarrow> b' = data_arrives L q ak p (d_b s) \<Longrightarrow>
    duplex_step L s (s\<lparr>d_b := b', d_acks := d_acks s \<union> acked_with L (d_b s) b'\<rparr>)"
| ack: "(q, ak) \<in> d_acks s \<Longrightarrow> duplex_step L s (s\<lparr>d_a := ack_arrives L q ak (d_a s)\<rparr>)"
| read: "vtcp_read n (l_conn_b L) (d_b s) = (bytes, b') \<Longrightarrow> duplex_step L s (s\<lparr>d_b := b', d_read := d_read s @ bytes\<rparr>)"

text \<open>An established connection with nothing on the way.\<close>

definition peers_up :: "peer_link \<Rightarrow> vtcp \<Rightarrow> vtcp \<Rightarrow> bool" where
  "peers_up L a b \<longleftrightarrow>
     FindVTcpConnByPeer (l_me_a L) (l_ip_b L) a = Some (l_conn_a L) \<and> c_established (conn_at (l_conn_a L) a)
     \<and> (\<forall>p \<in> set (g_pending_accepts a). p_used p \<longrightarrow> p_peer_ip p \<noteq> l_ip_b L)
     \<and> FindVTcpConnByPeer (l_me_b L) (l_ip_a L) b = Some (l_conn_b L) \<and> c_established (conn_at (l_conn_b L) b)
     \<and> (\<forall>p \<in> set (g_pending_accepts b). p_used p \<longrightarrow> p_peer_ip p \<noteq> l_ip_a L)"

definition duplex_start :: "peer_link \<Rightarrow> vtcp \<Rightarrow> vtcp \<Rightarrow> duplex \<Rightarrow> bool" where
  "duplex_start L a b s \<longleftrightarrow> peers_up L a b \<and> \<not> c_has_unacked_data (conn_at (l_conn_a L) a)
     \<and> c_our_seq (conn_at (l_conn_a L) a) = c_their_seq (conn_at (l_conn_b L) b)
     \<and> c_inbox (conn_at (l_conn_b L) b) = []
     \<and> s = \<lparr>d_a = a, d_b = b, d_sent = [], d_read = [], d_data = {}, d_acks = {}, d_gave_up = False, d_overlap = False\<rparr>"

section \<open>One step at either end\<close>

lemma peers_upD:
  "peers_up L a b \<Longrightarrow> l_conn_a L < length (g_vtcp_conns a) \<and> l_conn_b L < length (g_vtcp_conns b)"
  by (auto simp: peers_up_def dest: find_peer_SomeD)

lemma peers_up_cong:
  assumes up: "peers_up L a b"
    and a: "conn_keys a' = conn_keys a" "g_active_ldn_instance a' = g_active_ldn_instance a"
      "g_pending_accepts a' = g_pending_accepts a" "c_established (conn_at (l_conn_a L) a')"
    and b: "conn_keys b' = conn_keys b" "g_active_ldn_instance b' = g_active_ldn_instance b"
      "g_pending_accepts b' = g_pending_accepts b" "c_established (conn_at (l_conn_b L) b')"
  shows "peers_up L a' b'"
  using up a b find_peer_cong [of a' a] find_peer_cong [of b' b] by (simp add: peers_up_def)

lemma ack_arrives_at:
  assumes up: "peers_up L a b"
  shows "ack_arrives L q ak a =
     (if c_has_unacked_data (conn_at (l_conn_a L) a)
         \<and> ak = c_unacked_seq (conn_at (l_conn_a L) a) + of_nat (length (c_unacked_data (conn_at (l_conn_a L) a)))
      then upd_conn (l_conn_a L) (\<lambda>c. c\<lparr>c_has_unacked_data := False\<rparr>) a else a)"
  using up data_segment_step [of "l_me_a L" "l_ip_b L" a "l_conn_a L" TCP_ACK] flag_cases(8-11)
  by (simp add: ack_arrives_def peers_up_def handle_data_def Let_def)


lemma peers_up_ack: "peers_up L a b \<Longrightarrow> peers_up L (ack_arrives L q ak a) b"
  using peers_upD [of L a b]
  by (rule_tac peers_up_cong [of L a b]) (auto simp: ack_arrives_at peers_up_def conn_at_upd)

lemma data_arrives_at:
  assumes up: "peers_up L a b" and p: "p \<noteq> []" and b': "b' = data_arrives L q ak p b"
  shows "peers_up L a b'
     \<and> (if q = c_their_seq (conn_at (l_conn_b L) b) \<and> length (c_inbox (conn_at (l_conn_b L) b)) + length p \<le> VTcpInboxCap
        then c_inbox (conn_at (l_conn_b L) b') = c_inbox (conn_at (l_conn_b L) b) @ p
          \<and> c_their_seq (conn_at (l_conn_b L) b') = c_their_seq (conn_at (l_conn_b L) b) + of_nat (length p)
          \<and> acked_with L b b' = {(c_our_seq (conn_at (l_conn_b L) b), c_their_seq (conn_at (l_conn_b L) b'))}
        else c_inbox (conn_at (l_conn_b L) b') = c_inbox (conn_at (l_conn_b L) b)
          \<and> c_their_seq (conn_at (l_conn_b L) b') = c_their_seq (conn_at (l_conn_b L) b) \<and> acked_with L b b' = {})"
proof -
  let ?k = "l_conn_b L"
  define b0 where "b0 = (if c_has_unacked_data (conn_at ?k b)
      \<and> ak = c_unacked_seq (conn_at ?k b) + of_nat (length (c_unacked_data (conn_at ?k b)))
      then upd_conn ?k (\<lambda>c. c\<lparr>c_has_unacked_data := False\<rparr>) b else b)"
  have kl: "?k < length (g_vtcp_conns b)" using peers_upD [OF up] by blast
  have b0: "c_inbox (conn_at ?k b0) = c_inbox (conn_at ?k b)" "c_their_seq (conn_at ?k b0) = c_their_seq (conn_at ?k b)"
    "c_our_seq (conn_at ?k b0) = c_our_seq (conn_at ?k b)" "c_established (conn_at ?k b0)"
    "conn_keys b0 = conn_keys b" "g_active_ldn_instance b0 = g_active_ldn_instance b"
    "g_pending_accepts b0 = g_pending_accepts b" "?k < length (g_vtcp_conns b0)"
    using up kl by (auto simp: b0_def conn_at_upd peers_up_def)
  have step: "b' = handle_data (l_env_b L) (l_ip_b L) (l_ip_a L) (l_port_a L) q p ?k b0"
    using up data_segment_step [of "l_me_b L" "l_ip_a L" b ?k "TCP_PSH OR TCP_ACK"] flag_cases(12-15)
    by (simp add: b' data_arrives_def peers_up_def b0_def)
  have est: "c_established (conn_at ?k b')"
    using b0(4,8) by (auto simp: step handle_data_def Let_def conn_at_upd)
  have "peers_up L a b'"
    by (rule peers_up_cong [OF up]) (use up est b0 in \<open>simp_all add: step peers_up_def\<close>)
  moreover have "if q = c_their_seq (conn_at ?k b0) \<and> length (c_inbox (conn_at ?k b0)) + length p \<le> VTcpInboxCap
      then c_inbox (conn_at ?k b') = c_inbox (conn_at ?k b0) @ p
        \<and> c_their_seq (conn_at ?k b') = c_their_seq (conn_at ?k b0) + of_nat (length p)
        \<and> c_our_seq (conn_at ?k b') = c_our_seq (conn_at ?k b0)
      else conn_at ?k b' = conn_at ?k b0"
    using b0(4,8) p by (auto simp: step handle_data_def Let_def conn_at_upd)
  ultimately show ?thesis using b0(1-3) p by (auto simp: acked_with_def Let_def split: if_splits)
qed

lemma vtcp_send_at:
  assumes up: "peers_up L a b" and send: "vtcp_send (l_env_a L) (l_ip_a L) now (l_conn_a L) p a = (rc, a')"
  shows "peers_up L a' b \<and> conn_at (l_conn_a L) a' = (if 0 \<le> rc then (conn_at (l_conn_a L) a)\<lparr>c_has_unacked_data := True,
       c_unacked_data := p, c_unacked_seq := c_our_seq (conn_at (l_conn_a L) a), c_last_send_tick_ms := now,
       c_retransmit_count := 0, c_our_seq := c_our_seq (conn_at (l_conn_a L) a) + of_nat (length p)\<rparr>
     else conn_at (l_conn_a L) a)"
proof -
  let ?k = "l_conn_a L" and ?c = "conn_at (l_conn_a L) a"
  define s1 where "s1 = send_seg (l_env_a L) (seg (l_ip_a L) (c_peer_ip ?c) (c_peer_port ?c) (c_our_seq ?c)
      (c_their_seq ?c) (TCP_PSH OR TCP_ACK)) p a"
  have a': "a' = (if 0 \<le> rc then upd_conn ?k (\<lambda>c. c\<lparr>c_has_unacked_data := True, c_unacked_data := p,
      c_unacked_seq := c_our_seq c, c_last_send_tick_ms := now, c_retransmit_count := 0,
      c_our_seq := c_our_seq c + of_nat (length p)\<rparr>) s1 else s1)"
    using send by (auto simp: vtcp_send_def Let_def split_beta s1_def send_seg_def)
  have kl: "?k < length (g_vtcp_conns s1)" using peers_upD [OF up] by (simp add: s1_def)
  have at: "conn_at ?k s1 = ?c" by (simp add: s1_def)
  have c': "conn_at ?k a' = (if 0 \<le> rc then ?c\<lparr>c_has_unacked_data := True,
       c_unacked_data := p, c_unacked_seq := c_our_seq ?c, c_last_send_tick_ms := now,
       c_retransmit_count := 0, c_our_seq := c_our_seq ?c + of_nat (length p)\<rparr> else ?c)"
    using kl by (simp add: a' conn_at_upd at)
  have "peers_up L a' b"
    by (rule peers_up_cong [OF up]) (use up c' in \<open>simp_all add: peers_up_def\<close>, simp_all add: a' s1_def)
  then show ?thesis using c' by simp
qed

lemma tick_at:
  assumes up: "peers_up L a b" and a': "a' = CheckDataRetransmits (l_env_a L) (l_ip_a L) now a"
  shows "peers_up L a' b \<and> conn_at (l_conn_a L) a' = retx now (conn_at (l_conn_a L) a)"
proof -
  have kl: "l_conn_a L < length (g_vtcp_conns a)" using peers_upD [OF up] by blast
  have at: "conn_at (l_conn_a L) a' = retx now (conn_at (l_conn_a L) a)"
    using CheckDataRetransmits_at [OF kl] by (simp add: a')
  have "same_rx a a'" by (simp add: a' same_rx_tick)
  then have "FindVTcpConnByPeer (l_me_a L) (l_ip_b L) a' = Some (l_conn_a L)"
    using same_rx_find up by (metis peers_up_def)
  then show ?thesis
    using up at by (simp add: peers_up_def a' CheckDataRetransmits_pend retx_def)
qed

lemma vtcp_read_at:
  assumes up: "peers_up L a b" and r: "vtcp_read n (l_conn_b L) b = (bytes, b')"
  shows "peers_up L a b' \<and> c_inbox (conn_at (l_conn_b L) b) = bytes @ c_inbox (conn_at (l_conn_b L) b')
     \<and> c_their_seq (conn_at (l_conn_b L) b') = c_their_seq (conn_at (l_conn_b L) b)"
proof -
  let ?k = "l_conn_b L"
  have kl: "?k < length (g_vtcp_conns b)" using peers_upD [OF up] by blast
  define m where "m = (if length (c_inbox (conn_at ?k b)) > n then n else length (c_inbox (conn_at ?k b)))"
  have b': "b' = upd_conn ?k (\<lambda>c. c\<lparr>c_inbox := drop m (c_inbox c)\<rparr>) b" "bytes = take m (c_inbox (conn_at ?k b))"
    using r by (auto simp: vtcp_read_def Let_def m_def)
  have at: "conn_at ?k b' = (conn_at ?k b)\<lparr>c_inbox := drop m (c_inbox (conn_at ?k b))\<rparr>"
    using kl by (simp add: b'(1) conn_at_upd)
  have "peers_up L a b'"
    by (rule peers_up_cong [OF up]) (use up at in \<open>simp_all add: peers_up_def\<close>, simp_all add: b'(1))
  then show ?thesis using at b'(2) by simp
qed


section \<open>The invariant\<close>

definition slice_of :: "u32 \<Rightarrow> u8 list \<Rightarrow> u32 \<Rightarrow> u8 list \<Rightarrow> bool" where
  "slice_of base S q p \<longleftrightarrow> p \<noteq> [] \<and> (\<exists>off. off + length p \<le> length S \<and> q = base + of_nat off \<and> p = take (length p) (drop off S))"

definition got :: "peer_link \<Rightarrow> duplex \<Rightarrow> u8 list" where
  "got L s = d_read s @ c_inbox (cb L s)"

definition data_inv :: "peer_link \<Rightarrow> u32 \<Rightarrow> duplex \<Rightarrow> bool" where
  "data_inv L base s \<longleftrightarrow> peers_up L (d_a s) (d_b s)
     \<and> c_our_seq (ca L s) = base + of_nat (length (d_sent s))
     \<and> c_their_seq (cb L s) = base + of_nat (length (got L s))
     \<and> prefix (got L s) (d_sent s)
     \<and> (\<forall>(q, ak, p) \<in> d_data s. slice_of base (d_sent s) q p)
     \<and> (\<forall>(q, ak) \<in> d_acks s. \<exists>n \<le> length (got L s). ak = base + of_nat n)"

definition unacked_inv :: "peer_link \<Rightarrow> u32 \<Rightarrow> duplex \<Rightarrow> bool" where
  "unacked_inv L base s \<longleftrightarrow>
     (if c_has_unacked_data (ca L s)
      then c_unacked_data (ca L s) \<noteq> [] \<and> (\<exists>pre. d_sent s = pre @ c_unacked_data (ca L s)
         \<and> c_unacked_seq (ca L s) = base + of_nat (length pre)
         \<and> (\<not> d_gave_up s \<and> \<not> d_overlap s \<longrightarrow> length pre \<le> length (got L s)))
      else \<not> d_gave_up s \<and> \<not> d_overlap s \<longrightarrow> got L s = d_sent s)"

lemma slice_of_append: "slice_of base S q p \<Longrightarrow> slice_of base (S @ T) q p"
  unfolding slice_of_def
  by (elim conjE exE, intro conjI, assumption) (rule_tac x = off in exI, simp)

lemma slice_of_whole: "p \<noteq> [] \<Longrightarrow> slice_of (base :: u32) (S @ p) (base + of_nat (length S)) p"
  unfolding slice_of_def by (intro conjI exI [of _ "length S"]) auto

text \<open>A segment that starts where the receiver stands continues what it has.\<close>

lemma slice_continues:
  assumes sl: "slice_of base S (base + of_nat (length G)) p" and pre: "prefix G S" and S: "length S < 2 ^ 32"
  shows "prefix (G @ p) S"
proof -
  obtain off where off: "off + length p \<le> length S" "(of_nat (length G) :: u32) = of_nat off"
    "p = take (length p) (drop off S)"
    using sl by (auto simp: slice_of_def)
  have "length G \<le> length S" using pre by (rule prefix_length_le)
  then have "off = length G" using off S of_nat_u32_inj [of off "length G"] by simp
  moreover have "G = take (length G) S" using pre by (metis prefix_def append_eq_conv_conj)
  ultimately have "G @ p = take (length G + length p) S" using off(3) by (metis take_add)
  then show ?thesis by (metis take_is_prefix)
qed


lemma data_inv_start: "duplex_start L a b s \<Longrightarrow> data_inv L (c_our_seq (ca L s)) s \<and> unacked_inv L (c_our_seq (ca L s)) s"
  by (auto simp: duplex_start_def data_inv_def unacked_inv_def got_def)

lemma send_keeps:
  assumes d: "data_inv L base s" and u: "unacked_inv L base s" and p: "p \<noteq> []"
    and send: "vtcp_send (l_env_a L) (l_ip_a L) now (l_conn_a L) p (d_a s) = (rc, a')" "0 \<le> rc"
    and s': "s' = s\<lparr>d_a := a', d_sent := d_sent s @ p,
      d_data := insert (c_our_seq (ca L s), c_their_seq (ca L s), p) (d_data s),
      d_overlap := d_overlap s \<or> c_has_unacked_data (ca L s)\<rparr>"
  shows "data_inv L base s' \<and> unacked_inv L base s'"
proof -
  have up: "peers_up L (d_a s) (d_b s)" using d by (simp add: data_inv_def)
  note S = vtcp_send_at [OF up send(1)]
  have g: "got L s' = got L s" by (simp add: got_def s')
  have old: "slice_of base (d_sent s) q r \<Longrightarrow> slice_of base (d_sent s @ p) q r" for q r by (rule slice_of_append)
  have new: "slice_of base (d_sent s @ p) (c_our_seq (ca L s)) p"
    using slice_of_whole [OF p] d by (simp add: data_inv_def)
  have "data_inv L base s'"
    using d S send(2) old new unfolding data_inv_def g by (auto simp: s' prefix_def)
  moreover have "unacked_inv L base s'"
    using d u S send(2) p unfolding unacked_inv_def g by (auto simp: s' data_inv_def split: if_splits)
  ultimately show ?thesis by blast
qed

lemma retransmit_keeps:
  assumes d: "data_inv L base s" and u: "unacked_inv L base s"
    and a': "a' = CheckDataRetransmits (l_env_a L) (l_ip_a L) now (d_a s)"
    and s': "s' = s\<lparr>d_a := a', d_data := (if c_has_unacked_data (ca L s)
         then insert (c_unacked_seq (ca L s), c_their_seq (ca L s), c_unacked_data (ca L s)) (d_data s) else d_data s),
      d_gave_up := d_gave_up s \<or> (c_has_unacked_data (ca L s) \<and> \<not> c_has_unacked_data (conn_at (l_conn_a L) a'))\<rparr>"
  shows "data_inv L base s' \<and> unacked_inv L base s'"
proof -
  have up: "peers_up L (d_a s) (d_b s)" using d by (simp add: data_inv_def)
  note S = tick_at [OF up a']
  have g: "got L s' = got L s" by (simp add: got_def s')
  have seg: "slice_of base (d_sent s) (c_unacked_seq (ca L s)) (c_unacked_data (ca L s))" if "c_has_unacked_data (ca L s)"
    using u that slice_of_whole unfolding unacked_inv_def by force
  have r: "c_our_seq (retx now c) = c_our_seq c" "c_unacked_data (retx now c) = c_unacked_data c"
    "c_unacked_seq (retx now c) = c_unacked_seq c" "c_has_unacked_data (retx now c) \<Longrightarrow> c_has_unacked_data c" for c
    by (auto simp: retx_def split: if_splits)
  have "data_inv L base s'"
    using d S seg r(1) unfolding data_inv_def g by (auto simp: s')
  moreover have "unacked_inv L base s'"
    using u S r unfolding unacked_inv_def g by (auto simp: s' split: if_splits)
  ultimately show ?thesis by blast
qed

lemma data_keeps:
  assumes d: "data_inv L base s" and u: "unacked_inv L base s" and len: "length (d_sent s) < 2 ^ 32"
    and q: "(q, ak, p) \<in> d_data s" and b': "b' = data_arrives L q ak p (d_b s)"
    and s': "s' = s\<lparr>d_b := b', d_acks := d_acks s \<union> acked_with L (d_b s) b'\<rparr>"
  shows "data_inv L base s' \<and> unacked_inv L base s'"
proof -
  have up: "peers_up L (d_a s) (d_b s)" and sl: "slice_of base (d_sent s) q p" using d q by (auto simp: data_inv_def)
  have p: "p \<noteq> []" using sl by (simp add: slice_of_def)
  note S = data_arrives_at [OF up p b']
  show ?thesis
  proof (cases "q = c_their_seq (cb L s) \<and> length (c_inbox (cb L s)) + length p \<le> VTcpInboxCap")
    case True
    have g: "got L s' = got L s @ p" using S True by (simp add: got_def s')
    have "prefix (got L s @ p) (d_sent s)"
      using slice_continues [of base "d_sent s" "got L s" p] sl d True len by (simp add: data_inv_def)
    moreover have their: "c_their_seq (conn_at (l_conn_b L) b') = base + of_nat (length (got L s @ p))"
      using S True d by (simp add: data_inv_def add.assoc)
    moreover have "\<exists>n \<le> length (got L s @ p). a = base + of_nat n" if "(r, a) \<in> d_acks s'" for r a
    proof (cases "(r, a) \<in> d_acks s")
      case True
      then obtain n where "n \<le> length (got L s)" "a = base + of_nat n" using d by (auto simp: data_inv_def)
      then show ?thesis by (intro exI [of _ n]) simp
    next
      case False
      then have "a = c_their_seq (conn_at (l_conn_b L) b')" using that S True by (simp add: s')
      then show ?thesis using their by blast
    qed
    moreover have "d_a s' = d_a s" "d_b s' = b'" "d_sent s' = d_sent s" "d_data s' = d_data s" by (simp_all add: s')
    ultimately have "data_inv L base s'"
      using d S by (auto simp: data_inv_def g)
    moreover have "unacked_inv L base s'"
      using u d p \<open>prefix (got L s @ p) (d_sent s)\<close> unfolding unacked_inv_def g
      by (auto simp: s' prefix_def split: if_splits)
    ultimately show ?thesis by blast
  next
    case False
    then have g: "got L s' = got L s" using S by (auto simp: got_def s')
    have "data_inv L base s'"
      using d S False unfolding data_inv_def g by (auto simp: s')
    moreover have "unacked_inv L base s'" using u unfolding unacked_inv_def g by (simp add: s')
    ultimately show ?thesis by blast
  qed
qed

lemma ack_keeps:
  assumes d: "data_inv L base s" and u: "unacked_inv L base s" and len: "length (d_sent s) < 2 ^ 32"
    and q: "(q, ak) \<in> d_acks s" and s': "s' = s\<lparr>d_a := ack_arrives L q ak (d_a s)\<rparr>"
  shows "data_inv L base s' \<and> unacked_inv L base s'"
proof -
  have up: "peers_up L (d_a s) (d_b s)" using d by (simp add: data_inv_def)
  have up': "peers_up L (d_a s') (d_b s')" using peers_up_ack [OF up] by (simp add: s')
  have g: "got L s' = got L s" by (simp add: got_def s')
  obtain n where n: "n \<le> length (got L s)" "ak = base + of_nat n" using d q by (auto simp: data_inv_def)
  let ?match = "c_has_unacked_data (ca L s) \<and> ak = c_unacked_seq (ca L s) + of_nat (length (c_unacked_data (ca L s)))"
  have at: "ca L s' = (if ?match then (ca L s)\<lparr>c_has_unacked_data := False\<rparr> else ca L s)"
    using ack_arrives_at [OF up] peers_upD [OF up] by (simp add: s' conn_at_upd)
  have "got L s = d_sent s" if m: ?match
  proof -
    obtain pre where pre: "d_sent s = pre @ c_unacked_data (ca L s)" "c_unacked_seq (ca L s) = base + of_nat (length pre)"
      using u m unfolding unacked_inv_def by auto
    have "(of_nat n :: u32) = of_nat (length (d_sent s))" using m n(2) pre by simp
    moreover have gl: "length (got L s) \<le> length (d_sent s)" using d by (auto simp: data_inv_def dest: prefix_length_le)
    ultimately have "n = length (d_sent s)" using n(1) len of_nat_u32_inj [of n "length (d_sent s)"] by simp
    then have "length (got L s) = length (d_sent s)" using n(1) gl by simp
    then show ?thesis using d unfolding data_inv_def prefix_def by auto
  qed
  then have "unacked_inv L base s'"
    using u at unfolding unacked_inv_def g by (auto simp: s')
  moreover have "data_inv L base s'"
    using d up' at unfolding data_inv_def g by (auto simp: s' got_def split: if_splits)
  ultimately show ?thesis by blast
qed


lemma read_keeps:
  assumes d: "data_inv L base s" and u: "unacked_inv L base s"
    and r: "vtcp_read n (l_conn_b L) (d_b s) = (bytes, b')" and s': "s' = s\<lparr>d_b := b', d_read := d_read s @ bytes\<rparr>"
  shows "data_inv L base s' \<and> unacked_inv L base s'"
proof -
  have up: "peers_up L (d_a s) (d_b s)" using d by (simp add: data_inv_def)
  note S = vtcp_read_at [OF up r]
  have g: "got L s' = got L s" using S by (simp add: got_def s')
  have f: "d_a s' = d_a s" "d_b s' = b'" "d_sent s' = d_sent s" "d_data s' = d_data s" "d_acks s' = d_acks s"
    "d_gave_up s' = d_gave_up s" "d_overlap s' = d_overlap s" by (simp_all add: s')
  show ?thesis using d u S by (simp add: data_inv_def unacked_inv_def g f)
qed

lemma send_fails_keeps:
  assumes d: "data_inv L base s" and u: "unacked_inv L base s"
    and send: "vtcp_send (l_env_a L) (l_ip_a L) now (l_conn_a L) p (d_a s) = (rc, a')" "rc < 0"
    and s': "s' = s\<lparr>d_a := a'\<rparr>"
  shows "data_inv L base s' \<and> unacked_inv L base s'"
proof -
  have up: "peers_up L (d_a s) (d_b s)" using d by (simp add: data_inv_def)
  note S = vtcp_send_at [OF up send(1)]
  have g: "got L s' = got L s" by (simp add: got_def s')
  have f: "d_a s' = a'" "d_b s' = d_b s" "d_sent s' = d_sent s" "d_data s' = d_data s" "d_acks s' = d_acks s"
    "d_gave_up s' = d_gave_up s" "d_overlap s' = d_overlap s" by (simp_all add: s')
  show ?thesis using d u S send(2) by (simp add: data_inv_def unacked_inv_def g f)
qed

lemma duplex_step_inv:
  assumes "duplex_step L s s'" and "data_inv L base s" and "unacked_inv L base s" and "length (d_sent s) < 2 ^ 32"
  shows "data_inv L base s' \<and> unacked_inv L base s'"
  using assms
proof (cases rule: duplex_step.cases)
  case (send p now rc a')
  then show ?thesis using send_keeps [OF assms(2,3) send(2-4,1)] by blast
next
  case (send_fails now p rc a')
  then show ?thesis using send_fails_keeps [OF assms(2,3) send_fails(2,3,1)] by blast
next
  case (retransmit a' now)
  then show ?thesis using retransmit_keeps [OF assms(2,3) retransmit(2,1)] by blast
next
  case (data q ak p b')
  then show ?thesis using data_keeps [OF assms(2-4) data(2,3,1)] by blast
next
  case (ack q ak)
  then show ?thesis using ack_keeps [OF assms(2-4) ack(2,1)] by blast
next
  case (read n bytes b')
  then show ?thesis using read_keeps [OF assms(2,3) read(2,1)] by blast
qed

lemma duplex_step_sent: "duplex_step L s s' \<Longrightarrow> length (d_sent s) \<le> length (d_sent s')"
  by (induction rule: duplex_step.induct) auto

lemma duplex_run_inv:
  assumes "(duplex_step L)\<^sup>*\<^sup>* s0 s" and "data_inv L base s0" "unacked_inv L base s0" and "length (d_sent s) < 2 ^ 32"
  shows "data_inv L base s \<and> unacked_inv L base s"
  using assms
proof (induction rule: rtranclp_induct)
  case (step s s')
  then have "length (d_sent s) < 2 ^ 32" using duplex_step_sent [OF step(2)] by simp
  then show ?case using step duplex_step_inv [OF step(2)] by blast
qed simp



definition sample_link :: peer_link where
  "sample_link = \<lparr>l_env_a = sample_env, l_me_a = 1, l_ip_a = 0x0A0D0001, l_port_a = LdnControlPort, l_conn_a = 0,
     l_env_b = sample_env, l_me_b = 1, l_ip_b = 0x0A0D0002, l_port_b = 5555, l_conn_b = 0\<rparr>"

definition vtcp_peer_up :: vtcp where
  "vtcp_peer_up = upd_conn 0 (\<lambda>c. vtcp_conn_init\<lparr>c_used := True, c_fd := 9, c_peer_ip := 0x0A0D0001,
     c_peer_port := LdnControlPort, c_established := True, c_our_seq := 0xFFFFFFFF, c_their_seq := 4001\<rparr>) vtcp_up"

definition sample_duplex :: duplex where
  "sample_duplex = \<lparr>d_a = vtcp_conn_up, d_b = vtcp_peer_up, d_sent = [], d_read = [], d_data = {}, d_acks = {},
     d_gave_up = False, d_overlap = False\<rparr>"

lemma sample_duplex_start: "duplex_start sample_link vtcp_conn_up vtcp_peer_up sample_duplex"
proof -
  have b: "FindVTcpConnByPeer 1 0x0A0D0001 vtcp_peer_up = Some 0"
    "conn_at 0 vtcp_peer_up = vtcp_conn_init\<lparr>c_used := True, c_fd := 9, c_peer_ip := 0x0A0D0001,
       c_peer_port := LdnControlPort, c_established := True, c_our_seq := 0xFFFFFFFF, c_their_seq := 4001\<rparr>"
    "\<forall>p \<in> set (g_pending_accepts vtcp_peer_up). p_used p \<longrightarrow> p_peer_ip p \<noteq> 0x0A0D0001"
    by (simp_all add: vtcp_peer_up_def FindVTcpConnByPeer_def vtcp_up_simps conn_at_def MaxVTcpConns_def
        first_idx_Some_iff pending_accept_init_def)
  show ?thesis
    using b vtcp_conn_up_simps
    by (simp add: duplex_start_def peers_up_def sample_link_def sample_duplex_def vtcp_conn_init_def)
qed


section \<open>What goes wrong without waiting, and when an acknowledgement is lost\<close>

lemma retransmits_at:
  assumes "peers_up L a b"
  shows "peers_up L (fold (CheckDataRetransmits (l_env_a L) (l_ip_a L)) ts a) b
     \<and> c_unacked_data (conn_at (l_conn_a L) (fold (CheckDataRetransmits (l_env_a L) (l_ip_a L)) ts a)) = c_unacked_data (conn_at (l_conn_a L) a)
     \<and> c_unacked_seq (conn_at (l_conn_a L) (fold (CheckDataRetransmits (l_env_a L) (l_ip_a L)) ts a)) = c_unacked_seq (conn_at (l_conn_a L) a)"
  using assms
proof (induction ts arbitrary: a)
  case (Cons t ts)
  note T = tick_at [OF Cons.prems refl, of t]
  then show ?case using Cons.IH by (simp add: retx_def)
qed simp

text \<open>A second \<open>SendTo\<close> before the first segment was acknowledged overwrites the copy kept for retransmission. When
  the first segment was lost, whatever is retransmitted later is refused by the peer: the stream is stuck
  although both calls reported success.\<close>

theorem second_send_loses_first:
  assumes start: "duplex_start L a b s" and p: "p1 \<noteq> []" "p2 \<noteq> []" "length p1 < 2 ^ 32"
    and send1: "vtcp_send (l_env_a L) (l_ip_a L) t1 (l_conn_a L) p1 a = (rc1, a1)" "0 \<le> rc1"
    and send2: "vtcp_send (l_env_a L) (l_ip_a L) t2 (l_conn_a L) p2 a1 = (rc2, a2)" "0 \<le> rc2"
    and c: "c = conn_at (l_conn_a L) (fold (CheckDataRetransmits (l_env_a L) (l_ip_a L)) ts a2)"
  shows "c_unacked_data c = p2
     \<and> c_inbox (conn_at (l_conn_b L) (data_arrives L (c_unacked_seq c) ak (c_unacked_data c) b)) = []
     \<and> acked_with L b (data_arrives L (c_unacked_seq c) ak (c_unacked_data c) b) = {}"
proof -
  have up: "peers_up L a b" and eq: "c_our_seq (conn_at (l_conn_a L) a) = c_their_seq (conn_at (l_conn_b L) b)"
    and empty: "c_inbox (conn_at (l_conn_b L) b) = []"
    using start by (simp_all add: duplex_start_def)
  note S1 = vtcp_send_at [OF up send1(1)]
  then have up1: "peers_up L a1 b" by blast
  note S2 = vtcp_send_at [OF up1 send2(1)]
  then have up2: "peers_up L a2 b" by blast
  have u: "c_unacked_data c = p2" "c_unacked_seq c = c_their_seq (conn_at (l_conn_b L) b) + of_nat (length p1)"
    using retransmits_at [OF up2, of ts] S1 S2 send1(2) send2(2) eq by (simp_all add: c)
  have "(of_nat (length p1) :: u32) \<noteq> 0" using of_nat_u32_inj [of "length p1" 0] p(1,3) by simp
  then show ?thesis using data_arrives_at [OF up _ refl, of "c_unacked_data c" "c_unacked_seq c" ak] u p(2) empty by simp
qed

text \<open>An acknowledgement is sent once: when it is lost, no copy of the segment brings another one, and the sender
  gives up a segment that was delivered.\<close>

theorem lost_ack_never_repeated:
  assumes up: "peers_up L a b" and p: "p \<noteq> []" "length p < 2 ^ 32" and b': "b' = data_arrives L q ak p b"
    and taken: "c_inbox (conn_at (l_conn_b L) b') \<noteq> c_inbox (conn_at (l_conn_b L) b)"
  shows "acked_with L b' (data_arrives L q ak' p b') = {}"
proof -
  have "peers_up L a b'" "c_their_seq (conn_at (l_conn_b L) b') = q + of_nat (length p)"
    using data_arrives_at [OF up p(1) b'] taken by (auto split: if_splits)
  moreover have "(of_nat (length p) :: u32) \<noteq> 0" using of_nat_u32_inj [of "length p" 0] p by simp
  ultimately show ?thesis using data_arrives_at [of L a b' p _ q ak', OF _ p(1) refl] by (auto split: if_splits)
qed


text \<open>A FIN is taken whatever its number: when it overtakes the last data segments, the connection is at its end and
  they are refused when they (or their retransmissions) arrive, so the application sees a truncated stream.\<close>

theorem early_fin_truncates:
  assumes up: "peers_up L a b" and p: "p \<noteq> []" and late: "q \<noteq> fq + 1"
    and b': "b' = HandleTcpSegment (l_env_b L) (l_me_b L) (l_ip_b L) (l_ip_a L) (l_port_a L) fq fa (TCP_FIN OR TCP_ACK) [] b"
  shows "c_peer_closed (conn_at (l_conn_b L) b') \<and> c_inbox (conn_at (l_conn_b L) b') = c_inbox (conn_at (l_conn_b L) b)
     \<and> c_inbox (conn_at (l_conn_b L) (data_arrives L q ak p b')) = c_inbox (conn_at (l_conn_b L) b)"
proof -
  let ?k = "l_conn_b L"
  have flags: "has_flag (TCP_FIN OR TCP_ACK) TCP_FIN" "\<not> has_flag (TCP_FIN OR TCP_ACK) TCP_SYN"
    "\<not> has_flag (TCP_FIN OR TCP_ACK) TCP_RST"
    by (simp_all add: has_flag_def tcp_flag_defs)
  have kl: "?k < length (g_vtcp_conns b)" using peers_upD [OF up] by blast
  have step: "b' = handle_fin (l_env_b L) (l_ip_b L) (l_ip_a L) (l_port_a L) fq (Some ?k) b"
    using up flags by (simp add: b' HandleTcpSegment_def Let_def peers_up_def)
  have at: "conn_at ?k b' = (conn_at ?k b)\<lparr>c_peer_closed := True, c_their_seq := fq + 1\<rparr>"
    using kl by (simp add: step handle_fin_def Let_def conn_at_upd)
  have "peers_up L a b'"
    by (rule peers_up_cong [OF up]) (use up at in \<open>simp_all add: peers_up_def\<close>, simp_all add: step handle_fin_def Let_def)
  then show ?thesis using data_arrives_at [of L a b' p _ q ak, OF _ p refl] late at by simp
qed

end
