(* ===== verification/Handshake.thy ===== *)
theory Handshake
  imports Session Reliable
begin

text \<open>
  The handshake between two consoles, over a relay that may lose, repeat and reorder packets: the client, which
  waits in \<open>Connect\<close>, the host, which answers when it drains its queue, and \<open>Accept\<close> on the host. The packets are
  the bytes that \<open>BuildTcp\<close> makes and \<open>DrainRawRelayQueue\<close> parses. The theorems give the state from which theory
  \<open>Reliable\<close> starts.
\<close>

section \<open>The two consoles\<close>

record consoles =
  j_env_a :: benv
  j_me_a :: nat
  j_ip_a :: u32
  j_env_b :: benv
  j_me_b :: nat
  j_ip_b :: u32

text \<open>\<open>j_to_a\<close> and \<open>j_to_b\<close>: the packets that were sent to either console; any of them may arrive at any time, any
  number of times, or never.\<close>

record joining =
  j_a :: bridge
  j_b :: bridge
  j_to_a :: "u8 list set"
  j_to_b :: "u8 list set"

definition packets_sent :: "relay \<Rightarrow> relay \<Rightarrow> u8 list set" where
  "packets_sent r r' = {P. FrameIpv4 # P \<in> set (sent_frames r r')}"

text \<open>\<open>accept\<close> is the loop of \<open>Accept\<close>; what it drains before is the steps \<open>to_host\<close>. The SYNs that \<open>Connect\<close>
  repeats are copies of the first one and change no table.\<close>

inductive join_step :: "consoles \<Rightarrow> joining \<Rightarrow> joining \<Rightarrow> bool" for J where
  to_host: "P \<in> j_to_b s \<Longrightarrow> b' = drain_packet (j_env_b J) P (j_b s) \<Longrightarrow>
    join_step J s (s\<lparr>j_b := b', j_to_a := j_to_a s \<union> packets_sent (g_relay (j_b s)) (g_relay b')\<rparr>)"
| to_client: "P \<in> j_to_a s \<Longrightarrow> a' = drain_packet (j_env_a J) P (j_a s) \<Longrightarrow>
    join_step J s (s\<lparr>j_a := a', j_to_b := j_to_b s \<union> packets_sent (g_relay (j_a s)) (g_relay a')\<rparr>)"
| accept: "accept_scan (length (g_pending_accepts (j_b s))) 0 (j_me_b J) (j_b s) = Some (k, b') \<Longrightarrow>
    join_step J s (s\<lparr>j_b := b'\<rparr>)"

text \<open>The three segments of the handshake.\<close>

definition carries :: "tcp_hdr \<Rightarrow> u8 list \<Rightarrow> bool" where
  "carries h P \<longleftrightarrow> BuildTcp h [] = Some P"

abbreviation syn_seg :: "consoles \<Rightarrow> u32 \<Rightarrow> tcp_hdr" where
  "syn_seg J i \<equiv> seg (j_ip_a J) (j_ip_b J) LdnControlPort i 0 TCP_SYN"
abbreviation syn_ack_seg :: "consoles \<Rightarrow> u32 \<Rightarrow> u32 \<Rightarrow> tcp_hdr" where
  "syn_ack_seg J q ak \<equiv> seg (j_ip_b J) (j_ip_a J) LdnControlPort q ak (TCP_SYN OR TCP_ACK)"
abbreviation ack_seg :: "consoles \<Rightarrow> u32 \<Rightarrow> u32 \<Rightarrow> tcp_hdr" where
  "ack_seg J q ak \<equiv> seg (j_ip_a J) (j_ip_b J) LdnControlPort q ak TCP_ACK"

text \<open>Pending entries of one address: none in use, or exactly one, \<open>p\<close>.\<close>

definition none_pending :: "u32 \<Rightarrow> pending_accept list \<Rightarrow> bool" where
  "none_pending ip ps \<longleftrightarrow> (\<forall>p \<in> set ps. p_used p \<longrightarrow> p_peer_ip p \<noteq> ip)"

definition only_pending :: "u32 \<Rightarrow> pending_accept \<Rightarrow> pending_accept list \<Rightarrow> bool" where
  "only_pending ip p ps \<longleftrightarrow> (\<exists>j < length ps. ps ! j = p \<and> p_used p \<and> p_peer_ip p = ip
     \<and> (\<forall>i < length ps. i \<noteq> j \<longrightarrow> p_used (ps ! i) \<longrightarrow> p_peer_ip (ps ! i) \<noteq> ip))"

text \<open>Both consoles are on the relay and own their session under the address the peer uses.\<close>

definition on_relay :: "nat \<Rightarrow> u32 \<Rightarrow> bridge \<Rightarrow> bool" where
  "on_relay me ip s \<longleftrightarrow> g_active_ldn_instance s = Some me \<and> g_last_bridged_local_ip s = ip \<and> m_connected (g_relay s)"

text \<open>Where \<open>Connect\<close> is after its first SYN, with the sequence number \<open>isn\<close> in slot \<open>ka\<close>. Left-overs of earlier attempts may still
  arrive: their SYNs, and answers that acknowledge another number.\<close>

definition join_start :: "consoles \<Rightarrow> u32 \<Rightarrow> nat \<Rightarrow> joining \<Rightarrow> bool" where
  "join_start J isn ka s \<longleftrightarrow>
     on_relay (j_me_a J) (j_ip_a J) (j_a s) \<and> on_relay (j_me_b J) (j_ip_b J) (j_b s)
     \<and> FindVTcpConnByPeer (j_me_a J) (j_ip_b J) (j_a s) = Some ka
     \<and> none_pending (j_ip_b J) (g_pending_accepts (j_a s))
     \<and> c_syn_sent_awaiting_synack (conn_at ka (j_a s)) \<and> \<not> c_established (conn_at ka (j_a s))
     \<and> c_our_isn (conn_at ka (j_a s)) = isn \<and> c_peer_port (conn_at ka (j_a s)) = LdnControlPort \<and> c_inbox (conn_at ka (j_a s)) = [] \<and> \<not> c_has_unacked_data (conn_at ka (j_a s))
     \<and> FindVTcpConnByPeer (j_me_b J) (j_ip_a J) (j_b s) = None
     \<and> none_pending (j_ip_a J) (g_pending_accepts (j_b s))
     \<and> (\<forall>P \<in> j_to_b s. \<exists>i. carries (syn_seg J i) P)
     \<and> (\<forall>P \<in> j_to_a s. \<exists>q ak. ak \<noteq> isn + 1 \<and> carries (syn_ack_seg J q ak) P)"

text \<open>The link of theory \<open>Reliable\<close> in both directions, and its quiet start.\<close>

definition link_ab :: "consoles \<Rightarrow> nat \<Rightarrow> nat \<Rightarrow> peer_link" where
  "link_ab J ka kb = \<lparr>l_env_a = e_io (j_env_a J), l_me_a = j_me_a J, l_ip_a = j_ip_a J, l_port_a = LdnControlPort, l_conn_a = ka,
     l_env_b = e_io (j_env_b J), l_me_b = j_me_b J, l_ip_b = j_ip_b J, l_port_b = LdnControlPort, l_conn_b = kb\<rparr>"

definition link_ba :: "consoles \<Rightarrow> nat \<Rightarrow> nat \<Rightarrow> peer_link" where
  "link_ba J ka kb = \<lparr>l_env_a = e_io (j_env_b J), l_me_a = j_me_b J, l_ip_a = j_ip_b J, l_port_a = LdnControlPort, l_conn_a = kb,
     l_env_b = e_io (j_env_a J), l_me_b = j_me_a J, l_ip_b = j_ip_a J, l_port_b = LdnControlPort, l_conn_b = ka\<rparr>"

definition quiet :: "vtcp \<Rightarrow> vtcp \<Rightarrow> duplex" where
  "quiet a b = \<lparr>d_a = a, d_b = b, d_sent = [], d_read = [], d_data = {}, d_acks = {}, d_gave_up = False, d_overlap = False\<rparr>"

section \<open>One packet\<close>

lemma drain_packet_built:
  assumes b: "BuildTcp h p = Some P" and on: "on_relay me ip s" and port: "th_dst_port h = LdnControlPort"
  shows "drain_packet env P s = HandleTcpSegment (e_io env) me ip (th_src_ip h) (th_src_port h) (th_seq h) (th_ack h) (th_flags h) p s"
proof -
  have "20 \<le> length P" using BuildTcp_length [OF b] by simp
  moreover have "P ! 9 = 6"
    using b by (auto simp: BuildTcp_def Let_def rd_simps ip_header_filled_def ip_header_def tcp_header_def split: if_splits)
  ultimately show ?thesis
    using ParseIpv4Tcp_BuildTcp [OF b] on port by (simp add: drain_packet_def on_relay_def tcp_view_of_def)
qed

lemma drain_packet_seg:
  assumes "carries h P" and "on_relay me ip s" and "th_dst_port h = LdnControlPort"
  shows "drain_packet env P s = HandleTcpSegment (e_io env) me ip (th_src_ip h) (th_src_port h) (th_seq h) (th_ack h) (th_flags h) [] s"
  using drain_packet_built assms unfolding carries_def by blast

lemma on_relay_vframe: "on_relay me ip s \<Longrightarrow> vframe s s' \<Longrightarrow> on_relay me ip s'"
  using bridge_more(3) [of s' s] by (simp add: on_relay_def vframe_def rx_eq_iff)

lemma packets_sent_refl [simp]: "packets_sent r r = {}"
  by (simp add: packets_sent_def)

lemma packets_sent_seg:
  assumes "m_connected (g_relay s)"
  shows "packets_sent (g_relay s) (g_relay (send_seg env h [] s)) = {P. carries h P}"
proof -
  obtain b where b: "BuildTcp h [] = Some b" using tcp.build_fits [of "[]" h] by (auto simp: cap_defs)
  have "length b \<le> RELAY_MTU" using BuildTcp_length [OF b] by (simp add: frag_consts)
  then have "sent_frames (g_relay s) (g_relay (send_seg env h [] s)) = [FrameIpv4 # b]"
    using assms b by (simp add: send_seg_def SendTcpSegment_def SendIpv4_def SendRaw_def sent_frames_def Let_def)
  then show ?thesis using b by (auto simp: packets_sent_def carries_def)
qed

section \<open>What is known in each phase\<close>

text \<open>How far the host is with this client: nothing yet; a pending entry with our number, the client's and whether
  the final acknowledgement came; a connection in a slot, with our number. The client has the host's number or not.\<close>

datatype phase = Fresh | Waiting u32 u32 bool | Joined nat u32

definition entry_for :: "consoles \<Rightarrow> u32 \<Rightarrow> u32 \<Rightarrow> bool \<Rightarrow> pending_accept" where
  "entry_for J ours i g = \<lparr>p_used = True, p_peer_ip = j_ip_a J, p_peer_port = LdnControlPort, p_our_isn = ours,
     p_their_isn = i, p_got_final_ack = g\<rparr>"

fun host_in :: "consoles \<Rightarrow> u32 \<Rightarrow> phase \<Rightarrow> bridge \<Rightarrow> bool" where
  "host_in J isn Fresh b \<longleftrightarrow> FindVTcpConnByPeer (j_me_b J) (j_ip_a J) b = None \<and> none_pending (j_ip_a J) (g_pending_accepts b)"
| "host_in J isn (Waiting ours i g) b \<longleftrightarrow> FindVTcpConnByPeer (j_me_b J) (j_ip_a J) b = None
     \<and> only_pending (j_ip_a J) (entry_for J ours i g) (g_pending_accepts b)"
| "host_in J isn (Joined kb ours) b \<longleftrightarrow> FindVTcpConnByPeer (j_me_b J) (j_ip_a J) b = Some kb
     \<and> none_pending (j_ip_a J) (g_pending_accepts b) \<and> c_established (conn_at kb b) \<and> c_peer_port (conn_at kb b) = LdnControlPort
     \<and> c_our_seq (conn_at kb b) = ours + 1 \<and> c_their_seq (conn_at kb b) = isn + 1
     \<and> c_inbox (conn_at kb b) = [] \<and> \<not> c_has_unacked_data (conn_at kb b)"

definition client_in :: "consoles \<Rightarrow> u32 \<Rightarrow> nat \<Rightarrow> u32 option \<Rightarrow> bridge \<Rightarrow> bool" where
  "client_in J isn ka known a \<longleftrightarrow> FindVTcpConnByPeer (j_me_a J) (j_ip_b J) a = Some ka
     \<and> none_pending (j_ip_b J) (g_pending_accepts a) \<and> c_peer_port (conn_at ka a) = LdnControlPort \<and> c_inbox (conn_at ka a) = [] \<and> \<not> c_has_unacked_data (conn_at ka a)
     \<and> (case known of
          None \<Rightarrow> c_syn_sent_awaiting_synack (conn_at ka a) \<and> \<not> c_established (conn_at ka a) \<and> c_our_isn (conn_at ka a) = isn
        | Some ours \<Rightarrow> \<not> c_syn_sent_awaiting_synack (conn_at ka a) \<and> c_established (conn_at ka a)
            \<and> c_our_seq (conn_at ka a) = isn + 1 \<and> c_their_seq (conn_at ka a) = ours + 1)"

text \<open>The host's number that a client may learn, and the agreement of the two sides.\<close>

fun answered :: "u32 \<Rightarrow> phase \<Rightarrow> u32 option" where
  "answered isn Fresh = None"
| "answered isn (Waiting ours i g) = (if i = isn then Some ours else None)"
| "answered isn (Joined kb ours) = Some ours"

fun final_seen :: "phase \<Rightarrow> bool" where
  "final_seen Fresh = False"
| "final_seen (Waiting ours i g) = g"
| "final_seen (Joined kb ours) = True"

definition join_inv :: "consoles \<Rightarrow> u32 \<Rightarrow> nat \<Rightarrow> phase \<Rightarrow> u32 option \<Rightarrow> joining \<Rightarrow> bool" where
  "join_inv J isn ka ph known s \<longleftrightarrow>
     on_relay (j_me_a J) (j_ip_a J) (j_a s) \<and> on_relay (j_me_b J) (j_ip_b J) (j_b s)
     \<and> client_in J isn ka known (j_a s) \<and> host_in J isn ph (j_b s)
     \<and> (known \<noteq> None \<longrightarrow> known = answered isn ph) \<and> (final_seen ph \<longrightarrow> known \<noteq> None)
     \<and> (\<forall>P \<in> j_to_b s. (\<exists>i. carries (syn_seg J i) P)
          \<or> (\<exists>ours. known = Some ours \<and> carries (ack_seg J (isn + 1) (ours + 1)) P))
     \<and> (\<forall>P \<in> j_to_a s. (\<exists>q ak. ak \<noteq> isn + 1 \<and> carries (syn_ack_seg J q ak) P)
          \<or> (\<exists>ours. answered isn ph = Some ours \<and> carries (syn_ack_seg J ours (isn + 1)) P))"

lemma join_invD:
  assumes "join_inv J isn ka ph known s"
  shows "on_relay (j_me_a J) (j_ip_a J) (j_a s)" and "on_relay (j_me_b J) (j_ip_b J) (j_b s)"
    and "client_in J isn ka known (j_a s)" and "host_in J isn ph (j_b s)"
    and "known = Some ours \<Longrightarrow> answered isn ph = Some ours" and "final_seen ph \<Longrightarrow> known \<noteq> None"
    and "m_connected (g_relay (j_a s))" and "m_connected (g_relay (j_b s))"
  using assms by (simp_all add: join_inv_def on_relay_def)

lemma join_inv_start: "join_start J isn ka s \<Longrightarrow> join_inv J isn ka Fresh None s"
  by (simp add: join_start_def join_inv_def client_in_def)

section \<open>The host\<close>

lemma first_idx_set_new:
  "first_idx P xs = None \<Longrightarrow> k < length xs \<Longrightarrow> P y \<Longrightarrow> first_idx P (xs[k := y]) = Some k"
  by (auto simp: first_idx_None_iff first_idx_Some_iff nth_list_update)

lemma first_idx_set_other:
  "\<not> P y \<Longrightarrow> (k < length xs \<Longrightarrow> \<not> P (xs ! k)) \<Longrightarrow> first_idx P (xs[k := y]) = first_idx P xs"
  by (induction xs arbitrary: k) (auto split: nat.split)

lemma only_pending_new:
  "none_pending ip ps \<Longrightarrow> j < length ps \<Longrightarrow> p_used p \<Longrightarrow> p_peer_ip p = ip \<Longrightarrow> only_pending ip p (ps[j := p])"
  by (auto simp: none_pending_def only_pending_def intro!: exI [of _ j])

lemma only_pending_in: "only_pending ip p ps \<Longrightarrow> p \<in> set ps \<and> p_used p \<and> p_peer_ip p = ip"
  by (auto simp: only_pending_def dest: nth_mem)

lemma only_pending_unique: "only_pending ip p ps \<Longrightarrow> x \<in> set ps \<Longrightarrow> p_used x \<Longrightarrow> p_peer_ip x = ip \<Longrightarrow> x = p"
  by (auto simp: only_pending_def in_set_conv_nth)

lemma only_pending_take:
  assumes only: "only_pending ip p ps" and j: "j < length ps" "ps ! j = p"
  shows "none_pending ip (ps[j := p\<lparr>p_used := False\<rparr>])"
proof -
  obtain m where m: "p_used p" "p_peer_ip p = ip" "\<And>i. i < length ps \<Longrightarrow> i \<noteq> m \<Longrightarrow> p_used (ps ! i) \<Longrightarrow> p_peer_ip (ps ! i) \<noteq> ip"
    using only by (auto simp: only_pending_def)
  then have "m = j" using j by blast
  show ?thesis unfolding none_pending_def
  proof (intro ballI impI)
    fix x assume "x \<in> set (ps[j := p\<lparr>p_used := False\<rparr>])" and used: "p_used x"
    then obtain i where i: "i < length ps" "x = ps[j := p\<lparr>p_used := False\<rparr>] ! i" by (auto simp: in_set_conv_nth)
    then have "i \<noteq> j" using used by auto
    then show "p_peer_ip x \<noteq> ip" using m(3) i used \<open>m = j\<close> by simp
  qed
qed

lemma handle_syn_at:
  assumes "FindVTcpConnByPeer me src s = None" and "none_pending src (g_pending_accepts s)"
    and k: "first_idx (\<lambda>p. \<not> p_used p) (g_pending_accepts s) = Some k"
    and ours: "ours = e_random env (g_random_draws s)"
  shows "HandleTcpSegment env me ip src port i 0 TCP_SYN [] s =
     send_seg env (seg ip src port ours (i + 1) (TCP_SYN OR TCP_ACK)) []
       (s\<lparr>g_random_draws := g_random_draws s + 1, g_pending_accepts := (g_pending_accepts s)[k :=
          \<lparr>p_used = True, p_peer_ip = src, p_peer_port = port, p_our_isn = ours, p_their_isn = i, p_got_final_ack = False\<rparr>]\<rparr>)"
  using assms by (auto simp: HandleTcpSegment_def Let_def flag_cases handle_syn_def draw_random_def none_pending_def)

lemma handle_syn_ignored:
  assumes "FindVTcpConnByPeer me src s \<noteq> None \<or> (\<exists>p \<in> set (g_pending_accepts s). p_used p \<and> p_peer_ip p = src)
     \<or> first_idx (\<lambda>p. \<not> p_used p) (g_pending_accepts s) = None"
  shows "HandleTcpSegment env me ip src port i ak TCP_SYN [] s = s"
  using assms by (auto simp: HandleTcpSegment_def Let_def flag_cases handle_syn_def)

lemma handle_final_ack_at:
  assumes only: "only_pending src p (g_pending_accepts s)" and new: "FindVTcpConnByPeer me src s = None" and ak: "ak = p_our_isn p + 1"
  shows "\<exists>j < length (g_pending_accepts s). g_pending_accepts s ! j = p
     \<and> HandleTcpSegment env me ip src port i ak TCP_ACK [] s
        = s\<lparr>g_pending_accepts := (g_pending_accepts s)[j := p\<lparr>p_got_final_ack := True\<rparr>]\<rparr>
     \<and> only_pending src (p\<lparr>p_got_final_ack := True\<rparr>) ((g_pending_accepts s)[j := p\<lparr>p_got_final_ack := True\<rparr>])"
proof -
  let ?Q = "\<lambda>p. p_used p \<and> p_peer_ip p = src \<and> \<not> p_got_final_ack p \<and> ak = p_our_isn p + 1"
  obtain j where j: "j < length (g_pending_accepts s)" "g_pending_accepts s ! j = p" "p_used p" "p_peer_ip p = src"
    and other: "\<And>i. i < length (g_pending_accepts s) \<Longrightarrow> i \<noteq> j \<Longrightarrow> p_used (g_pending_accepts s ! i) \<Longrightarrow> p_peer_ip (g_pending_accepts s ! i) \<noteq> src"
    using only by (auto simp: only_pending_def)
  have step: "HandleTcpSegment env me ip src port i ak TCP_ACK [] s = handle_ack env ip src port i ak [] None s"
    using new by (simp add: HandleTcpSegment_def Let_def flag_cases)
  have o: "only_pending src (p\<lparr>p_got_final_ack := True\<rparr>) ((g_pending_accepts s)[j := p\<lparr>p_got_final_ack := True\<rparr>])"
    using j other by (auto simp: only_pending_def intro!: exI [of _ j])
  have "HandleTcpSegment env me ip src port i ak TCP_ACK [] s
      = s\<lparr>g_pending_accepts := (g_pending_accepts s)[j := p\<lparr>p_got_final_ack := True\<rparr>]\<rparr>"
  proof (cases "p_got_final_ack p")
    case True
    then have "first_idx ?Q (g_pending_accepts s) = None"
      using True only_pending_unique [OF only] by (auto simp: first_idx_None_iff)
    then have "HandleTcpSegment env me ip src port i ak TCP_ACK [] s = s" by (simp add: step handle_ack_def)
    moreover have "p\<lparr>p_got_final_ack := True\<rparr> = p" using True by (cases p) simp
    ultimately show ?thesis using j(2) by (metis list_update_id vtcp.surjective vtcp.update_convs(5))
  next
    case False
    then have "first_idx ?Q (g_pending_accepts s) = Some j"
      using j other ak False unfolding first_idx_Some_iff by (metis order.strict_trans less_irrefl)
    then show ?thesis using j(2) by (simp add: step handle_ack_def)
  qed
  then show ?thesis using j(1,2) o by blast
qed

lemma handle_ack_idle:
  assumes k: "FindVTcpConnByPeer me src s = Some k" and np: "none_pending src (g_pending_accepts s)" and idle: "\<not> c_has_unacked_data (conn_at k s)"
  shows "HandleTcpSegment env me ip src port i ak TCP_ACK [] s = s"
  using data_segment_step [OF k, of TCP_ACK] np idle flag_cases(8-11)
  by (simp add: none_pending_def handle_data_def Let_def)

text \<open>\<open>Accept\<close> takes one entry whose final acknowledgement came, of this client or of another.\<close>

lemma accept_tables:
  assumes "accept_scan (length (g_pending_accepts b)) 0 me b = Some (k, b')"
  obtains j fd where "j < length (g_pending_accepts b)" "p_used (g_pending_accepts b ! j)" "p_got_final_ack (g_pending_accepts b ! j)"
    and "g_active_ldn_instance b = Some me" "k < length (g_vtcp_conns b)" "\<not> c_used (g_vtcp_conns b ! k)"
    and "g_vtcp_conns b' = (g_vtcp_conns b)[k := accept_conn (g_pending_accepts b ! j) fd]" "g_active_ldn_instance b' = Some me"
    and "g_pending_accepts b' = (g_pending_accepts b)[j := (g_pending_accepts b ! j)\<lparr>p_used := False\<rparr>]"
    and "\<And>ip. on_relay me ip b' = on_relay me ip b"
proof -
  obtain j where j: "j < length (g_pending_accepts b)" "p_used (g_pending_accepts b ! j)" "p_got_final_ack (g_pending_accepts b ! j)"
    and alloc: "AllocVTcpConn me b = Some (k, upd_conn k (\<lambda>c. vtcp_conn_init\<lparr>c_used := True\<rparr>) b)"
    and b': "b' = (upd_conn k (\<lambda>c. accept_conn (g_pending_accepts b ! j) (g_next_synthetic_fd b)) b)
        \<lparr>g_pending_accepts := (g_pending_accepts b)[j := (g_pending_accepts b ! j)\<lparr>p_used := False\<rparr>],
         g_next_synthetic_fd := g_next_synthetic_fd b + 1\<rparr>"
    using accept_scan_Some [OF assms] by auto
  note aD = alloc_SomeD [OF alloc]
  show ?thesis
    by (rule that [OF j, where fd = "g_next_synthetic_fd b"])
      (use aD in \<open>simp_all add: conn_at_def b' on_relay_def upd_conn_def\<close>)
qed

text \<open>In the table: the entry of another client goes, and the one this client has is still the only one.\<close>

lemma only_pending_keep:
  assumes only: "only_pending ip p ps" and j: "j < length ps" "p_peer_ip (ps ! j) \<noteq> ip"
  shows "only_pending ip p (ps[j := (ps ! j)\<lparr>p_used := False\<rparr>])"
proof -
  obtain m where m: "m < length ps" "ps ! m = p" "p_used p" "p_peer_ip p = ip"
    "\<And>n. n < length ps \<Longrightarrow> n \<noteq> m \<Longrightarrow> p_used (ps ! n) \<Longrightarrow> p_peer_ip (ps ! n) \<noteq> ip"
    using only by (auto simp: only_pending_def)
  then have "m \<noteq> j" using j by auto
  then show ?thesis using m j(1) by (auto simp: only_pending_def nth_list_update intro!: exI [of _ m])
qed

lemma none_pending_take: "none_pending ip ps \<Longrightarrow> none_pending ip (ps[j := p\<lparr>p_used := False\<rparr>])"
  by (auto simp: none_pending_def dest!: set_list_update_cases)

lemma accept_host:
  assumes h: "host_in J isn ph b" and a: "accept_scan (length (g_pending_accepts b)) 0 (j_me_b J) b = Some (k, b')"
    and same: "\<And>ours i g. ph = Waiting ours i g \<Longrightarrow> g \<Longrightarrow> i = isn"
  shows "\<exists>ph'. host_in J isn ph' b' \<and> answered isn ph' = answered isn ph \<and> final_seen ph' = final_seen ph"
proof -
  let ?ip = "j_ip_a J" and ?ps = "g_pending_accepts b"
  from a obtain j fd where j: "j < length ?ps" "p_used (?ps ! j)" "p_got_final_ack (?ps ! j)"
    and own: "g_active_ldn_instance b = Some (j_me_b J)" "k < length (g_vtcp_conns b)" "\<not> c_used (g_vtcp_conns b ! k)"
    and tab: "g_vtcp_conns b' = (g_vtcp_conns b)[k := accept_conn (?ps ! j) fd]" "g_active_ldn_instance b' = Some (j_me_b J)"
    and ps': "g_pending_accepts b' = ?ps[j := (?ps ! j)\<lparr>p_used := False\<rparr>]" by (rule accept_tables)
  have at: "conn_at i b' = (if i = k then accept_conn (?ps ! j) fd else conn_at i b)" for i
    using own(2) by (simp add: tab conn_at_def)
  show ?thesis
  proof (cases "p_peer_ip (?ps ! j) = ?ip")
    case False
    then have find: "FindVTcpConnByPeer (j_me_b J) ?ip b' = FindVTcpConnByPeer (j_me_b J) ?ip b"
      using own by (simp add: FindVTcpConnByPeer_def tab first_idx_set_other)
    have "kb \<noteq> k" if "FindVTcpConnByPeer (j_me_b J) ?ip b = Some kb" for kb
      using find_peer_SomeD [OF that] own(3) by (auto simp: conn_at_def)
    then have "host_in J isn ph b'"
      using h find False j(1) by (cases ph) (simp_all add: at ps' none_pending_take only_pending_keep)
    then show ?thesis by blast
  next
    case True
    have "\<not> none_pending ?ip ?ps" using True j nth_mem unfolding none_pending_def by blast
    then obtain ours i g where w: "ph = Waiting ours i g" using h by (cases ph) auto
    then have only: "only_pending ?ip (entry_for J ours i g) ?ps" and new: "FindVTcpConnByPeer (j_me_b J) ?ip b = None" using h by simp_all
    have p: "?ps ! j = entry_for J ours i g" using only_pending_unique [OF only] j True by simp
    then have g: g using j(3) by (simp add: entry_for_def)
    then have i: "i = isn" using same w by blast
    have "none_pending ?ip (g_pending_accepts b')" using only_pending_take [OF only j(1) p] by (simp add: ps' p)
    moreover have "FindVTcpConnByPeer (j_me_b J) ?ip b' = Some k"
      using new own True by (simp add: FindVTcpConnByPeer_def tab first_idx_set_new)
    ultimately have "host_in J isn (Joined k ours) b'" by (simp add: at p entry_for_def i)
    then show ?thesis using w g i by (intro exI [of _ "Joined k ours"]) simp
  qed
qed

lemma on_relay_segment: "on_relay me ip s \<Longrightarrow> on_relay me ip (HandleTcpSegment env me' ip' src port q ak f p s)"
  using on_relay_vframe HandleTcpSegment_vframe by blast

text \<open>A SYN and a final acknowledgement at the host.\<close>

lemma syn_at_host:
  assumes h: "host_in J isn ph b" and up: "m_connected (g_relay b)"
    and b': "b' = HandleTcpSegment env (j_me_b J) (j_ip_b J) (j_ip_a J) LdnControlPort i 0 TCP_SYN [] b"
  shows "b' = b \<and> (ph = Fresh \<longrightarrow> (\<forall>p \<in> set (g_pending_accepts b). p_used p))
     \<or> (ph = Fresh \<and> (\<exists>ours k. host_in J isn (Waiting ours i False) b' \<and> g_vtcp_conns b' = g_vtcp_conns b
         \<and> k < length (g_pending_accepts b) \<and> g_pending_accepts b' = (g_pending_accepts b)[k := entry_for J ours i False]
         \<and> packets_sent (g_relay b) (g_relay b') = {P. carries (syn_ack_seg J ours (i + 1)) P}))"
proof (cases ph)
  case Fresh
  then have new: "FindVTcpConnByPeer (j_me_b J) (j_ip_a J) b = None" and np: "none_pending (j_ip_a J) (g_pending_accepts b)"
    using h by simp_all
  show ?thesis
  proof (cases "first_idx (\<lambda>p. \<not> p_used p) (g_pending_accepts b)")
    case None
    then show ?thesis using handle_syn_ignored [of "j_me_b J" "j_ip_a J" b] by (simp add: b' first_idx_None_iff)
  next
    case (Some k)
    define ours where "ours = e_random env (g_random_draws b)"
    define b0 where "b0 = b\<lparr>g_random_draws := g_random_draws b + 1, g_pending_accepts := (g_pending_accepts b)[k := entry_for J ours i False]\<rparr>"
    have eq: "b' = send_seg env (syn_ack_seg J ours (i + 1)) [] b0"
      unfolding b' handle_syn_at [OF new np Some ours_def] b0_def entry_for_def ..
    have k: "k < length (g_pending_accepts b)" using Some by (simp add: first_idx_Some_iff)
    have tabs: "g_pending_accepts b' = (g_pending_accepts b)[k := entry_for J ours i False]" "g_vtcp_conns b' = g_vtcp_conns b"
      by (simp_all add: eq b0_def)
    have "only_pending (j_ip_a J) (entry_for J ours i False) (g_pending_accepts b')"
      using only_pending_new [OF np k] by (simp add: tabs entry_for_def)
    moreover have "FindVTcpConnByPeer (j_me_b J) (j_ip_a J) b' = None"
      using new find_peer_cong [of b' b] by (simp add: eq b0_def)
    moreover have "packets_sent (g_relay b) (g_relay b') = {P. carries (syn_ack_seg J ours (i + 1)) P}"
      using packets_sent_seg [of b0 env "syn_ack_seg J ours (i + 1)"] up by (simp add: eq b0_def)
    ultimately have "host_in J isn (Waiting ours i False) b' \<and> packets_sent (g_relay b) (g_relay b') = {P. carries (syn_ack_seg J ours (i + 1)) P}"
      by simp
    then show ?thesis using Fresh tabs k by blast
  qed
next
  case (Waiting ours0 i0 g)
  then have "b' = b" using h only_pending_in handle_syn_ignored unfolding b' by (metis host_in.simps(2))
  then show ?thesis using Waiting by simp
next
  case (Joined kb ours0)
  then show ?thesis using h handle_syn_ignored [of "j_me_b J" "j_ip_a J" b] by (simp add: b')
qed

lemma final_ack_at_host:
  assumes h: "host_in J isn ph b" and ans: "answered isn ph = Some ours"
    and b': "b' = HandleTcpSegment env (j_me_b J) (j_ip_b J) (j_ip_a J) LdnControlPort q (ours + 1) TCP_ACK [] b"
  shows "\<exists>ph'. host_in J isn ph' b' \<and> answered isn ph' = Some ours \<and> final_seen ph' \<and> g_relay b' = g_relay b
     \<and> g_vtcp_conns b' = g_vtcp_conns b
     \<and> (g_pending_accepts b' = g_pending_accepts b \<or> (\<exists>j g. j < length (g_pending_accepts b) \<and> g_pending_accepts b ! j = entry_for J ours isn g
          \<and> g_pending_accepts b' = (g_pending_accepts b)[j := entry_for J ours isn True]))"
proof (cases ph)
  case Fresh
  then show ?thesis using ans by simp
next
  case (Waiting ours0 i g)
  then have w: "ours0 = ours" "i = isn" using ans by (simp_all split: if_splits)
  have new: "FindVTcpConnByPeer (j_me_b J) (j_ip_a J) b = None"
    and only: "only_pending (j_ip_a J) (entry_for J ours isn g) (g_pending_accepts b)" using h Waiting w by simp_all
  have e: "(entry_for J ours isn g)\<lparr>p_got_final_ack := True\<rparr> = entry_for J ours isn True" by (simp add: entry_for_def)
  obtain j where j: "j < length (g_pending_accepts b)" "g_pending_accepts b ! j = entry_for J ours isn g"
      "b' = b\<lparr>g_pending_accepts := (g_pending_accepts b)[j := entry_for J ours isn True]\<rparr>"
      "only_pending (j_ip_a J) (entry_for J ours isn True) ((g_pending_accepts b)[j := entry_for J ours isn True])"
    using handle_final_ack_at [OF only new, where ak = "ours + 1" and env = "env" and ip = "j_ip_b J" and port = LdnControlPort and i = q]
    unfolding b' e by (auto simp: entry_for_def [of J ours isn g])
  have "host_in J isn (Waiting ours isn True) b'" using j new find_peer_cong [of b' b] by simp
  then show ?thesis using j by (intro exI [of _ "Waiting ours isn True"]) auto
next
  case (Joined kb ours0)
  then have "b' = b" using h handle_ack_idle [of "j_me_b J" "j_ip_a J" b kb] by (simp add: b')
  then show ?thesis using h ans Joined by (intro exI [of _ ph]) simp
qed

section \<open>The client\<close>

lemma handle_syn_ack_at:
  assumes k: "FindVTcpConnByPeer me src s = Some k" and np: "c_syn_sent_awaiting_synack (conn_at k s) \<and> ak = c_our_isn (conn_at k s) + 1"
  shows "HandleTcpSegment env me ip src port q ak (TCP_SYN OR TCP_ACK) [] s =
     send_seg env (seg ip src port ak (q + 1) TCP_ACK) [] (upd_conn k (\<lambda>c. c\<lparr>c_their_seq := q + 1, c_our_seq := c_our_isn c + 1,
        c_syn_sent_awaiting_synack := False, c_established := True\<rparr>) s)"
  using find_peer_SomeD [OF k] k np by (simp add: HandleTcpSegment_def Let_def flag_cases handle_syn_ack_def conn_at_upd)

lemma handle_syn_ack_ignored:
  assumes "FindVTcpConnByPeer me src s = Some k"
    and "\<not> (c_syn_sent_awaiting_synack (conn_at k s) \<and> ak = c_our_isn (conn_at k s) + 1)"
  shows "HandleTcpSegment env me ip src port q ak (TCP_SYN OR TCP_ACK) [] s = s"
  using assms by (auto simp: HandleTcpSegment_def Let_def flag_cases handle_syn_ack_def)

lemma syn_ack_at_client:
  assumes c: "client_in J isn ka known a" and up: "m_connected (g_relay a)"
    and a': "a' = HandleTcpSegment env (j_me_a J) (j_ip_a J) (j_ip_b J) LdnControlPort q ak (TCP_SYN OR TCP_ACK) [] a"
  shows "if known = None \<and> ak = isn + 1
     then client_in J isn ka (Some q) a' \<and> packets_sent (g_relay a) (g_relay a') = {P. carries (ack_seg J (isn + 1) (q + 1)) P}
     else a' = a"
proof -
  let ?f = "\<lambda>c. c\<lparr>c_their_seq := q + 1, c_our_seq := c_our_isn c + 1, c_syn_sent_awaiting_synack := False, c_established := True\<rparr>"
  have k: "FindVTcpConnByPeer (j_me_a J) (j_ip_b J) a = Some ka" using c by (simp add: client_in_def)
  show ?thesis
  proof (cases "known = None \<and> ak = isn + 1")
    case True
    then have w: "c_syn_sent_awaiting_synack (conn_at ka a) \<and> ak = c_our_isn (conn_at ka a) + 1" using c by (simp add: client_in_def)
    have eq: "a' = send_seg env (ack_seg J ak (q + 1)) [] (upd_conn ka ?f a)"
      unfolding a' by (rule handle_syn_ack_at [OF k w])
    have "conn_at ka a' = ?f (conn_at ka a)" using find_peer_SomeD [OF k] by (simp add: eq conn_at_upd)
    moreover have "FindVTcpConnByPeer (j_me_a J) (j_ip_b J) a' = Some ka" using k find_peer_cong [of a' a] by (simp add: eq)
    ultimately have "client_in J isn ka (Some q) a'" using c True by (simp add: client_in_def eq)
    moreover have "packets_sent (g_relay a) (g_relay a') = {P. carries (ack_seg J (isn + 1) (q + 1)) P}"
      using packets_sent_seg [of "upd_conn ka ?f a" env "ack_seg J ak (q + 1)"] up True by (simp add: eq)
    ultimately show ?thesis using True by simp
  next
    case False
    then have "\<not> (c_syn_sent_awaiting_synack (conn_at ka a) \<and> ak = c_our_isn (conn_at ka a) + 1)"
      using c by (cases known) (auto simp: client_in_def)
    then have "a' = a" unfolding a' by (rule handle_syn_ack_ignored [OF k])
    then show ?thesis unfolding if_not_P [OF False] .
  qed
qed

section \<open>Every step\<close>

text \<open>What arrives at the host, and the state it leads to.\<close>

lemma to_host_cases:
  assumes I: "join_inv J isn ka ph known s" and P: "P \<in> j_to_b s" and b': "b' = drain_packet (j_env_b J) P (j_b s)"
  obtains (syn) i where "carries (syn_seg J i) P" and "on_relay (j_me_b J) (j_ip_b J) b'"
      and "g_active_ldn_instance b' = g_active_ldn_instance (j_b s)"
      and "b' = HandleTcpSegment (e_io (j_env_b J)) (j_me_b J) (j_ip_b J) (j_ip_a J) LdnControlPort i 0 TCP_SYN [] (j_b s)"
    | (ack) ours where "known = Some ours" and "answered isn ph = Some ours" and "on_relay (j_me_b J) (j_ip_b J) b'"
      and "g_active_ldn_instance b' = g_active_ldn_instance (j_b s)"
      and "b' = HandleTcpSegment (e_io (j_env_b J)) (j_me_b J) (j_ip_b J) (j_ip_a J) LdnControlPort (isn + 1) (ours + 1) TCP_ACK [] (j_b s)"
proof -
  note on = join_invD(2) [OF I]
  from I P consider (s) i where "carries (syn_seg J i) P"
    | (a) ours where "known = Some ours" "carries (ack_seg J (isn + 1) (ours + 1)) P"
    unfolding join_inv_def by blast
  then show ?thesis
  proof cases
    case s
    have eq: "b' = HandleTcpSegment (e_io (j_env_b J)) (j_me_b J) (j_ip_b J) (j_ip_a J) LdnControlPort i 0 TCP_SYN [] (j_b s)"
      using drain_packet_seg [OF s on] by (simp add: b' seg_def)
    then show ?thesis by (intro syn [OF s _ _ eq]) (simp_all add: on_relay_segment [OF on])
  next
    case a
    have eq: "b' = HandleTcpSegment (e_io (j_env_b J)) (j_me_b J) (j_ip_b J) (j_ip_a J) LdnControlPort (isn + 1) (ours + 1) TCP_ACK [] (j_b s)"
      using drain_packet_seg [OF a(2) on] by (simp add: b' seg_def)
    then show ?thesis by (intro ack [OF a(1) join_invD(5) [OF I a(1)] _ _ eq]) (simp_all add: on_relay_segment [OF on])
  qed
qed

lemma to_host_keeps:
  assumes I: "join_inv J isn ka ph known s" and P: "P \<in> j_to_b s" and b': "b' = drain_packet (j_env_b J) P (j_b s)"
  shows "\<exists>ph'. join_inv J isn ka ph' known (s\<lparr>j_b := b', j_to_a := j_to_a s \<union> packets_sent (g_relay (j_b s)) (g_relay b')\<rparr>)"
  using I P b'
proof (cases rule: to_host_cases)
  case (syn i)
  note h = join_invD(4) [OF I] and up = join_invD(8) [OF I]
  from syn_at_host [OF h up syn(4)] consider "b' = j_b s"
    | ours where "ph = Fresh" "host_in J isn (Waiting ours i False) b'"
      "packets_sent (g_relay (j_b s)) (g_relay b') = {P. carries (syn_ack_seg J ours (i + 1)) P}" by blast
  then show ?thesis
  proof cases
    case 1
    then show ?thesis using I by (intro exI [of _ ph]) simp
  next
    case 2
    have new: "(\<exists>q ak. ak \<noteq> isn + 1 \<and> carries (syn_ack_seg J q ak) P)
        \<or> (\<exists>o'. answered isn (Waiting ours i False) = Some o' \<and> carries (syn_ack_seg J o' (isn + 1)) P)"
      if "carries (syn_ack_seg J ours (i + 1)) P" for P
      using that by (cases "i = isn") (simp, metis add_right_cancel)
    have "join_inv J isn ka (Waiting ours i False) known (s\<lparr>j_b := b', j_to_a := j_to_a s \<union> packets_sent (g_relay (j_b s)) (g_relay b')\<rparr>)"
      using I 2(1,2) syn(2) new unfolding join_inv_def 2(3) by (auto simp del: answered.simps(2))
    then show ?thesis by blast
  qed
next
  case (ack ours)
  from final_ack_at_host [OF join_invD(4) [OF I] ack(2,5)] obtain ph' where
    "host_in J isn ph' b'" "answered isn ph' = Some ours" "g_relay b' = g_relay (j_b s)" by blast
  then show ?thesis using I ack(1-3) by (intro exI [of _ ph']) (simp add: join_inv_def)
qed

lemma to_client_keeps:
  assumes I: "join_inv J isn ka ph known s" and P: "P \<in> j_to_a s" and a': "a' = drain_packet (j_env_a J) P (j_a s)"
  shows "\<exists>known'. join_inv J isn ka ph known' (s\<lparr>j_a := a', j_to_b := j_to_b s \<union> packets_sent (g_relay (j_a s)) (g_relay a')\<rparr>)"
proof -
  have on: "on_relay (j_me_a J) (j_ip_a J) (j_a s)" and c: "client_in J isn ka known (j_a s)" and up: "m_connected (g_relay (j_a s))"
    using I by (simp_all add: join_inv_def on_relay_def)
  obtain q ak where sa: "carries (syn_ack_seg J q ak) P" "ak = isn + 1 \<Longrightarrow> answered isn ph = Some q"
    using I P unfolding join_inv_def by blast
  have eq: "a' = HandleTcpSegment (e_io (j_env_a J)) (j_me_a J) (j_ip_a J) (j_ip_b J) LdnControlPort q ak (TCP_SYN OR TCP_ACK) [] (j_a s)"
    using drain_packet_seg [OF sa(1) on] by (simp add: a' seg_def)
  have on': "on_relay (j_me_a J) (j_ip_a J) a'" unfolding eq by (rule on_relay_segment [OF on])
  show ?thesis
  proof (cases "known = None \<and> ak = isn + 1")
    case True
    then have "client_in J isn ka (Some q) a'" "packets_sent (g_relay (j_a s)) (g_relay a') = {P. carries (ack_seg J (isn + 1) (q + 1)) P}"
      using syn_ack_at_client [OF c up eq] by simp_all
    then have "join_inv J isn ka ph (Some q) (s\<lparr>j_a := a', j_to_b := j_to_b s \<union> packets_sent (g_relay (j_a s)) (g_relay a')\<rparr>)"
      using I on' sa(2) True unfolding join_inv_def by auto
    then show ?thesis by blast
  next
    case False
    then have "a' = j_a s" using syn_ack_at_client [OF c up eq] by (simp split: if_splits)
    then show ?thesis using I by (intro exI [of _ known]) simp
  qed
qed

lemma accept_keeps:
  assumes I: "join_inv J isn ka ph known s" and a: "accept_scan (length (g_pending_accepts (j_b s))) 0 (j_me_b J) (j_b s) = Some (k, b')"
  shows "\<exists>ph'. join_inv J isn ka ph' known (s\<lparr>j_b := b'\<rparr>)"
proof -
  have i: "i = isn" if "ph = Waiting ours i g" g for ours i g
    using I that by (auto simp: join_inv_def split: if_splits)
  have "host_in J isn ph (j_b s)" using I by (simp add: join_inv_def)
  then obtain ph' where "host_in J isn ph' b'" "answered isn ph' = answered isn ph" "final_seen ph' = final_seen ph"
    using accept_host [OF _ a, of isn ph] i by blast
  moreover have "on_relay (j_me_b J) (j_ip_b J) b'"
    by (rule accept_tables [OF a]) (use I in \<open>simp add: join_inv_def\<close>)
  ultimately show ?thesis using I by (intro exI [of _ ph']) (simp add: join_inv_def)
qed

lemma join_step_keeps: "join_step J s s' \<Longrightarrow> join_inv J isn ka ph known s \<Longrightarrow> \<exists>ph' known'. join_inv J isn ka ph' known' s'"
proof (induction rule: join_step.cases)
  case (to_host P s b')
  then show ?case using to_host_keeps by blast
next
  case (to_client P s a')
  then show ?case using to_client_keeps by blast
next
  case (accept s k b')
  then show ?case using accept_keeps by blast
qed

lemma join_run_inv:
  "(join_step J)\<^sup>*\<^sup>* s0 s \<Longrightarrow> join_inv J isn ka ph0 known0 s0 \<Longrightarrow> \<exists>ph known. join_inv J isn ka ph known s"
proof (induction rule: rtranclp_induct)
  case (step s s')
  then show ?case using join_step_keeps by blast
qed blast

section \<open>Agreement\<close>

lemma find_truncate [simp]: "FindVTcpConnByPeer me ip (vtcp.truncate s) = FindVTcpConnByPeer me ip s"
  by (simp add: FindVTcpConnByPeer_def vtcp.truncate_def)

lemma at_truncate [simp]:
  "conn_at k (vtcp.truncate s) = conn_at k s" "g_pending_accepts (vtcp.truncate s) = g_pending_accepts s"
  by (simp_all add: conn_at_def vtcp.truncate_def)

text \<open>C14: Agreement: whatever the relay loses, repeats or reorders, and although SYNs and answers of earlier attempts may
  still arrive: a client that is established counts from one past its own initial number, and the host has a
  pending entry or a connection for it; and once the host has a connection for it, both ends are established with empty
  inboxes and nothing unacknowledged, and each expects the number the other will send next: the pair is a start of theory
  \<open>Reliable\<close> in both directions.\<close>

theorem handshake_agrees:
  assumes start: "join_start J isn ka s0" and run: "(join_step J)\<^sup>*\<^sup>* s0 s"
  shows "(c_established (conn_at ka (j_a s)) \<longrightarrow>
           c_our_seq (conn_at ka (j_a s)) = isn + 1
           \<and> (FindVTcpConnByPeer (j_me_b J) (j_ip_a J) (j_b s) \<noteq> None
              \<or> (\<exists>p \<in> set (g_pending_accepts (j_b s)). p_used p \<and> p_peer_ip p = j_ip_a J \<and> p_their_isn p = isn
                   \<and> p_our_isn p + 1 = c_their_seq (conn_at ka (j_a s)))))
     \<and> (\<forall>kb. FindVTcpConnByPeer (j_me_b J) (j_ip_a J) (j_b s) = Some kb \<longrightarrow>
           duplex_start (link_ab J ka kb) (vtcp.truncate (j_a s)) (vtcp.truncate (j_b s))
             (quiet (vtcp.truncate (j_a s)) (vtcp.truncate (j_b s)))
           \<and> duplex_start (link_ba J ka kb) (vtcp.truncate (j_b s)) (vtcp.truncate (j_a s))
             (quiet (vtcp.truncate (j_b s)) (vtcp.truncate (j_a s))))"
proof -
  obtain ph known where I: "join_inv J isn ka ph known s" using join_run_inv [OF run join_inv_start [OF start]] by blast
  then have C: "client_in J isn ka known (j_a s)" and H: "host_in J isn ph (j_b s)"
    and K: "known \<noteq> None \<longrightarrow> known = answered isn ph" "final_seen ph \<longrightarrow> known \<noteq> None" by (simp_all add: join_inv_def)
  show ?thesis
  proof (cases known)
    case None
    then show ?thesis using C H K by (cases ph) (simp_all add: client_in_def)
  next
    case (Some ours)
    with K(1) have "ph = Waiting ours isn (final_seen ph) \<or> (\<exists>kb. ph = Joined kb ours)" by (cases ph) (auto split: if_splits)
    then show ?thesis
    proof
      assume "ph = Waiting ours isn (final_seen ph)"
      then have W: "FindVTcpConnByPeer (j_me_b J) (j_ip_a J) (j_b s) = None"
        "only_pending (j_ip_a J) (entry_for J ours isn (final_seen ph)) (g_pending_accepts (j_b s))" using H by (metis host_in.simps(2))+
      then have "entry_for J ours isn (final_seen ph) \<in> set (g_pending_accepts (j_b s))" using only_pending_in by blast
      then show ?thesis using C W(1) Some by (force simp: client_in_def entry_for_def)
    next
      assume "\<exists>kb. ph = Joined kb ours"
      then show ?thesis using C H Some
        by (auto simp: client_in_def duplex_start_def peers_up_def link_ab_def link_ba_def quiet_def none_pending_def)
    qed
  qed
qed

section \<open>Progress\<close>

text \<open>What a relay that loses nothing for good makes possible: the SYNs are all of this attempt, whatever was
  sent can still arrive, and the host has room in both tables.\<close>

definition entry_live :: "consoles \<Rightarrow> u32 \<Rightarrow> u8 list set \<Rightarrow> pending_accept \<Rightarrow> bool" where
  "entry_live J isn to_a p \<longleftrightarrow> (p_used p \<longrightarrow>
     (if p_peer_ip p = j_ip_a J then p_their_isn p = isn \<and> (\<exists>P \<in> to_a. carries (syn_ack_seg J (p_our_isn p) (isn + 1)) P)
      else \<not> p_got_final_ack p))"

definition host_room :: "consoles \<Rightarrow> bridge \<Rightarrow> bool" where
  "host_room J b \<longleftrightarrow> (FindVTcpConnByPeer (j_me_b J) (j_ip_a J) b = None \<longrightarrow>
     (\<exists>c \<in> set (g_vtcp_conns b). \<not> c_used c)
     \<and> (none_pending (j_ip_a J) (g_pending_accepts b) \<longrightarrow> (\<exists>p \<in> set (g_pending_accepts b). \<not> p_used p)))"

definition join_live :: "consoles \<Rightarrow> u32 \<Rightarrow> nat \<Rightarrow> joining \<Rightarrow> bool" where
  "join_live J isn ka s \<longleftrightarrow>
     (\<exists>P \<in> j_to_b s. carries (syn_seg J isn) P) \<and> (\<forall>P \<in> j_to_b s. \<forall>i. carries (syn_seg J i) P \<longrightarrow> i = isn)
     \<and> (\<forall>p \<in> set (g_pending_accepts (j_b s)). entry_live J isn (j_to_a s) p) \<and> host_room J (j_b s)
     \<and> (c_established (conn_at ka (j_a s)) \<longrightarrow> (\<exists>P \<in> j_to_b s. carries (ack_seg J (isn + 1) (c_their_seq (conn_at ka (j_a s)))) P))"

lemma entry_live_mono: "entry_live J isn T p \<Longrightarrow> T \<subseteq> T' \<Longrightarrow> entry_live J isn T' p"
  unfolding entry_live_def by (metis subsetD)

lemma entries_live_set:
  "\<forall>p \<in> set ps. entry_live J isn T p \<Longrightarrow> T \<subseteq> T' \<Longrightarrow> entry_live J isn T' y \<Longrightarrow> \<forall>p \<in> set (ps[k := y]). entry_live J isn T' p"
  using entry_live_mono by (metis set_list_update_cases)

lemma host_room_keep:
  assumes "host_room J b" and "g_vtcp_conns b' = g_vtcp_conns b" and "g_active_ldn_instance b' = g_active_ldn_instance b"
    and h: "host_in J isn ph' b'" and ph: "ph' \<noteq> Fresh"
  shows "host_room J b'"
proof -
  have "FindVTcpConnByPeer (j_me_b J) (j_ip_a J) b' = FindVTcpConnByPeer (j_me_b J) (j_ip_a J) b"
    using assms(2,3) by (simp add: FindVTcpConnByPeer_def)
  moreover have "\<not> none_pending (j_ip_a J) (g_pending_accepts b')" if "FindVTcpConnByPeer (j_me_b J) (j_ip_a J) b' = None"
    using h ph that only_pending_in by (cases ph') (auto simp: none_pending_def entry_for_def dest!: only_pending_in)
  ultimately show ?thesis using assms(1,2) by (auto simp: host_room_def)
qed

lemma carries_ex: "\<exists>P. carries h P"
  using tcp.build_fits [of "[]" h] by (auto simp: carries_def cap_defs)

lemma carries_unique: "carries h P \<Longrightarrow> carries h' P \<Longrightarrow> tcp_view_of h = tcp_view_of h'"
  using ParseIpv4Tcp_BuildTcp [of h "[]" P] ParseIpv4Tcp_BuildTcp [of h' "[]" P] by (simp add: carries_def)

lemma ack_not_syn: "carries (ack_seg J q ak) P \<Longrightarrow> \<not> carries (syn_seg J i) P"
  using carries_unique [of "ack_seg J q ak" P "syn_seg J i"] by (auto simp: tcp_view_of_def seg_def tcp_flag_defs)

text \<open>An update of the host's table of entries.\<close>

lemma live_host_update:
  assumes L: "join_live J isn ka s" and conns: "g_vtcp_conns b' = g_vtcp_conns (j_b s)"
    and own: "g_active_ldn_instance b' = g_active_ldn_instance (j_b s)"
    and h: "host_in J isn ph' b'" and ph: "ph' \<noteq> Fresh"
    and ps: "g_pending_accepts b' = (g_pending_accepts (j_b s))[k := p]" and p: "entry_live J isn (j_to_a s \<union> T) p"
  shows "join_live J isn ka (s\<lparr>j_b := b', j_to_a := j_to_a s \<union> T\<rparr>)"
proof -
  have "\<forall>p \<in> set (g_pending_accepts b'). entry_live J isn (j_to_a s \<union> T) p"
    unfolding ps by (rule entries_live_set [OF _ _ p, of _ "j_to_a s"]) (use L in \<open>simp_all add: join_live_def\<close>)
  moreover have "host_room J b'" using host_room_keep [OF _ conns own h ph] L by (simp add: join_live_def)
  ultimately show ?thesis using L by (simp add: join_live_def)
qed

lemma live_to_host:
  assumes I: "join_inv J isn ka ph known s" and L: "join_live J isn ka s"
    and P: "P \<in> j_to_b s" and b': "b' = drain_packet (j_env_b J) P (j_b s)"
  shows "join_live J isn ka (s\<lparr>j_b := b', j_to_a := j_to_a s \<union> packets_sent (g_relay (j_b s)) (g_relay b')\<rparr>)"
  using I P b'
proof (cases rule: to_host_cases)
  case (syn i)
  then have i: "i = isn" using L P by (auto simp: join_live_def)
  from syn_at_host [OF join_invD(4,8) [OF I] syn(4)] consider "b' = j_b s"
    | ours k where "host_in J isn (Waiting ours i False) b'" "g_vtcp_conns b' = g_vtcp_conns (j_b s)"
      "g_pending_accepts b' = (g_pending_accepts (j_b s))[k := entry_for J ours i False]"
      "packets_sent (g_relay (j_b s)) (g_relay b') = {P. carries (syn_ack_seg J ours (i + 1)) P}" by blast
  then show ?thesis
  proof cases
    case 1
    then show ?thesis using L by simp
  next
    case 2
    have "entry_live J isn (j_to_a s \<union> packets_sent (g_relay (j_b s)) (g_relay b')) (entry_for J ours i False)"
      using carries_ex [of "syn_ack_seg J ours (isn + 1)"] by (auto simp: entry_live_def entry_for_def 2(4) i)
    from live_host_update [OF L 2(2) syn(3) 2(1) _ 2(3) this] show ?thesis by simp
  qed
next
  case (ack ours)
  obtain ph' where F: "host_in J isn ph' b'" "answered isn ph' = Some ours" "g_relay b' = g_relay (j_b s)" "g_vtcp_conns b' = g_vtcp_conns (j_b s)"
    "g_pending_accepts b' = g_pending_accepts (j_b s) \<or> (\<exists>j g. j < length (g_pending_accepts (j_b s))
       \<and> g_pending_accepts (j_b s) ! j = entry_for J ours isn g
       \<and> g_pending_accepts b' = (g_pending_accepts (j_b s))[j := entry_for J ours isn True])"
    using final_ack_at_host [OF join_invD(4) [OF I] ack(2,5)] by blast
  have ph: "ph' \<noteq> Fresh" using F(2) by auto
  show ?thesis
    using F(5)
  proof (elim disjE exE conjE)
    assume "g_pending_accepts b' = g_pending_accepts (j_b s)"
    then show ?thesis using L host_room_keep [OF _ F(4) ack(4) F(1) ph] F(3) by (simp add: join_live_def)
  next
    fix j g assume j: "j < length (g_pending_accepts (j_b s))" "g_pending_accepts (j_b s) ! j = entry_for J ours isn g"
      and eq: "g_pending_accepts b' = (g_pending_accepts (j_b s))[j := entry_for J ours isn True]"
    have "entry_live J isn (j_to_a s) (entry_for J ours isn g)" using L j nth_mem unfolding join_live_def by metis
    then have "entry_live J isn (j_to_a s \<union> packets_sent (g_relay (j_b s)) (g_relay b')) (entry_for J ours isn True)"
      by (auto simp: entry_live_def entry_for_def)
    from live_host_update [OF L F(4) ack(4) F(1) ph eq this] show ?thesis .
  qed
qed

lemma live_to_client:
  assumes I: "join_inv J isn ka ph known s" and L: "join_live J isn ka s"
    and P: "P \<in> j_to_a s" and a': "a' = drain_packet (j_env_a J) P (j_a s)"
  shows "join_live J isn ka (s\<lparr>j_a := a', j_to_b := j_to_b s \<union> packets_sent (g_relay (j_a s)) (g_relay a')\<rparr>)"
proof -
  have on: "on_relay (j_me_a J) (j_ip_a J) (j_a s)" and c: "client_in J isn ka known (j_a s)" and up: "m_connected (g_relay (j_a s))"
    using I by (simp_all add: join_inv_def on_relay_def)
  obtain q ak where sa: "carries (syn_ack_seg J q ak) P" using I P unfolding join_inv_def by blast
  have eq: "a' = HandleTcpSegment (e_io (j_env_a J)) (j_me_a J) (j_ip_a J) (j_ip_b J) LdnControlPort q ak (TCP_SYN OR TCP_ACK) [] (j_a s)"
    using drain_packet_seg [OF sa on] by (simp add: a' seg_def)
  show ?thesis
  proof (cases "known = None \<and> ak = isn + 1")
    case True
    then have c': "client_in J isn ka (Some q) a'" "packets_sent (g_relay (j_a s)) (g_relay a') = {P. carries (ack_seg J (isn + 1) (q + 1)) P}"
      using syn_ack_at_client [OF c up eq] by simp_all
    obtain P' where P': "carries (ack_seg J (isn + 1) (q + 1)) P'" using carries_ex by blast
    have seqs: "c_their_seq (conn_at ka a') = q + 1" using c'(1) by (simp add: client_in_def)
    have "\<forall>P \<in> j_to_b s \<union> {P. carries (ack_seg J (isn + 1) (q + 1)) P}. \<forall>i. carries (syn_seg J i) P \<longrightarrow> i = isn"
      using L ack_not_syn unfolding join_live_def by blast
    moreover have "\<exists>P \<in> j_to_b s \<union> {P. carries (ack_seg J (isn + 1) (q + 1)) P}. carries (syn_seg J isn) P"
      using L unfolding join_live_def by blast
    moreover have "\<exists>P \<in> j_to_b s \<union> {P. carries (ack_seg J (isn + 1) (q + 1)) P}. carries (ack_seg J (isn + 1) (q + 1)) P"
      using P' by blast
    ultimately show ?thesis using L by (simp add: join_live_def c'(2) seqs)
  next
    case False
    then have "a' = j_a s" using syn_ack_at_client [OF c up eq] by (simp split: if_splits)
    then show ?thesis using L by simp
  qed
qed

lemma live_accept:
  assumes L: "join_live J isn ka s" and a: "accept_scan (length (g_pending_accepts (j_b s))) 0 (j_me_b J) (j_b s) = Some (k, b')"
  shows "join_live J isn ka (s\<lparr>j_b := b'\<rparr>)" and "FindVTcpConnByPeer (j_me_b J) (j_ip_a J) b' \<noteq> None"
proof -
  let ?ps = "g_pending_accepts (j_b s)"
  from a obtain j fd where j: "j < length ?ps" "p_used (?ps ! j)" "p_got_final_ack (?ps ! j)"
    and k: "k < length (g_vtcp_conns (j_b s))" "g_active_ldn_instance b' = Some (j_me_b J)"
    and tab: "g_vtcp_conns b' = (g_vtcp_conns (j_b s))[k := accept_conn (?ps ! j) fd]"
    and ps': "g_pending_accepts b' = ?ps[j := (?ps ! j)\<lparr>p_used := False\<rparr>]" by (rule accept_tables)
  have all: "\<forall>p \<in> set ?ps. entry_live J isn (j_to_a s) p" using L by (simp add: join_live_def)
  have "entry_live J isn (j_to_a s) (?ps ! j)" using all j(1) nth_mem by blast
  then have ip: "p_peer_ip (?ps ! j) = j_ip_a J" using j(2,3) by (simp add: entry_live_def split: if_splits)
  have "accept_conn (?ps ! j) fd \<in> set (g_vtcp_conns b')" using k(1) by (simp add: tab set_update_memI)
  then show find: "FindVTcpConnByPeer (j_me_b J) (j_ip_a J) b' \<noteq> None"
    using k(2) ip accept_conn_simps(1,4) unfolding FindVTcpConnByPeer_def
    by (auto simp: first_idx_None_iff intro!: bexI [of _ "accept_conn (?ps ! j) fd"])
  have "\<forall>p \<in> set (g_pending_accepts b'). entry_live J isn (j_to_a s) p"
    using entries_live_set [OF all subset_refl, of "(?ps ! j)\<lparr>p_used := False\<rparr>" j] by (simp add: ps' entry_live_def)
  moreover have "host_room J b'" using find by (auto simp: host_room_def)
  ultimately show "join_live J isn ka (s\<lparr>j_b := b'\<rparr>)" using L by (simp add: join_live_def)
qed

lemma join_step_live:
  assumes "join_step J s s'" and "join_inv J isn ka ph known s" and "join_live J isn ka s"
  shows "\<exists>ph' known'. join_inv J isn ka ph' known' s' \<and> join_live J isn ka s'"
proof -
  have "join_live J isn ka s'"
    using assms(1)
  proof cases
    case (to_host P b')
    then show ?thesis using live_to_host [OF assms(2,3)] by blast
  next
    case (to_client P a')
    then show ?thesis using live_to_client [OF assms(2,3)] by blast
  next
    case (accept k b')
    then show ?thesis using live_accept(1) [OF assms(3)] by blast
  qed
  then show ?thesis using join_step_keeps [OF assms(1,2)] by blast
qed

lemma join_run_live:
  "(join_step J)\<^sup>*\<^sup>* s0 s \<Longrightarrow> join_inv J isn ka ph0 known0 s0 \<Longrightarrow> join_live J isn ka s0 \<Longrightarrow>
     \<exists>ph known. join_inv J isn ka ph known s \<and> join_live J isn ka s"
proof (induction rule: rtranclp_induct)
  case (step s s')
  then show ?case using join_step_live by blast
qed blast

text \<open>From each phase one step leads on.\<close>

abbreviation accepted :: "consoles \<Rightarrow> joining \<Rightarrow> bool" where
  "accepted J s \<equiv> FindVTcpConnByPeer (j_me_b J) (j_ip_a J) (j_b s) \<noteq> None"

lemma progress_accept:
  assumes I: "join_inv J isn ka (Waiting ours i True) known s" and L: "join_live J isn ka s"
  shows "\<exists>s'. join_step J s s' \<and> accepted J s'"
proof -
  let ?ps = "g_pending_accepts (j_b s)"
  have on: "g_active_ldn_instance (j_b s) = Some (j_me_b J)" and new: "\<not> accepted J s"
    and only: "only_pending (j_ip_a J) (entry_for J ours i True) ?ps"
    using join_invD(2,4) [OF I] by (simp_all add: on_relay_def)
  have "AllocVTcpConn (j_me_b J) (j_b s) \<noteq> None"
    using L on new by (auto simp: join_live_def host_room_def AllocVTcpConn_def first_idx_None_iff split: option.splits)
  moreover obtain j where "j < length ?ps" "acceptable (j_b s) j"
    using only by (auto simp: only_pending_def acceptable_def entry_for_def)
  ultimately obtain k b' where a: "accept_scan (length ?ps) 0 (j_me_b J) (j_b s) = Some (k, b')"
    using accept_scan_None_iff [of "length ?ps" 0 "j_me_b J" "j_b s"] by (metis add_0 le0 not_None_eq surj_pair)
  show ?thesis using join_step.accept [OF a] live_accept(2) [OF L a] by fastforce
qed

lemma progress_ack:
  assumes I: "join_inv J isn ka (Waiting ours i g) (Some o') s" and L: "join_live J isn ka s"
  shows "\<exists>s'. (join_step J)\<^sup>*\<^sup>* s s' \<and> accepted J s'"
proof -
  note c = join_invD(3) [OF I] and on = join_invD(2) [OF I] and h = join_invD(4) [OF I] and ans = join_invD(5) [OF I refl]
  obtain P where P: "P \<in> j_to_b s" "carries (ack_seg J (isn + 1) (o' + 1)) P"
    using L c by (auto simp: join_live_def client_in_def)
  define b' where "b' = drain_packet (j_env_b J) P (j_b s)"
  define s1 where "s1 = s\<lparr>j_b := b', j_to_a := j_to_a s \<union> packets_sent (g_relay (j_b s)) (g_relay b')\<rparr>"
  have st: "join_step J s s1" unfolding s1_def by (rule join_step.to_host [OF P(1) b'_def])
  have eq: "b' = HandleTcpSegment (e_io (j_env_b J)) (j_me_b J) (j_ip_b J) (j_ip_a J) LdnControlPort (isn + 1) (o' + 1) TCP_ACK [] (j_b s)"
    using drain_packet_seg [OF P(2) on] by (simp add: b'_def seg_def)
  obtain ph where ph: "host_in J isn ph b'" "final_seen ph" using final_ack_at_host [OF h ans eq] by blast
  obtain ph1 known1 where J1: "join_inv J isn ka ph1 known1 s1" "join_live J isn ka s1" using join_step_live [OF st I L] by blast
  show ?thesis
  proof (cases "accepted J s1")
    case True
    then show ?thesis using st by blast
  next
    case False
    then obtain o2 i2 where w: "ph = Waiting o2 i2 True" using ph by (cases ph) (auto simp: s1_def)
    have "entry_for J o2 i2 True \<in> set (g_pending_accepts b') \<and> j_ip_a J = p_peer_ip (entry_for J o2 i2 True)"
      using ph(1) only_pending_in unfolding w by (auto simp: entry_for_def)
    moreover have h1: "host_in J isn ph1 b'" using join_invD(4) [OF J1(1)] by (simp add: s1_def)
    ultimately obtain o3 i3 where "ph1 = Waiting o3 i3 True"
      using False only_pending_unique [of "j_ip_a J" _ "g_pending_accepts b'" "entry_for J o2 i2 True"]
      by (cases ph1) (auto simp: s1_def none_pending_def entry_for_def)
    then show ?thesis using progress_accept J1 st by (meson converse_rtranclp_into_rtranclp r_into_rtranclp)
  qed
qed

lemma progress_syn_ack:
  assumes I: "join_inv J isn ka (Waiting ours i g) known s" and L: "join_live J isn ka s"
  shows "\<exists>s'. (join_step J)\<^sup>*\<^sup>* s s' \<and> accepted J s'"
proof (cases known)
  case (Some o')
  then show ?thesis using progress_ack I L by blast
next
  case None
  note c = join_invD(3) [OF I, unfolded None] and on = join_invD(1) [OF I] and up = join_invD(7) [OF I] and h = join_invD(4) [OF I]
  have "entry_for J ours i g \<in> set (g_pending_accepts (j_b s))" using h only_pending_in by auto
  then have "entry_live J isn (j_to_a s) (entry_for J ours i g)" using L unfolding join_live_def by blast
  then obtain P where P: "P \<in> j_to_a s" "carries (syn_ack_seg J ours (isn + 1)) P"
    by (auto simp: entry_live_def entry_for_def)
  define a' where "a' = drain_packet (j_env_a J) P (j_a s)"
  define s1 where "s1 = s\<lparr>j_a := a', j_to_b := j_to_b s \<union> packets_sent (g_relay (j_a s)) (g_relay a')\<rparr>"
  have st: "join_step J s s1" unfolding s1_def by (rule join_step.to_client [OF P(1) a'_def])
  have eq: "a' = HandleTcpSegment (e_io (j_env_a J)) (j_me_a J) (j_ip_a J) (j_ip_b J) LdnControlPort ours (isn + 1) (TCP_SYN OR TCP_ACK) [] (j_a s)"
    using drain_packet_seg [OF P(2) on] by (simp add: a'_def seg_def)
  have c1: "client_in J isn ka (Some ours) a'" using syn_ack_at_client [OF c up eq] by simp
  obtain ph1 known1 where J1: "join_inv J isn ka ph1 known1 s1" "join_live J isn ka s1" using join_step_live [OF st I L] by blast
  have h1: "host_in J isn ph1 (j_b s)" and "client_in J isn ka known1 a'" using join_invD(3,4) [OF J1(1)] by (simp_all add: s1_def)
  then have "known1 \<noteq> None" using c1 by (cases known1) (auto simp: client_in_def)
  moreover obtain o1 i1 g1 where "ph1 = Waiting o1 i1 g1"
    using h h1 only_pending_in by (cases ph1) (auto simp: none_pending_def)
  ultimately show ?thesis using progress_ack J1 st by (metis converse_rtranclp_into_rtranclp not_None_eq)
qed

lemma progress_syn:
  assumes I: "join_inv J isn ka ph known s" and L: "join_live J isn ka s"
  shows "\<exists>s'. (join_step J)\<^sup>*\<^sup>* s s' \<and> accepted J s'"
proof (cases ph)
  case (Joined kb ours)
  then show ?thesis using join_invD(4) [OF I] by auto
next
  case (Waiting ours i g)
  then show ?thesis using progress_syn_ack I L by blast
next
  case Fresh
  note on = join_invD(2) [OF I] and h = join_invD(4) [OF I] and up = join_invD(8) [OF I]
  obtain P where P: "P \<in> j_to_b s" "carries (syn_seg J isn) P" using L by (auto simp: join_live_def)
  define b' where "b' = drain_packet (j_env_b J) P (j_b s)"
  define s1 where "s1 = s\<lparr>j_b := b', j_to_a := j_to_a s \<union> packets_sent (g_relay (j_b s)) (g_relay b')\<rparr>"
  have st: "join_step J s s1" unfolding s1_def by (rule join_step.to_host [OF P(1) b'_def])
  have eq: "b' = HandleTcpSegment (e_io (j_env_b J)) (j_me_b J) (j_ip_b J) (j_ip_a J) LdnControlPort isn 0 TCP_SYN [] (j_b s)"
    using drain_packet_seg [OF P(2) on] by (simp add: b'_def seg_def)
  have "\<exists>p \<in> set (g_pending_accepts (j_b s)). \<not> p_used p" using L h Fresh by (simp add: join_live_def host_room_def)
  then obtain ours where w: "host_in J isn (Waiting ours isn False) b'" using syn_at_host [OF h up eq] Fresh by blast
  obtain ph1 known1 where J1: "join_inv J isn ka ph1 known1 s1" "join_live J isn ka s1" using join_step_live [OF st I L] by blast
  have "host_in J isn ph1 b'" using join_invD(4) [OF J1(1)] by (simp add: s1_def)
  then obtain o1 i1 g1 where "ph1 = Waiting o1 i1 g1"
    using w only_pending_in by (cases ph1) (auto simp: none_pending_def)
  then show ?thesis using progress_syn_ack J1 st by (metis converse_rtranclp_into_rtranclp)
qed

section \<open>From the call of Connect\<close>

text \<open>The state in which \<open>Connect\<close> begins to wait, after its first SYN, is a start of the handshake.\<close>

definition join_from :: "consoles \<Rightarrow> u32 \<Rightarrow> int \<Rightarrow> nat \<Rightarrow> bridge \<Rightarrow> bridge \<Rightarrow> joining" where
  "join_from J isn fd k a0 b =
     (let a = send_seg (e_io (j_env_a J)) (syn_seg J isn) [] (connect_start k fd (j_ip_b J) LdnControlPort isn a0)
      in \<lparr>j_a = a, j_b = b, j_to_a = {}, j_to_b = packets_sent (g_relay a0) (g_relay a)\<rparr>)"

lemma connect_begins_join:
  assumes a: "on_relay (j_me_a J) (j_ip_a J) a0" "FindVTcpConnByPeer (j_me_a J) (j_ip_b J) a0 = None"
      "none_pending (j_ip_b J) (g_pending_accepts a0)" "k < length (g_vtcp_conns a0)"
    and b: "on_relay (j_me_b J) (j_ip_b J) b" "FindVTcpConnByPeer (j_me_b J) (j_ip_a J) b = None" "none_pending (j_ip_a J) (g_pending_accepts b)"
  shows "join_start J isn k (join_from J isn fd k a0 b)" and "j_to_b (join_from J isn fd k a0 b) = {P. carries (syn_seg J isn) P}"
proof -
  define c where "c = vtcp_conn_init\<lparr>c_used := True, c_fd := fd, c_peer_ip := j_ip_b J, c_peer_port := LdnControlPort,
       c_our_isn := isn, c_syn_sent_awaiting_synack := True\<rparr>"
  define a1 where "a1 = connect_start k fd (j_ip_b J) LdnControlPort isn a0"
  define a2 where "a2 = send_seg (e_io (j_env_a J)) (syn_seg J isn) [] a1"
  have a1: "a1 = upd_conn k (\<lambda>_. c) a0" by (simp add: a1_def connect_start_def c_def)
  have "vframe a0 a2" unfolding a2_def a1 by (intro frames)
  then have on: "on_relay (j_me_a J) (j_ip_a J) a2" using on_relay_vframe a(1) by blast
  have tabs: "g_vtcp_conns a2 = (g_vtcp_conns a0)[k := c]" "g_active_ldn_instance a2 = Some (j_me_a J)" "conn_at k a2 = c"
    "g_pending_accepts a2 = g_pending_accepts a0"
    using a(1,4) by (simp_all add: a2_def a1 conn_at_upd on_relay_def)
  have find: "FindVTcpConnByPeer (j_me_a J) (j_ip_b J) a2 = Some k"
    using a(1,2,4) by (simp add: FindVTcpConnByPeer_def tabs on_relay_def first_idx_set_new c_def)
  have sent: "packets_sent (g_relay a0) (g_relay a2) = {P. carries (syn_seg J isn) P}"
    using packets_sent_seg [of a1 "e_io (j_env_a J)" "syn_seg J isn"] a(1) by (simp add: a2_def a1 on_relay_def)
  have J: "join_from J isn fd k a0 b = \<lparr>j_a = a2, j_b = b, j_to_a = {}, j_to_b = packets_sent (g_relay a0) (g_relay a2)\<rparr>"
    by (simp add: join_from_def a2_def a1_def Let_def)
  show "join_start J isn k (join_from J isn fd k a0 b)"
    using on find a(3) b tabs sent by (auto simp: J join_start_def c_def vtcp_conn_init_def)
  show "j_to_b (join_from J isn fd k a0 b) = {P. carries (syn_seg J isn) P}" by (simp add: J sent)
qed

lemma live_start:
  assumes "join_start J isn ka s" and "j_to_b s = {P. carries (syn_seg J isn) P}" and "host_room J (j_b s)"
    and "\<forall>p \<in> set (g_pending_accepts (j_b s)). p_used p \<longrightarrow> \<not> p_got_final_ack p"
  shows "join_live J isn ka s"
proof -
  have "i = isn" if "carries (syn_seg J isn) P" "carries (syn_seg J i) P" for i P
    using carries_unique [OF that] by (simp add: tcp_view_of_def seg_def)
  then show ?thesis using assms carries_ex by (auto simp: join_live_def join_start_def entry_live_def none_pending_def)
qed

text \<open>C15: Progress: from the SYN of \<open>Connect\<close> on, with a free entry and a free slot at the host and no other handshake
  about to complete there, the handshake is never stuck as long as no packet is lost for good: from every state that can
  be reached there are steps after which the host has accepted a connection of the client and both ends are established.\<close>

theorem handshake_completes:
  assumes a: "on_relay (j_me_a J) (j_ip_a J) a0" "FindVTcpConnByPeer (j_me_a J) (j_ip_b J) a0 = None"
      "none_pending (j_ip_b J) (g_pending_accepts a0)" "k < length (g_vtcp_conns a0)"
    and b: "on_relay (j_me_b J) (j_ip_b J) b" "FindVTcpConnByPeer (j_me_b J) (j_ip_a J) b = None" "none_pending (j_ip_a J) (g_pending_accepts b)"
    and room: "\<exists>c \<in> set (g_vtcp_conns b). \<not> c_used c" "\<exists>p \<in> set (g_pending_accepts b). \<not> p_used p"
    and others: "\<forall>p \<in> set (g_pending_accepts b). p_used p \<longrightarrow> \<not> p_got_final_ack p"
    and run: "(join_step J)\<^sup>*\<^sup>* (join_from J isn fd k a0 b) s"
  shows "\<exists>s' kb. (join_step J)\<^sup>*\<^sup>* s s' \<and> FindVTcpConnByPeer (j_me_b J) (j_ip_a J) (j_b s') = Some kb
     \<and> c_established (conn_at kb (j_b s')) \<and> c_established (conn_at k (j_a s'))"
proof -
  note S = connect_begins_join [OF a b]
  have B: "j_b (join_from J isn fd k a0 b) = b" by (simp add: join_from_def Let_def)
  have "join_live J isn k (join_from J isn fd k a0 b)"
    by (rule live_start [OF S]) (use room others in \<open>simp_all add: B host_room_def\<close>)
  then obtain ph known where I: "join_inv J isn k ph known s" "join_live J isn k s"
    using join_run_live [OF run join_inv_start [OF S(1)]] by blast
  obtain s' where s': "(join_step J)\<^sup>*\<^sup>* s s'" "accepted J s'" using progress_syn [OF I] by blast
  obtain ph' known' where I': "join_inv J isn k ph' known' s'" using join_run_inv [OF s'(1) I(1)] by blast
  obtain kb ours where J: "ph' = Joined kb ours" using join_invD(4) [OF I'] s'(2) by (cases ph') auto
  have "known' \<noteq> None" using join_invD(6) [OF I'] J by simp
  then have "c_established (conn_at k (j_a s'))" using join_invD(3) [OF I'] by (auto simp: client_in_def)
  then show ?thesis using s'(1) join_invD(4) [OF I'] J by auto
qed

definition sample_consoles :: consoles where
  "sample_consoles = \<lparr>j_env_a = sample_benv, j_me_a = 1, j_ip_a = 0x0A0D0001, j_env_b = sample_benv, j_me_b = 1, j_ip_b = 0x0A0D0002\<rparr>"

definition bridge_peer :: bridge where
  "bridge_peer = bridge_up\<lparr>g_last_bridged_local_ip := 0x0A0D0002\<rparr>"

lemma sample_consoles_ok:
  "on_relay 1 0x0A0D0001 bridge_up" "on_relay 1 0x0A0D0002 bridge_peer"
  "FindVTcpConnByPeer 1 0x0A0D0002 bridge_up = None" "FindVTcpConnByPeer 1 0x0A0D0001 bridge_peer = None"
  "none_pending ip (g_pending_accepts bridge_up)" "none_pending ip (g_pending_accepts bridge_peer)"
  "\<forall>p \<in> set (g_pending_accepts bridge_peer). \<not> p_used p" "\<forall>c \<in> set (g_vtcp_conns bridge_peer). \<not> c_used c"
  "g_pending_accepts bridge_peer \<noteq> []" "g_vtcp_conns bridge_peer \<noteq> []" "0 < length (g_vtcp_conns bridge_up)"
  using relay_up_wf(2)
  by (simp_all add: on_relay_def bridge_peer_def FindVTcpConnByPeer_def first_idx_None_iff none_pending_def pending_accept_init_def
      vtcp_conn_init_def MaxPendingAccepts_def MaxVTcpConns_def)

lemma sample_join_ok:
  "join_start sample_consoles 4000 0 (join_from sample_consoles 4000 9 0 bridge_up bridge_peer)"
  "\<exists>s. (join_step sample_consoles)\<^sup>*\<^sup>* (join_from sample_consoles 4000 9 0 bridge_up bridge_peer) s \<and> accepted sample_consoles s"
proof -
  let ?s = "join_from sample_consoles 4000 9 0 bridge_up bridge_peer"
  have B: "j_b ?s = bridge_peer" by (simp add: join_from_def Let_def)
  have S: "join_start sample_consoles 4000 0 ?s" "j_to_b ?s = {P. carries (syn_seg sample_consoles 4000) P}"
    using connect_begins_join [of sample_consoles bridge_up 0 bridge_peer 4000 9] sample_consoles_ok by (simp_all add: sample_consoles_def)
  then show "join_start sample_consoles 4000 0 ?s" by blast
  have "\<exists>c \<in> set (g_vtcp_conns bridge_peer). \<not> c_used c" "\<exists>p \<in> set (g_pending_accepts bridge_peer). \<not> p_used p"
    using sample_consoles_ok(7-10) by (meson list.set_sel(1))+
  then have "join_live sample_consoles 4000 0 ?s"
    using sample_consoles_ok(7) by (intro live_start [OF S]) (simp_all add: B host_room_def)
  then show "\<exists>s. (join_step sample_consoles)\<^sup>*\<^sup>* ?s s \<and> accepted sample_consoles s"
    using progress_syn [OF join_inv_start [OF S(1)]] by blast
qed

theorem handshake_agrees_witness:
  "\<exists>s kb. (join_step sample_consoles)\<^sup>*\<^sup>* (join_from sample_consoles 4000 9 0 bridge_up bridge_peer) s
     \<and> FindVTcpConnByPeer 1 0x0A0D0001 (j_b s) = Some kb \<and> c_our_seq (conn_at 0 (j_a s)) = c_their_seq (conn_at kb (j_b s))"
proof -
  obtain s kb where s: "(join_step sample_consoles)\<^sup>*\<^sup>* (join_from sample_consoles 4000 9 0 bridge_up bridge_peer) s"
    "FindVTcpConnByPeer (j_me_b sample_consoles) (j_ip_a sample_consoles) (j_b s) = Some kb" using sample_join_ok(2) by blast
  have "duplex_start (link_ab sample_consoles 0 kb) (vtcp.truncate (j_a s)) (vtcp.truncate (j_b s))
      (quiet (vtcp.truncate (j_a s)) (vtcp.truncate (j_b s)))"
    using handshake_agrees [OF sample_join_ok(1) s(1)] s(2) by blast
  then show ?thesis using s by (auto simp: duplex_start_def link_ab_def sample_consoles_def)
qed

theorem handshake_completes_witness:
  "\<exists>s kb. (join_step sample_consoles)\<^sup>*\<^sup>* (join_from sample_consoles 4000 9 0 bridge_up bridge_peer) s
     \<and> c_established (conn_at kb (j_b s)) \<and> c_established (conn_at 0 (j_a s))"
proof -
  have room: "\<exists>c \<in> set (g_vtcp_conns bridge_peer). \<not> c_used c" "\<exists>p \<in> set (g_pending_accepts bridge_peer). \<not> p_used p"
    using sample_consoles_ok(7-10) by (meson list.set_sel(1))+
  show ?thesis
    using handshake_completes [of sample_consoles bridge_up 0 bridge_peer 4000 9, OF _ _ _ _ _ _ _ room _ rtranclp.rtrancl_refl]
      sample_consoles_ok by (fastforce simp: sample_consoles_def)
qed

end
