(* ===== verification/TcpPath.thy ===== *)
theory TcpPath
  imports Handshake UdpPath
begin

text \<open>
  The path of the byte stream between two consoles, end to end and at the level of the commands: \<open>SendTo\<close> on a
  virtual connection, the frames over an unordered transport, the pump, draining, \<open>RecvFrom\<close> on the other console, and the
  acknowledgement on its way back; and \<open>Close\<close>, which the other console reads as the end of the stream.
\<close>

section \<open>A connection between two consoles\<close>

text \<open>What the handshake ends in (lemma \<open>handshake_joins\<close>), as far as the data path relies on it.\<close>

definition joined :: "consoles \<Rightarrow> nat \<Rightarrow> nat \<Rightarrow> bridge \<Rightarrow> bridge \<Rightarrow> bool" where
  "joined J ka kb a b \<longleftrightarrow>
     on_relay (j_me_a J) (j_ip_a J) a \<and> on_relay (j_me_b J) (j_ip_b J) b
     \<and> FindVTcpConnByPeer (j_me_a J) (j_ip_b J) a = Some ka \<and> FindVTcpConnByPeer (j_me_b J) (j_ip_a J) b = Some kb
     \<and> none_pending (j_ip_b J) (g_pending_accepts a) \<and> none_pending (j_ip_a J) (g_pending_accepts b)
     \<and> c_established (conn_at ka a) \<and> c_established (conn_at kb b)
     \<and> c_peer_port (conn_at ka a) = LdnControlPort \<and> c_peer_port (conn_at kb b) = LdnControlPort
     \<and> c_our_seq (conn_at ka a) = c_their_seq (conn_at kb b) \<and> c_our_seq (conn_at kb b) = c_their_seq (conn_at ka a)"

lemma joinedD:
  assumes "joined J ka kb a b"
  shows "ka < length (g_vtcp_conns a)" "kb < length (g_vtcp_conns b)"
    "c_peer_ip (conn_at ka a) = j_ip_b J" "c_peer_ip (conn_at kb b) = j_ip_a J"
    "m_connected (g_relay a)" "m_connected (g_relay b)"
    "g_active_ldn_instance a = Some (j_me_a J)" "g_active_ldn_instance b = Some (j_me_b J)"
  using assms by (auto simp: joined_def on_relay_def dest: find_peer_SomeD)

lemma handshake_joins:
  assumes start: "join_start J isn ka s0" and run: "(join_step J)\<^sup>*\<^sup>* s0 s"
    and acc: "FindVTcpConnByPeer (j_me_b J) (j_ip_a J) (j_b s) = Some kb"
  shows "joined J ka kb (j_a s) (j_b s) \<and> c_inbox (conn_at ka (j_a s)) = [] \<and> c_inbox (conn_at kb (j_b s)) = []"
proof -
  obtain ph known where I: "join_inv J isn ka ph known s" using join_run_inv [OF run join_inv_start [OF start]] by blast
  obtain ours where ph: "ph = Joined kb ours" using join_invD(4) [OF I] acc by (cases ph) auto
  then have "known = Some ours" using I by (auto simp: join_inv_def)
  then show ?thesis
    using join_invD(1-4) [OF I] ph by (simp add: joined_def client_in_def)
qed

section \<open>Sending\<close>

text \<open>Sending only adds to the log of the datagrams.\<close>

lemma send_frags_log: "prefix (m_sent r) (m_sent (snd (send_frags left os packet i part pos r)))"
proof (induction left os packet i part pos r rule: send_frags.induct)
  case (2 left os packet i part pos r)
  obtain rc r' where s: "SendRaw os (FrameIpv4Frag # frag_body_at packet i part pos) r = (rc, r')" by fastforce
  then have "prefix (m_sent r) (m_sent r')" by (auto simp: SendRaw_def Let_def split: if_splits)
  then show ?case using 2 [OF refl s [symmetric] refl] s by (auto simp: Let_def intro: prefix_order.trans)
qed simp

lemma SendIpv4_log: "prefix (m_sent r) (m_sent (snd (SendIpv4 os P r)))"
  using send_frags_log [where r = "r\<lparr>m_next_frag_id := k\<rparr>" for k]
  by (auto simp: SendIpv4_def SendFragmented_def SendRaw_def Let_def)

definition log_grows :: "'a vtcp_scheme \<Rightarrow> 'a vtcp_scheme \<Rightarrow> bool" where
  "log_grows s s' \<longleftrightarrow> prefix (m_sent (g_relay s)) (m_sent (g_relay s'))"

lemma log_grows_send_seg: "log_grows s (send_seg env h p s)"
  using SendIpv4_log by (auto simp: log_grows_def send_seg_def SendTcpSegment_def split_beta split: option.split)

lemma log_grows_retransmit: "log_grows s (retransmit_conn env ip now k s)"
  using log_grows_send_seg [of "upd_conn k f s" for f] by (auto simp: retransmit_conn_def Let_def log_grows_def)

lemma log_grows_fold: "log_grows s (fold (retransmit_conn env ip now) ks s)"
proof (induction ks arbitrary: s)
  case (Cons k ks)
  show ?case using log_grows_retransmit [of s env ip now k] Cons.IH
    by (auto simp: log_grows_def intro: prefix_order.trans)
qed (simp add: log_grows_def)

lemma log_grows_tick: "log_grows s (CheckDataRetransmits env ip now s)"
  by (simp add: CheckDataRetransmits_def log_grows_fold)

lemma packets_sent_mono:
  assumes "prefix (m_sent r0) (m_sent r1)" and "prefix (m_sent r1) (m_sent r2)"
  shows "packets_sent r1 r2 \<subseteq> packets_sent r0 r2"
  using assms by (auto simp: packets_sent_def sent_frames_def prefix_def)

text \<open>The segment that carries data, and what \<open>SendTo\<close> keeps of it.\<close>

definition data_seg :: "vtcp_conn \<Rightarrow> u32 \<Rightarrow> tcp_hdr" where
  "data_seg c ip = seg ip (c_peer_ip c) (c_peer_port c) (c_our_seq c) (c_their_seq c) (TCP_PSH OR TCP_ACK)"

definition after_send :: "u64 \<Rightarrow> u8 list \<Rightarrow> vtcp_conn \<Rightarrow> vtcp_conn" where
  "after_send now p c = c\<lparr>c_has_unacked_data := True, c_unacked_data := p, c_unacked_seq := c_our_seq c,
     c_last_send_tick_ms := now, c_retransmit_count := 0, c_our_seq := c_our_seq c + of_nat (length p)\<rparr>"

lemma cmd_SendTo_conn:
  assumes k: "FindVTcpConnByFd me fd s = Some k" and est: "c_established (conn_at k s)"
    and up: "g_relay_enabled s" "m_connected (g_relay s)" and len: "length p \<le> 1388" and os: "accepts_all (e_sendto (e_io env))"
  shows "\<exists>b rc r. BuildTcp (data_seg (conn_at k s) (m_bridged_local_ip (g_services s me))) p = Some b
     \<and> SendIpv4 (e_sendto (e_io env)) b (g_relay s) = (rc, r) \<and> length b = 40 + length p
     \<and> cmd_SendTo env me fd flags p addr s
        = (reply_local (int (length p)) ErrNone, TouchBridgeActivity env (upd_conn k (after_send (e_now env) p) (s\<lparr>g_relay := r\<rparr>)))"
proof -
  let ?h = "data_seg (conn_at k s) (m_bridged_local_ip (g_services s me))"
  have "length p \<le> MaxBridgedPayload" using len by (simp add: cap_defs)
  then obtain b where b: "BuildTcp ?h p = Some b" using tcp.build_fits by blast
  have bl: "length b = 40 + length p" using BuildTcp_length [OF b] .
  obtain rc r where r: "SendIpv4 (e_sendto (e_io env)) b (g_relay s) = (rc, r)" by fastforce
  have "frag_total_parts b \<le> 255" "0 < length b" using bl len by (simp_all add: frag_total_parts_def frag_consts)
  then have "0 \<le> rc" using SendIpv4_frames [OF os up(2) _ _ r] by blast
  moreover have "SendTcpSegment (e_io env) ?h p s = (rc, s\<lparr>g_relay := r\<rparr>)" using b r by (simp add: SendTcpSegment_def)
  ultimately have "vtcp_send (e_io env) (m_bridged_local_ip (g_services s me)) (e_now env) k p s
      = (rc, upd_conn k (after_send (e_now env) p) (s\<lparr>g_relay := r\<rparr>))"
    by (simp add: vtcp_send_def Let_def data_seg_def upd_conn_def after_send_def conn_at_def)
  then show ?thesis using b bl r k est up len \<open>0 \<le> rc\<close>
    by (simp add: cmd_SendTo_def SendTo_tcp_def EnsureRelayConnected_up Let_def cap_defs)
qed

section \<open>Receiving\<close>

text \<open>Draining a queue of one packet: the tick of the retransmissions, then the packet.\<close>

lemma drain_single:
  assumes wf: "relay_wf (g_relay t)" and one: "ring_contents (m_queue (g_relay t)) = [b]" and len: "length b \<le> PumpPktSize"
    and own: "g_active_ldn_instance t = Some me" and ip: "g_last_bridged_local_ip t = ip"
  shows "\<exists>q. DrainRelay env t = drain_packet env b ((CheckDataRetransmits (e_io env) ip (e_now env) t)
     \<lparr>g_relay := (g_relay (CheckDataRetransmits (e_io env) ip (e_now env) t))\<lparr>m_queue := q\<rparr>\<rparr>)"
proof -
  define t1 where "t1 = CheckDataRetransmits (e_io env) ip (e_now env) t"
  have q1: "m_queue (g_relay t1) = m_queue (g_relay t)"
    using CheckDataRetransmits_vframe [of t "e_io env" ip "e_now env"] by (simp add: t1_def vframe_def rx_eq_iff)
  have ring: "ring_inv (m_queue (g_relay t))" using wf by (simp add: relay_wf_def)
  have n: "rq_count (m_queue (g_relay t1)) = Suc 0" using length_ring_contents [of "m_queue (g_relay t)"] one q1 by simp
  have "snd (PopIpv4 DrainPktSize (m_queue (g_relay t1))) = Popped b"
    using ring_contents_pop [OF ring one, of DrainPktSize] len drain_cap(1) q1 by simp
  then obtain q where "PopIpv4 DrainPktSize (m_queue (g_relay t1)) = (q, Popped b)" by (metis prod.collapse)
  then have "drain_loop env (rq_count (m_queue (g_relay t1))) t1 = drain_packet env b (t1\<lparr>g_relay := (g_relay t1)\<lparr>m_queue := q\<rparr>\<rparr>)"
    by (simp add: n)
  then show ?thesis
    using own ip unfolding DrainRelay_def DrainRawRelayQueue_def t1_def by (auto simp: Let_def)
qed

text \<open>The tick changes the retransmission fields of the connections only.\<close>

lemma retx_fields [simp]:
  "c_used (retx now c) = c_used c" "c_fd (retx now c) = c_fd c" "c_established (retx now c) = c_established c"
  "c_peer_ip (retx now c) = c_peer_ip c" "c_peer_port (retx now c) = c_peer_port c" "c_our_seq (retx now c) = c_our_seq c"
  "c_their_seq (retx now c) = c_their_seq c" "c_inbox (retx now c) = c_inbox c" "c_peer_closed (retx now c) = c_peer_closed c"
  by (simp_all add: retx_def)

lemma ticked:
  fixes t t1 :: bridge
  assumes k: "k < length (g_vtcp_conns t)"
    and t1: "t1 = (CheckDataRetransmits io ip now t)\<lparr>g_relay := (g_relay (CheckDataRetransmits io ip now t))\<lparr>m_queue := q\<rparr>\<rparr>"
  shows "conn_at k t1 = retx now (conn_at k t)" "k < length (g_vtcp_conns t1)" "conn_ids t1 = conn_ids t"
    "FindVTcpConnByPeer me peer t1 = FindVTcpConnByPeer me peer t" "FindVTcpConnByFd me fd t1 = FindVTcpConnByFd me fd t"
    "g_pending_accepts t1 = g_pending_accepts t" "g_active_ldn_instance t1 = g_active_ldn_instance t"
    "g_last_bridged_local_ip t1 = g_last_bridged_local_ip t" "g_services t1 = g_services t"
    "m_connected (g_relay t1) = m_connected (g_relay t)" "log_grows t t1"
proof -
  let ?c = "CheckDataRetransmits io ip now t"
  have v: "vframe t ?c" by (rule CheckDataRetransmits_vframe)
  note A = CheckDataRetransmits_at [OF k, of io ip now]
  show at: "conn_at k t1 = retx now (conn_at k t)" "k < length (g_vtcp_conns t1)"
    using A k by (simp_all add: t1 conn_at_def)
  show ids: "conn_ids t1 = conn_ids t" using CheckDataRetransmits_ids [of io ip now t] by (simp add: t1 conn_ids_def)
  show own: "g_active_ldn_instance t1 = g_active_ldn_instance t" using v by (simp add: t1 vframe_def)
  show "FindVTcpConnByFd me fd t1 = FindVTcpConnByFd me fd t" using find_fd_cong ids own by blast
  show "FindVTcpConnByPeer me peer t1 = FindVTcpConnByPeer me peer t"
    unfolding same_rx_find [OF same_rx_tick, of me peer io ip now t, symmetric] by (simp add: t1 FindVTcpConnByPeer_def)
  show "g_pending_accepts t1 = g_pending_accepts t" by (simp add: t1 CheckDataRetransmits_pend)
  show "m_connected (g_relay t1) = m_connected (g_relay t)" "g_last_bridged_local_ip t1 = g_last_bridged_local_ip t" "g_services t1 = g_services t"
    using v bridge_more(3,9) [of ?c t] by (simp_all add: t1 vframe_def rx_eq_iff)
  show "log_grows t t1" using log_grows_tick [of t io ip now] by (simp add: t1 log_grows_def)
qed

text \<open>The segment that was expected, with room for it: into the inbox, and acknowledged.\<close>

lemma data_arrives_in_order:
  assumes k: "FindVTcpConnByPeer me src t = Some k" and np: "none_pending src (g_pending_accepts t)" and est: "c_established (conn_at k t)"
    and p: "p \<noteq> []" and room: "length (c_inbox (conn_at k t)) + length p \<le> VTcpInboxCap" and up: "m_connected (g_relay t)"
    and t': "t' = HandleTcpSegment env me ip src port (c_their_seq (conn_at k t)) ak (TCP_PSH OR TCP_ACK) p t"
  shows "c_inbox (conn_at k t') = c_inbox (conn_at k t) @ p" "c_peer_ip (conn_at k t') = c_peer_ip (conn_at k t)"
    "c_peer_port (conn_at k t') = c_peer_port (conn_at k t)" "c_peer_closed (conn_at k t') = c_peer_closed (conn_at k t)"
    "packets_sent (g_relay t) (g_relay t')
       = {P. carries (seg ip src port (c_our_seq (conn_at k t)) (c_their_seq (conn_at k t) + of_nat (length p)) TCP_ACK) P}"
    "log_grows t t'"
proof -
  define t0 where "t0 = (if c_has_unacked_data (conn_at k t)
      \<and> ak = c_unacked_seq (conn_at k t) + of_nat (length (c_unacked_data (conn_at k t)))
      then upd_conn k (\<lambda>c. c\<lparr>c_has_unacked_data := False\<rparr>) t else t)"
  have kl: "k < length (g_vtcp_conns t)" using find_peer_SomeD [OF k] by blast
  have 0: "c_inbox (conn_at k t0) = c_inbox (conn_at k t)" "c_their_seq (conn_at k t0) = c_their_seq (conn_at k t)"
    "c_our_seq (conn_at k t0) = c_our_seq (conn_at k t)" "c_established (conn_at k t0)" "k < length (g_vtcp_conns t0)"
    "c_peer_ip (conn_at k t0) = c_peer_ip (conn_at k t)" "c_peer_port (conn_at k t0) = c_peer_port (conn_at k t)"
    "c_peer_closed (conn_at k t0) = c_peer_closed (conn_at k t)" "g_relay t0 = g_relay t"
    using kl est by (auto simp: t0_def conn_at_upd)
  define f where "f = (\<lambda>c :: vtcp_conn. c\<lparr>c_inbox := c_inbox c @ p, c_their_seq := c_their_seq c + of_nat (length p)\<rparr>)"
  have "t' = handle_data env ip src port (c_their_seq (conn_at k t)) p k t0"
    using data_segment_step [OF k, of "TCP_PSH OR TCP_ACK"] flag_cases(12-15) np by (simp add: t' t0_def none_pending_def)
  then have eq: "t' = send_seg env (seg ip src port (c_our_seq (conn_at k t)) (c_their_seq (conn_at k t) + of_nat (length p)) TCP_ACK) [] (upd_conn k f t0)"
    using 0 p room by (simp add: handle_data_def Let_def conn_at_upd f_def)
  have "packets_sent (g_relay (upd_conn k f t0)) (g_relay t')
      = {P. carries (seg ip src port (c_our_seq (conn_at k t)) (c_their_seq (conn_at k t) + of_nat (length p)) TCP_ACK) P}"
    unfolding eq by (rule packets_sent_seg) (simp add: 0(9) up)
  then show "packets_sent (g_relay t) (g_relay t')
       = {P. carries (seg ip src port (c_our_seq (conn_at k t)) (c_their_seq (conn_at k t) + of_nat (length p)) TCP_ACK) P}"
    by (simp add: 0(9))
  show "log_grows t t'" using log_grows_send_seg [of "upd_conn k f t0"] unfolding eq by (simp add: log_grows_def 0(9))
  show "c_inbox (conn_at k t') = c_inbox (conn_at k t) @ p" "c_peer_ip (conn_at k t') = c_peer_ip (conn_at k t)"
    "c_peer_port (conn_at k t') = c_peer_port (conn_at k t)" "c_peer_closed (conn_at k t') = c_peer_closed (conn_at k t)"
    using 0 by (simp_all add: eq conn_at_upd f_def)
qed

text \<open>The acknowledgement of everything in flight.\<close>

lemma ack_clears:
  assumes k: "FindVTcpConnByPeer me src s = Some k" and np: "none_pending src (g_pending_accepts s)"
    and ak: "ak = c_unacked_seq (conn_at k s) + of_nat (length (c_unacked_data (conn_at k s)))"
  shows "\<not> c_has_unacked_data (conn_at k (HandleTcpSegment env me ip src port q ak TCP_ACK [] s))"
  using data_segment_step [OF k, of TCP_ACK] np ak flag_cases(8-11) find_peer_SomeD [OF k]
  by (simp add: none_pending_def handle_data_def Let_def conn_at_upd)

section \<open>End to end\<close>

text \<open>What the pump reads leaves the connection up and the log alone.\<close>

lemma relay_feed_up: "relay_feed ds r = Some r' \<Longrightarrow> m_connected r' = m_connected r \<and> m_sent r' = m_sent r"
proof (induction ds arbitrary: r)
  case (Cons d ds)
  obtain res r1 where r1: "RecvIpv4 PumpPktSize (Some d) r = Some (res, r1)" "relay_feed ds (deliver res r1) = Some r'"
    using Cons.prems by (auto split: bind_splits)
  have "m_connected r1 = m_connected r \<and> m_sent r1 = m_sent r"
    using r1(1) by (auto simp: RecvIpv4_def Let_def split: if_splits option.splits bind_splits)
  moreover have "m_connected (deliver res r1) = m_connected r1 \<and> m_sent (deliver res r1) = m_sent r1"
    by (cases res) simp_all
  ultimately show ?case using Cons.IH [OF r1(2)] by simp
qed simp

lemma joined_relay:
  "joined J ka kb s t \<Longrightarrow> m_connected r \<Longrightarrow> joined J ka kb s (t\<lparr>g_relay := r\<rparr>)"
  by (simp add: joined_def on_relay_def FindVTcpConnByPeer_def conn_at_def split: if_split_asm)

text \<open>Reading a nonempty inbox.\<close>

lemma RecvFrom_tcp_some:
  assumes k: "k < length (g_vtcp_conns s)" and some: "c_inbox (conn_at k s) \<noteq> []"
    and read: "RecvFrom_tcp env k n SockaddrSize s = (out, s')"
  shows "r_data out = take n (c_inbox (conn_at k s))" "r_ret out = int (length (r_data out))" "r_err out = ErrNone"
    "r_addr out = sockaddr_bytes (c_peer_ip (conn_at k s)) (c_peer_port (conn_at k s))"
    "c_inbox (conn_at k s') = drop n (c_inbox (conn_at k s))" "g_relay s' = g_relay s"
proof -
  have at: "conn_at k (snd (vtcp_read n k s)) = (conn_at k s)\<lparr>c_inbox := drop n (c_inbox (conn_at k s))\<rparr>"
    using k by (simp add: vtcp_read_def Let_def conn_at_upd)
  have data: "fst (vtcp_read n k s) = take n (c_inbox (conn_at k s))" by (simp add: vtcp_read_def Let_def)
  have r: "g_relay (snd (vtcp_read n k s)) = g_relay s" by (simp add: vtcp_read_def Let_def)
  have "length (sockaddr_bytes ip p) = SockaddrSize" for ip p by (simp add: sockaddr_bytes_def SockaddrSize_def)
  then show "r_data out = take n (c_inbox (conn_at k s))" "r_ret out = int (length (r_data out))" "r_err out = ErrNone"
    "r_addr out = sockaddr_bytes (c_peer_ip (conn_at k s)) (c_peer_port (conn_at k s))"
    "c_inbox (conn_at k s') = drop n (c_inbox (conn_at k s))" "g_relay s' = g_relay s"
    using read some at data r
    by (auto simp: RecvFrom_tcp_def Let_def split_beta TouchBridgeActivity_def conn_at_def)
qed

text \<open>The other console drains a queue whose one packet is a segment of its peer.\<close>

lemma drain_one:
  assumes J: "joined J ka kb s t" and wf: "relay_wf (g_relay t)" and one: "ring_contents (m_queue (g_relay t)) = [b]"
    and len: "length b \<le> PumpPktSize" and b: "BuildTcp (seg (j_ip_a J) (j_ip_b J) LdnControlPort q ak fl) p = Some b"
  obtains t1 where "DrainRelay (j_env_b J) t
      = HandleTcpSegment (e_io (j_env_b J)) (j_me_b J) (j_ip_b J) (j_ip_a J) LdnControlPort q ak fl p t1"
    and "conn_at kb t1 = retx (e_now (j_env_b J)) (conn_at kb t)" and "kb < length (g_vtcp_conns t1)"
    and "FindVTcpConnByPeer (j_me_b J) (j_ip_a J) t1 = Some kb" and "none_pending (j_ip_a J) (g_pending_accepts t1)"
    and "m_connected (g_relay t1)" and "log_grows t t1"
proof -
  let ?io = "e_io (j_env_b J)" and ?ip = "j_ip_b J"
  have on: "on_relay (j_me_b J) ?ip t" and peer: "FindVTcpConnByPeer (j_me_b J) (j_ip_a J) t = Some kb"
    and np: "none_pending (j_ip_a J) (g_pending_accepts t)" using J by (simp_all add: joined_def)
  obtain qu where q: "DrainRelay (j_env_b J) t = drain_packet (j_env_b J) b ((CheckDataRetransmits ?io ?ip (e_now (j_env_b J)) t)
     \<lparr>g_relay := (g_relay (CheckDataRetransmits ?io ?ip (e_now (j_env_b J)) t))\<lparr>m_queue := qu\<rparr>\<rparr>)"
    using drain_single [OF wf one len, of "j_me_b J" ?ip "j_env_b J"] on by (auto simp: on_relay_def)
  define t1 where "t1 = (CheckDataRetransmits ?io ?ip (e_now (j_env_b J)) t)
     \<lparr>g_relay := (g_relay (CheckDataRetransmits ?io ?ip (e_now (j_env_b J)) t))\<lparr>m_queue := qu\<rparr>\<rparr>"
  note T = ticked [OF joinedD(2) [OF J] t1_def]
  have on1: "on_relay (j_me_b J) ?ip t1" using on T by (simp add: on_relay_def)
  show ?thesis
    by (rule that [of t1]) (use drain_packet_built [OF b on1, of "j_env_b J"] q T peer np on1 in
        \<open>simp_all add: t1_def [symmetric] seg_def on_relay_def\<close>)
qed

text \<open>Draining keeps which descriptor names which connection.\<close>

lemma drain_keeps_fd:
  assumes "relay_wf (g_relay t)"
  shows "FindVTcpConnByFd me fd (DrainRelay env t) = FindVTcpConnByFd me fd t"
    and "length (g_vtcp_conns (DrainRelay env t)) = length (g_vtcp_conns t)"
proof -
  have ids: "conn_ids (DrainRelay env t) = conn_ids t" "g_active_ldn_instance (DrainRelay env t) = g_active_ldn_instance t"
    using DrainRelay_ids [of env t] DrainRawRelayQueue_spec [OF assms refl] by (simp_all add: DrainRelay_def drain_frame_iff)
  show "FindVTcpConnByFd me fd (DrainRelay env t) = FindVTcpConnByFd me fd t" using find_fd_cong [OF ids] .
  show "length (g_vtcp_conns (DrainRelay env t)) = length (g_vtcp_conns t)"
    using arg_cong [OF ids(1), of length] by (simp add: conn_ids_def)
qed

text \<open>The segment it expects, with room for it.\<close>

lemma drain_data:
  assumes J: "joined J ka kb s t" and wf: "relay_wf (g_relay t)" and one: "ring_contents (m_queue (g_relay t)) = [b]"
    and len: "length b \<le> PumpPktSize" and b: "BuildTcp (data_seg (conn_at ka s) (j_ip_a J)) p = Some b" and p: "p \<noteq> []"
    and room: "length (c_inbox (conn_at kb t)) + length p \<le> VTcpInboxCap" and t2: "t2 = DrainRelay (j_env_b J) t"
  shows "c_inbox (conn_at kb t2) = c_inbox (conn_at kb t) @ p" "c_peer_ip (conn_at kb t2) = j_ip_a J"
    "c_peer_port (conn_at kb t2) = LdnControlPort"
    "{P. carries (seg (j_ip_b J) (j_ip_a J) LdnControlPort (c_our_seq (conn_at kb t)) (c_our_seq (conn_at ka s) + of_nat (length p)) TCP_ACK) P}
       \<subseteq> packets_sent (g_relay t) (g_relay t2)"
proof -
  have est: "c_established (conn_at kb t)" and port: "c_peer_port (conn_at ka s) = LdnControlPort" "c_peer_port (conn_at kb t) = LdnControlPort"
    and seq: "c_our_seq (conn_at ka s) = c_their_seq (conn_at kb t)" using J by (simp_all add: joined_def)
  have b': "BuildTcp (seg (j_ip_a J) (j_ip_b J) LdnControlPort (c_our_seq (conn_at ka s)) (c_their_seq (conn_at ka s)) (TCP_PSH OR TCP_ACK)) p = Some b"
    using b joinedD(3) [OF J] port by (simp add: data_seg_def)
  obtain t1 where T: "t2 = HandleTcpSegment (e_io (j_env_b J)) (j_me_b J) (j_ip_b J) (j_ip_a J) LdnControlPort
        (c_our_seq (conn_at ka s)) (c_their_seq (conn_at ka s)) (TCP_PSH OR TCP_ACK) p t1"
    "conn_at kb t1 = retx (e_now (j_env_b J)) (conn_at kb t)" "FindVTcpConnByPeer (j_me_b J) (j_ip_a J) t1 = Some kb"
    "none_pending (j_ip_a J) (g_pending_accepts t1)" "m_connected (g_relay t1)" "log_grows t t1"
    using drain_one [OF J wf one len b'] unfolding t2 by metis
  have "t2 = HandleTcpSegment (e_io (j_env_b J)) (j_me_b J) (j_ip_b J) (j_ip_a J) LdnControlPort
        (c_their_seq (conn_at kb t1)) (c_their_seq (conn_at ka s)) (TCP_PSH OR TCP_ACK) p t1"
    using T(1,2) seq by simp
  note D = data_arrives_in_order [OF T(3,4) _ p _ T(5) this]
  have "c_established (conn_at kb t1)" "length (c_inbox (conn_at kb t1)) + length p \<le> VTcpInboxCap" using T(2) est room by simp_all
  note D = D [OF this]
  show "c_inbox (conn_at kb t2) = c_inbox (conn_at kb t) @ p" "c_peer_ip (conn_at kb t2) = j_ip_a J" "c_peer_port (conn_at kb t2) = LdnControlPort"
    using D(1-3) T(2) joinedD(4) [OF J] port(2) by simp_all
  have "packets_sent (g_relay t1) (g_relay t2) \<subseteq> packets_sent (g_relay t) (g_relay t2)"
    using T(6) D(6) by (intro packets_sent_mono) (simp_all add: log_grows_def)
  then show "{P. carries (seg (j_ip_b J) (j_ip_a J) LdnControlPort (c_our_seq (conn_at kb t)) (c_our_seq (conn_at ka s) + of_nat (length p)) TCP_ACK) P}
       \<subseteq> packets_sent (g_relay t) (g_relay t2)"
    using D(5) T(2) seq by simp
qed

text \<open>The acknowledgement, back on the console that sent: \<open>c\<close> is its connection before the send.\<close>

definition awaits :: "consoles \<Rightarrow> nat \<Rightarrow> vtcp_conn \<Rightarrow> u8 list \<Rightarrow> bridge \<Rightarrow> bool" where
  "awaits J ka c p s \<longleftrightarrow>
     on_relay (j_me_a J) (j_ip_a J) s \<and> FindVTcpConnByPeer (j_me_a J) (j_ip_b J) s = Some ka
     \<and> none_pending (j_ip_b J) (g_pending_accepts s)
     \<and> c_used (conn_at ka s) \<and> c_established (conn_at ka s) \<and> c_peer_ip (conn_at ka s) = c_peer_ip c \<and> c_peer_port (conn_at ka s) = c_peer_port c
     \<and> c_their_seq (conn_at ka s) = c_their_seq c \<and> c_unacked_seq (conn_at ka s) = c_our_seq c \<and> c_unacked_data (conn_at ka s) = p"

lemma awaits_sent:
  assumes J: "joined J ka kb s t" and s1: "s1 = TouchBridgeActivity env (upd_conn ka (after_send now p) (s\<lparr>g_relay := r\<rparr>))" and up: "m_connected r"
  shows "awaits J ka (conn_at ka s) p s1" "conn_at ka s1 = after_send now p (conn_at ka s)"
proof -
  have kl: "ka < length (g_vtcp_conns (s\<lparr>g_relay := r\<rparr>))" using joinedD(1) [OF J] by simp
  show at: "conn_at ka s1 = after_send now p (conn_at ka s)"
    using conn_at_upd [OF kl] by (simp add: s1 TouchBridgeActivity_def conn_at_def upd_conn_def)
  have keys: "conn_keys s1 = conn_keys s"
    using conn_keys_upd [of "after_send now p" ka "s\<lparr>g_relay := r\<rparr>"] by (simp add: s1 TouchBridgeActivity_def conn_keys_def after_send_def)
  have tabs: "g_pending_accepts s1 = g_pending_accepts s" "g_active_ldn_instance s1 = g_active_ldn_instance s"
    "g_last_bridged_local_ip s1 = g_last_bridged_local_ip s" "g_relay s1 = r"
    by (simp_all add: s1 TouchBridgeActivity_def upd_conn_def)
  have "c_used (conn_at ka s)" using J by (auto simp: joined_def dest: find_peer_SomeD)
  then show "awaits J ka (conn_at ka s) p s1"
    using J up find_peer_cong [OF keys tabs(2)] by (simp add: awaits_def joined_def on_relay_def tabs at after_send_def)
qed

lemma ack_comes_back:
  assumes A: "awaits J ka c p s1"
    and P: "carries (seg (j_ip_b J) (j_ip_a J) LdnControlPort q (c_our_seq c + of_nat (length p)) TCP_ACK) P"
  shows "\<not> c_has_unacked_data (conn_at ka (drain_packet (j_env_a J) P s1))"
proof -
  have on: "on_relay (j_me_a J) (j_ip_a J) s1" and find: "FindVTcpConnByPeer (j_me_a J) (j_ip_b J) s1 = Some ka" using A by (simp_all add: awaits_def)
  have "drain_packet (j_env_a J) P s1 = HandleTcpSegment (e_io (j_env_a J)) (j_me_a J) (j_ip_a J) (j_ip_b J) LdnControlPort q
      (c_our_seq c + of_nat (length p)) TCP_ACK [] s1"
    using drain_packet_seg [OF P on, of "j_env_a J"] by (simp add: seg_def)
  then show ?thesis using ack_clears [OF find] A by (simp add: awaits_def)
qed

text \<open>A packet handed to \<open>SendIpv4\<close> here is what the pump there queues, whatever the order of its frames.\<close>

lemma packet_arrives:
  assumes b: "20 \<le> length b" "length b \<le> PumpPktSize" and os: "accepts_all os" and up: "m_connected r0" and send: "SendIpv4 os b r0 = (rc, r1)"
    and order: "distinct order" "set order = {..<length (sent_frames r0 r1)}"
    and inv: "bridge_inv t" and idle: "m_slots (g_relay t) = frag_slots_init" "drained t = []"
  obtains r where "pump_drains (length order) (map ((!) (sent_frames r0 r1)) order) (g_relay t) = Some ([], r)"
    and "relay_wf r" and "ring_contents (m_queue r) = [b]" and "m_connected r = m_connected (g_relay t)"
proof -
  have wf: "relay_wf (g_relay t)" using inv by (simp add: bridge_inv_def)
  then have ring: "ring_inv (m_queue (g_relay t))" "rq_count (m_queue (g_relay t)) < QueueSize"
    using idle(2) ring_nil_iff by (simp_all add: relay_wf_def drained_def QueueSize_def)
  let ?frames = "map ((!) (sent_frames r0 r1)) order"
  obtain r where feed: "relay_feed ?frames (g_relay t) = Some r" "ring_contents (m_queue r) = ring_contents (m_queue (g_relay t)) @ [b]"
    using relay_feed_packet [OF b os up send order idle(1) ring] by blast
  obtain r' where "relay_feed ?frames (g_relay t) = Some r'" "relay_wf r'" using relay_feed_ok [OF wf] by blast
  then show ?thesis
    using that [of r] pump_drains_feed [OF feed(1), of "length order"] feed idle(2) relay_feed_up [OF feed(1)] by (simp add: drained_def)
qed

text \<open>What \<open>RecvFrom\<close> returns once the segment is queued, and the acknowledgement it leaves.\<close>

lemma segment_read:
  assumes J: "joined J ka kb s t" and b: "BuildTcp (data_seg (conn_at ka s) (j_ip_a J)) p = Some b" "length b \<le> PumpPktSize" and p: "p \<noteq> []"
    and r: "relay_wf r" "ring_contents (m_queue r) = [b]" "m_connected r"
    and peer: "FindVTcpConnByFd (j_me_b J) fd' t = Some kb" and room: "length (c_inbox (conn_at kb t)) + length p \<le> VTcpInboxCap"
    and run: "cmd_RecvFrom (j_env_b J) (j_me_b J) fd' flags' n SockaddrSize (t\<lparr>g_relay := r\<rparr>) = (out, t')"
  shows "r_data out = take n (c_inbox (conn_at kb t) @ p) \<and> r_ret out = int (length (r_data out)) \<and> r_err out = ErrNone
      \<and> r_addr out = sockaddr_bytes (j_ip_a J) LdnControlPort \<and> c_inbox (conn_at kb t') = drop n (c_inbox (conn_at kb t) @ p)"
    and "\<exists>P \<in> packets_sent r (g_relay t'). carries (seg (j_ip_b J) (j_ip_a J) LdnControlPort (c_our_seq (conn_at kb t))
      (c_our_seq (conn_at ka s) + of_nat (length p)) TCP_ACK) P"
proof -
  let ?t = "t\<lparr>g_relay := r\<rparr>"
  define t2 where "t2 = DrainRelay (j_env_b J) ?t"
  have "relay_wf (g_relay ?t)" "ring_contents (m_queue (g_relay ?t)) = [b]" "length (c_inbox (conn_at kb ?t)) + length p \<le> VTcpInboxCap"
    using r room by (simp_all add: conn_at_def)
  note D = drain_data [OF joined_relay [OF J r(3)] this(1,2) b(2,1) p this(3) t2_def]
  have "FindVTcpConnByFd (j_me_b J) fd' ?t = Some kb" using peer by (simp add: FindVTcpConnByFd_def split: if_split_asm)
  then have "FindVTcpConnByFd (j_me_b J) fd' t2 = Some kb" and kl: "kb < length (g_vtcp_conns t2)"
    using drain_keeps_fd [where t = ?t and env = "j_env_b J"] r(1) joinedD(2) [OF J] by (simp_all add: t2_def)
  then have "RecvFrom_tcp (j_env_b J) kb n SockaddrSize t2 = (out, t')" using run by (simp add: cmd_RecvFrom_def t2_def)
  note R = RecvFrom_tcp_some [OF kl _ this]
  have inbox: "c_inbox (conn_at kb t2) = c_inbox (conn_at kb t) @ p" using D(1) by (simp add: conn_at_def)
  show "r_data out = take n (c_inbox (conn_at kb t) @ p) \<and> r_ret out = int (length (r_data out)) \<and> r_err out = ErrNone
      \<and> r_addr out = sockaddr_bytes (j_ip_a J) LdnControlPort \<and> c_inbox (conn_at kb t') = drop n (c_inbox (conn_at kb t) @ p)"
    using R inbox p D(2,3) by auto
  show "\<exists>P \<in> packets_sent r (g_relay t'). carries (seg (j_ip_b J) (j_ip_a J) LdnControlPort (c_our_seq (conn_at kb t))
      (c_our_seq (conn_at ka s) + of_nat (length p)) TCP_ACK) P"
    using carries_ex D(4) R(6) inbox p by (fastforce simp: conn_at_def)
qed


text \<open>A connection between the two sample consoles: fd 9 on the one, the accepted fd 1000 on the other.\<close>

definition sample_end :: "int \<Rightarrow> u32 \<Rightarrow> u32 \<Rightarrow> u32 \<Rightarrow> bridge \<Rightarrow> bridge" where
  "sample_end fd peer ours theirs = upd_conn 0 (\<lambda>c. vtcp_conn_init\<lparr>c_used := True, c_fd := fd, c_established := True,
     c_peer_ip := peer, c_peer_port := LdnControlPort, c_our_seq := ours, c_their_seq := theirs\<rparr>)"

definition stream_a :: bridge where "stream_a = sample_end 9 0x0A0D0002 5000 7000 bridge_up"
definition stream_b :: bridge where "stream_b = sample_end 1000 0x0A0D0001 7000 5000 bridge_peer"

lemma bridge_peer_simps [simp]:
  "g_relay bridge_peer = relay_up" "g_active_ldn_instance bridge_peer = Some 1" "g_last_bridged_local_ip bridge_peer = 0x0A0D0002"
  "g_vtcp_conns bridge_peer = replicate MaxVTcpConns vtcp_conn_init" "g_control_queue bridge_peer = control_init"
  "g_pending_accepts bridge_peer = replicate MaxPendingAccepts pending_accept_init"
  by (simp_all add: bridge_peer_def)

lemma sample_end_simps [simp]:
  "g_relay (sample_end fd ip x y s) = g_relay s" "g_active_ldn_instance (sample_end fd ip x y s) = g_active_ldn_instance s"
  "g_last_bridged_local_ip (sample_end fd ip x y s) = g_last_bridged_local_ip s" "g_services (sample_end fd ip x y s) = g_services s"
  "g_pending_accepts (sample_end fd ip x y s) = g_pending_accepts s" "g_relay_enabled (sample_end fd ip x y s) = g_relay_enabled s"
  "g_control_queue (sample_end fd ip x y s) = g_control_queue s"
  by (simp_all add: sample_end_def upd_conn_def)

lemma sample_end_conn:
  assumes "g_vtcp_conns s = replicate MaxVTcpConns vtcp_conn_init"
  shows "g_vtcp_conns (sample_end fd ip x y s) = (vtcp_conn_init\<lparr>c_used := True, c_fd := fd, c_established := True,
     c_peer_ip := ip, c_peer_port := LdnControlPort, c_our_seq := x, c_their_seq := y\<rparr>) # replicate (MaxVTcpConns - 1) vtcp_conn_init"
  using assms by (simp add: sample_end_def upd_conn_def MaxVTcpConns_def numeral_eq_Suc)

lemma sample_stream:
  "joined sample_consoles 0 0 stream_a stream_b" "bridge_inv stream_b" "FindVTcpConnByFd 1 9 stream_a = Some 0"
  "FindVTcpConnByFd 1 1000 stream_b = Some 0" "m_slots (g_relay stream_b) = frag_slots_init" "drained stream_b = []"
  "c_inbox (conn_at 0 stream_b) = []" "\<not> IsBridged 9 (g_services stream_a 1)"
proof -
  have relay: "m_connected relay_up" by (simp add: relay_up_def)
  show "joined sample_consoles 0 0 stream_a stream_b"
    using relay by (simp add: joined_def sample_consoles_def on_relay_def stream_a_def stream_b_def FindVTcpConnByPeer_def
        sample_end_conn first_idx_Some_iff conn_at_def none_pending_def pending_accept_init_def)
  have "bridge_inv bridge_up" by (rule bridge_inv_up)
  then show "bridge_inv stream_b"
    by (simp add: bridge_inv_def vtcp_inv_def stream_b_def sample_end_conn conn_ok_def vtcp_conn_init_def MaxVTcpConns_def)
  show "FindVTcpConnByFd 1 9 stream_a = Some 0" "FindVTcpConnByFd 1 1000 stream_b = Some 0"
    by (simp_all add: stream_a_def stream_b_def FindVTcpConnByFd_def sample_end_conn first_idx_Some_iff)
  show "m_slots (g_relay stream_b) = frag_slots_init" "drained stream_b = []"
    using bridge_up_socket(5,6) by (simp_all add: stream_b_def drained_def)
  show "c_inbox (conn_at 0 stream_b) = []" by (simp add: stream_b_def conn_at_def sample_end_conn vtcp_conn_init_def)
  show "\<not> IsBridged 9 (g_services stream_a 1)" by (simp add: stream_a_def IsBridged_def del: One_nat_def)
qed


section \<open>Closing\<close>

text \<open>\<open>Close\<close> on an established connection whose fd is not the bridged socket sends one FIN and frees the slot.\<close>

definition fin_seg :: "vtcp_conn \<Rightarrow> u32 \<Rightarrow> tcp_hdr" where
  "fin_seg c ip = seg ip (c_peer_ip c) (c_peer_port c) (c_our_seq c) (c_their_seq c) (TCP_FIN OR TCP_ACK)"

lemma cmd_Close_conn:
  assumes k: "FindVTcpConnByFd me fd s = Some k" and est: "c_established (conn_at k s)" and nb: "\<not> IsBridged fd (g_services s me)"
    and close: "cmd_Close env me fd s = (rep, s1)"
  shows "\<exists>b rc. BuildTcp (fin_seg (conn_at k s) (m_bridged_local_ip (g_services s me))) [] = Some b \<and> length b = 40
     \<and> SendIpv4 (e_sendto (e_io env)) b (g_relay s) = (rc, g_relay s1) \<and> conn_at k s1 = vtcp_conn_init"
proof -
  let ?h = "fin_seg (conn_at k s) (m_bridged_local_ip (g_services s me))"
  let ?s' = "send_seg (e_io env) ?h [] s"
  obtain b where b: "BuildTcp ?h [] = Some b" using tcp.build_fits [of "[]" ?h] by (auto simp: cap_defs)
  have kl: "k < length (g_vtcp_conns ?s')" using find_fd_SomeD [OF k] by simp
  obtain r where "?s' = s\<lparr>g_relay := r\<rparr>"
    using SendTcpSegment_frame [of "e_io env" ?h "[]" s] by (auto simp: send_seg_def)
  then have services: "g_services (upd_conn k f ?s') = g_services s" for f by (simp add: upd_conn_def)
  define c where "c = close_vtcp env me fd s"
  have fields: "g_vtcp_conns (snd c) = g_vtcp_conns (upd_conn k (\<lambda>c. vtcp_conn_init) ?s')" "g_relay (snd c) = g_relay ?s'"
    "g_services (snd c) = g_services s"
    using k est services by (simp_all add: c_def close_vtcp_def Let_def fin_seg_def)
  have nb': "\<not> IsBridged fd ((UntrackFd fd) (g_services s me))" using nb by (simp add: IsBridged_def UntrackFd_def)
  have "g_vtcp_conns s1 = g_vtcp_conns (snd c) \<and> g_relay s1 = g_relay (snd c)"
    using close nb' fields(3) unfolding cmd_Close_def c_def [symmetric]
    by (auto simp: forward_def Let_def split_beta upd_service_def split: if_splits)
  then have "g_vtcp_conns s1 = g_vtcp_conns (upd_conn k (\<lambda>c. vtcp_conn_init) ?s')" "g_relay s1 = snd (SendIpv4 (e_sendto (e_io env)) b (g_relay s))"
    using fields b by (simp_all add: send_seg_def SendTcpSegment_def split_beta)
  moreover have "conn_at k (upd_conn k (\<lambda>c. vtcp_conn_init) ?s') = vtcp_conn_init" using conn_at_upd [OF kl] by simp
  ultimately show ?thesis using b BuildTcp_length [OF b] by (intro exI [of _ b]) (auto simp: conn_at_def intro: prod.collapse [symmetric])
qed

lemma fin_flags:
  "has_flag (TCP_FIN OR TCP_ACK) TCP_FIN" "\<not> has_flag (TCP_FIN OR TCP_ACK) TCP_SYN" "\<not> has_flag (TCP_FIN OR TCP_ACK) TCP_RST"
  by (simp_all add: has_flag_def tcp_flag_defs)

text \<open>The FIN at the other console: the inbox stays, and no more will come.\<close>

lemma drain_fin:
  assumes J: "joined J ka kb s t" and wf: "relay_wf (g_relay t)" and one: "ring_contents (m_queue (g_relay t)) = [b]"
    and len: "length b \<le> PumpPktSize" and b: "BuildTcp (fin_seg (conn_at ka s) (j_ip_a J)) [] = Some b"
    and t2: "t2 = DrainRelay (j_env_b J) t"
  shows "c_inbox (conn_at kb t2) = c_inbox (conn_at kb t)" "c_peer_closed (conn_at kb t2)"
proof -
  have b': "BuildTcp (seg (j_ip_a J) (j_ip_b J) LdnControlPort (c_our_seq (conn_at ka s)) (c_their_seq (conn_at ka s)) (TCP_FIN OR TCP_ACK)) [] = Some b"
    using b joinedD(3) [OF J] J by (simp add: fin_seg_def joined_def)
  obtain t1 where T: "t2 = HandleTcpSegment (e_io (j_env_b J)) (j_me_b J) (j_ip_b J) (j_ip_a J) LdnControlPort
        (c_our_seq (conn_at ka s)) (c_their_seq (conn_at ka s)) (TCP_FIN OR TCP_ACK) [] t1"
    "conn_at kb t1 = retx (e_now (j_env_b J)) (conn_at kb t)" "kb < length (g_vtcp_conns t1)"
    "FindVTcpConnByPeer (j_me_b J) (j_ip_a J) t1 = Some kb"
    using drain_one [OF J wf one len b'] unfolding t2 by metis
  have "t2 = handle_fin (e_io (j_env_b J)) (j_ip_b J) (j_ip_a J) LdnControlPort (c_our_seq (conn_at ka s)) (Some kb) t1"
    using T(1,4) fin_flags by (simp add: HandleTcpSegment_def Let_def)
  then show "c_inbox (conn_at kb t2) = c_inbox (conn_at kb t)" "c_peer_closed (conn_at kb t2)"
    using T(2,3) by (simp_all add: handle_fin_def Let_def conn_at_upd)
qed

text \<open>Reading at the end of the stream.\<close>

lemma RecvFrom_eof:
  assumes k: "FindVTcpConnByFd me fd t = Some k" and wf: "relay_wf (g_relay t)" and idle: "drained t = []"
    and eof: "c_inbox (conn_at k t) = []" "c_peer_closed (conn_at k t)"
  shows "fst (cmd_RecvFrom env me fd flags n a t) = reply_local 0 ErrNone"
  using DrainRelay_idle [OF idle, of k env] find_fd_SomeD [OF k] eof k drain_keeps_fd(1) [OF wf, of me fd env]
  by (simp add: cmd_RecvFrom_def RecvFrom_tcp_def)

lemma RecvFrom_tcp_frame:
  "conn_ids (snd (RecvFrom_tcp env k n a s)) = conn_ids s" "g_active_ldn_instance (snd (RecvFrom_tcp env k n a s)) = g_active_ldn_instance s"
  "g_relay (snd (RecvFrom_tcp env k n a s)) = g_relay s"
  using ids(1) [OF refl, of "\<lambda>c. c\<lparr>c_inbox := drop m (c_inbox c)\<rparr>" k s for m]
  by (auto simp: RecvFrom_tcp_def vtcp_read_def Let_def TouchBridgeActivity_def conn_ids_def conn_id_def upd_conn_def)

text \<open>The calls of \<open>RecvFrom\<close> from the FIN on.\<close>

lemma fin_read:
  assumes J: "joined J ka kb s t" and b: "BuildTcp (fin_seg (conn_at ka s) (j_ip_a J)) [] = Some b" "length b \<le> PumpPktSize"
    and inv: "bridge_inv t" and r: "relay_wf r" "ring_contents (m_queue r) = [b]" "m_connected r"
    and peer: "FindVTcpConnByFd (j_me_b J) fd' t = Some kb"
    and run: "cmd_RecvFrom (j_env_b J) (j_me_b J) fd' flags' n SockaddrSize (t\<lparr>g_relay := r\<rparr>) = (out, t')"
  shows "r_data out = take n (c_inbox (conn_at kb t)) \<and> r_ret out = int (length (r_data out)) \<and> r_err out = ErrNone
     \<and> (length (c_inbox (conn_at kb t)) \<le> n \<longrightarrow>
          fst (cmd_RecvFrom env (j_me_b J) fd' flags'' m SockaddrSize t') = reply_local 0 ErrNone)"
proof -
  let ?t = "t\<lparr>g_relay := r\<rparr>"
  define t2 where "t2 = DrainRelay (j_env_b J) ?t"
  have "relay_wf (g_relay ?t)" "ring_contents (m_queue (g_relay ?t)) = [b]" using r by simp_all
  from drain_fin [OF joined_relay [OF J r(3)] this b(2,1) t2_def]
  have fin: "c_inbox (conn_at kb t2) = c_inbox (conn_at kb t)" "c_peer_closed (conn_at kb t2)" by (simp_all add: conn_at_def)
  have "bridge_inv ?t" using inv r(1) by (simp add: bridge_inv_def vtcp_inv_def)
  from DrainRelay_spec [OF this t2_def] have I: "bridge_inv t2" "drained t2 = []" by blast+
  have "FindVTcpConnByFd (j_me_b J) fd' ?t = Some kb" using peer by (simp add: FindVTcpConnByFd_def split: if_split_asm)
  then have fd: "FindVTcpConnByFd (j_me_b J) fd' t2 = Some kb" "kb < length (g_vtcp_conns t2)"
    using drain_keeps_fd [where t = ?t and env = "j_env_b J"] r(1) joinedD(2) [OF J] by (simp_all add: t2_def)
  have tcp: "RecvFrom_tcp (j_env_b J) kb n SockaddrSize t2 = (out, t')" using run fd(1) by (simp add: cmd_RecvFrom_def t2_def)
  note K = RecvFrom_tcp_frame [of "j_env_b J" kb n SockaddrSize t2, unfolded tcp snd_conv]
  have fd': "FindVTcpConnByFd (j_me_b J) fd' t' = Some kb" using fd(1) find_fd_cong [OF K(1,2)] by simp
  have q: "relay_wf (g_relay t')" "drained t' = []" using I K(3) by (simp_all add: bridge_inv_def drained_def)
  have "r_data out = take n (c_inbox (conn_at kb t)) \<and> r_ret out = int (length (r_data out)) \<and> r_err out = ErrNone
      \<and> c_inbox (conn_at kb t') = drop n (c_inbox (conn_at kb t)) \<and> c_peer_closed (conn_at kb t')"
  proof (cases "c_inbox (conn_at kb t2) = []")
    case True
    then show ?thesis using tcp fin by (auto simp: RecvFrom_tcp_def reply_local_def)
  next
    case False
    then have "c_peer_closed (conn_at kb t')"
      using tcp fin(2) fd(2) by (auto simp: RecvFrom_tcp_def vtcp_read_def Let_def TouchBridgeActivity_def conn_at_def upd_conn_def)
    then show ?thesis using RecvFrom_tcp_some [OF fd(2) False tcp] fin(1) by simp
  qed
  then show ?thesis using RecvFrom_eof [OF fd' q] by simp
qed



section \<open>When the segment is lost\<close>

lemma drain_idle_ticks:
  assumes idle: "drained s = []" and own: "g_active_ldn_instance s = Some me" and ip: "g_last_bridged_local_ip s = ip"
  shows "DrainRelay env s = CheckDataRetransmits (e_io env) ip (e_now env) s"
proof -
  let ?s = "CheckDataRetransmits (e_io env) ip (e_now env) s"
  have "rq_count (m_queue (g_relay ?s)) = 0"
    using CheckDataRetransmits_vframe [of s "e_io env" ip "e_now env"] idle by (simp add: vframe_def rx_eq_iff drained_def ring_nil_iff)
  then show ?thesis using own ip by (simp add: DrainRelay_def DrainRawRelayQueue_def)
qed

text \<open>A tick of the drain thread with nothing in the queue.\<close>

lemma awaits_tick:
  assumes A: "awaits J ka c p s" and idle: "drained s = []" and s': "s' = DrainRelay env s"
  shows "awaits J ka c p s'" "drained s' = []" "conn_at ka s' = retx (e_now env) (conn_at ka s)"
    "s' = CheckDataRetransmits (e_io env) (j_ip_a J) (e_now env) s"
proof -
  have on: "g_active_ldn_instance s = Some (j_me_a J)" "g_last_bridged_local_ip s = j_ip_a J" using A by (simp_all add: awaits_def on_relay_def)
  show eq: "s' = CheckDataRetransmits (e_io env) (j_ip_a J) (e_now env) s" using drain_idle_ticks [OF idle on] s' by simp
  have kl: "ka < length (g_vtcp_conns s)" using A by (auto simp: awaits_def dest: find_peer_SomeD)
  let ?s = "CheckDataRetransmits (e_io env) (j_ip_a J) (e_now env) s"
  have "s' = ?s\<lparr>g_relay := (g_relay ?s)\<lparr>m_queue := m_queue (g_relay ?s)\<rparr>\<rparr>" by (simp add: eq)
  note T = ticked [OF kl this]
  show "conn_at ka s' = retx (e_now env) (conn_at ka s)" by (rule T(1))
  have "c_unacked_seq (retx now d) = c_unacked_seq d" "c_unacked_data (retx now d) = c_unacked_data d" for now d
    by (simp_all add: retx_def)
  then show "awaits J ka c p s'" using A T by (simp add: awaits_def on_relay_def)
  show "drained s' = []"
    using CheckDataRetransmits_vframe [of s "e_io env" "j_ip_a J" "e_now env"] idle by (simp add: eq vframe_def rx_eq_iff drained_def)
qed

abbreviation ticks :: "benv \<Rightarrow> u64 list \<Rightarrow> bridge \<Rightarrow> bridge" where
  "ticks env ts s \<equiv> fold (\<lambda>now. DrainRelay (env\<lparr>e_now := now\<rparr>)) ts s"

lemma awaits_ticks:
  assumes "awaits J ka c p s" and "drained s = []"
  shows "awaits J ka c p (ticks env ts s) \<and> drained (ticks env ts s) = [] \<and> conn_at ka (ticks env ts s) = fold retx ts (conn_at ka s)"
  using assms
proof (induction ts arbitrary: s)
  case (Cons now ts)
  show ?case using Cons.IH [OF awaits_tick(1,2) [OF Cons.prems refl]] awaits_tick(3) [OF Cons.prems refl] by simp
qed simp

text \<open>A tick that is due sends the same segment again, between what it sends for the connections before and behind.\<close>

lemma tick_resends:
  assumes k: "k < length (g_vtcp_conns s)" and c: "c_used (conn_at k s)" "c_established (conn_at k s)" "c_has_unacked_data (conn_at k s)"
    and due: "DataRetransmitIntervalMs \<le> now - c_last_send_tick_ms (conn_at k s)" and more: "c_retransmit_count (conn_at k s) < MaxDataRetransmits"
    and up: "m_connected (g_relay s)"
    and b: "BuildTcp (seg ip (c_peer_ip (conn_at k s)) (c_peer_port (conn_at k s)) (c_unacked_seq (conn_at k s)) (c_their_seq (conn_at k s))
      (TCP_PSH OR TCP_ACK)) (c_unacked_data (conn_at k s)) = Some b"
  obtains r0 rc r1 where "prefix (m_sent (g_relay s)) (m_sent r0)" and "m_connected r0" and "SendIpv4 (e_sendto env) b r0 = (rc, r1)"
    and "prefix (m_sent r1) (m_sent (g_relay (CheckDataRetransmits env ip now s)))"
proof -
  let ?n = "length (g_vtcp_conns s)"
  let ?m = "fold (retransmit_conn env ip now) [0..<k] s"
  have ks: "[0..<?n] = [0..<k] @ k # [Suc k..<?n]" using k by (metis add.commute le_add_diff_inverse less_imp_le_nat upt_add_eq_append upt_conv_Cons zero_le)
  have M: "length (g_vtcp_conns ?m) = ?n \<and> conn_at k ?m = conn_at k s \<and> vframe s ?m \<and> log_grows s ?m"
  proof -
    have "length (g_vtcp_conns (fold (retransmit_conn env ip now) js s')) = length (g_vtcp_conns s')
        \<and> conn_at k (fold (retransmit_conn env ip now) js s') = conn_at k s' \<and> vframe s' (fold (retransmit_conn env ip now) js s')
        \<and> log_grows s' (fold (retransmit_conn env ip now) js s')"
      if "\<forall>j \<in> set js. j < length (g_vtcp_conns s') \<and> j \<noteq> k" for js s'
      using that
    proof (induction js arbitrary: s')
      case (Cons j js)
      have 1: "vframe s' (retransmit_conn env ip now j s')" by (auto simp: retransmit_conn_def Let_def intro!: frames)
      have 2: "log_grows s' (retransmit_conn env ip now j s')" by (rule log_grows_retransmit)
      have j: "j < length (g_vtcp_conns s')" "k \<noteq> j" using Cons.prems by auto
      note R = retransmit_conn_at [OF j(1), where env = env and ip = ip and now = now]
      show ?case using Cons.IH [of "retransmit_conn env ip now j s'"] Cons.prems R j 1 2
        by (auto intro: vframe_trans prefix_order.trans simp: log_grows_def)
    qed (simp add: log_grows_def)
    from this [of "[0..<k]" s] show ?thesis using k by auto
  qed
  define r0 where "r0 = g_relay ?m"
  obtain rc r1 where r1: "SendIpv4 (e_sendto env) b r0 = (rc, r1)" by fastforce
  have "retransmit_conn env ip now k ?m = send_seg env (seg ip (c_peer_ip (conn_at k s)) (c_peer_port (conn_at k s)) (c_unacked_seq (conn_at k s))
      (c_their_seq (conn_at k s)) (TCP_PSH OR TCP_ACK)) (c_unacked_data (conn_at k s))
      (upd_conn k (\<lambda>c. c\<lparr>c_retransmit_count := c_retransmit_count c + 1, c_last_send_tick_ms := now\<rparr>) ?m)"
    using M c due more by (simp add: retransmit_conn_def Let_def not_less not_le)
  then have sent: "g_relay (retransmit_conn env ip now k ?m) = r1"
    using b r1 by (simp add: send_seg_def SendTcpSegment_def split_beta r0_def)
  have "log_grows (retransmit_conn env ip now k ?m) (fold (retransmit_conn env ip now) js (retransmit_conn env ip now k ?m))" for js
    by (rule log_grows_fold)
  then have "prefix (m_sent r1) (m_sent (g_relay (CheckDataRetransmits env ip now s)))"
    using sent ks by (simp add: CheckDataRetransmits_def log_grows_def)
  moreover have "m_connected r0" using M up by (simp add: r0_def vframe_def rx_eq_iff)
  ultimately show ?thesis using that [of r0 rc r1] M r1 by (simp add: log_grows_def r0_def)
qed

lemma spaced_snoc: "spaced t (ts @ [now]) \<longleftrightarrow> spaced t ts \<and> DataRetransmitIntervalMs \<le> now - last (t # ts)"
  by (induction ts arbitrary: t) auto

lemma retx_fold_last:
  assumes "c_used c" "c_established c" "c_has_unacked_data c" "spaced (c_last_send_tick_ms c) ts"
    "c_retransmit_count c + length ts \<le> MaxDataRetransmits"
  shows "c_last_send_tick_ms (fold retx ts c) = last (c_last_send_tick_ms c # ts)"
  using assms
proof (induction ts arbitrary: c)
  case (Cons now ts)
  have "\<not> now - c_last_send_tick_ms c < DataRetransmitIntervalMs" using Cons.prems by (simp add: not_less)
  then have r: "retx now c = c\<lparr>c_retransmit_count := c_retransmit_count c + 1, c_last_send_tick_ms := now\<rparr>"
    using Cons.prems by (simp add: retx_def)
  show ?case using Cons.IH [of "retx now c"] Cons.prems by (simp add: r)
qed simp

text \<open>After the send and some ticks whose packets were all lost, the next one is due.\<close>

lemma after_losses:
  assumes A: "awaits J ka c p s" "conn_at ka s = after_send t0 p c'" "drained s = []"
    and times: "spaced t0 (ts @ [now])" "length ts < MaxDataRetransmits" and s': "s' = ticks env ts s"
  shows "awaits J ka c p s'" "drained s' = []" "c_has_unacked_data (conn_at ka s')" "c_retransmit_count (conn_at ka s') < MaxDataRetransmits"
    "DataRetransmitIntervalMs \<le> now - c_last_send_tick_ms (conn_at ka s')"
proof -
  note T = awaits_ticks [OF A(1,3), of env ts, folded s']
  then show "awaits J ka c p s'" "drained s' = []" by blast+
  have used: "c_used (conn_at ka s)" "c_established (conn_at ka s)" using A(1) by (simp_all add: awaits_def)
  have fields: "c_has_unacked_data (conn_at ka s)" "c_last_send_tick_ms (conn_at ka s) = t0" "c_retransmit_count (conn_at ka s) = 0"
    using A(2) by (simp_all add: after_send_def)
  have W: "spaced t0 ts" "DataRetransmitIntervalMs \<le> now - last (t0 # ts)" using times(1) by (simp_all add: spaced_snoc)
  show "c_has_unacked_data (conn_at ka s')" "c_retransmit_count (conn_at ka s') < MaxDataRetransmits"
    using retx_fold [OF used fields(1), of ts] W(1) fields(2,3) times(2) T by simp_all
  show "DataRetransmitIntervalMs \<le> now - c_last_send_tick_ms (conn_at ka s')"
    using retx_fold_last [OF used fields(1), of ts] W fields(2,3) times(2) T by simp
qed

lemma sent_frames_split:
  "prefix (m_sent r) (m_sent r0) \<Longrightarrow> prefix (m_sent r0) (m_sent r1) \<Longrightarrow> prefix (m_sent r1) (m_sent r') \<Longrightarrow>
     sent_frames r r' = sent_frames r r0 @ sent_frames r0 r1 @ sent_frames r1 r'"
  by (auto simp: sent_frames_def prefix_def)



end
