(* ===== verification/Conversation.thy ===== *)
theory Conversation
  imports TcpPath
begin

text \<open>
  A conversation over one virtual connection, in both directions and with every step of both consoles: \<open>SendTo\<close>, the frames,
  the pump, \<open>RecvFrom\<close>, and the acknowledgement back through frames, pump and drain. The connection ends each exchange
  in a state like the one before, so any number of messages of at most 1360 bytes can follow.
\<close>

section \<open>One exchange\<close>

text \<open>The message \<open>p\<close> from the first console (fd \<open>fda\<close>) to the second (\<open>fdb\<close>), at time \<open>now\<close>: the bytes \<open>RecvFrom\<close> returns,
  and both consoles afterwards.\<close>

definition at_time :: "u64 \<Rightarrow> consoles \<Rightarrow> consoles" where
  "at_time now J = J\<lparr>j_env_a := (j_env_a J)\<lparr>e_now := now\<rparr>, j_env_b := (j_env_b J)\<lparr>e_now := now\<rparr>\<rparr>"

definition exchange :: "consoles \<Rightarrow> int \<Rightarrow> int \<Rightarrow> u8 list \<Rightarrow> bridge \<Rightarrow> bridge \<Rightarrow> (u8 list \<times> bridge \<times> bridge) option" where
  "exchange J fda fdb p a b =
     (let (rep, a1) = cmd_SendTo (j_env_a J) (j_me_a J) fda 0 p [] a;
          frames = sent_frames (g_relay a) (g_relay a1)
      in case pump_drains (length frames) frames (g_relay b) of
           None \<Rightarrow> None
         | Some (_, r) \<Rightarrow>
             let (ans, b1) = cmd_RecvFrom (j_env_b J) (j_me_b J) fdb 0 (length p) SockaddrSize (b\<lparr>g_relay := r\<rparr>);
                 back = sent_frames r (g_relay b1)
             in case pump_drains (length back) back (g_relay a1) of
                  None \<Rightarrow> None
                | Some (_, r') \<Rightarrow> Some (r_data ans, DrainRelay (j_env_a J) (a1\<lparr>g_relay := r'\<rparr>), b1))"

text \<open>The same pair of consoles, seen from the other side.\<close>

definition turned :: "consoles \<Rightarrow> consoles" where
  "turned J = \<lparr>j_env_a = j_env_b J, j_me_a = j_me_b J, j_ip_a = j_ip_b J, j_env_b = j_env_a J, j_me_b = j_me_a J, j_ip_b = j_ip_a J\<rparr>"

text \<open>A message is its direction (\<open>True\<close>: from the first console), its time and its bytes.\<close>

fun converse :: "consoles \<Rightarrow> int \<Rightarrow> int \<Rightarrow> (bool \<times> u64 \<times> u8 list) list \<Rightarrow> bridge \<Rightarrow> bridge \<Rightarrow> (u8 list list \<times> bridge \<times> bridge) option" where
  "converse J fda fdb [] a b = Some ([], a, b)"
| "converse J fda fdb ((dir, now, p) # ms) a b =
     (if dir then
        (case exchange (at_time now J) fda fdb p a b of
           None \<Rightarrow> None
         | Some (ans, a', b') \<Rightarrow> map_option (\<lambda>(more, st). (ans # more, st)) (converse J fda fdb ms a' b'))
      else
        (case exchange (turned (at_time now J)) fdb fda p b a of
           None \<Rightarrow> None
         | Some (ans, b', a') \<Rightarrow> map_option (\<lambda>(more, st). (ans # more, st)) (converse J fda fdb ms a' b')))"

section \<open>An end of the connection between two exchanges\<close>

definition end_idle :: "nat \<Rightarrow> u32 \<Rightarrow> u32 \<Rightarrow> int \<Rightarrow> nat \<Rightarrow> bridge \<Rightarrow> bool" where
  "end_idle me ip peer fd k s \<longleftrightarrow>
     sys_inv s \<and> on_relay me ip s \<and> g_relay_enabled s \<and> drained s = [] \<and> m_bridged_local_ip (g_services s me) = ip
     \<and> FindVTcpConnByPeer me peer s = Some k \<and> FindVTcpConnByFd me fd s = Some k \<and> none_pending peer (g_pending_accepts s)
     \<and> c_established (conn_at k s) \<and> c_peer_port (conn_at k s) = LdnControlPort \<and> c_inbox (conn_at k s) = []
     \<and> (\<forall>c \<in> set (g_vtcp_conns s). \<not> c_has_unacked_data c)"

definition talking :: "consoles \<Rightarrow> int \<Rightarrow> int \<Rightarrow> nat \<Rightarrow> nat \<Rightarrow> bridge \<Rightarrow> bridge \<Rightarrow> bool" where
  "talking J fda fdb ka kb a b \<longleftrightarrow>
     end_idle (j_me_a J) (j_ip_a J) (j_ip_b J) fda ka a \<and> end_idle (j_me_b J) (j_ip_b J) (j_ip_a J) fdb kb b
     \<and> accepts_all (e_sendto (e_io (j_env_a J))) \<and> accepts_all (e_sendto (e_io (j_env_b J)))
     \<and> c_our_seq (conn_at ka a) = c_their_seq (conn_at kb b) \<and> c_our_seq (conn_at kb b) = c_their_seq (conn_at ka a)"

lemma talking_turned: "talking J fda fdb ka kb a b \<Longrightarrow> talking (turned J) fdb fda kb ka b a"
  by (simp add: talking_def turned_def)

lemma talking_time [simp]: "talking (at_time now J) fda fdb ka kb a b = talking J fda fdb ka kb a b"
  by (simp add: talking_def at_time_def)

lemma turned_time: "turned (turned J) = J"
  by (simp add: turned_def)

text \<open>A step that changes only the connection, in its numbers and its bytes, and what was sent and queued.\<close>

lemma end_idle_after:
  assumes E: "end_idle me ip peer fd k s" and inv: "sys_inv s'" and q: "drained s' = []"
    and conns: "g_vtcp_conns s' = (g_vtcp_conns s)[k := c]"
    and c: "c_used c" "c_fd c = c_fd (conn_at k s)" "c_peer_ip c = c_peer_ip (conn_at k s)" "c_established c"
      "c_peer_port c = LdnControlPort" "c_inbox c = []" "\<not> c_has_unacked_data c"
    and rest: "g_active_ldn_instance s' = g_active_ldn_instance s" "g_last_bridged_local_ip s' = g_last_bridged_local_ip s"
      "g_pending_accepts s' = g_pending_accepts s" "g_services s' = g_services s" "g_relay_enabled s' = g_relay_enabled s"
      "m_connected (g_relay s') = m_connected (g_relay s)"
  shows "end_idle me ip peer fd k s'" "conn_at k s' = c"
proof -
  have k: "k < length (g_vtcp_conns s)" "c_used (conn_at k s)" using E by (auto simp: end_idle_def dest: find_peer_SomeD)
  show at: "conn_at k s' = c" using k by (simp add: conn_at_def conns)
  have keys: "conn_keys s' = conn_keys s"
    using k c by (simp add: conn_keys_def conns map_update conn_at_def list_update_same_conv)
  have ids: "map (\<lambda>c. (c_used c, c_fd c)) (g_vtcp_conns s') = map (\<lambda>c. (c_used c, c_fd c)) (g_vtcp_conns s)"
    using k c by (simp add: conns map_update conn_at_def list_update_same_conv)
  have fd: "FindVTcpConnByFd me fd s' = FindVTcpConnByFd me fd s"
  proof -
    have "FindVTcpConnByFd me fd u = (if g_active_ldn_instance u \<noteq> Some me then None
        else first_idx (\<lambda>(x, f). x \<and> f = fd) (map (\<lambda>c. (c_used c, c_fd c)) (g_vtcp_conns u)))" for u :: bridge
      by (simp add: FindVTcpConnByFd_def first_idx_map [symmetric])
    then show ?thesis by (simp add: ids rest(1))
  qed
  have "\<forall>d \<in> set (g_vtcp_conns s'). \<not> c_has_unacked_data d"
    using E c(7) k by (auto simp: conns end_idle_def dest!: set_update_subset_insert [THEN subsetD])
  then show "end_idle me ip peer fd k s'"
    using E inv q at c fd find_peer_cong [OF keys rest(1)] rest by (simp add: end_idle_def on_relay_def)
qed

section \<open>The steps of an exchange\<close>

lemma one_frame_arrives:
  assumes P: "length P \<le> RELAY_MTU" and up: "m_connected r0" and send: "SendIpv4 os P r0 = (rc, r1)"
    and wf: "relay_wf r" and idle: "ring_contents (m_queue r) = []"
  obtains q where "pump_drains (length (sent_frames r0 r1)) (sent_frames r0 r1) r = Some ([], r\<lparr>m_queue := q\<rparr>)"
    and "ring_contents q = [P]" and "relay_wf (r\<lparr>m_queue := q\<rparr>)"
proof -
  obtain rc' where "m_sent r1 = m_sent r0 @ [(FrameIpv4 # P, rc')]" using SendIpv4_short [OF up P, of os] send by auto
  then have frames: "sent_frames r0 r1 = [FrameIpv4 # P]" by (simp add: sent_frames_def)
  let ?r = "r\<lparr>m_queue := ring_push P (m_queue r)\<rparr>"
  have feed: "relay_feed [FrameIpv4 # P] r = Some ?r" using RecvIpv4_ipv4_frame [OF P] by simp
  obtain r' where "relay_feed [FrameIpv4 # P] r = Some r'" "relay_wf r'" using relay_feed_ok [OF wf] by blast
  then have "relay_wf ?r" using feed by simp
  moreover have "ring_contents (ring_push P (m_queue r)) = [P]"
    using ring_contents_push [of "m_queue r" P] wf idle by (simp add: relay_wf_def QueueSize_def)
  ultimately show ?thesis using that pump_drains_feed [OF feed, of 1] by (simp add: frames)
qed

text \<open>Draining the one packet when no segment is due.\<close>

lemma drain_exact:
  assumes wf: "relay_wf (g_relay t)" and on: "on_relay me ip t" and one: "ring_contents (m_queue (g_relay t)) = [P]"
    and P: "BuildTcp (seg src ip LdnControlPort no ak fl) p = Some P" "length P \<le> PumpPktSize"
    and quiet: "CheckDataRetransmits (e_io env) ip (e_now env) t = t"
  obtains q where "DrainRelay env t = HandleTcpSegment (e_io env) me ip src LdnControlPort no ak fl p (t\<lparr>g_relay := (g_relay t)\<lparr>m_queue := q\<rparr>\<rparr>)"
proof -
  obtain q where q: "DrainRelay env t = drain_packet env P (t\<lparr>g_relay := (g_relay t)\<lparr>m_queue := q\<rparr>\<rparr>)"
    using drain_single [OF wf one P(2), of me ip env] on quiet by (auto simp: on_relay_def)
  have "on_relay me ip (t\<lparr>g_relay := (g_relay t)\<lparr>m_queue := q\<rparr>\<rparr>)" using on by (simp add: on_relay_def)
  then show ?thesis using that drain_packet_built [OF P(1), of me ip] q by (simp add: seg_def)
qed

lemma quiet_tick:
  assumes "\<forall>k < length (g_vtcp_conns t). c_has_unacked_data (conn_at k t) \<longrightarrow> c_last_send_tick_ms (conn_at k t) = now"
  shows "CheckDataRetransmits io ip now t = t"
proof -
  have "retransmit_conn io ip now k t = t" if "k < length (g_vtcp_conns t)" for k
    using assms that by (auto simp: retransmit_conn_def DataRetransmitIntervalMs_def Let_def)
  then have "fold (retransmit_conn io ip now) ks t = t" if "set ks \<subseteq> {..<length (g_vtcp_conns t)}" for ks
    using that by (induction ks) auto
  then show ?thesis unfolding CheckDataRetransmits_def by (metis atLeast_upt order_refl)
qed

lemma send_seg_exact:
  assumes "m_connected (g_relay s)"
  obtains P rc r where "carries h P" and "SendIpv4 (e_sendto io) P (g_relay s) = (rc, r)" and "length P = 40"
    and "send_seg io h [] s = s\<lparr>g_relay := r\<rparr>" and "rx_eq (g_relay s) r"
proof -
  obtain P where P: "carries h P" using carries_ex by blast
  obtain rc r where r: "SendIpv4 (e_sendto io) P (g_relay s) = (rc, r)" by fastforce
  have "rx_eq (g_relay s) r" using SendIpv4_rx_eq [of "g_relay s" "e_sendto io" P] r by simp
  then show ?thesis
    using that [OF P r] BuildTcp_length [of h "[]" P] P r by (simp add: carries_def send_seg_def SendTcpSegment_def)
qed

text \<open>The expected segment at an end that waits for nothing.\<close>

lemma data_taken:
  assumes k: "FindVTcpConnByPeer me src t = Some k" and np: "none_pending src (g_pending_accepts t)" and est: "c_established (conn_at k t)"
    and idle: "c_inbox (conn_at k t) = []" "\<not> c_has_unacked_data (conn_at k t)" and p: "p \<noteq> []" "length p \<le> VTcpInboxCap"
  shows "HandleTcpSegment env me ip src port (c_their_seq (conn_at k t)) ak (TCP_PSH OR TCP_ACK) p t
     = send_seg env (seg ip src port (c_our_seq (conn_at k t)) (c_their_seq (conn_at k t) + of_nat (length p)) TCP_ACK) []
         (upd_conn k (\<lambda>c. c\<lparr>c_inbox := p, c_their_seq := c_their_seq c + of_nat (length p)\<rparr>) t)"
proof -
  have kl: "k < length (g_vtcp_conns t)" using find_peer_SomeD [OF k] by blast
  have "HandleTcpSegment env me ip src port (c_their_seq (conn_at k t)) ak (TCP_PSH OR TCP_ACK) p t
      = handle_data env ip src port (c_their_seq (conn_at k t)) p k t"
    using data_segment_step [OF k, of "TCP_PSH OR TCP_ACK"] flag_cases(12-15) np idle(2) by (simp add: none_pending_def)
  moreover have "upd_conn k (\<lambda>c. c\<lparr>c_inbox := c_inbox c @ p, c_their_seq := c_their_seq c + of_nat (length p)\<rparr>) t
      = upd_conn k (\<lambda>c. c\<lparr>c_inbox := p, c_their_seq := c_their_seq c + of_nat (length p)\<rparr>) t"
    using idle(1) by (simp add: upd_conn_def conn_at_def)
  ultimately show ?thesis using est idle(1) p kl by (simp add: handle_data_def Let_def conn_at_upd)
qed

section \<open>The two halves of an exchange\<close>

text \<open>The receiving console: from the segment in its queue to the bytes in the application and the acknowledgement sent.\<close>

lemma receive_half:
  assumes E: "end_idle me ip src fd k b" and p: "p \<noteq> []" "length p \<le> 1360"
    and P: "BuildTcp (seg src ip LdnControlPort (c_their_seq (conn_at k b)) ak (TCP_PSH OR TCP_ACK)) p = Some P"
    and r: "r = (g_relay b)\<lparr>m_queue := q\<rparr>" "ring_contents q = [P]" "relay_wf r"
    and run: "cmd_RecvFrom env me fd 0 (length p) SockaddrSize (b\<lparr>g_relay := r\<rparr>) = (rep, b1)"
  obtains A rc r1 where "r_data rep = p"
    and "carries (seg ip src LdnControlPort (c_our_seq (conn_at k b)) (c_their_seq (conn_at k b) + of_nat (length p)) TCP_ACK) A"
    and "length A = 40" and "sent_frames r (g_relay b1) = sent_frames r1 (g_relay b1)"
    and "SendIpv4 (e_sendto (e_io env)) A r1 = (rc, g_relay b1)" and "m_connected r1"
    and "end_idle me ip src fd k b1" and "c_our_seq (conn_at k b1) = c_our_seq (conn_at k b)"
    and "c_their_seq (conn_at k b1) = c_their_seq (conn_at k b) + of_nat (length p)"
proof -
  let ?t = "b\<lparr>g_relay := r\<rparr>" and ?n = "of_nat (length p) :: u32"
  have k: "k < length (g_vtcp_conns b)" using E by (auto simp: end_idle_def dest: find_peer_SomeD)
  have on: "on_relay me ip ?t" using E by (simp add: end_idle_def on_relay_def r(1))
  have no: "\<not> c_has_unacked_data (conn_at j ?t)" if "j < length (g_vtcp_conns ?t)" for j
    using E that by (simp add: end_idle_def conn_at_def)
  then have quiet: "CheckDataRetransmits (e_io env) ip (e_now env) ?t = ?t" by (intro quiet_tick) blast
  have len: "length P \<le> PumpPktSize" using BuildTcp_length [OF P] p(2) by (simp add: PumpPktSize_def frag_consts)
  have wf: "relay_wf (g_relay ?t)" "ring_contents (m_queue (g_relay ?t)) = [P]" using r by simp_all
  define t2 where "t2 = DrainRelay env ?t"
  obtain q1 where t2: "t2 = HandleTcpSegment (e_io env) me ip src LdnControlPort (c_their_seq (conn_at k b)) ak (TCP_PSH OR TCP_ACK) p
      (b\<lparr>g_relay := r\<lparr>m_queue := q1\<rparr>\<rparr>)"
    using drain_exact [OF wf(1) on wf(2) P len quiet] unfolding t2_def by auto
  let ?t1 = "b\<lparr>g_relay := r\<lparr>m_queue := q1\<rparr>\<rparr>"
  have at1: "conn_at k ?t1 = conn_at k b" by (simp add: conn_at_def)
  have find1: "FindVTcpConnByPeer me src ?t1 = Some k"
    using E by (simp add: end_idle_def FindVTcpConnByPeer_def split: if_split_asm)
  define u where "u = upd_conn k (\<lambda>c. c\<lparr>c_inbox := p, c_their_seq := c_their_seq c + ?n\<rparr>) ?t1"
  let ?h = "seg ip src LdnControlPort (c_our_seq (conn_at k b)) (c_their_seq (conn_at k b) + ?n) TCP_ACK"
  have t2u: "t2 = send_seg (e_io env) ?h [] u"
    using data_taken [OF find1, of p "e_io env" ip LdnControlPort ak] E no [of k] k p at1 t2
    by (simp add: end_idle_def cap_defs conn_at_def u_def)
  have gu: "g_relay u = r\<lparr>m_queue := q1\<rparr>" by (simp add: u_def)
  have up1: "m_connected (g_relay u)" using on by (simp add: on_relay_def gu)
  obtain A rc r2 where A: "carries ?h A" "SendIpv4 (e_sendto (e_io env)) A (g_relay u) = (rc, r2)" "length A = 40"
    "t2 = u\<lparr>g_relay := r2\<rparr>" "rx_eq (g_relay u) r2"
    using send_seg_exact [OF up1, where h = ?h and io = "e_io env"] t2u by metis
  have kl2: "k < length (g_vtcp_conns t2)" and in2: "conn_at k t2 = (conn_at k b)\<lparr>c_inbox := p, c_their_seq := c_their_seq (conn_at k b) + ?n\<rparr>"
    and conns2: "g_vtcp_conns t2 = (g_vtcp_conns b)[k := conn_at k t2]"
    using k at1 by (simp_all add: A(4) u_def conn_at_def)
  have I: "sys_inv ?t" using E r(3) by (simp add: end_idle_def sys_inv_relay)
  then have D: "drained t2 = []" using DrainRelay_spec(3) [OF _ t2_def] by (simp add: sys_inv_def)
  have "FindVTcpConnByFd me fd ?t = Some k" using E by (simp add: end_idle_def FindVTcpConnByFd_def split: if_split_asm)
  then have "FindVTcpConnByFd me fd t2 = Some k" using drain_keeps_fd(1) [OF wf(1)] by (simp add: t2_def)
  then have tcp: "RecvFrom_tcp env k (length p) SockaddrSize t2 = (rep, b1)" using run by (simp add: cmd_RecvFrom_def t2_def)
  then have b1: "b1 = TouchBridgeActivity env (upd_conn k (\<lambda>c. c\<lparr>c_inbox := []\<rparr>) t2)" and "r_data rep = p"
    using p(1) in2 kl2 by (auto simp: RecvFrom_tcp_def vtcp_read_def Let_def upd_conn_def conn_at_def)
  define c where "c = (conn_at k b)\<lparr>c_their_seq := c_their_seq (conn_at k b) + ?n, c_inbox := []\<rparr>"
  have conns: "g_vtcp_conns b1 = (g_vtcp_conns b)[k := c]"
    using conns2 in2 by (simp add: b1 TouchBridgeActivity_def c_def)
  have rel: "g_relay b1 = r2" by (simp add: b1 TouchBridgeActivity_def A(4))
  have tabs: "g_active_ldn_instance b1 = g_active_ldn_instance b" "g_last_bridged_local_ip b1 = g_last_bridged_local_ip b"
    "g_pending_accepts b1 = g_pending_accepts b" "g_services b1 = g_services b" "g_relay_enabled b1 = g_relay_enabled b"
    by (simp_all add: b1 TouchBridgeActivity_def A(4) u_def upd_conn_def)
  have up2: "m_connected (g_relay b1) = m_connected (g_relay b)" using A(5) by (simp add: rel rx_eq_iff gu r(1))
  have "c_used (conn_at k b)" "c_established (conn_at k b)" "c_peer_port (conn_at k b) = LdnControlPort" "\<not> c_has_unacked_data (conn_at k b)"
    using E no [of k] k by (auto simp: end_idle_def conn_at_def dest: find_peer_SomeD)
  then have keep: "c_used c" "c_fd c = c_fd (conn_at k b)" "c_peer_ip c = c_peer_ip (conn_at k b)" "c_established c"
    "c_peer_port c = LdnControlPort" "c_inbox c = []" "\<not> c_has_unacked_data c" by (simp_all add: c_def)
  have "sys_inv b1" using cmd_RecvFrom_keeps [OF I, of env me fd 0 "length p" SockaddrSize] run by simp
  moreover have "drained b1 = []" using D by (simp add: drained_def rel A(4))
  ultimately have "end_idle me ip src fd k b1" "conn_at k b1 = c"
    using end_idle_after [OF E _ _ conns keep tabs up2] by blast+
  then show ?thesis
    using that [of A "g_relay u" rc] \<open>r_data rep = p\<close> A(1-3) up1 rel by (simp add: c_def sent_frames_def gu)
qed

text \<open>The sending console when the acknowledgement is in its queue.\<close>

lemma ack_half:
  assumes E: "end_idle me ip dst fd k a" and I: "sys_inv (a1\<lparr>g_relay := r\<rparr>)"
    and a1: "a1 = TouchBridgeActivity env (upd_conn k (after_send (e_now env) p) (a\<lparr>g_relay := r0\<rparr>))" and r0: "m_connected r0"
    and r: "r = r0\<lparr>m_queue := q\<rparr>" "ring_contents q = [A]" "relay_wf r"
    and A: "carries (seg dst ip LdnControlPort no (c_our_seq (conn_at k a) + of_nat (length p)) TCP_ACK) A" "length A = 40"
    and a2: "a2 = DrainRelay env (a1\<lparr>g_relay := r\<rparr>)"
  shows "end_idle me ip dst fd k a2" "c_our_seq (conn_at k a2) = c_our_seq (conn_at k a) + of_nat (length p)"
    "c_their_seq (conn_at k a2) = c_their_seq (conn_at k a)"
proof -
  let ?t = "a1\<lparr>g_relay := r\<rparr>"
  have k: "k < length (g_vtcp_conns a)" using E by (auto simp: end_idle_def dest: find_peer_SomeD)
  have conns1: "g_vtcp_conns a1 = (g_vtcp_conns a)[k := after_send (e_now env) p (conn_at k a)]"
    by (simp add: a1 TouchBridgeActivity_def conn_at_def)
  have at1: "conn_at k ?t = after_send (e_now env) p (conn_at k a)" using k by (simp add: conn_at_def conns1)
  have tabs: "g_pending_accepts a1 = g_pending_accepts a" "g_active_ldn_instance a1 = g_active_ldn_instance a" "g_services a1 = g_services a"
    "g_last_bridged_local_ip a1 = g_last_bridged_local_ip a" "g_relay_enabled a1 = g_relay_enabled a"
    by (simp_all add: a1 TouchBridgeActivity_def upd_conn_def)
  have on: "on_relay me ip ?t" using E r0 by (simp add: end_idle_def on_relay_def tabs r(1))
  have "c_last_send_tick_ms (conn_at j ?t) = e_now env" if "j < length (g_vtcp_conns ?t)" "c_has_unacked_data (conn_at j ?t)" for j
    using that E k by (cases "j = k") (auto simp: conn_at_def conns1 after_send_def end_idle_def)
  then have quiet: "CheckDataRetransmits (e_io env) ip (e_now env) ?t = ?t" by (intro quiet_tick) blast
  have wf: "relay_wf (g_relay ?t)" "ring_contents (m_queue (g_relay ?t)) = [A]" using r by simp_all
  have len: "length A \<le> PumpPktSize" using A(2) by (simp add: PumpPktSize_def frag_consts)
  obtain q1 where d: "a2 = HandleTcpSegment (e_io env) me ip dst LdnControlPort no (c_our_seq (conn_at k a) + of_nat (length p)) TCP_ACK []
      (a1\<lparr>g_relay := r\<lparr>m_queue := q1\<rparr>\<rparr>)"
    using drain_exact [OF wf(1) on wf(2) A(1) [unfolded carries_def] len quiet] unfolding a2 by auto
  let ?t1 = "a1\<lparr>g_relay := r\<lparr>m_queue := q1\<rparr>\<rparr>"
  have keys: "conn_keys ?t1 = conn_keys a"
    using k by (simp add: conn_keys_def conns1 map_update conn_at_def list_update_same_conv after_send_def)
  have find1: "FindVTcpConnByPeer me dst ?t1 = Some k" using E find_peer_cong [OF keys] by (simp add: end_idle_def tabs)
  have at2: "conn_at k ?t1 = after_send (e_now env) p (conn_at k a)" using at1 by (simp add: conn_at_def)
  have a2': "a2 = upd_conn k (\<lambda>c. c\<lparr>c_has_unacked_data := False\<rparr>) ?t1"
    using data_segment_step [OF find1, of TCP_ACK] flag_cases(8-11) E at2
    by (simp add: d end_idle_def none_pending_def tabs handle_data_def Let_def after_send_def)
  define c where "c = (after_send (e_now env) p (conn_at k a))\<lparr>c_has_unacked_data := False\<rparr>"
  have conns: "g_vtcp_conns a2 = (g_vtcp_conns a)[k := c]" using at2 by (simp add: a2' conns1 c_def)
  have inv: "sys_inv a2" unfolding a2 by (rule DrainRelay_keeps [OF I])
  have "c_used (conn_at k a)" "c_established (conn_at k a)" "c_peer_port (conn_at k a) = LdnControlPort" "c_inbox (conn_at k a) = []"
    using E by (auto simp: end_idle_def dest: find_peer_SomeD)
  then have keep: "c_used c" "c_fd c = c_fd (conn_at k a)" "c_peer_ip c = c_peer_ip (conn_at k a)" "c_established c"
    "c_peer_port c = LdnControlPort" "c_inbox c = []" "\<not> c_has_unacked_data c" by (simp_all add: c_def after_send_def)
  have tabs2: "g_active_ldn_instance a2 = g_active_ldn_instance a" "g_last_bridged_local_ip a2 = g_last_bridged_local_ip a"
    "g_pending_accepts a2 = g_pending_accepts a" "g_services a2 = g_services a" "g_relay_enabled a2 = g_relay_enabled a"
    by (simp_all add: a2' upd_conn_def tabs)
  have up2: "m_connected (g_relay a2) = m_connected (g_relay a)" using E r0 by (simp add: a2' r(1) end_idle_def on_relay_def)
  have "drained a2 = []" using DrainRelay_spec(3) [OF _ a2] I by (simp add: sys_inv_def)
  then have "end_idle me ip dst fd k a2 \<and> conn_at k a2 = c"
    using end_idle_after [OF E inv _ conns keep tabs2 up2] by blast
  then show "end_idle me ip dst fd k a2" "c_our_seq (conn_at k a2) = c_our_seq (conn_at k a) + of_nat (length p)"
    "c_their_seq (conn_at k a2) = c_their_seq (conn_at k a)" by (simp_all add: c_def after_send_def)
qed

section \<open>Any number of messages\<close>

lemma exchange_ok:
  assumes T: "talking J fda fdb ka kb a b" and p: "p \<noteq> []" "length p \<le> 1360"
  shows "\<exists>a' b'. exchange J fda fdb p a b = Some (p, a', b') \<and> talking J fda fdb ka kb a' b'"
proof -
  have Ea: "end_idle (j_me_a J) (j_ip_a J) (j_ip_b J) fda ka a" and Eb: "end_idle (j_me_b J) (j_ip_b J) (j_ip_a J) fdb kb b"
    and os: "accepts_all (e_sendto (e_io (j_env_a J)))"
    and seqs: "c_our_seq (conn_at ka a) = c_their_seq (conn_at kb b)" "c_our_seq (conn_at kb b) = c_their_seq (conn_at ka a)"
    using T by (simp_all add: talking_def)
  have a: "FindVTcpConnByFd (j_me_a J) fda a = Some ka" "c_established (conn_at ka a)" "g_relay_enabled a" "m_connected (g_relay a)"
    "m_bridged_local_ip (g_services a (j_me_a J)) = j_ip_a J" "c_peer_port (conn_at ka a) = LdnControlPort" "sys_inv a" "drained a = []"
    "c_peer_ip (conn_at ka a) = j_ip_b J"
    using Ea by (auto simp: end_idle_def on_relay_def dest: find_peer_SomeD)
  have len: "length p \<le> 1388" using p(2) by simp
  from cmd_SendTo_conn [OF a(1-4) len os, of 0 "[]"] obtain P rc r0 where P: "BuildTcp (data_seg (conn_at ka a) (j_ip_a J)) p = Some P"
    "SendIpv4 (e_sendto (e_io (j_env_a J))) P (g_relay a) = (rc, r0)" "length P = 40 + length p"
    and send: "cmd_SendTo (j_env_a J) (j_me_a J) fda 0 p [] a = (reply_local (int (length p)) ErrNone,
      TouchBridgeActivity (j_env_a J) (upd_conn ka (after_send (e_now (j_env_a J)) p) (a\<lparr>g_relay := r0\<rparr>)))"
    unfolding a(5) by blast
  define a1 where "a1 = TouchBridgeActivity (j_env_a J) (upd_conn ka (after_send (e_now (j_env_a J)) p) (a\<lparr>g_relay := r0\<rparr>))"
  have g1: "g_relay a1 = r0" by (simp add: a1_def TouchBridgeActivity_def upd_conn_def)
  have mtu: "length P \<le> RELAY_MTU" using P(3) p(2) by (simp add: frag_consts)
  have wfb: "relay_wf (g_relay b)" "ring_contents (m_queue (g_relay b)) = []"
    using Eb by (simp_all add: end_idle_def sys_inv_wf drained_def)
  obtain q where q: "pump_drains (length (sent_frames (g_relay a) r0)) (sent_frames (g_relay a) r0) (g_relay b)
      = Some ([], (g_relay b)\<lparr>m_queue := q\<rparr>)" "ring_contents q = [P]" "relay_wf ((g_relay b)\<lparr>m_queue := q\<rparr>)"
    by (rule one_frame_arrives [OF mtu a(4) P(2) wfb])
  define r where "r = (g_relay b)\<lparr>m_queue := q\<rparr>"
  have P': "BuildTcp (seg (j_ip_a J) (j_ip_b J) LdnControlPort (c_their_seq (conn_at kb b)) (c_their_seq (conn_at ka a)) (TCP_PSH OR TCP_ACK)) p = Some P"
    using P(1) seqs(1) a(6,9) by (simp add: data_seg_def)
  obtain rep b1 where run: "cmd_RecvFrom (j_env_b J) (j_me_b J) fdb 0 (length p) SockaddrSize (b\<lparr>g_relay := r\<rparr>) = (rep, b1)" by fastforce
  obtain A rc' r1 where R: "r_data rep = p" "carries (seg (j_ip_b J) (j_ip_a J) LdnControlPort (c_our_seq (conn_at kb b))
      (c_their_seq (conn_at kb b) + of_nat (length p)) TCP_ACK) A" "length A = 40" "sent_frames r (g_relay b1) = sent_frames r1 (g_relay b1)"
    "SendIpv4 (e_sendto (e_io (j_env_b J))) A r1 = (rc', g_relay b1)" "m_connected r1"
    "end_idle (j_me_b J) (j_ip_b J) (j_ip_a J) fdb kb b1" "c_our_seq (conn_at kb b1) = c_our_seq (conn_at kb b)"
    "c_their_seq (conn_at kb b1) = c_their_seq (conn_at kb b) + of_nat (length p)"
    by (rule receive_half [OF Eb p P' r_def q(2) q(3) [folded r_def] run])
  have rx: "rx_eq (g_relay a) r0" using SendIpv4_rx_eq [of "g_relay a" "e_sendto (e_io (j_env_a J))" P] P(2) by simp
  then have r0: "m_connected r0" "relay_wf r0" "ring_contents (m_queue r0) = []"
    using a(4,7,8) rx_eq_wf [OF rx] by (simp_all add: rx_eq_iff sys_inv_wf drained_def)
  have "length A \<le> RELAY_MTU" using R(3) by (simp add: frag_consts)
  from one_frame_arrives [OF this R(6,5) r0(2,3)] obtain q' where q': "pump_drains (length (sent_frames r1 (g_relay b1))) (sent_frames r1 (g_relay b1)) r0
      = Some ([], r0\<lparr>m_queue := q'\<rparr>)" "ring_contents q' = [A]" "relay_wf (r0\<lparr>m_queue := q'\<rparr>)" .
  have "sys_inv a1" using cmd_SendTo_keeps [OF a(7), of "j_env_a J" "j_me_a J" fda 0 p "[]"] send by (simp add: a1_def)
  then have I: "sys_inv (a1\<lparr>g_relay := r0\<lparr>m_queue := q'\<rparr>\<rparr>)" using q'(3) by (rule sys_inv_relay)
  define a2 where "a2 = DrainRelay (j_env_a J) (a1\<lparr>g_relay := r0\<lparr>m_queue := q'\<rparr>\<rparr>)"
  note H = ack_half [OF Ea I a1_def r0(1) refl q'(2,3) R(2) [folded seqs(1)] R(3) a2_def]
  have "exchange J fda fdb p a b = Some (p, a2, b1)"
    using q'(1) q(1) run R(1,4) unfolding exchange_def send a1_def [symmetric] g1 r_def [symmetric] a2_def by (simp add: g1)
  moreover have "talking J fda fdb ka kb a2 b1"
    using T H R(7-9) seqs by (simp add: talking_def)
  ultimately show ?thesis by blast
qed

text \<open>Any number of messages in any directions and at any times, one after the other over one connection, arrive as they
  were sent: each \<open>RecvFrom\<close> returns exactly the bytes of its \<open>SendTo\<close>, and the connection is as usable after the last
  message as before the first, also when the sequence numbers wrap around.\<close>

theorem conversation_delivers:
  assumes "talking J fda fdb ka kb a b" and "\<forall>(dir, now, p) \<in> set ms. p \<noteq> [] \<and> length p \<le> 1360"
  shows "\<exists>a' b'. converse J fda fdb ms a b = Some (map (\<lambda>(dir, now, p). p) ms, a', b') \<and> talking J fda fdb ka kb a' b'"
  using assms
proof (induction ms arbitrary: a b)
  case (Cons m ms)
  obtain dir now p where m: "m = (dir, now, p)" by (cases m) auto
  have p: "p \<noteq> []" "length p \<le> 1360" and ms: "\<forall>(dir, now, p) \<in> set ms. p \<noteq> [] \<and> length p \<le> 1360" using Cons.prems(2) by (simp_all add: m)
  have T: "talking (at_time now J) fda fdb ka kb a b" using Cons.prems(1) by simp
  show ?case
  proof (cases dir)
    case True
    obtain a1 b1 where x: "exchange (at_time now J) fda fdb p a b = Some (p, a1, b1)" "talking (at_time now J) fda fdb ka kb a1 b1"
      using exchange_ok [OF T p] by blast
    then show ?thesis using Cons.IH [of a1 b1] ms True by (auto simp: m)
  next
    case False
    obtain a1 b1 where x: "exchange (turned (at_time now J)) fdb fda p b a = Some (p, b1, a1)"
      "talking (turned (at_time now J)) fdb fda kb ka b1 a1" using exchange_ok [OF talking_turned [OF T] p] by blast
    have "talking J fda fdb ka kb a1 b1" using talking_turned [OF x(2)] by (simp add: turned_time)
    then show ?thesis using Cons.IH [of a1 b1] ms False x(1) by (auto simp: m)
  qed
qed simp

text \<open>Two consoles in the middle of a session; the second has the numbers just before the wrap-around.\<close>

definition talk_a :: bridge where "talk_a = sample_end 9 0x0A0D0002 0xFFFFFFFE 7000 bridge_up"
definition talk_b :: bridge where
  "talk_b = upd_service 1 (\<lambda>v. v\<lparr>m_bridged_local_ip := 0x0A0D0002\<rparr>) (sample_end 11 0x0A0D0001 7000 0xFFFFFFFE bridge_peer)"

lemma sample_end_inv:
  assumes "sys_inv s" and "g_vtcp_conns s = replicate MaxVTcpConns vtcp_conn_init" and "fd < 1000"
  shows "sys_inv (sample_end fd ip x y s)"
proof -
  let ?s = "sample_end fd ip x y s"
  have next_fd: "g_next_synthetic_fd ?s = g_next_synthetic_fd s" by (simp add: sample_end_def)
  have "conn_ids ?s = (True, fd, ip, LdnControlPort) # replicate (MaxVTcpConns - 1) (conn_id vtcp_conn_init)"
    by (simp add: conn_ids_def sample_end_conn [OF assms(2)] conn_id_def)
  then have low: "\<forall>e \<in> set (conn_ids ?s). fst (snd e) < 1000"
    using assms(3) by (auto simp: conn_id_def vtcp_conn_init_def)
  then have "\<not> 1000 \<le> fst (snd (conn_ids ?s ! i))" if "i < length (conn_ids ?s)" for i using nth_mem [OF that] by auto
  moreover have "1000 \<le> g_next_synthetic_fd s" using assms(1) by (simp add: sys_inv_def synth_ok_def)
  moreover have "bridge_inv ?s"
    using assms by (simp add: sys_inv_def bridge_inv_def vtcp_inv_def sample_end_conn conn_ok_def vtcp_conn_init_def MaxVTcpConns_def)
  ultimately show ?thesis using low by (fastforce simp: sys_inv_def synth_ok_def next_fd)
qed

lemma sample_talking: "talking sample_consoles 9 11 0 0 talk_a talk_b"
proof -
  have "m_connected relay_up" by (simp add: relay_up_def)
  moreover have "sys_inv talk_a" "sys_inv talk_b"
    unfolding talk_a_def talk_b_def upd_service_def sys_inv_update using sys_inv_up
    by (auto intro!: sample_end_inv simp: bridge_peer_def)
  moreover have "drained bridge_up = []" "g_relay_enabled bridge_peer" using bridge_up_socket(6) by (simp_all add: bridge_peer_def)
  ultimately show ?thesis using bridge_up_socket(4)
    by (simp add: talking_def end_idle_def sample_consoles_def on_relay_def talk_a_def talk_b_def upd_service_def drained_def
        FindVTcpConnByPeer_def FindVTcpConnByFd_def sample_end_conn first_idx_Some_iff conn_at_def none_pending_def pending_accept_init_def
        vtcp_conn_init_def del: One_nat_def)
qed

theorem conversation_delivers_witness:
  "\<exists>a' b'. converse sample_consoles 9 11 [(True, 100, [1, 2, 3]), (False, 250, [4]), (True, 251, [5, 6])] talk_a talk_b
     = Some ([[1, 2, 3], [4], [5, 6]], a', b')"
  using conversation_delivers [OF sample_talking, of "[(True, 100, [1, 2, 3]), (False, 250, [4]), (True, 251, [5, 6])]"] by auto

end
