(* ===== verification/EndToEnd.thy ===== *)
theory EndToEnd
  imports Conversation
begin

text \<open>
  A whole session between two consoles: \<open>Connect\<close> has sent its first SYN, the packets of the handshake arrive in any order,
  repeated or not at all, the host accepts, and the connection that comes out of it carries a conversation (theory \<open>Conversation\<close>).
\<close>

section \<open>A console beside its connection\<close>

text \<open>What a console keeps during a handshake: the invariant, the relay in use, an empty queue, the service's address, and
  nothing in flight.\<close>

definition all_acked :: "'a vtcp_scheme \<Rightarrow> bool" where
  "all_acked s \<longleftrightarrow> (\<forall>c \<in> set (g_vtcp_conns s). \<not> c_has_unacked_data c)"

definition console_ready :: "nat \<Rightarrow> u32 \<Rightarrow> bridge \<Rightarrow> bool" where
  "console_ready me ip s \<longleftrightarrow> sys_inv s \<and> g_relay_enabled s \<and> drained s = []
     \<and> m_bridged_local_ip (g_services s me) = ip \<and> all_acked s"

named_theorems acked \<open>steps that put nothing in flight\<close>

lemma all_acked_frame [acked]:
  "all_acked s \<Longrightarrow> all_acked (send_seg env h p s)"
  "all_acked s \<Longrightarrow> all_acked (s\<lparr>g_pending_accepts := ps\<rparr>)"
  "all_acked s \<Longrightarrow> all_acked (s\<lparr>g_random_draws := n\<rparr>)"
  by (simp_all add: all_acked_def)

lemma acked_if [acked]: "all_acked x \<Longrightarrow> all_acked y \<Longrightarrow> all_acked (if b then x else y)"
  by simp

lemma all_acked_upd [acked]:
  assumes "all_acked s" and "\<And>c. c_has_unacked_data (f c) \<Longrightarrow> c_has_unacked_data c"
  shows "all_acked (upd_conn k f s)"
proof (cases "k < length (g_vtcp_conns s)")
  case True
  then have "\<not> c_has_unacked_data (f (g_vtcp_conns s ! k))" using assms nth_mem unfolding all_acked_def by blast
  then show ?thesis using assms(1) by (auto simp: all_acked_def upd_conn_def conn_at_def dest!: set_list_update_cases)
next
  case False
  then show ?thesis using assms(1) by (simp add: all_acked_def upd_conn_def list_update_beyond)
qed

lemma handle_data_acked [acked]: "all_acked s \<Longrightarrow> all_acked (handle_data env ip src port seqno p k s)"
  by (auto simp: handle_data_def Let_def intro!: acked)

lemma HandleTcpSegment_acked:
  assumes "all_acked s"
  shows "all_acked (HandleTcpSegment env me ip src port seqno ack flags p s)"
proof -
  have 1: "all_acked (handle_syn env ip src port seqno c s)" for c
    using assms by (auto simp: handle_syn_def draw_random_def Let_def split: option.splits intro!: acked)
  have 2: "all_acked (handle_syn_ack env ip src port seqno ack c s)" for c
    using assms by (auto simp: handle_syn_ack_def Let_def split: option.splits intro!: acked)
  have 3: "all_acked (handle_fin env ip src port seqno c s)" for c
    using assms by (auto simp: handle_fin_def Let_def split: option.splits intro!: acked)
  have 4: "all_acked (handle_ack env ip src port seqno ack p c s)" for c
    using assms by (auto simp: handle_ack_def Let_def split: option.splits intro!: acked)
  have 5: "all_acked (case c of None \<Rightarrow> s | Some k \<Rightarrow> upd_conn k (\<lambda>c. c\<lparr>c_peer_closed := True\<rparr>) s)" for c
    using assms by (auto split: option.splits intro!: acked)
  show ?thesis unfolding HandleTcpSegment_def Let_def by (intro acked_if 1 2 3 4 5 assms)
qed

lemma ready_step:
  assumes R: "console_ready me ip s" and v: "vframe s s'" and c: "conn_ids s' = conn_ids s" "vtcp_inv s'" "all_acked s'"
  shows "console_ready me ip s'"
proof -
  have "sys_inv s'" using R by (intro sys_inv_vframe [OF _ v c(1,2)]) (simp add: console_ready_def)
  moreover have "m_queue (g_relay s') = m_queue (g_relay s)" "g_services s' = g_services s" "g_relay_enabled s' = g_relay_enabled s"
    using drain_frame_vframe [OF v] v by (simp_all add: drain_frame_iff vframe_def rx_eq_iff)
  ultimately show ?thesis using R c(3) by (simp add: console_ready_def drained_def)
qed

lemma ready_segment:
  assumes "console_ready me ip s"
  shows "console_ready me ip (HandleTcpSegment env me' ip' src port q ak f p s)"
proof (rule ready_step [OF assms HandleTcpSegment_vframe HandleTcpSegment_ids])
  show "vtcp_inv (HandleTcpSegment env me' ip' src port q ak f p s)"
    using assms HandleTcpSegment_inv by (auto simp: console_ready_def sys_inv_def bridge_inv_def)
  show "all_acked (HandleTcpSegment env me' ip' src port q ak f p s)"
    using assms HandleTcpSegment_acked by (auto simp: console_ready_def)
qed

lemma ready_accept:
  assumes R: "console_ready me ip s" and a: "accept_scan (length (g_pending_accepts s)) 0 me' s = Some (k, s')"
  shows "console_ready me ip s'"
proof -
  obtain j where s': "s' = (upd_conn k (\<lambda>c. accept_conn (g_pending_accepts s ! j) (g_next_synthetic_fd s)) s)
        \<lparr>g_pending_accepts := (g_pending_accepts s)[j := (g_pending_accepts s ! j)\<lparr>p_used := False\<rparr>],
         g_next_synthetic_fd := g_next_synthetic_fd s + 1\<rparr>"
    using accept_scan_Some [OF a] by blast
  have "all_acked (upd_conn k (\<lambda>c. accept_conn (g_pending_accepts s ! j) (g_next_synthetic_fd s)) s)"
    using R by (intro acked) (simp_all add: console_ready_def accept_conn_def vtcp_conn_init_def)
  then have "all_acked s'" by (simp add: s' all_acked_def)
  moreover have "sys_inv s'" using R accept_scan_keeps [OF _ a] by (simp add: console_ready_def)
  ultimately show ?thesis using R by (simp add: console_ready_def s' drained_def upd_conn_def)
qed

section \<open>The descriptors\<close>

text \<open>The host's connection with the client, if it has one, has an fd that \<open>Accept\<close> handed out.\<close>

definition synthetic_at :: "consoles \<Rightarrow> bridge \<Rightarrow> bool" where
  "synthetic_at J b \<longleftrightarrow> (\<forall>kb. FindVTcpConnByPeer (j_me_b J) (j_ip_a J) b = Some kb \<longrightarrow> 1000 \<le> c_fd (conn_at kb b))"

lemma first_idx_set_back:
  assumes "first_idx P (xs[k := y]) = Some i" and "i \<noteq> k" and "\<not> P (xs ! k)"
  shows "first_idx P xs = Some i"
  using assms unfolding first_idx_Some_iff by (metis length_list_update nth_list_update_neq)

lemma synthetic_accept:
  assumes S: "synthetic_at J b" and I: "sys_inv b" and a: "accept_scan (length (g_pending_accepts b)) 0 (j_me_b J) b = Some (k, b')"
  shows "synthetic_at J b'"
  unfolding synthetic_at_def
proof (intro allI impI)
  fix kb assume kb: "FindVTcpConnByPeer (j_me_b J) (j_ip_a J) b' = Some kb"
  obtain j where alloc: "AllocVTcpConn (j_me_b J) b = Some (k, upd_conn k (\<lambda>c. vtcp_conn_init\<lparr>c_used := True\<rparr>) b)"
    and b': "b' = (upd_conn k (\<lambda>c. accept_conn (g_pending_accepts b ! j) (g_next_synthetic_fd b)) b)
        \<lparr>g_pending_accepts := (g_pending_accepts b)[j := (g_pending_accepts b ! j)\<lparr>p_used := False\<rparr>],
         g_next_synthetic_fd := g_next_synthetic_fd b + 1\<rparr>"
    using accept_scan_Some [OF a] by blast
  note aD = alloc_SomeD [OF alloc]
  show "1000 \<le> c_fd (conn_at kb b')"
  proof (cases "kb = k")
    case True
    have "1000 \<le> g_next_synthetic_fd b" using I by (simp add: sys_inv_def synth_ok_def)
    then show ?thesis using True aD by (simp add: b' conn_at_def upd_conn_def accept_conn_def)
  next
    case False
    have used: "\<not> c_used (g_vtcp_conns b ! k)" using aD by (simp add: conn_at_def)
    let ?P = "\<lambda>c. c_used c \<and> c_peer_ip c = j_ip_a J"
    have tab: "g_vtcp_conns b' = (g_vtcp_conns b)[k := accept_conn (g_pending_accepts b ! j) (g_next_synthetic_fd b)]"
      "g_active_ldn_instance b' = g_active_ldn_instance b" by (simp_all add: b' upd_conn_def)
    have "first_idx ?P (g_vtcp_conns b') = Some kb" "g_active_ldn_instance b = Some (j_me_b J)"
      using kb by (simp_all add: FindVTcpConnByPeer_def tab split: if_splits)
    then have "FindVTcpConnByPeer (j_me_b J) (j_ip_a J) b = Some kb"
      using first_idx_set_back [of ?P "g_vtcp_conns b" k _ kb] used False by (simp add: FindVTcpConnByPeer_def tab(1))
    then show ?thesis using S False by (simp add: synthetic_at_def b' conn_at_def upd_conn_def)
  qed
qed

lemma synthetic_find:
  assumes I: "sys_inv b" and k: "k < length (g_vtcp_conns b)" "c_used (conn_at k b)" "1000 \<le> c_fd (conn_at k b)"
    and own: "g_active_ldn_instance b = Some me"
  shows "FindVTcpConnByFd me (c_fd (conn_at k b)) b = Some k"
proof -
  have one: "i = k" if "i < length (g_vtcp_conns b)" "c_used (g_vtcp_conns b ! i)" "c_fd (g_vtcp_conns b ! i) = c_fd (conn_at k b)" for i
    using I k that unfolding sys_inv_def synth_ok_def by (simp add: conn_ids_def conn_id_def conn_at_def)
  have "\<not> (c_used (g_vtcp_conns b ! i) \<and> c_fd (g_vtcp_conns b ! i) = c_fd (conn_at k b))" if "i < k" for i
    using one [of i] that k(1) by auto
  then show ?thesis
    using k own by (simp add: FindVTcpConnByFd_def first_idx_Some_iff conn_at_def)
qed

text \<open>Lookups depend on the ids and the owner.\<close>

lemma find_peer_ids:
  "FindVTcpConnByPeer me ip s = (if g_active_ldn_instance s \<noteq> Some me then None
     else first_idx (\<lambda>(u, f, i, port). u \<and> i = ip) (conn_ids s))"
  by (simp add: FindVTcpConnByPeer_def conn_ids_def first_idx_map [symmetric] conn_id_def)

lemma synthetic_segment:
  assumes "synthetic_at J b"
  shows "synthetic_at J (HandleTcpSegment env me ip src port q ak f p b)" (is "synthetic_at J ?b'")
proof -
  have own: "g_active_ldn_instance ?b' = g_active_ldn_instance b" using HandleTcpSegment_vframe [of b] by (simp add: vframe_def)
  have ids: "conn_ids ?b' = conn_ids b" by (rule HandleTcpSegment_ids)
  then have len: "length (g_vtcp_conns ?b') = length (g_vtcp_conns b)" unfolding conn_ids_def by (rule map_eq_imp_length_eq)
  have "c_fd (conn_at k ?b') = c_fd (conn_at k b)" if "k < length (g_vtcp_conns b)" for k
  proof -
    have "conn_ids ?b' ! k = conn_ids b ! k" by (simp only: ids)
    then show ?thesis using that len by (simp add: conn_ids_def conn_id_def conn_at_def)
  qed
  moreover have "FindVTcpConnByPeer (j_me_b J) (j_ip_a J) ?b' = FindVTcpConnByPeer (j_me_b J) (j_ip_a J) b"
    unfolding find_peer_ids ids own ..
  ultimately show ?thesis using assms find_peer_SomeD unfolding synthetic_at_def by metis
qed

section \<open>Every step of the handshake\<close>

definition session_inv :: "consoles \<Rightarrow> int \<Rightarrow> nat \<Rightarrow> joining \<Rightarrow> bool" where
  "session_inv J fd ka s \<longleftrightarrow> console_ready (j_me_a J) (j_ip_a J) (j_a s) \<and> console_ready (j_me_b J) (j_ip_b J) (j_b s)
     \<and> FindVTcpConnByFd (j_me_a J) fd (j_a s) = Some ka \<and> synthetic_at J (j_b s)"

lemma session_step:
  assumes st: "join_step J s s'" and I: "join_inv J isn ka ph known s" and S: "session_inv J fd ka s"
  shows "session_inv J fd ka s'"
  using st
proof cases
  case (to_host P b')
  from I to_host(2,3) obtain q ak f where
    eq: "b' = HandleTcpSegment (e_io (j_env_b J)) (j_me_b J) (j_ip_b J) (j_ip_a J) LdnControlPort q ak f [] (j_b s)"
    by (cases rule: to_host_cases) blast+
  show ?thesis using S by (simp add: session_inv_def to_host(1) eq ready_segment synthetic_segment)
next
  case (to_client P a')
  obtain q ak where sa: "carries (syn_ack_seg J q ak) P" using I to_client(2) unfolding join_inv_def by blast
  have eq: "a' = HandleTcpSegment (e_io (j_env_a J)) (j_me_a J) (j_ip_a J) (j_ip_b J) LdnControlPort q ak (TCP_SYN OR TCP_ACK) [] (j_a s)"
    using drain_packet_seg [OF sa join_invD(1) [OF I]] by (simp add: to_client(3) seg_def)
  have "FindVTcpConnByFd (j_me_a J) fd a' = FindVTcpConnByFd (j_me_a J) fd (j_a s)"
    using HandleTcpSegment_vframe [of "j_a s"] unfolding eq by (intro find_fd_cong HandleTcpSegment_ids) (simp add: vframe_def)
  then show ?thesis using S by (simp add: session_inv_def to_client(1) eq ready_segment)
next
  case (accept k b')
  have "sys_inv (j_b s)" using S by (simp add: session_inv_def console_ready_def)
  then show ?thesis
    using S ready_accept [OF _ accept(2)] synthetic_accept [OF _ _ accept(2)] by (simp add: session_inv_def accept(1))
qed

lemma session_run:
  "(join_step J)\<^sup>*\<^sup>* s0 s \<Longrightarrow> join_inv J isn ka ph0 known0 s0 \<Longrightarrow> session_inv J fd ka s0 \<Longrightarrow> session_inv J fd ka s"
proof (induction rule: rtranclp_induct)
  case (step s s')
  obtain ph known where "join_inv J isn ka ph known s" using join_run_inv [OF step.hyps(1) step.prems(1)] by blast
  then show ?case using session_step [OF step.hyps(2)] step.IH step.prems by blast
qed

text \<open>\<open>Connect\<close> on a console that is ready.\<close>

lemma session_begins:
  assumes a: "console_ready (j_me_a J) (j_ip_a J) a0" "on_relay (j_me_a J) (j_ip_a J) a0" "FindVTcpConnByFd (j_me_a J) fd a0 = None"
      "k < length (g_vtcp_conns a0)" "fd < 1000"
    and b: "console_ready (j_me_b J) (j_ip_b J) b" "FindVTcpConnByPeer (j_me_b J) (j_ip_a J) b = None"
  shows "session_inv J fd k (join_from J isn fd k a0 b)"
proof -
  define a1 where "a1 = connect_start k fd (j_ip_b J) LdnControlPort isn a0"
  have inv: "sys_inv a0" and own: "g_active_ldn_instance a0 = Some (j_me_a J)" using a by (simp_all add: console_ready_def on_relay_def)
  note N = connect_start_new [OF inv a(5,4) own a(3) a1_def]
  note S = connect_start_ok [OF inv a(5), of k "j_ip_b J" LdnControlPort isn, folded a1_def]
  have R1: "console_ready (j_me_a J) (j_ip_a J) a1"
    using a(1) S N(4) by (simp add: console_ready_def all_acked_def drained_def) (simp add: a1_def connect_start_def upd_conn_def)
  define a2 where "a2 = send_seg (e_io (j_env_a J)) (syn_seg J isn) [] a1"
  have v: "vframe a1 a2" unfolding a2_def by (intro frames)
  have ids: "conn_ids a2 = conn_ids a1" unfolding a2_def by (intro ids)
  have "vtcp_inv a2" using send_seg_keeps [OF S(1)] by (simp add: a2_def sys_inv_def bridge_inv_def)
  moreover have "all_acked a2" using R1 unfolding a2_def by (intro acked) (simp add: console_ready_def)
  ultimately have R2: "console_ready (j_me_a J) (j_ip_a J) a2" by (rule ready_step [OF R1 v ids])
  have "FindVTcpConnByFd (j_me_a J) fd a2 = Some k"
    using find_fd_cong [OF ids] v N(1) by (simp add: vframe_def)
  then show ?thesis
    using R2 b by (simp add: session_inv_def join_from_def Let_def synthetic_at_def a2_def a1_def)
qed

section \<open>The session\<close>

lemma accepted_talks:
  assumes start: "join_start J isn ka s0" and run: "(join_step J)\<^sup>*\<^sup>* s0 s" and S0: "session_inv J fd ka s0"
    and acc: "FindVTcpConnByPeer (j_me_b J) (j_ip_a J) (j_b s) = Some kb"
    and os: "accepts_all (e_sendto (e_io (j_env_a J)))" "accepts_all (e_sendto (e_io (j_env_b J)))"
  shows "talking J fd (c_fd (conn_at kb (j_b s))) ka kb (j_a s) (j_b s)"
proof -
  have S: "session_inv J fd ka s" by (rule session_run [OF run join_inv_start [OF start] S0])
  have "1000 \<le> c_fd (conn_at kb (j_b s))" using S acc by (simp add: session_inv_def synthetic_at_def)
  then have "FindVTcpConnByFd (j_me_b J) (c_fd (conn_at kb (j_b s))) (j_b s) = Some kb"
    using S find_peer_SomeD [OF acc] by (intro synthetic_find) (simp_all add: session_inv_def console_ready_def)
  then show ?thesis
    using S os handshake_joins [OF start run acc]
    by (simp add: talking_def end_idle_def joined_def session_inv_def console_ready_def all_acked_def)
qed


text \<open>The host of the examples.\<close>

definition meet_b :: bridge where
  "meet_b = upd_service 1 (\<lambda>v. v\<lparr>m_bridged_local_ip := 0x0A0D0002\<rparr>) bridge_peer"

lemma meet_b_tables:
  "g_vtcp_conns meet_b = g_vtcp_conns bridge_peer" "g_pending_accepts meet_b = g_pending_accepts bridge_peer"
  "g_active_ldn_instance meet_b = g_active_ldn_instance bridge_peer" "g_relay meet_b = g_relay bridge_peer"
  "g_last_bridged_local_ip meet_b = g_last_bridged_local_ip bridge_peer"
  by (simp_all add: meet_b_def upd_service_def)

lemma meet_ready:
  "console_ready 1 0x0A0D0001 bridge_up" "console_ready 1 0x0A0D0002 meet_b" "on_relay 1 0x0A0D0002 meet_b"
  "FindVTcpConnByPeer 1 0x0A0D0001 meet_b = None" "none_pending ip (g_pending_accepts meet_b)"
proof -
  have idle: "drained bridge_up = []" "g_relay_enabled bridge_up" using bridge_up_socket(6) by simp_all
  show "console_ready 1 0x0A0D0001 bridge_up"
    using idle sys_inv_up by (simp add: console_ready_def all_acked_def vtcp_conn_init_def del: One_nat_def)
  show "console_ready 1 0x0A0D0002 meet_b"
    using idle sys_inv_up
    by (simp add: console_ready_def all_acked_def vtcp_conn_init_def meet_b_def upd_service_def bridge_peer_def drained_def del: One_nat_def)
  show "on_relay 1 0x0A0D0002 meet_b" "none_pending ip (g_pending_accepts meet_b)" "FindVTcpConnByPeer 1 0x0A0D0001 meet_b = None"
    using sample_consoles_ok(2,4,6) by (simp_all add: on_relay_def FindVTcpConnByPeer_def meet_b_tables)
qed


end
