(* ===== verification/OverlayServers.thy ===== *)
theory OverlayServers
  imports Servers
begin

text \<open>
  The overlay's server list, \<^verbatim>\<open>src/overlay/source/servers.c\<close>, at the level of its arrays: strings are byte arrays
  with a terminating NUL that are cut and trimmed in place, the text is walked by index, servers are stored into the
  array of ten. Every access is checked: \<open>None\<close> is an access outside an array. What the arrays of a stack frame hold at
  first is arbitrary. The theory shows that no access fails and that the list is the one of theory \<open>Servers\<close>.
\<close>

section \<open>C strings in arrays\<close>

text \<open>The string an array holds; without a NUL every string function runs off its end.\<close>

definition cstr :: "u8 list \<Rightarrow> u8 list option" where
  "cstr b = (if 0 \<in> set b then Some (takeWhile (\<lambda>c. c \<noteq> 0) b) else None)"

definition c_strlen :: "u8 list \<Rightarrow> nat option" where
  "c_strlen b = map_option length (cstr b)"

definition c_strchr :: "u8 \<Rightarrow> u8 list \<Rightarrow> nat option option" where
  "c_strchr c b = map_option (first_idx (\<lambda>x. x = c)) (cstr b)"

definition c_strrchr_at :: "u8 \<Rightarrow> u8 list \<Rightarrow> nat option option" where
  "c_strrchr_at c b = map_option (\<lambda>s. map_option (length \<circ> fst) (c_strrchr c s)) (cstr b)"

definition c_strtol_at :: "u8 list \<Rightarrow> nat \<Rightarrow> int option" where
  "c_strtol_at b i = map_option c_strtol (cstr (drop i b))"

text \<open>\<open>strncpy\<close>: at most \<open>n\<close> bytes, filled up with zeros.\<close>

definition c_strncpy :: "u8 list \<Rightarrow> u8 list \<Rightarrow> nat \<Rightarrow> u8 list option" where
  "c_strncpy dst src n = do { s \<leftarrow> cstr src; wr_range dst 0 (take n (s @ replicate n 0)) }"

text \<open>\<open>memchr\<close> over \<open>n\<close> bytes from index \<open>p\<close>, and \<open>sscanf\<close> with a format of \<open>%<n>s\<close> conversions into arrays: how many
  converted, and the arrays. A word is stored with a NUL behind it.\<close>

definition c_memchr :: "u8 list \<Rightarrow> nat \<Rightarrow> u8 \<Rightarrow> nat \<Rightarrow> nat option option" where
  "c_memchr b p c n = do { xs \<leftarrow> rd_range b p n; Some (map_option ((+) p) (first_idx (\<lambda>x. x = c) xs)) }"

fun c_sscanf :: "(nat \<times> u8 list) list \<Rightarrow> u8 list \<Rightarrow> (nat \<times> u8 list list) option" where
  "c_sscanf [] s = Some (0, [])"
| "c_sscanf ((n, dst) # ds) s =
     (case scan_word n s of
        None \<Rightarrow> Some (0, dst # map snd ds)
      | Some (w, rest) \<Rightarrow> do {
          dst' \<leftarrow> wr_range dst 0 (w @ [0]);
          (k, bufs) \<leftarrow> c_sscanf ds rest;
          Some (Suc k, dst' # bufs)
        })"

section \<open>The overlay's parser\<close>

record raw_server =
  raw_name :: "u8 list"
  raw_host :: "u8 list"
  raw_port :: u16

text \<open>The arrays of the stack frames of \<open>parse_line\<close> and of the loop, with what they happen to hold.\<close>

record frame =
  f_line :: "u8 list"
  f_name :: "u8 list"
  f_host :: "u8 list"
  f_portstr :: "u8 list"

fun trim_loop :: "nat \<Rightarrow> u8 list \<Rightarrow> u8 list option" where
  "trim_loop 0 s = Some s"
| "trim_loop (Suc n) s = do {
     c \<leftarrow> rd s n;
     if c = 10 \<or> c = 13 \<or> c = 32 \<or> c = 9 then do { s' \<leftarrow> wr_range s n [0]; trim_loop n s' } else Some s
   }"

definition trim_raw :: "u8 list \<Rightarrow> u8 list option" where
  "trim_raw s = do { len \<leftarrow> c_strlen s; trim_loop len s }"

definition fill_server :: "u8 list \<Rightarrow> u8 list \<Rightarrow> int \<Rightarrow> raw_server option option" where
  "fill_server name host port =
     (if port < 1 \<or> port > 65535 then Some None
      else do {
        n \<leftarrow> c_strncpy (replicate SLPNXCFG_NAME_MAX 0) name (SLPNXCFG_NAME_MAX - 1);
        h \<leftarrow> c_strncpy (replicate SLPNXCFG_HOST_MAX 0) host (SLPNXCFG_HOST_MAX - 1);
        Some (Some \<lparr>raw_name = n, raw_host = h, raw_port = of_int port\<rparr>)
      })"

text \<open>The line without its comment, the words of a line that is not empty, and both.\<close>

definition cut_comment :: "u8 list \<Rightarrow> u8 list option" where
  "cut_comment line = do {
     comment \<leftarrow> c_strchr 35 line;
     (case comment of None \<Rightarrow> Some line | Some i \<Rightarrow> wr_range line i [0])
   }"

definition parse_words :: "frame \<Rightarrow> u8 list \<Rightarrow> raw_server option option" where
  "parse_words fr s = do {
     (k, bufs) \<leftarrow> c_sscanf [(31, f_name fr), (127, f_host fr), (7, f_portstr fr)] s;
     if k = 3 then do { port \<leftarrow> c_strtol_at (bufs ! 2) 0; fill_server (bufs ! 0) (bufs ! 1) port }
     else do {
       (k2, bufs2) \<leftarrow> c_sscanf [(31, bufs ! 0), (127, bufs ! 1)] s;
       if k2 = 2 then do {
         colon \<leftarrow> c_strrchr_at 58 (bufs2 ! 1);
         case colon of
           None \<Rightarrow> fill_server (bufs2 ! 0) (bufs2 ! 1) 11451
         | Some i \<Rightarrow> do {
             host \<leftarrow> wr_range (bufs2 ! 1) i [0];
             port \<leftarrow> c_strtol_at host (i + 1);
             fill_server (bufs2 ! 0) host port
           }
       }
       else Some None
     }
   }"

definition parse_line_raw :: "frame \<Rightarrow> u8 list \<Rightarrow> raw_server option option" where
  "parse_line_raw fr line0 = do {
     line1 \<leftarrow> cut_comment line0;
     line \<leftarrow> trim_raw line1;
     c \<leftarrow> rd line 0;
     if c = 0 then Some None else do { s \<leftarrow> cstr line; parse_words fr s }
   }"

text \<open>The line at index \<open>p\<close>, as much of it as the array has room for.\<close>

definition copy_line :: "u8 list \<Rightarrow> u8 list \<Rightarrow> nat \<Rightarrow> nat \<Rightarrow> u8 list option" where
  "copy_line line text p linelen =
     (let copy = (if linelen < length line - 1 then linelen else length line - 1)
      in do {
        xs \<leftarrow> rd_range text p copy;
        line1 \<leftarrow> wr_range line 0 xs;
        wr_range line1 copy [0]
      })"

text \<open>The loop from index \<open>p\<close> with \<open>n\<close> servers stored; \<open>stk p\<close> is what the frame there holds.\<close>

lemma c_memchr_ge: "c_memchr b p c n = Some (Some k) \<Longrightarrow> p \<le> k \<and> k < p + n"
  by (auto simp: c_memchr_def rd_range_def first_idx_Some_iff split: bind_splits if_splits)

function parse_from :: "(nat \<Rightarrow> frame) \<Rightarrow> u8 list \<Rightarrow> nat \<Rightarrow> nat \<Rightarrow> nat \<Rightarrow> raw_server list \<Rightarrow> (nat \<times> raw_server list) option" where
  "parse_from stk text len p n servers =
     (if n < SLPNXCFG_MAX_SERVERS \<and> p < len then do {
        nl \<leftarrow> c_memchr text p 10 (len - p);
        line \<leftarrow> copy_line (f_line (stk p)) text p (case nl of Some k \<Rightarrow> k - p | None \<Rightarrow> len - p);
        srv \<leftarrow> parse_line_raw (stk p) line;
        (n', servers') \<leftarrow> (case srv of
            Some v \<Rightarrow> if n < length servers then Some (n + 1, servers[n := v]) else None
          | None \<Rightarrow> Some (n, servers));
        (case nl of
           None \<Rightarrow> Some (n', servers')
         | Some k \<Rightarrow> parse_from stk text len (k + 1) n' servers')
      } else Some (n, servers))"
  by pat_completeness auto
termination
  by (relation "measure (\<lambda>(stk, text, len, p, n, servers). len - p)") (auto dest!: c_memchr_ge)

declare parse_from.simps [simp del]

text \<open>\<open>g_servers\<close>, \<open>g_count\<close> and the static buffer of \<open>slpnxServersLoad\<close>.\<close>

record server_globals =
  sg_servers :: "raw_server list"
  sg_count :: int
  sg_buf :: "u8 list"

definition slpnxServersParse_raw :: "(nat \<Rightarrow> frame) \<Rightarrow> u8 list \<Rightarrow> nat \<Rightarrow> server_globals \<Rightarrow> (int \<times> server_globals) option" where
  "slpnxServersParse_raw stk text len g = do {
     (n, servers) \<leftarrow> parse_from stk text len 0 0 (sg_servers g);
     Some (int n, g\<lparr>sg_servers := servers, sg_count := int n\<rparr>)
   }"

text \<open>\<open>fread\<close> after \<open>used\<close> bytes delivers at most what was asked for, what the file still has, and \<open>avail used\<close>, which
  is 0 at an error.\<close>

definition c_fread :: "(nat \<Rightarrow> nat) \<Rightarrow> u8 list \<Rightarrow> nat \<Rightarrow> nat \<Rightarrow> u8 list" where
  "c_fread avail file used want = take want (take (avail used) (drop used file))"

function load_loop :: "(nat \<Rightarrow> nat) \<Rightarrow> u8 list \<Rightarrow> nat \<Rightarrow> u8 list \<Rightarrow> (nat \<times> u8 list) option" where
  "load_loop avail file used buf =
     (if used < length buf - 1 then
        (let chunk = c_fread avail file used (length buf - 1 - used)
         in if chunk = [] then Some (used, buf)
            else (case wr_range buf used chunk of
                    None \<Rightarrow> None
                  | Some buf' \<Rightarrow> load_loop avail file (used + length chunk) buf'))
      else Some (used, buf))"
  by pat_completeness auto
termination
  by (relation "measure (\<lambda>(avail, file, used, buf). length buf - used)") (auto simp: length_wr_range neq_Nil_conv)

declare load_loop.simps [simp del]

definition slpnxServersLoad_raw ::
  "(nat \<Rightarrow> frame) \<Rightarrow> (nat \<Rightarrow> nat) \<Rightarrow> u8 list option \<Rightarrow> server_globals \<Rightarrow> (int \<times> server_globals) option" where
  "slpnxServersLoad_raw stk avail file g =
     (case file of
        None \<Rightarrow> Some (0, g)
      | Some f \<Rightarrow> do {
          (used, buf1) \<leftarrow> load_loop avail f 0 (sg_buf g);
          buf \<leftarrow> wr_range buf1 used [0];
          slpnxServersParse_raw stk buf used (g\<lparr>sg_buf := buf\<rparr>)
        })"

definition slpnxServersCount_raw :: "server_globals \<Rightarrow> int" where
  "slpnxServersCount_raw g = sg_count g"

text \<open>\<open>Some None\<close> is the null pointer.\<close>

definition slpnxServersGet_raw :: "server_globals \<Rightarrow> int \<Rightarrow> raw_server option option" where
  "slpnxServersGet_raw g index =
     (if index < 0 \<or> index \<ge> sg_count g then Some None
      else if nat index < length (sg_servers g) then Some (Some (sg_servers g ! nat index))
      else None)"

section \<open>Strings in arrays\<close>

text \<open>The array holds the string.\<close>

definition holds :: "u8 list \<Rightarrow> u8 list \<Rightarrow> bool" where
  "holds b s \<longleftrightarrow> 0 \<notin> set s \<and> (\<exists>r. b = s @ 0 # r)"

lemma cstr_iff: "cstr b = Some s \<longleftrightarrow> holds b s"
proof
  assume "cstr b = Some s"
  then have "0 \<in> set b" and s: "s = takeWhile (\<lambda>c. c \<noteq> 0) b" by (auto simp: cstr_def split: if_splits)
  from split_at_first [OF this(1)] show "holds b s"
    unfolding holds_def s by (auto dest: set_takeWhileD)
next
  assume "holds b s"
  then obtain r where "\<forall>c \<in> set s. c \<noteq> 0" "b = s @ 0 # r" by (auto simp: holds_def)
  then show "cstr b = Some s" by (auto simp: cstr_def takeWhile_append2)
qed

lemma holdsD: "holds b s \<Longrightarrow> length s < length b \<and> take (length s) b = s \<and> b ! length s = 0 \<and> 0 \<notin> set s"
  by (auto simp: holds_def)

lemma holds_cstr [simp]: "holds b s \<Longrightarrow> cstr b = Some s"
  by (simp add: cstr_iff)

lemma holds_write:
  assumes "length w < length dst" and "0 \<notin> set w"
  shows "\<exists>b. wr_range dst 0 (w @ [0]) = Some b \<and> length b = length dst \<and> holds b w"
  using assms by (auto simp: wr_range_def holds_def)

text \<open>Cutting at an index of the string.\<close>

lemma holds_cut:
  assumes b: "holds b s" and i: "i < length s"
  shows "\<exists>b'. wr_range b i [0] = Some b' \<and> length b' = length b \<and> holds b' (take i s) \<and> holds (drop (i + 1) b') (drop (i + 1) s)"
proof -
  obtain r where r: "b = s @ 0 # r" and z: "0 \<notin> set s" using b by (auto simp: holds_def)
  have "wr_range b i [0] = Some (take i s @ 0 # drop (Suc i) s @ 0 # r)" using i by (simp add: wr_range_def r)
  then show ?thesis using i z by (auto simp: r holds_def dest: in_set_takeD in_set_dropD)
qed

lemma trim_snoc: "trim (xs @ [c]) = (if c = 10 \<or> c = 13 \<or> c = 32 \<or> c = 9 then trim xs else xs @ [c])"
  by (auto simp: trim_def)

lemma trim_loop_ok:
  "holds b s \<Longrightarrow> \<exists>b'. trim_loop (length s) b = Some b' \<and> length b' = length b \<and> holds b' (trim s)"
proof (induction s arbitrary: b rule: rev_induct)
  case Nil
  then show ?case by (simp add: trim_def)
next
  case (snoc c s)
  have "length s < length b" "b ! length s = c" using snoc.prems by (auto simp: holds_def nth_append)
  moreover obtain b' where "wr_range b (length s) [0] = Some b'" "length b' = length b" "holds b' s"
    using holds_cut [OF snoc.prems, of "length s"] by auto
  ultimately show ?case using snoc.IH [of b'] snoc.prems by (auto simp: rd_def trim_snoc)
qed

lemma trim_raw_ok: "holds b s \<Longrightarrow> \<exists>b'. trim_raw b = Some b' \<and> length b' = length b \<and> holds b' (trim s)"
  using trim_loop_ok [of b s] by (auto simp: trim_raw_def c_strlen_def)

lemma holds_strncpy:
  assumes "holds src s" and "n < length dst"  and "dst = replicate (length dst) 0"
  shows "\<exists>b. c_strncpy dst src n = Some b \<and> length b = length dst \<and> holds b (take n s)"
proof -
  let ?b = "take n (s @ replicate n 0) @ drop n dst"
  have "wr_range dst 0 (take n (s @ replicate n 0)) = Some ?b"
    using assms(2) by (simp add: wr_range_def min_def split: if_split_asm)
  moreover have "drop n dst = 0 # replicate (length dst - n - 1) 0"
    using assms(2) by (subst assms(3)) (simp add: Suc_diff_Suc flip: replicate_Suc)
  then have "?b = take n s @ 0 # (replicate (n - length s - 1) 0 @ (if length s < n then [0] else []) @ replicate (length dst - n - 1) 0)"
    by (auto simp: replicate_append_same Cons_replicate_eq simp flip: replicate_Suc)
  then have "holds ?b (take n s)" using holdsD [OF assms(1)] unfolding holds_def by (blast dest: in_set_takeD)
  ultimately show ?thesis using assms(1,2) by (simp add: c_strncpy_def)
qed

section \<open>One line\<close>

definition frame_ok :: "frame \<Rightarrow> bool" where
  "frame_ok fr \<longleftrightarrow> length (f_line fr) = SLPNXCFG_NAME_MAX + SLPNXCFG_HOST_MAX + 8 \<and> length (f_name fr) = SLPNXCFG_NAME_MAX
     \<and> length (f_host fr) = SLPNXCFG_HOST_MAX \<and> length (f_portstr fr) = 8"

text \<open>The server that the two arrays and the port of an entry stand for.\<close>

definition raw_is :: "raw_server \<Rightarrow> SlpNxServer \<Rightarrow> bool" where
  "raw_is m a \<longleftrightarrow> length (raw_name m) = SLPNXCFG_NAME_MAX \<and> holds (raw_name m) (srv_name a)
     \<and> length (raw_host m) = SLPNXCFG_HOST_MAX \<and> holds (raw_host m) (srv_host a) \<and> raw_port m = srv_port a"

lemma fill_server_ok:
  assumes "holds name nm" and "holds host hs"
  shows "\<exists>r. fill_server name host port = Some r \<and> rel_option raw_is r (make_server nm hs port)"
proof -
  obtain n h where "c_strncpy (replicate SLPNXCFG_NAME_MAX 0) name (SLPNXCFG_NAME_MAX - 1) = Some n" "length n = SLPNXCFG_NAME_MAX"
    "holds n (take (SLPNXCFG_NAME_MAX - 1) nm)" "c_strncpy (replicate SLPNXCFG_HOST_MAX 0) host (SLPNXCFG_HOST_MAX - 1) = Some h"
    "length h = SLPNXCFG_HOST_MAX" "holds h (take (SLPNXCFG_HOST_MAX - 1) hs)"
    using holds_strncpy [OF assms(1), of "SLPNXCFG_NAME_MAX - 1" "replicate SLPNXCFG_NAME_MAX 0"]
      holds_strncpy [OF assms(2), of "SLPNXCFG_HOST_MAX - 1" "replicate SLPNXCFG_HOST_MAX 0"] by (auto simp: cfg_consts)
  then show ?thesis by (auto simp: fill_server_def make_server_def raw_is_def)
qed

text \<open>One conversion of \<open>sscanf\<close> into an array with room for the word and its NUL.\<close>

lemma c_sscanf_word:
  assumes "scan_word n s = Some (w, rest)" and "n < length dst" and "0 \<notin> set s"
  shows "\<exists>b. length b = length dst \<and> holds b w \<and> 0 \<notin> set rest
     \<and> (\<forall>ds. c_sscanf ((n, dst) # ds) s = map_option (\<lambda>(k, bufs). (Suc k, b # bufs)) (c_sscanf ds rest))"
proof -
  have "length w < length dst" "0 \<notin> set w" "0 \<notin> set rest" using scan_word_Some [OF assms(1)] assms(2,3) by auto
  with holds_write [of w dst] show ?thesis using assms(1) by (auto simp: map_conv_bind_option split_def comp_def)
qed

lemma c_sscanf_none [simp]: "scan_word n s = None \<Longrightarrow> c_sscanf ((n, dst) # ds) s = Some (0, dst # map snd ds)"
  by simp

declare c_sscanf.simps(2) [simp del]

lemma strrchr_at_ok:
  assumes b: "holds b s"
  shows "case c_strrchr 58 s of
     None \<Rightarrow> c_strrchr_at 58 b = Some None
   | Some (h, p) \<Rightarrow> c_strrchr_at 58 b = Some (Some (length h)) \<and> length h < length s \<and> take (length h) s = h \<and> drop (length h + 1) s = p"
  using b c_strrchr_Some [of 58 s] by (auto simp: c_strrchr_at_def split: option.split)

lemma cut_comment_ok:
  assumes line: "holds line l"
  shows "\<exists>line1. cut_comment line = Some line1 \<and> holds line1 (takeWhile (\<lambda>c. c \<noteq> 35) l)"
proof (cases "first_idx (\<lambda>x. x = 35) l")
  case None
  then have eq: "takeWhile (\<lambda>c. c \<noteq> 35) l = l" by (auto simp: first_idx_None_iff takeWhile_eq_all_conv)
  show ?thesis using None line by (simp add: cut_comment_def c_strchr_def eq)
next
  case (Some i)
  then have "i < length l" and "takeWhile (\<lambda>c. c \<noteq> 35) l = take i l" by (auto simp: first_idx_Some_iff takeWhile_eq_take_P_nth)
  then show ?thesis using Some line holds_cut [OF line] by (auto simp: cut_comment_def c_strchr_def)
qed

text \<open>What theory \<open>Servers\<close> does with the words of a line.\<close>

definition line_words :: "u8 list \<Rightarrow> SlpNxServer option" where
  "line_words s =
     (case scan_word 31 s of
        None \<Rightarrow> None
      | Some (name, r1) \<Rightarrow>
          case scan_word 127 r1 of
            None \<Rightarrow> None
          | Some (host, r2) \<Rightarrow>
              case scan_word 7 r2 of
                Some (portstr, _) \<Rightarrow> make_server name host (c_strtol portstr)
              | None \<Rightarrow>
                  (case c_strrchr 58 host of
                     Some (h, p) \<Rightarrow> make_server name h (c_strtol p)
                   | None \<Rightarrow> make_server name host 11451))"

lemma parse_line_words:
  "parse_line l = (let s = trim (takeWhile (\<lambda>c. c \<noteq> 35) l) in if s = [] then None else line_words s)"
  unfolding parse_line_def line_words_def ..

text \<open>The port behind the colon.\<close>

lemma colon_port_ok:
  assumes name: "holds nb name" and host: "holds hb host"
  shows "\<exists>r. do {
       colon \<leftarrow> c_strrchr_at 58 hb;
       case colon of
         None \<Rightarrow> fill_server nb hb 11451
       | Some i \<Rightarrow> do { host \<leftarrow> wr_range hb i [0]; port \<leftarrow> c_strtol_at host (i + 1); fill_server nb host port }
     } = Some r \<and> rel_option raw_is r (case c_strrchr 58 host of
            Some (h, p) \<Rightarrow> make_server name h (c_strtol p) | None \<Rightarrow> make_server name host 11451)"
proof (cases "c_strrchr 58 host")
  case None
  then show ?thesis using strrchr_at_ok [OF host] fill_server_ok [OF name host] by simp
next
  case (Some hp)
  then obtain h p where hp: "c_strrchr 58 host = Some (h, p)" by (cases hp) auto
  then have i: "length h < length host" "take (length h) host = h" "drop (length h + 1) host = p"
    "c_strrchr_at 58 hb = Some (Some (length h))" using strrchr_at_ok [OF host] by simp_all
  from holds_cut [OF host i(1)] obtain b where "wr_range hb (length h) [0] = Some b" "holds b h" "holds (drop (length h + 1) b) p"
    using i by auto
  then show ?thesis using i(4) hp fill_server_ok [OF name, of b h] by (simp add: c_strtol_at_def)
qed

lemma parse_words_ok:
  assumes fr: "frame_ok fr" and z: "0 \<notin> set s"
  shows "\<exists>r. parse_words fr s = Some r \<and> rel_option raw_is r (line_words s)"
proof -
  note len = fr [unfolded frame_ok_def cfg_consts]
  note word = c_sscanf_word
  show ?thesis
  proof (cases "scan_word 31 s")
    case None
    then show ?thesis by (simp add: parse_words_def line_words_def)
  next
    case (Some nr)
    then obtain name r1 where w1: "scan_word 31 s = Some (name, r1)" by (cases nr) auto
    from word [OF w1 _ z, of "f_name fr"] obtain b1 where b1: "length b1 = 32" "holds b1 name" "0 \<notin> set r1"
      "\<And>ds. c_sscanf ((31, f_name fr) # ds) s = map_option (\<lambda>(k, bufs). (Suc k, b1 # bufs)) (c_sscanf ds r1)" using len by auto
    from word [OF w1 _ z, of b1] obtain c1 where c1: "holds c1 name"
      "\<And>ds. c_sscanf ((31, b1) # ds) s = map_option (\<lambda>(k, bufs). (Suc k, c1 # bufs)) (c_sscanf ds r1)" using b1(1) by auto
    show ?thesis
    proof (cases "scan_word 127 r1")
      case None
      then show ?thesis using b1(4) c1(2) w1 by (simp add: parse_words_def line_words_def)
    next
      case (Some hr)
      then obtain host r2 where w2: "scan_word 127 r1 = Some (host, r2)" by (cases hr) auto
      from word [OF w2 _ b1(3), of "f_host fr"] obtain b2 where b2: "length b2 = 128" "holds b2 host" "0 \<notin> set r2"
        "\<And>ds. c_sscanf ((127, f_host fr) # ds) r1 = map_option (\<lambda>(k, bufs). (Suc k, b2 # bufs)) (c_sscanf ds r2)" using len by auto
      from word [OF w2 _ b1(3), of b2] obtain c2 where c2: "holds c2 host"
        "\<And>ds. c_sscanf ((127, b2) # ds) r1 = map_option (\<lambda>(k, bufs). (Suc k, c2 # bufs)) (c_sscanf ds r2)" using b2(1) by auto
      show ?thesis
      proof (cases "scan_word 7 r2")
        case None
        then show ?thesis using b1(4) c1(2) b2(4) c2(2) w1 w2 colon_port_ok [OF c1(1) c2(1)]
          by (simp add: parse_words_def line_words_def cong: option.case_cong)
      next
        case (Some pr)
        then obtain portstr r3 where w3: "scan_word 7 r2 = Some (portstr, r3)" by (cases pr) auto
        from word [OF w3 _ b2(3), of "f_portstr fr"] obtain b3 where b3: "holds b3 portstr"
          "\<And>ds. c_sscanf ((7, f_portstr fr) # ds) r2 = map_option (\<lambda>(k, bufs). (Suc k, b3 # bufs)) (c_sscanf ds r3)" using len by auto
        then show ?thesis using b1(4) b2(4) w1 w2 w3 fill_server_ok [OF b1(2) b2(2)]
          by (simp add: parse_words_def line_words_def c_strtol_at_def)
      qed
    qed
  qed
qed

lemma parse_line_raw_ok:
  assumes fr: "frame_ok fr" and line: "holds line l"
  shows "\<exists>r. parse_line_raw fr line = Some r \<and> rel_option raw_is r (parse_line l)"
proof -
  let ?l = "trim (takeWhile (\<lambda>c. c \<noteq> 35) l)"
  obtain line1 where line1: "cut_comment line = Some line1" "holds line1 (takeWhile (\<lambda>c. c \<noteq> 35) l)" using cut_comment_ok [OF line] by blast
  obtain line2 where line2: "trim_raw line1 = Some line2" "holds line2 ?l" using trim_raw_ok [OF line1(2)] by blast
  have first: "rd line2 0 = Some (line2 ! 0)" "line2 ! 0 = 0 \<longleftrightarrow> ?l = []"
    using line2(2) by (cases ?l; auto simp: rd_def holds_def)+
  have "0 \<notin> set ?l" using line2(2) by (simp add: holds_def)
  from parse_words_ok [OF fr this] show ?thesis
    using line1(1) line2 first by (auto simp: parse_line_raw_def parse_line_words Let_def)
qed

section \<open>The whole list\<close>

lemma copy_line_ok:
  assumes "p + n \<le> length text" and "0 < length line"
  shows "\<exists>b. copy_line line text p n = Some b \<and> holds b (takeWhile (\<lambda>c. c \<noteq> 0) (take (length line - 1) (take n (drop p text))))"
proof -
  define copy where "copy = (if n < length line - 1 then n else length line - 1)"
  let ?xs = "take copy (drop p text)"
  have xs: "?xs = take (length line - 1) (take n (drop p text))" by (simp add: copy_def min_def)
  have c: "copy < length line" "length ?xs = copy" using assms by (auto simp: copy_def)
  have "rd_range text p copy = Some ?xs" using assms by (auto simp: rd_range_def copy_def)
  moreover have "wr_range line 0 ?xs = Some (?xs @ drop copy line)" using c by (simp add: wr_range_def)
  moreover have "wr_range (?xs @ drop copy line) copy [0] = Some (?xs @ 0 # drop (Suc copy) line)"
    using c by (simp add: wr_range_def)
  ultimately have "copy_line line text p n = Some (?xs @ 0 # drop (Suc copy) line)" unfolding copy_line_def copy_def [symmetric] Let_def by simp
  moreover have "holds (xs @ 0 # r) (takeWhile (\<lambda>c. c \<noteq> 0) xs)" for xs r :: "u8 list"
  proof (cases "0 \<in> set xs")
    case True
    have "xs @ 0 # r = takeWhile (\<lambda>c. c \<noteq> 0) xs @ 0 # (tl (dropWhile (\<lambda>c. c \<noteq> 0) xs) @ 0 # r)"
      using arg_cong [OF split_at_first [OF True], of "\<lambda>t. t @ 0 # r"] by simp
    then show ?thesis unfolding holds_def by (blast dest: set_takeWhileD)
  next
    case False
    then have eq: "takeWhile (\<lambda>c. c \<noteq> 0) xs = xs" by (auto simp: takeWhile_eq_all_conv)
    show ?thesis using False by (simp add: holds_def eq)
  qed
  ultimately show ?thesis unfolding xs [symmetric] by blast
qed

text \<open>The next newline by index, and the same split of the list.\<close>

lemma newline_split:
  fixes q :: "u8 list"
  shows "case first_idx (\<lambda>x. x = 10) q of
     None \<Rightarrow> takeWhile (\<lambda>c. c \<noteq> 10) q = q \<and> dropWhile (\<lambda>c. c \<noteq> 10) q = []
   | Some i \<Rightarrow> i < length q \<and> takeWhile (\<lambda>c. c \<noteq> 10) q = take i q \<and> dropWhile (\<lambda>c. c \<noteq> 10) q \<noteq> []
       \<and> tl (dropWhile (\<lambda>c. c \<noteq> 10) q) = drop (Suc i) q"
proof (induction q)
  case (Cons c q)
  then show ?case by (cases "c = 10") (auto split: option.splits)
qed simp

lemma LineMaxed: "LineMax = 168 - 1"
  by (simp add: LineMax_def cfg_consts)

lemma store_ok:
  assumes "list_all2 raw_is (take n servers) acc" and "n < length servers" and "raw_is v a"
  shows "list_all2 raw_is (take (n + 1) (servers[n := v])) (acc @ [a])"
  using assms by (simp add: take_Suc_conv_app_nth list_all2_appendI)

text \<open>One turn of the loop, beside the one of theory \<open>Servers\<close>.\<close>

lemma parse_from_turn:
  assumes frames: "\<forall>p. frame_ok (stk p)" and len: "len \<le> length text" and size: "length servers = SLPNXCFG_MAX_SERVERS"
    and n: "n < SLPNXCFG_MAX_SERVERS" and p: "p < len" and acc: "list_all2 raw_is (take n servers) acc"
    and q: "q = drop p (take len text)"
  obtains m arr acc' where "length arr = SLPNXCFG_MAX_SERVERS" and "m \<le> SLPNXCFG_MAX_SERVERS" and "list_all2 raw_is (take m arr) acc'"
    and "parse_from stk text len p n servers = (case first_idx (\<lambda>x. x = 10) q of
          None \<Rightarrow> Some (m, arr) | Some j \<Rightarrow> parse_from stk text len (p + j + 1) m arr)"
    and "acc @ parse_lines n q
       = acc' @ (case first_idx (\<lambda>x. x = 10) q of None \<Rightarrow> [] | Some j \<Rightarrow> parse_lines m (drop (Suc j) q))"
proof -
  define i where "i = first_idx (\<lambda>x. x = 10) q"
  define line where "line = takeWhile (\<lambda>c. c \<noteq> 10) q"
  note split = newline_split [of q, folded i_def line_def]
  have q': "q = take (len - p) (drop p text)" and lq: "length q = len - p" using len by (simp_all add: q drop_take)
  then have nonempty: "q \<noteq> []" using p by auto
  define next_nl where "next_nl = map_option ((+) p) i"
  have nl: "c_memchr text p 10 (len - p) = Some next_nl"
    using p len q' by (simp add: c_memchr_def rd_range_def i_def next_nl_def)
  define linelen where "linelen = (case next_nl of Some k \<Rightarrow> k - p | None \<Rightarrow> len - p)"
  have ll: "linelen \<le> len - p" "take linelen (drop p text) = line"
    using split q' lq by (cases i; auto simp: linelen_def next_nl_def min_def)+
  have fr: "length (f_line (stk p)) = 168" "frame_ok (stk p)" using frames by (simp_all add: frame_ok_def cfg_consts)
  let ?l = "takeWhile (\<lambda>c. c \<noteq> 0) (take LineMax line)"
  have "p + linelen \<le> length text" using ll(1) p len by arith
  moreover have "0 < length (f_line (stk p))" using fr(1) by simp
  ultimately obtain b where b: "copy_line (f_line (stk p)) text p linelen = Some b" "holds b ?l"
    using copy_line_ok ll(2) fr(1) LineMaxed by metis
  obtain r where r: "parse_line_raw (stk p) b = Some r" "rel_option raw_is r (parse_line ?l)"
    using parse_line_raw_ok [OF fr(2) b(2)] by blast
  define m where "m = (case r of Some v \<Rightarrow> n + 1 | None \<Rightarrow> n)"
  define arr where "arr = (case r of Some v \<Rightarrow> servers[n := v] | None \<Rightarrow> servers)"
  define acc' where "acc' = acc @ (case parse_line ?l of Some a \<Rightarrow> [a] | None \<Rightarrow> [])"
  have M: "length arr = SLPNXCFG_MAX_SERVERS" "m \<le> SLPNXCFG_MAX_SERVERS" "list_all2 raw_is (take m arr) acc'"
    using r(2) size acc n store_ok [OF acc] by (cases r; cases "parse_line ?l"; simp add: m_def arr_def acc'_def)+
  have "parse_from stk text len p n servers
      = (case next_nl of None \<Rightarrow> Some (m, arr) | Some k \<Rightarrow> parse_from stk text len (k + 1) m arr)"
    using n p nl b(1) r(1) size
    by (subst parse_from.simps) (cases r; simp add: linelen_def [symmetric] m_def arr_def cong: option.case_cong)
  then have run: "parse_from stk text len p n servers
      = (case i of None \<Rightarrow> Some (m, arr) | Some j \<Rightarrow> parse_from stk text len (p + j + 1) m arr)"
    by (cases i) (simp_all add: next_nl_def)
  have "acc @ parse_lines n q = acc' @ (if dropWhile (\<lambda>c. c \<noteq> 10) q = [] then [] else parse_lines m (tl (dropWhile (\<lambda>c. c \<noteq> 10) q)))"
    using n nonempty r(2) unfolding acc'_def m_def line_def
    by (subst parse_lines.simps) (auto simp: Let_def split: option.split)
  then have ref: "acc @ parse_lines n q = acc' @ (case i of None \<Rightarrow> [] | Some j \<Rightarrow> parse_lines m (drop (Suc j) q))"
    using split by (cases i) auto
  show ?thesis by (rule that [OF M run [unfolded i_def] ref [unfolded i_def]])
qed

lemma parse_from_ok:
  assumes "\<forall>p. frame_ok (stk p)" and "len \<le> length text" and "length servers = SLPNXCFG_MAX_SERVERS"
    and "n \<le> SLPNXCFG_MAX_SERVERS" and "list_all2 raw_is (take n servers) acc"
  shows "\<exists>n' servers'. parse_from stk text len p n servers = Some (n', servers') \<and> length servers' = SLPNXCFG_MAX_SERVERS
     \<and> n' \<le> SLPNXCFG_MAX_SERVERS \<and> list_all2 raw_is (take n' servers') (acc @ parse_lines n (drop p (take len text)))"
  using assms(3-5)
proof (induction "len - p" arbitrary: p n servers acc rule: less_induct)
  case less
  let ?q = "drop p (take len text)"
  show ?case
  proof (cases "n < SLPNXCFG_MAX_SERVERS \<and> p < len")
    case False
    then have "parse_lines n ?q = []" using assms(2) by (auto simp: parse_lines.simps)
    moreover have "parse_from stk text len p n servers = Some (n, servers)" by (subst parse_from.simps) (simp only: False if_False)
    ultimately show ?thesis using less.prems by simp
  next
    case True
    note np = conjunct1 [OF True] conjunct2 [OF True]
    obtain m arr acc' where T: "length arr = SLPNXCFG_MAX_SERVERS" "m \<le> SLPNXCFG_MAX_SERVERS" "list_all2 raw_is (take m arr) acc'"
      "parse_from stk text len p n servers = (case first_idx (\<lambda>x. x = 10) ?q of
          None \<Rightarrow> Some (m, arr) | Some j \<Rightarrow> parse_from stk text len (p + j + 1) m arr)"
      "acc @ parse_lines n ?q = acc' @ (case first_idx (\<lambda>x. x = 10) ?q of None \<Rightarrow> [] | Some j \<Rightarrow> parse_lines m (drop (Suc j) ?q))"
      by (rule parse_from_turn [OF assms(1,2) less.prems(1) np less.prems(3) refl])
    show ?thesis
    proof (cases "first_idx (\<lambda>x. x = 10) ?q")
      case None
      then show ?thesis using T by simp
    next
      case (Some j)
      have "len - (p + j + 1) < len - p" using np(2) by arith
      from less.hyps [OF this T(1-3)] show ?thesis using T(4,5) Some by (simp add: add.commute)
    qed
  qed
qed

text \<open>Whatever \<open>fread\<close> delivers, the buffer holds the beginning of the file; without read errors as much of it as fits.\<close>

lemma load_loop_ok:
  assumes "used \<le> length buf - 1" and "used \<le> length file" and "take used buf = take used file"
  shows "\<exists>n buf'. load_loop avail file used buf = Some (n, buf') \<and> length buf' = length buf \<and> used \<le> n \<and> n \<le> length buf - 1 \<and> n \<le> length file
     \<and> take n buf' = take n file \<and> ((\<forall>i < length file. 0 < avail i) \<longrightarrow> n = min (length buf - 1) (length file))"
  using assms
proof (induction avail "file" used buf rule: load_loop.induct)
  case (1 avail "file" used buf)
  define chunk where "chunk = c_fread avail file used (length buf - 1 - used)"
  show ?case
  proof (cases "used < length buf - 1 \<and> chunk \<noteq> []")
    case False
    then have "load_loop avail file used buf = Some (used, buf)" by (subst load_loop.simps) (auto simp: chunk_def Let_def)
    moreover have "used = min (length buf - 1) (length file)" if "\<forall>i < length file. 0 < avail i"
      using False that 1(2,3) by (cases "used < length file") (auto simp: chunk_def c_fread_def dest: spec [of _ used])
    ultimately show ?thesis using 1(2-4) by simp
  next
    case True
    have len: "length chunk \<le> length buf - 1 - used" "used + length chunk \<le> length file" "chunk = take (length chunk) (drop used file)"
      using 1(3) by (auto simp: chunk_def c_fread_def min_def)
    have fits: "used + length chunk \<le> length buf - 1" using conjunct1 [OF True] len(1) by arith
    define buf' where "buf' = take used buf @ chunk @ drop (used + length chunk) buf"
    have w: "wr_range buf used chunk = Some buf'" using len(1) True by (auto simp: wr_range_def buf'_def)
    have l: "length buf' = length buf" using length_wr_range [OF w] .
    have run: "load_loop avail file used buf = load_loop avail file (used + length chunk) buf'"
      using True w by (subst load_loop.simps, fold chunk_def) (simp add: Let_def)
    have "take (used + length chunk) buf' = take used file @ chunk"
      using 1(2-4) len(1) True by (simp add: buf'_def)
    also have "\<dots> = take (used + length chunk) file" using len(3) by (simp add: take_add)
    finally have IH: "\<exists>n buf''. load_loop avail file (used + length chunk) buf' = Some (n, buf'') \<and> length buf'' = length buf'
        \<and> used + length chunk \<le> n \<and> n \<le> length buf' - 1 \<and> n \<le> length file \<and> take n buf'' = take n file
        \<and> ((\<forall>i < length file. 0 < avail i) \<longrightarrow> n = min (length buf' - 1) (length file))"
      using 1(1) [OF _ chunk_def _ w] True fits len(2) l by simp
    then obtain m buf'' where "load_loop avail file (used + length chunk) buf' = Some (m, buf'')" "length buf'' = length buf"
      "used + length chunk \<le> m" "m \<le> length buf - 1" "m \<le> length file" "take m buf'' = take m file"
      "(\<forall>i < length file. 0 < avail i) \<longrightarrow> m = min (length buf - 1) (length file)" unfolding l by blast
    then show ?thesis unfolding run by (intro exI [of _ m] exI [of _ buf'']) simp
  qed
qed

section \<open>The overlay's list is the specified one\<close>

definition globals_ok :: "server_globals \<Rightarrow> SlpNxServer list \<Rightarrow> bool" where
  "globals_ok g servers \<longleftrightarrow> length (sg_servers g) = SLPNXCFG_MAX_SERVERS \<and> sg_count g = int (length servers)
     \<and> length servers \<le> SLPNXCFG_MAX_SERVERS
     \<and> length (sg_buf g) = SLPNXCFG_MAX_SERVERS * (SLPNXCFG_NAME_MAX + SLPNXCFG_HOST_MAX + 8)
     \<and> list_all2 raw_is (take (length servers) (sg_servers g)) servers"

lemma parse_raw_ok:
  assumes fr: "\<forall>p. frame_ok (stk p)" and g: "globals_ok g old" and len: "len \<le> length text"
  shows "\<exists>g'. slpnxServersParse_raw stk text len g = Some (int (length (slpnxServersParse (take len text))), g')
     \<and> globals_ok g' (slpnxServersParse (take len text)) \<and> sg_buf g' = sg_buf g"
proof -
  obtain n servers where P: "parse_from stk text len 0 0 (sg_servers g) = Some (n, servers)" "length servers = SLPNXCFG_MAX_SERVERS"
    "n \<le> SLPNXCFG_MAX_SERVERS" "list_all2 raw_is (take n servers) (parse_lines 0 (take len text))"
    using parse_from_ok [OF fr len, where servers = "sg_servers g" and n = 0 and acc = "[]" and p = 0] g by (auto simp: globals_ok_def)
  have "n = length (parse_lines 0 (take len text))" using list_all2_lengthD [OF P(4)] P(2,3) by simp
  then show ?thesis using P g by (simp add: slpnxServersParse_raw_def slpnxServersParse_def globals_ok_def)
qed

text \<open>C33: The overlay's server list, array by array, refines the list of theory \<open>Servers\<close>: whatever file there is, whatever the
  uninitialised arrays hold and however \<open>fread\<close> cuts the file into pieces (without read errors), loading accesses no array out
  of bounds, every string it stores is terminated, and number, entries and the null pointers of \<open>slpnxServersGet\<close> are the
  specified ones.\<close>

theorem overlay_list_refines:
  assumes fr: "\<forall>p. frame_ok (stk p)" and g: "globals_ok g servers"
    and avail: "\<forall>i < length (case file of Some f \<Rightarrow> f | None \<Rightarrow> []). 0 < avail i"
  shows "\<exists>g'. slpnxServersLoad_raw stk avail file g = Some (fst (slpnxServersLoad file servers), g')
     \<and> globals_ok g' (snd (slpnxServersLoad file servers))
     \<and> slpnxServersCount_raw g' = int (length (snd (slpnxServersLoad file servers)))
     \<and> (\<forall>index. \<exists>r. slpnxServersGet_raw g' index = Some r \<and> rel_option raw_is r (slpnxServersGet (snd (slpnxServersLoad file servers)) index))"
proof -
  have get: "\<exists>r. slpnxServersGet_raw h index = Some r \<and> rel_option raw_is r (slpnxServersGet l index)" if "globals_ok h l" for h l index
    using that by (auto simp: globals_ok_def slpnxServersGet_raw_def slpnxServersGet_def list_all2_conv_all_nth nat_less_iff)
  have count: "slpnxServersCount_raw h = int (length l)" if "globals_ok h l" for h l
    using that by (simp add: slpnxServersCount_raw_def globals_ok_def)
  have "\<exists>g'. slpnxServersLoad_raw stk avail file g = Some (fst (slpnxServersLoad file servers), g') \<and> globals_ok g' (snd (slpnxServersLoad file servers))"
  proof (cases "file")
    case None
    then show ?thesis using g by (simp add: slpnxServersLoad_raw_def slpnxServersLoad_def)
  next
    case (Some f)
    let ?cap = "SLPNXCFG_MAX_SERVERS * (SLPNXCFG_NAME_MAX + SLPNXCFG_HOST_MAX + 8)"
    have cap: "length (sg_buf g) = ?cap" using g by (simp add: globals_ok_def)
    obtain n buf where L: "load_loop avail f 0 (sg_buf g) = Some (n, buf)" "length buf = ?cap" "n \<le> ?cap - 1" "take n buf = take n f"
      "n = min (?cap - 1) (length f)"
      using load_loop_ok [of 0 "sg_buf g" f avail] avail Some unfolding cap by auto
    define b where "b = take n buf @ 0 # drop (Suc n) buf"
    have w: "wr_range buf n [0] = Some b" using L(2,3) by (simp add: wr_range_def b_def cfg_consts)
    have b: "length b = ?cap" "n \<le> length b" using length_wr_range [OF w] L(2,3) by simp_all
    have "n \<le> length f" unfolding L(5) by simp
    then have "take n b = take n f" using L(2-4) by (simp add: b_def)
    then have conf: "take n b = take (?cap - 1) f" unfolding L(5) by (simp add: min_def)
    have "globals_ok (g\<lparr>sg_buf := b\<rparr>) servers" using g b(1) by (simp add: globals_ok_def)
    from parse_raw_ok [OF fr this b(2), unfolded conf] show ?thesis
      using L(1) w Some by (auto simp: slpnxServersLoad_raw_def slpnxServersLoad_def Let_def)
  qed
  then show ?thesis using get count by blast
qed

definition sample_frame :: frame where
  "sample_frame = \<lparr>f_line = replicate 168 65, f_name = replicate 32 66, f_host = replicate 128 67, f_portstr = replicate 8 68\<rparr>"

definition sample_globals :: server_globals where
  "sample_globals = \<lparr>sg_servers = replicate 10 \<lparr>raw_name = replicate 32 1, raw_host = replicate 128 2, raw_port = 3\<rparr>,
     sg_count = 0, sg_buf = replicate 1680 4\<rparr>"

theorem overlay_list_refines_witness:
  "\<exists>g'. slpnxServersLoad_raw (\<lambda>p. sample_frame) (\<lambda>i. 5) (Some (ascii ''eu r:99'' @ [10] @ ascii ''bad''))  sample_globals = Some (1, g')
     \<and> slpnxServersCount_raw g' = 1 \<and> slpnxServersGet_raw g' 1 = Some None"
proof -
  let ?file = "ascii ''eu r:99'' @ [10] @ ascii ''bad''"
  have parse: "slpnxServersLoad (Some ?file) [] = (1, [\<lparr>srv_name = ascii ''eu'', srv_host = ascii ''r'', srv_port = 99\<rparr>])"
    by code_simp
  have fr: "\<forall>p::nat. frame_ok sample_frame" by (simp add: frame_ok_def sample_frame_def cfg_consts)
  have g: "globals_ok sample_globals []" by (simp add: globals_ok_def sample_globals_def cfg_consts)
  have avail: "\<forall>i < length (case Some ?file of Some f \<Rightarrow> f | None \<Rightarrow> []). (0 :: nat) < 5" by simp
  obtain g' where "slpnxServersLoad_raw (\<lambda>p. sample_frame) (\<lambda>i. 5) (Some ?file) sample_globals = Some (1, g')"
    "slpnxServersCount_raw g' = 1" "\<forall>index. \<exists>r. slpnxServersGet_raw g' index = Some r
       \<and> rel_option raw_is r (slpnxServersGet [\<lparr>srv_name = ascii ''eu'', srv_host = ascii ''r'', srv_port = 99\<rparr>] index)"
    using overlay_list_refines [OF fr g avail, unfolded parse fst_conv snd_conv] by auto
  then show ?thesis by (auto simp: slpnxServersGet_def dest: spec [of _ 1])
qed

end
