(* ===== verification/Locks.thy ===== *)
theory Locks
  imports Prelude
begin

text \<open>
  The locks of the sysmodule. Every function that takes one is modelled by its lock structure: which
  locks it takes, in which order and how they nest, which shared variables it touches and which functions
  it calls meanwhile; what it computes is in the other theories. Branches may go either way and loops may run any number of times,
  so every run of the code is a run of its skeleton. A scoped lock is a bracket, because the destructor
  of \<open>std::scoped_lock\<close> releases it on every way out of the block. None of the mutexes is recursive.
\<close>

section \<open>Skeletons and their steps\<close>

datatype ('l, 'v) skel =
  Block "('l, 'v) skel list" | Branch "('l, 'v) skel list" | Loop "('l, 'v) skel" | Locked 'l "('l, 'v) skel" | Touch 'v

text \<open>A thread is a stack of what it still has to do; \<open>Release l\<close> ends the scope of a lock.\<close>

datatype ('l, 'v) todo = Run "('l, 'v) skel" | Release 'l

record ('l, 'v) threads =
  owner :: "'l \<Rightarrow> nat option"
  todo :: "nat \<Rightarrow> ('l, 'v) todo list"

definition set_todo :: "nat \<Rightarrow> ('l, 'v) todo list \<Rightarrow> ('l, 'v) threads \<Rightarrow> ('l, 'v) threads" where
  "set_todo t k s = s\<lparr>todo := (todo s)(t := k)\<rparr>"

definition set_owner :: "'l \<Rightarrow> nat option \<Rightarrow> ('l, 'v) threads \<Rightarrow> ('l, 'v) threads" where
  "set_owner l u s = s\<lparr>owner := (owner s)(l := u)\<rparr>"

inductive lock_step :: "('l, 'v) threads \<Rightarrow> ('l, 'v) threads \<Rightarrow> bool" where
  block: "todo s t = Run (Block ps) # k \<Longrightarrow> lock_step s (set_todo t (map Run ps @ k) s)"
| branch: "todo s t = Run (Branch ps) # k \<Longrightarrow> p \<in> set ps \<Longrightarrow> lock_step s (set_todo t (Run p # k) s)"
| loop: "todo s t = Run (Loop p) # k \<Longrightarrow> lock_step s (set_todo t (Run p # Run (Loop p) # k) s)"
| leave: "todo s t = Run (Loop p) # k \<Longrightarrow> lock_step s (set_todo t k s)"
| lock: "todo s t = Run (Locked l p) # k \<Longrightarrow> owner s l = None \<Longrightarrow>
    lock_step s (set_owner l (Some t) (set_todo t (Run p # Release l # k) s))"
| touch: "todo s t = Run (Touch v) # k \<Longrightarrow> lock_step s (set_todo t k s)"
| unlock: "todo s t = Release l # k \<Longrightarrow> lock_step s (set_owner l None (set_todo t k s))"

inductive_cases lock_stepE: "lock_step s s'"

definition lock_start :: "(nat \<Rightarrow> ('l, 'v) skel) \<Rightarrow> ('l, 'v) threads" where
  "lock_start prog = \<lparr>owner = \<lambda>l. None, todo = \<lambda>t. [Run (prog t)]\<rparr>"

text \<open>A set of threads each of which waits for a lock that one of them holds.\<close>

definition waits_for :: "('l, 'v) threads \<Rightarrow> nat \<Rightarrow> 'l \<Rightarrow> bool" where
  "waits_for s t l \<longleftrightarrow> (\<exists>p k. todo s t = Run (Locked l p) # k) \<and> owner s l \<noteq> None"

definition deadlocked :: "('l, 'v) threads \<Rightarrow> nat set \<Rightarrow> bool" where
  "deadlocked s D \<longleftrightarrow> D \<noteq> {} \<and> (\<forall>t \<in> D. \<exists>l u. waits_for s t l \<and> owner s l = Some u \<and> u \<in> D)"

text \<open>A thread that is about to use a variable.\<close>

definition touches :: "('l, 'v) threads \<Rightarrow> nat \<Rightarrow> 'v \<Rightarrow> bool" where
  "touches s t v \<longleftrightarrow> (\<exists>k. todo s t = Run (Touch v) # k)"

section \<open>Lock order\<close>

locale lock_order =
  fixes rank :: "'l \<Rightarrow> nat" and top :: nat
  assumes rank_top: "rank l \<le> top"
begin

text \<open>Every lock is taken above all the locks that are held.\<close>

fun ordered :: "nat \<Rightarrow> ('l, 'v) skel \<Rightarrow> bool" where
  "ordered n (Block ps) = (\<forall>p \<in> set ps. ordered n p)"
| "ordered n (Branch ps) = (ps \<noteq> [] \<and> (\<forall>p \<in> set ps. ordered n p))"
| "ordered n (Loop p) = ordered n p"
| "ordered n (Touch v) = True"
| "ordered n (Locked l p) = (n \<le> rank l \<and> ordered (rank l + 1) p)"

fun limit :: "('l, 'v) todo list \<Rightarrow> nat" where
  "limit [] = 0"
| "limit (Run p # k) = limit k"
| "limit (Release l # k) = rank l + 1"

fun todo_ok :: "('l, 'v) todo list \<Rightarrow> bool" where
  "todo_ok [] = True"
| "todo_ok (Run p # k) = (ordered (limit k) p \<and> todo_ok k)"
| "todo_ok (Release l # k) = (limit k \<le> rank l \<and> todo_ok k)"

definition lock_inv :: "('l, 'v) threads \<Rightarrow> bool" where
  "lock_inv s \<longleftrightarrow> (\<forall>t. todo_ok (todo s t)) \<and> (\<forall>t l. owner s l = Some t \<longleftrightarrow> Release l \<in> set (todo s t))"

lemma limit_runs [simp]: "limit (map Run ps @ k) = limit k"
  by (induction ps) auto

lemma todo_ok_runs [simp]: "todo_ok (map Run ps @ k) \<longleftrightarrow> (\<forall>p \<in> set ps. ordered (limit k) p) \<and> todo_ok k"
  by (induction ps) auto

lemma held_below: "todo_ok k \<Longrightarrow> Release l \<in> set k \<Longrightarrow> rank l < limit k"
  by (induction k rule: todo_ok.induct) fastforce+

lemma lock_inv_start: "(\<And>t. ordered 0 (prog t)) \<Longrightarrow> lock_inv (lock_start prog)"
  by (simp add: lock_inv_def lock_start_def)

lemma lock_invD: "lock_inv s \<Longrightarrow> todo s t = k \<Longrightarrow> todo_ok k \<and> (\<forall>l. owner s l = Some t \<longleftrightarrow> Release l \<in> set k)"
  by (auto simp: lock_inv_def)

lemma set_todo_inv:
  assumes "lock_inv s" and "todo_ok k'" and "\<And>l. Release l \<in> set k' \<longleftrightarrow> Release l \<in> set (todo s t)"
  shows "lock_inv (set_todo t k' s)"
  using assms by (simp add: lock_inv_def set_todo_def)

lemma lock_taken_inv:
  assumes inv: "lock_inv s" and "todo s t = Run (Locked l p) # k" and free: "owner s l = None"
  shows "lock_inv (set_owner l (Some t) (set_todo t (Run p # Release l # k) s))"
proof -
  have "Release l \<notin> set (todo s u)" for u using inv free by (simp add: lock_inv_def) (metis option.distinct(1))
  then show ?thesis
    using inv lock_invD [OF inv assms(2)] by (auto simp: lock_inv_def set_todo_def set_owner_def)
qed

lemma lock_given_back_inv:
  assumes inv: "lock_inv s" and at: "todo s t = Release l # k"
  shows "lock_inv (set_owner l None (set_todo t k s))"
proof -
  note D = lock_invD [OF inv at]
  then have "Release l \<notin> set k" using held_below [of k l] by fastforce
  moreover have "Release l \<notin> set (todo s u)" if "u \<noteq> t" for u
    using inv at that unfolding lock_inv_def by (metis list.set_intros(1) option.inject)
  ultimately show ?thesis using inv D by (auto simp: lock_inv_def set_todo_def set_owner_def)
qed

lemma lock_inv_step: "lock_step s s' \<Longrightarrow> lock_inv s \<Longrightarrow> lock_inv s'"
proof (induction rule: lock_step.induct)
  case (block s t ps k)
  then show ?case using lock_invD [OF block(2,1)] by (intro set_todo_inv) auto
next
  case (branch s t ps k p)
  then show ?case using lock_invD [OF branch(3,1)] by (intro set_todo_inv) auto
next
  case (loop s t p k)
  then show ?case using lock_invD [OF loop(2,1)] by (intro set_todo_inv) auto
next
  case (leave s t p k)
  then show ?case using lock_invD [OF leave(2,1)] by (intro set_todo_inv) auto
next
  case (touch s t v k)
  then show ?case using lock_invD [OF touch(2,1)] by (intro set_todo_inv) auto
qed (blast intro: lock_taken_inv lock_given_back_inv)+

lemma lock_run_inv:
  assumes "\<And>t. ordered 0 (prog t)" and "lock_step\<^sup>*\<^sup>* (lock_start prog) s"
  shows "lock_inv s"
  using assms(2) by (induction rule: rtranclp_induct) (use assms(1) in \<open>blast intro: lock_inv_start lock_inv_step\<close>)+

text \<open>The ranks of the awaited locks would rise for ever along the owners.\<close>

lemma waiting_above:
  assumes inv: "lock_inv s" and "waits_for s u m" and "owner s l = Some u"
  shows "rank l < rank m"
proof -
  obtain p k where k: "todo s u = Run (Locked m p) # k" using assms(2) by (auto simp: waits_for_def)
  note D = lock_invD [OF inv k]
  then have "Release l \<in> set k" using assms(3) by auto
  then show ?thesis using D held_below [of k l] by fastforce
qed

lemma not_deadlocked:
  assumes inv: "lock_inv s"
  shows "\<not> deadlocked s D"
proof
  assume D: "deadlocked s D"
  have "\<exists>t \<in> D. \<exists>l. waits_for s t l \<and> n \<le> rank l" for n
  proof (induction n)
    case 0
    then show ?case using D by (fastforce simp: deadlocked_def)
  next
    case (Suc n)
    then obtain t l where t: "t \<in> D" "waits_for s t l" "n \<le> rank l" by blast
    then obtain u where u: "owner s l = Some u" "u \<in> D"
      using D unfolding deadlocked_def waits_for_def by fastforce
    then obtain m where "waits_for s u m" using D unfolding deadlocked_def by blast
    then show ?case using waiting_above [OF inv _ u(1)] t(3) u(2) by (meson Suc_leI le_less_trans)
  qed
  from this [of "Suc top"] show False using rank_top by (metis not_less_eq_eq)
qed

text \<open>What cannot step waits for a lock.\<close>

lemma stuck_waits:
  assumes inv: "lock_inv s" and "todo s t \<noteq> []" and stuck: "\<not> (\<exists>s'. lock_step s s')"
  shows "\<exists>l. waits_for s t l"
proof (cases "todo s t")
  case (Cons x k)
  note D = lock_invD [OF inv Cons]
  show ?thesis
  proof (cases x)
    case (Release l)
    then show ?thesis using Cons stuck lock_step.unlock by metis
  next
    case (Run p)
    then show ?thesis
    proof (cases p)
      case (Branch ps)
      then obtain p' where "p' \<in> set ps" using D Run by (cases ps) auto
      then show ?thesis using Cons Run Branch stuck lock_step.branch by metis
    next
      case (Locked l p')
      then show ?thesis using Cons Run stuck lock_step.lock [of s t l p' k] by (auto simp: waits_for_def)
    qed (use Cons stuck lock_step.block lock_step.loop lock_step.touch in metis)+
  qed
qed (use assms in simp)

lemma some_step:
  assumes inv: "lock_inv s" and t: "todo s t \<noteq> []"
  shows "\<exists>s'. lock_step s s'"
proof (rule ccontr)
  assume stuck: "\<not> (\<exists>s'. lock_step s s')"
  have "deadlocked s {u. todo s u \<noteq> []}"
    unfolding deadlocked_def
  proof (intro conjI ballI)
    fix u
    assume "u \<in> {u. todo s u \<noteq> []}"
    then obtain l where l: "waits_for s u l" using stuck_waits [OF inv _ stuck] by blast
    then obtain v where v: "owner s l = Some v" by (auto simp: waits_for_def)
    then have "todo s v \<noteq> []" using inv by (auto simp: lock_inv_def)
    then show "\<exists>l v. waits_for s u l \<and> owner s l = Some v \<and> v \<in> {u. todo s u \<noteq> []}" using l v by blast
  qed (use t in blast)
  then show False using not_deadlocked [OF inv] by blast
qed

end


section \<open>Guarded variables\<close>

text \<open>\<open>guard v\<close> is the lock that protects the variable; \<open>None\<close>: it is used without a lock somewhere.\<close>

locale lock_guard = lock_order rank top
  for rank :: "'l \<Rightarrow> nat" and top :: nat +
  fixes guard :: "'v \<Rightarrow> 'l option"
begin

fun guarded :: "'l set \<Rightarrow> ('l, 'v) skel \<Rightarrow> bool" where
  "guarded H (Block ps) = (\<forall>p \<in> set ps. guarded H p)"
| "guarded H (Branch ps) = (\<forall>p \<in> set ps. guarded H p)"
| "guarded H (Loop p) = guarded H p"
| "guarded H (Locked l p) = guarded (insert l H) p"
| "guarded H (Touch v) = (case guard v of None \<Rightarrow> True | Some l \<Rightarrow> l \<in> H)"

definition held :: "('l, 'v) todo list \<Rightarrow> 'l set" where
  "held k = {l. Release l \<in> set k}"

lemma held_simps [simp]:
  "held [] = {}" "held (Run p # k) = held k" "held (Release l # k) = insert l (held k)" "held (map Run ps @ k) = held k"
  by (auto simp: held_def)

fun touch_ok :: "('l, 'v) todo list \<Rightarrow> bool" where
  "touch_ok [] = True"
| "touch_ok (Run p # k) = (guarded (held k) p \<and> touch_ok k)"
| "touch_ok (Release l # k) = touch_ok k"

lemma touch_ok_runs [simp]: "touch_ok (map Run ps @ k) \<longleftrightarrow> (\<forall>p \<in> set ps. guarded (held k) p) \<and> touch_ok k"
  by (induction ps) auto

lemma touch_ok_step: "lock_step s s' \<Longrightarrow> \<forall>t. touch_ok (todo s t) \<Longrightarrow> \<forall>t. touch_ok (todo s' t)"
proof (induction rule: lock_step.induct)
  case (branch s t ps k p)
  then have "touch_ok (Run (Branch ps) # k)" by metis
  then show ?case using branch by (auto simp: set_todo_def)
next
  case (block s t ps k)
  then have "touch_ok (Run (Block ps) # k)" by metis
  then show ?case using block by (auto simp: set_todo_def)
next
  case (loop s t p k)
  then have "touch_ok (Run (Loop p) # k)" by metis
  then show ?case using loop by (auto simp: set_todo_def)
next
  case (leave s t p k)
  then have "touch_ok (Run (Loop p) # k)" by metis
  then show ?case using leave by (auto simp: set_todo_def)
next
  case (lock s t l p k)
  then have "touch_ok (Run (Locked l p) # k)" by metis
  then show ?case using lock by (auto simp: set_todo_def set_owner_def)
next
  case (touch s t v k)
  then have "touch_ok (Run (Touch v) # k)" by metis
  then show ?case using touch by (auto simp: set_todo_def)
next
  case (unlock s t l k)
  then have "touch_ok (Release l # k)" by metis
  then show ?case using unlock by (auto simp: set_todo_def set_owner_def)
qed

text \<open>Whoever is about to use a guarded variable holds its lock.\<close>

lemma toucher_owns:
  assumes "\<And>t. ordered 0 (prog t)" and "\<And>t. guarded {} (prog t)" and run: "lock_step\<^sup>*\<^sup>* (lock_start prog) s"
    and now: "touches s t v" and l: "guard v = Some l"
  shows "owner s l = Some t"
proof -
  have "\<forall>t. touch_ok (todo s t)"
    using run
  proof (induction rule: rtranclp_induct)
    case (step s s')
    then show ?case using touch_ok_step by blast
  qed (simp add: lock_start_def assms(2))
  moreover obtain k where k: "todo s t = Run (Touch v) # k" using now by (auto simp: touches_def)
  ultimately have "l \<in> held k" using l by (metis guarded.simps(5) option.simps(5) touch_ok.simps(2))
  then show ?thesis using lock_invD [OF lock_run_inv [OF assms(1) run] k] by (auto simp: held_def)
qed

end

section \<open>Runs of one thread\<close>

text \<open>A thread that holds the locks \<open>H\<close> gets from one point to another while nobody else holds a lock or runs.\<close>

definition holds_only :: "('l, 'v) threads \<Rightarrow> nat \<Rightarrow> 'l set \<Rightarrow> bool" where
  "holds_only s t H \<longleftrightarrow> (\<forall>l. owner s l = (if l \<in> H then Some t else None))"

definition moves :: "'l set \<Rightarrow> ('l, 'v) todo list \<Rightarrow> ('l, 'v) todo list \<Rightarrow> bool" where
  "moves H k k' \<longleftrightarrow> (\<forall>s t. holds_only s t H \<longrightarrow> todo s t = k \<longrightarrow> lock_step\<^sup>*\<^sup>* s (set_todo t k' s))"

lemma set_todo_simps [simp]:
  "owner (set_todo t k s) = owner s" "todo (set_todo t k s) = (todo s)(t := k)"
  "set_todo t k' (set_todo t k s) = set_todo t k' s"
  by (simp_all add: set_todo_def)

lemma movesD: "moves H k k' \<Longrightarrow> holds_only s t H \<Longrightarrow> todo s t = k \<Longrightarrow> lock_step\<^sup>*\<^sup>* s (set_todo t k' s)"
  by (simp add: moves_def)

lemma set_todo_refl [simp]: "set_todo t (todo s t) s = s"
  by (simp add: set_todo_def)

lemma moves_refl: "moves H k k"
  by (auto simp: moves_def)

lemma moves_trans:
  fixes H :: "'l set" and k :: "('l, 'v) todo list"
  assumes "moves H k k1" and "moves H k1 k2"
  shows "moves H k k2"
  unfolding moves_def
proof (intro allI impI)
  fix s :: "('l, 'v) threads" and t
  assume s: "holds_only s t H" "todo s t = k"
  have "lock_step\<^sup>*\<^sup>* s (set_todo t k1 s)" using movesD [OF assms(1) s] .
  moreover have "lock_step\<^sup>*\<^sup>* (set_todo t k1 s) (set_todo t k2 (set_todo t k1 s))"
    by (rule movesD [OF assms(2)]) (use s in \<open>simp_all add: holds_only_def\<close>)
  ultimately show "lock_step\<^sup>*\<^sup>* s (set_todo t k2 s)" by simp
qed

lemma moves_one: "(\<And>s t. todo s t = k \<Longrightarrow> lock_step s (set_todo t k' s)) \<Longrightarrow> moves H k k'"
  by (auto simp: moves_def)

lemma moves_block: "moves H (map Run ps @ k) k' \<Longrightarrow> moves H (Run (Block ps) # k) k'"
  by (rule moves_trans [OF moves_one]) (rule lock_step.block)

lemma moves_branch: "p \<in> set ps \<Longrightarrow> moves H (Run p # k) k' \<Longrightarrow> moves H (Run (Branch ps) # k) k'"
  by (rule moves_trans [OF moves_one]) (rule lock_step.branch)

lemma moves_loop: "moves H (Run p # Run (Loop p) # k) k' \<Longrightarrow> moves H (Run (Loop p) # k) k'"
  by (rule moves_trans [OF moves_one]) (rule lock_step.loop)

lemma moves_leave: "moves H k k' \<Longrightarrow> moves H (Run (Loop p) # k) k'"
  by (rule moves_trans [OF moves_one]) (rule lock_step.leave)

lemma moves_touch: "moves H k k' \<Longrightarrow> moves H (Run (Touch v) # k) k'"
  by (rule moves_trans [OF moves_one]) (rule lock_step.touch)

lemma moves_locked:
  fixes H :: "'l set" and k :: "('l, 'v) todo list"
  assumes free: "l \<notin> H" and body: "moves (insert l H) (Run p # Release l # k) (Release l # k)" and rest: "moves H k k'"
  shows "moves H (Run (Locked l p) # k) k'"
proof (rule moves_trans [OF _ rest], unfold moves_def, intro allI impI)
  fix s :: "('l, 'v) threads" and t
  assume s: "holds_only s t H" "todo s t = Run (Locked l p) # k"
  let ?s1 = "set_owner l (Some t) (set_todo t (Run p # Release l # k) s)"
  have o: "owner s l = None" using s(1) free by (simp add: holds_only_def)
  have "lock_step s ?s1" by (rule lock_step.lock [OF s(2) o])
  also have "lock_step\<^sup>*\<^sup>* ?s1 (set_todo t (Release l # k) ?s1)"
    by (rule movesD [OF body]) (use s(1) in \<open>simp_all add: holds_only_def set_owner_def\<close>)
  also have "lock_step (set_todo t (Release l # k) ?s1) (set_owner l None (set_todo t k (set_todo t (Release l # k) ?s1)))"
    by (rule lock_step.unlock) simp
  also have "set_owner l None (set_todo t k (set_todo t (Release l # k) ?s1)) = set_todo t k s"
    using o by (simp add: set_owner_def set_todo_def fun_upd_idem)
  finally show "lock_step\<^sup>*\<^sup>* s (set_todo t k s)" .
qed

lemma moves_nothing: "moves H k k' \<Longrightarrow> moves H (Run (Block []) # k) k'"
  by (rule moves_block) simp

lemma moves_lock_touch: "l \<notin> H \<Longrightarrow> moves H k k' \<Longrightarrow> moves H (Run (Locked l (Touch v)) # k) k'"
  by (rule moves_locked) (auto intro: moves_touch moves_refl)

text \<open>A thread takes one lock and goes on inside its scope.\<close>

lemma enters_lock:
  fixes s :: "('l, 'v) threads"
  assumes s: "holds_only s t {}" "todo s t = k" and out: "moves {} k (Run (Locked l p) # r)"
    and ins: "moves {l} (Run p # Release l # r) k'"
  shows "lock_step\<^sup>*\<^sup>* s (set_owner l (Some t) (set_todo t k' s))"
proof -
  let ?s1 = "set_todo t (Run (Locked l p) # r) s"
  let ?s2 = "set_owner l (Some t) (set_todo t (Run p # Release l # r) ?s1)"
  have "lock_step\<^sup>*\<^sup>* s ?s1" by (rule movesD [OF out s])
  also have "lock_step ?s1 ?s2" by (rule lock_step.lock) (use s(1) in \<open>simp_all add: holds_only_def\<close>)
  also have "lock_step\<^sup>*\<^sup>* ?s2 (set_todo t k' ?s2)"
    by (rule movesD [OF ins]) (use s(1) in \<open>simp_all add: holds_only_def set_owner_def\<close>)
  also have "set_todo t k' ?s2 = set_owner l (Some t) (set_todo t k' s)"
    by (simp add: set_owner_def set_todo_def)
  finally show ?thesis .
qed

text \<open>Two threads that nest two locks in opposite orders can deadlock.\<close>

lemma opposite_orders_deadlock:
  assumes "a \<noteq> b" and "prog 0 = Locked a (Locked b p)" and "prog 1 = Locked b (Locked a q)"
  shows "\<exists>s. lock_step\<^sup>*\<^sup>* (lock_start prog) s \<and> deadlocked s {0, 1}"
proof -
  let ?s0 = "lock_start prog"
  let ?s1 = "set_owner a (Some 0) (set_todo 0 [Run (Locked b p), Release a] ?s0)"
  let ?s2 = "set_owner b (Some 1) (set_todo 1 [Run (Locked a q), Release b] ?s1)"
  have "lock_step ?s0 ?s1" by (rule lock_step.lock) (simp_all add: lock_start_def assms)
  moreover have "lock_step ?s1 ?s2"
    by (rule lock_step.lock)
      (simp_all add: lock_start_def set_owner_def set_todo_def assms assms(1) [symmetric] del: One_nat_def)
  moreover have "deadlocked ?s2 {0, 1}"
    using assms(1) by (auto simp: deadlocked_def waits_for_def set_owner_def set_todo_def)
  ultimately show ?thesis by (meson converse_rtranclp_into_rtranclp r_into_rtranclp)
qed

end
