(* ===== verification/LockOrder.thy ===== *)
theory LockOrder
  imports Locks
begin

text \<open>
  The lock structure of the functions of the sysmodule that take locks or are called under one: which locks
  they take and which shared variables they read or write (\<open>Touch\<close>), and the threads of the module.
  \<open>PumpThread\<close> is not a mutex: the receive thread of the relay holds it while it runs, and waiting for the end
  of that thread is taking it. The mutex of the heap (theory \<open>Startup\<close>) is a leaf: nothing is locked inside
  of it. The fields of one service instance are used by the one thread that serves its session.
\<close>

section \<open>Locks and shared variables\<close>

datatype mutex = DummySkipMutex | ControlQueueMutex | VtcpMutex | RelayMutex | PumpThread | QueueMutex | CfgMutex | FileLogLock

definition mutex_rank :: "mutex \<Rightarrow> nat" where
  "mutex_rank l = (case l of DummySkipMutex \<Rightarrow> 0 | ControlQueueMutex \<Rightarrow> 0 | VtcpMutex \<Rightarrow> 1 | RelayMutex \<Rightarrow> 2
     | PumpThread \<Rightarrow> 3 | QueueMutex \<Rightarrow> 4 | CfgMutex \<Rightarrow> 5 | FileLogLock \<Rightarrow> 6)"

text \<open>\<open>ConnKeys\<close> are the fields \<open>used\<close> and \<open>fd\<close> of \<open>g_vtcp_conns\<close>, \<open>ConnData\<close> the other ones; \<open>RelayOpen\<close> is socket,
  \<open>m_connected\<close> and pump state of \<open>g_relay\<close>, \<open>PacketQueue\<close> its queue; \<open>DummySkipLive\<close> is the field \<open>live\<close> of
  \<open>g_dummy_skip\<close>; \<open>ThreadsStarted\<close> are \<open>g_watchdog_started\<close> and \<open>g_drain_thread_started\<close>. The atomic time of the
  last activity is left out.\<close>

datatype shared =
  RelayEnabled | ConnectAttempted | BridgedCount | ThreadsStarted | PendingAccepts | NextSyntheticFd | ConnData
| ControlQueueEntries | PacketQueue | DummySkipEntries | ServerSelection | LogFileState
| RelayOpen | LastLocalIp | ActiveInstance | ConnKeys | ListenFd | SocketStackReady | DummySkipLive

text \<open>The lock that protects each; the variables of the last line are also used without one.\<close>

definition guard_of :: "shared \<Rightarrow> mutex option" where
  "guard_of v = (case v of
     RelayEnabled \<Rightarrow> Some RelayMutex | ConnectAttempted \<Rightarrow> Some RelayMutex | BridgedCount \<Rightarrow> Some RelayMutex
   | ThreadsStarted \<Rightarrow> Some RelayMutex
   | PendingAccepts \<Rightarrow> Some VtcpMutex | NextSyntheticFd \<Rightarrow> Some VtcpMutex | ConnData \<Rightarrow> Some VtcpMutex
   | ControlQueueEntries \<Rightarrow> Some ControlQueueMutex | PacketQueue \<Rightarrow> Some QueueMutex
   | DummySkipEntries \<Rightarrow> Some DummySkipMutex | ServerSelection \<Rightarrow> Some CfgMutex | LogFileState \<Rightarrow> Some FileLogLock
   | RelayOpen \<Rightarrow> None | LastLocalIp \<Rightarrow> None | ActiveInstance \<Rightarrow> None | ConnKeys \<Rightarrow> None | ListenFd \<Rightarrow> None
   | SocketStackReady \<Rightarrow> None | DummySkipLive \<Rightarrow> None)"

interpretation mutexes: lock_guard mutex_rank 6 guard_of
  by unfold_locales (auto simp: mutex_rank_def split: mutex.split)

type_synonym skeleton = "(mutex, shared) skel"

abbreviation nothing :: skeleton where "nothing \<equiv> Block []"
abbreviation perhaps :: "skeleton \<Rightarrow> skeleton" where "perhaps p \<equiv> Branch [nothing, p]"
abbreviation using_vars :: "shared list \<Rightarrow> skeleton" where "using_vars vs \<equiv> Block (map Touch vs)"

section \<open>Log, relay transport and configuration\<close>

definition LogStr_locks :: skeleton where
  "LogStr_locks = perhaps (Locked FileLogLock (Touch LogFileState))"

definition relay_Connect_locks :: skeleton where
  "relay_Connect_locks = Touch RelayOpen"

definition relay_StopPump_locks :: skeleton where
  "relay_StopPump_locks = Block [Touch RelayOpen, perhaps (Locked PumpThread nothing)]"

definition relay_Close_locks :: skeleton where
  "relay_Close_locks = Block [relay_StopPump_locks, Touch RelayOpen, Locked QueueMutex (using_vars [PacketQueue, RelayOpen])]"

definition relay_SendIpv4_locks :: skeleton where
  "relay_SendIpv4_locks = Touch RelayOpen"

definition relay_PopIpv4_locks :: skeleton where
  "relay_PopIpv4_locks = Locked QueueMutex (Touch PacketQueue)"

definition relay_PumpLoop_locks :: skeleton where
  "relay_PumpLoop_locks = Locked PumpThread (Loop (Block
     [Touch RelayOpen, Loop (Block [Touch RelayOpen, Locked QueueMutex (Touch PacketQueue)])]))"

definition PersistSelection_locks :: skeleton where
  "PersistSelection_locks = perhaps LogStr_locks"

definition ReloadServers_locks :: skeleton where
  "ReloadServers_locks = Locked CfgMutex (Branch
     [LogStr_locks,
      Block [Touch ServerSelection, LogStr_locks, Touch ServerSelection]])"

definition SelectServer_locks :: skeleton where
  "SelectServer_locks = Locked CfgMutex (Block [Touch ServerSelection, perhaps PersistSelection_locks])"

definition GetSelectedIndex_locks :: skeleton where
  "GetSelectedIndex_locks = Locked CfgMutex (Touch ServerSelection)"

definition GetSelectedHostPort_locks :: skeleton where
  "GetSelectedHostPort_locks = Locked CfgMutex (Touch ServerSelection)"

section \<open>The bridge\<close>

definition EnsureSocketStack_locks :: skeleton where
  "EnsureSocketStack_locks = Block
     [Touch SocketStackReady,
      perhaps (Block [LogStr_locks, Branch [LogStr_locks, Block [Touch SocketStackReady, LogStr_locks]]])]"

definition LogLdnPacketIfRecognized_locks :: skeleton where
  "LogLdnPacketIfRecognized_locks = perhaps LogStr_locks"

definition LogNonControlUdpPayload_locks :: skeleton where
  "LogNonControlUdpPayload_locks = perhaps (Block [LogStr_locks, Loop LogStr_locks])"

definition SendTcpSegment_locks :: skeleton where
  "SendTcpSegment_locks = perhaps relay_SendIpv4_locks"

definition FindVTcpConnByFd_locks :: skeleton where
  "FindVTcpConnByFd_locks = Block [Touch ActiveInstance, perhaps (Touch ConnKeys)]"

definition FindVTcpConnByPeer_locks :: skeleton where
  "FindVTcpConnByPeer_locks = Block [Touch ActiveInstance, perhaps (using_vars [ConnKeys, ConnData])]"

definition AllocVTcpConn_locks :: skeleton where
  "AllocVTcpConn_locks = Block [Touch ActiveInstance, perhaps (using_vars [ConnKeys, ConnData])]"

definition IsOwnTcpListenFd_locks :: skeleton where
  "IsOwnTcpListenFd_locks = Block [Touch ActiveInstance, perhaps (Touch ListenFd)]"

definition HandleTcpSegment_locks :: skeleton where
  "HandleTcpSegment_locks = Block
     [FindVTcpConnByPeer_locks,
      Branch
        [Block [perhaps (Touch ConnData), LogStr_locks],
         perhaps (Block
           [Touch PendingAccepts, Branch [nothing, LogStr_locks, Block [SendTcpSegment_locks, LogStr_locks]]]),
         perhaps (Block [Touch ConnData, perhaps (Block [SendTcpSegment_locks, LogStr_locks])]),
         perhaps (Block [Touch ConnData, SendTcpSegment_locks, LogStr_locks]),
         Block
           [Touch PendingAccepts,
            Branch
              [LogStr_locks,
               perhaps (Block
                 [Touch ConnData,
                  Branch
                    [nothing,
                     LogStr_locks,
                     Block [Touch ConnData, SendTcpSegment_locks, Touch ConnKeys, LogStr_locks,
                       LogLdnPacketIfRecognized_locks]]])]]]]"

definition CheckDataRetransmits_locks :: skeleton where
  "CheckDataRetransmits_locks = Loop (Block
     [using_vars [ConnKeys, ConnData],
      Branch [nothing, LogStr_locks, Block [SendTcpSegment_locks, LogStr_locks]]])"

definition DrainRawRelayQueue_locks :: skeleton where
  "DrainRawRelayQueue_locks = Block
     [Locked RelayMutex (Touch ActiveInstance),
      perhaps (Locked VtcpMutex (Block [Touch LastLocalIp, CheckDataRetransmits_locks])),
      Loop (Block
        [relay_PopIpv4_locks,
         Branch
           [nothing,
            Locked ControlQueueMutex (Touch ControlQueueEntries),
            Block
              [Locked RelayMutex (Touch ActiveInstance),
               perhaps (Locked VtcpMutex (Block [Touch LastLocalIp, HandleTcpSegment_locks]))]]]),
      relay_PopIpv4_locks]"

definition DrainRelay_locks :: skeleton where
  "DrainRelay_locks = DrainRawRelayQueue_locks"

definition WatchdogThreadMain_locks :: skeleton where
  "WatchdogThreadMain_locks = Loop (Locked RelayMutex (Block
     [Touch RelayOpen,
      perhaps (Block [LogStr_locks, relay_Close_locks, using_vars [ConnectAttempted, LastLocalIp, BridgedCount]])]))"

definition DrainThreadMain_locks :: skeleton where
  "DrainThreadMain_locks = Loop (Block
     [DrainRawRelayQueue_locks,
      Locked RelayMutex (Touch ActiveInstance),
      perhaps DrainRelay_locks])"

definition Destructor_locks :: skeleton where
  "Destructor_locks = Block
     [Locked RelayMutex (Touch ActiveInstance),
      Locked DummySkipMutex (using_vars [DummySkipEntries, DummySkipLive])]"

definition IsRelayConnected_locks :: skeleton where
  "IsRelayConnected_locks = Locked RelayMutex (Touch RelayOpen)"

definition EnsureWatchdogStarted_locks :: skeleton where
  "EnsureWatchdogStarted_locks = Touch ThreadsStarted"

definition EnsureDrainThreadStarted_locks :: skeleton where
  "EnsureDrainThreadStarted_locks = Touch ThreadsStarted"

definition ConnectRelayLocked_locks :: skeleton where
  "ConnectRelayLocked_locks = Block
     [EnsureSocketStack_locks, EnsureWatchdogStarted_locks, EnsureDrainThreadStarted_locks, Touch ConnectAttempted,
      GetSelectedHostPort_locks, relay_Connect_locks, LogStr_locks]"

definition ForceReconnect_locks :: skeleton where
  "ForceReconnect_locks = Locked RelayMutex (Block
     [Touch RelayEnabled, relay_Close_locks, Touch ConnectAttempted, ConnectRelayLocked_locks])"

definition Stop_locks :: skeleton where
  "Stop_locks = Locked RelayMutex (Block [Touch RelayEnabled, relay_Close_locks, Touch ConnectAttempted, LogStr_locks])"

definition Start_locks :: skeleton where
  "Start_locks = Locked RelayMutex (Block
     [Touch RelayEnabled, Touch RelayOpen, perhaps (Block [Touch ConnectAttempted, ConnectRelayLocked_locks]),
      LogStr_locks])"

definition IsRelayEnabled_locks :: skeleton where
  "IsRelayEnabled_locks = Locked RelayMutex (Touch RelayEnabled)"

definition GetLocalIp_locks :: skeleton where
  "GetLocalIp_locks = Locked RelayMutex (Touch LastLocalIp)"

definition GetRealIp_locks :: skeleton where
  "GetRealIp_locks = Locked RelayMutex EnsureSocketStack_locks"

definition EnsureRelayConnected_locks :: skeleton where
  "EnsureRelayConnected_locks = Locked RelayMutex (Block
     [Touch RelayEnabled,
      perhaps (Block
        [Touch RelayOpen, perhaps (Block [Touch ConnectAttempted, perhaps ConnectRelayLocked_locks])])])"

section \<open>The sessions\<close>

definition ShouldMitm_locks :: skeleton where
  "ShouldMitm_locks = Branch
     [LogStr_locks,
      Locked DummySkipMutex (Block [using_vars [DummySkipEntries, DummySkipLive], LogStr_locks]),
      Block
        [Locked DummySkipMutex (using_vars [DummySkipEntries, DummySkipLive]),
         Touch DummySkipLive, LogStr_locks]]"

definition VFdHasPendingRead_locks :: skeleton where
  "VFdHasPendingRead_locks = Branch
     [nothing,
      Locked ControlQueueMutex (Touch ControlQueueEntries),
      Locked VtcpMutex (Block
        [IsOwnTcpListenFd_locks,
         Branch [Touch PendingAccepts, Block [FindVTcpConnByFd_locks, perhaps (Touch ConnData)]]])]"

definition Select_locks :: skeleton where
  "Select_locks = Block
     [DrainRelay_locks,
      perhaps (Block
        [Loop (Locked VtcpMutex (Block [FindVTcpConnByFd_locks, perhaps (Touch ConnKeys)])),
         Loop VFdHasPendingRead_locks,
         VFdHasPendingRead_locks,
         Touch ActiveInstance,
         perhaps (Block
           [Touch ListenFd, VFdHasPendingRead_locks,
            Loop (Block [Touch ConnKeys, perhaps VFdHasPendingRead_locks])])])]"

definition Poll_locks :: skeleton where
  "Poll_locks = Block
     [DrainRelay_locks, LogStr_locks,
      perhaps (Block
        [Loop (Locked VtcpMutex (Block [FindVTcpConnByFd_locks, perhaps (Touch ConnKeys)])),
         Loop VFdHasPendingRead_locks, perhaps LogStr_locks,
         Loop (perhaps (Block [VFdHasPendingRead_locks, perhaps LogStr_locks]))])]"

definition Bind_locks :: skeleton where
  "Bind_locks = Block
     [perhaps LogStr_locks,
      perhaps (Block
        [perhaps (Block [EnsureSocketStack_locks, perhaps LogStr_locks]),
         Locked RelayMutex (Touch LastLocalIp),
         perhaps (Block
           [LogStr_locks,
            Locked RelayMutex (using_vars [LastLocalIp, BridgedCount, ActiveInstance]),
            EnsureRelayConnected_locks])])]"

definition SendTo_locks :: skeleton where
  "SendTo_locks = Block
     [Locked VtcpMutex (Block
        [FindVTcpConnByFd_locks,
         perhaps (Block
           [Touch ConnData,
            perhaps (Block
              [EnsureRelayConnected_locks,
               perhaps (Block
                 [SendTcpSegment_locks, LogStr_locks, LogLdnPacketIfRecognized_locks, Touch ConnData])])])]),
      perhaps (Block
        [EnsureRelayConnected_locks,
         perhaps (Block [relay_SendIpv4_locks, LogStr_locks, LogNonControlUdpPayload_locks])])]"

definition RecvFrom_locks :: skeleton where
  "RecvFrom_locks = Block
     [DrainRelay_locks,
      Locked VtcpMutex (Block
        [FindVTcpConnByFd_locks, perhaps (Block [Touch ConnData, perhaps LogStr_locks])]),
      perhaps (Block
        [Locked ControlQueueMutex (Touch ControlQueueEntries),
         perhaps (Block [LogStr_locks, LogNonControlUdpPayload_locks])])]"

definition Close_locks :: skeleton where
  "Close_locks = Block
     [Locked VtcpMutex (Block
        [FindVTcpConnByFd_locks,
         perhaps (Block
           [using_vars [ConnKeys, ConnData], perhaps SendTcpSegment_locks, LogStr_locks,
            using_vars [ConnKeys, ConnData]]),
         IsOwnTcpListenFd_locks, perhaps (Block [Touch ListenFd, LogStr_locks])]),
      perhaps (Block
        [LogStr_locks,
         Locked RelayMutex (Block
           [Touch ActiveInstance, Touch BridgedCount,
            perhaps (Block [relay_Close_locks, using_vars [ConnectAttempted, LastLocalIp]])])])]"

definition Accept_locks :: skeleton where
  "Accept_locks = Block
     [IsOwnTcpListenFd_locks,
      perhaps (Block
        [DrainRelay_locks,
         Locked VtcpMutex (Block
           [Loop (Block [Touch PendingAccepts, perhaps AllocVTcpConn_locks]),
            perhaps (Block
              [using_vars [PendingAccepts, NextSyntheticFd, ConnKeys, ConnData], LogStr_locks])])])]"

definition Connect_locks :: skeleton where
  "Connect_locks = perhaps (Block
     [EnsureRelayConnected_locks,
      perhaps (Block
        [Locked VtcpMutex (Block [AllocVTcpConn_locks, perhaps (using_vars [ConnKeys, ConnData])]),
         perhaps (Block
           [LogStr_locks,
            Loop (Block
              [SendTcpSegment_locks,
               Loop (Block
                 [DrainRelay_locks,
                  Locked VtcpMutex (Block [FindVTcpConnByFd_locks, perhaps (Touch ConnData)])])]),
            Branch
              [Locked VtcpMutex (Block
                 [FindVTcpConnByFd_locks, perhaps (using_vars [ConnKeys, ConnData]), LogStr_locks]),
               LogStr_locks]])])])"

definition Listen_locks :: skeleton where
  "Listen_locks = perhaps (Locked VtcpMutex (Block [Touch ListenFd, LogStr_locks]))"

definition OnNeedsToAccept_locks :: skeleton where
  "OnNeedsToAccept_locks = Block [LogStr_locks, LogStr_locks]"

definition GetState_locks :: skeleton where
  "GetState_locks = Block
     [IsRelayConnected_locks, IsRelayEnabled_locks, GetSelectedIndex_locks, GetSelectedHostPort_locks,
      GetLocalIp_locks, GetRealIp_locks]"

section \<open>The threads\<close>

text \<open>A worker of the mitm server handles any commands of any sessions, their creation and their end; the
  commands that are not listed take no lock of the module, or only write to the log.\<close>

definition mitm_worker :: skeleton where
  "mitm_worker = Loop (Branch
     [nothing, LogStr_locks, ShouldMitm_locks, OnNeedsToAccept_locks, Destructor_locks, Select_locks, Poll_locks,
      Bind_locks, SendTo_locks, RecvFrom_locks, Close_locks, Accept_locks, Connect_locks, Listen_locks])"

definition cfg_worker :: skeleton where
  "cfg_worker = Loop (Branch
     [nothing, GetState_locks, SelectServer_locks, ReloadServers_locks, ForceReconnect_locks, Start_locks, Stop_locks])"

text \<open>\<open>Main\<close> after \<open>log::Initialize\<close>, which opens the log before there is any other thread.\<close>

definition main_Main_locks :: skeleton where
  "main_Main_locks = Block [LogStr_locks, LogStr_locks, ReloadServers_locks, LogStr_locks]"

definition sysmodule_threads :: "skeleton list" where
  "sysmodule_threads =
     [main_Main_locks, mitm_worker, cfg_worker, WatchdogThreadMain_locks, DrainThreadMain_locks, relay_PumpLoop_locks]"

named_theorems skeletons \<open>definitions of the skeletons\<close>

declare
  LogStr_locks_def [skeletons] relay_Connect_locks_def [skeletons] relay_StopPump_locks_def [skeletons]
  relay_Close_locks_def [skeletons] relay_SendIpv4_locks_def [skeletons] relay_PopIpv4_locks_def [skeletons]
  relay_PumpLoop_locks_def [skeletons] PersistSelection_locks_def [skeletons]
  ReloadServers_locks_def [skeletons] SelectServer_locks_def [skeletons] GetSelectedIndex_locks_def [skeletons]
  GetSelectedHostPort_locks_def [skeletons] EnsureSocketStack_locks_def [skeletons]
  LogLdnPacketIfRecognized_locks_def [skeletons] LogNonControlUdpPayload_locks_def [skeletons]
  SendTcpSegment_locks_def [skeletons] FindVTcpConnByFd_locks_def [skeletons]
  FindVTcpConnByPeer_locks_def [skeletons] AllocVTcpConn_locks_def [skeletons]
  IsOwnTcpListenFd_locks_def [skeletons] HandleTcpSegment_locks_def [skeletons]
  CheckDataRetransmits_locks_def [skeletons] DrainRawRelayQueue_locks_def [skeletons]
  DrainRelay_locks_def [skeletons] WatchdogThreadMain_locks_def [skeletons]
  DrainThreadMain_locks_def [skeletons] Destructor_locks_def [skeletons] IsRelayConnected_locks_def [skeletons]
  EnsureWatchdogStarted_locks_def [skeletons] EnsureDrainThreadStarted_locks_def [skeletons]
  ConnectRelayLocked_locks_def [skeletons] ForceReconnect_locks_def [skeletons] Stop_locks_def [skeletons]
  Start_locks_def [skeletons] IsRelayEnabled_locks_def [skeletons] GetLocalIp_locks_def [skeletons]
  GetRealIp_locks_def [skeletons] EnsureRelayConnected_locks_def [skeletons] ShouldMitm_locks_def [skeletons]
  VFdHasPendingRead_locks_def [skeletons] Select_locks_def [skeletons] Poll_locks_def [skeletons]
  Bind_locks_def [skeletons] SendTo_locks_def [skeletons] RecvFrom_locks_def [skeletons]
  Close_locks_def [skeletons] Accept_locks_def [skeletons] Connect_locks_def [skeletons]
  Listen_locks_def [skeletons] OnNeedsToAccept_locks_def [skeletons] GetState_locks_def [skeletons]
  mitm_worker_def [skeletons] cfg_worker_def [skeletons] main_Main_locks_def [skeletons]

lemma threads_ordered: "p \<in> set sysmodule_threads \<Longrightarrow> mutexes.ordered 0 p"
  by (auto simp: sysmodule_threads_def skeletons mutex_rank_def)

lemma threads_guarded: "p \<in> set sysmodule_threads \<Longrightarrow> mutexes.guarded {} p"
  by (auto simp: sysmodule_threads_def skeletons guard_of_def)

text \<open>C10: However many threads of the module run and however they interleave, no set of them ever waits for
  locks that only its own members hold, and some thread can always go on.\<close>

theorem threads_never_deadlock:
  assumes "\<And>t. prog t \<in> set sysmodule_threads" and "lock_step\<^sup>*\<^sup>* (lock_start prog) s"
  shows "\<not> deadlocked s D \<and> (todo s t \<noteq> [] \<longrightarrow> (\<exists>s'. lock_step s s'))"
proof -
  have "mutexes.lock_inv s"
    using mutexes.lock_run_inv [OF threads_ordered [OF assms(1)] assms(2)] .
  then show ?thesis using mutexes.not_deadlocked mutexes.some_step by blast
qed

theorem threads_never_deadlock_witness:
  "\<not> deadlocked (lock_start ((\<lambda>t. mitm_worker)(0 := WatchdogThreadMain_locks, 1 := DrainThreadMain_locks))) {0, 1}"
  using threads_never_deadlock [of "(\<lambda>t. mitm_worker)(0 := WatchdogThreadMain_locks, 1 := DrainThreadMain_locks)"]
  by (auto simp: sysmodule_threads_def)

text \<open>C11: No data races on the guarded state: whenever a thread is about to read or write one of these variables it
  holds the lock of the variable, so no other thread is about to use it too. This covers the switches and counters
  of the relay, the contents of the connections, the pending accepts, both packet queues, the server selection
  and the log file.\<close>

theorem guarded_state_race_free:
  assumes threads: "\<And>t. prog t \<in> set sysmodule_threads" and run: "lock_step\<^sup>*\<^sup>* (lock_start prog) s"
    and now: "touches s t v" and guarded: "guard_of v = Some l"
  shows "owner s l = Some t \<and> (\<forall>u. u \<noteq> t \<longrightarrow> \<not> touches s u v)"
proof -
  have "owner s l = Some u" if "touches s u v" for u
    by (rule mutexes.toucher_owns [OF threads_ordered [OF threads] threads_guarded [OF threads] run that guarded])
  then show ?thesis using now by (metis option.inject)
qed

lemma holds_none: "holds_only (lock_start prog) t {}"
  by (simp add: holds_only_def lock_start_def)

lemma moves_to_Stop: "moves {} [Run cfg_worker] (Run Stop_locks # [Run cfg_worker])"
  unfolding cfg_worker_def by (rule moves_loop, rule moves_branch [where p = Stop_locks]) (simp_all add: moves_refl)

text \<open>The overlay has pressed Stop: the configuration thread is about to clear \<open>g_relay_enabled\<close>.\<close>

theorem guarded_state_race_free_witness:
  "\<exists>s. lock_step\<^sup>*\<^sup>* (lock_start (\<lambda>t. cfg_worker)) s \<and> touches s 0 RelayEnabled
     \<and> owner s RelayMutex = Some 0 \<and> \<not> touches s 1 RelayEnabled"
proof -
  let ?rest = "[Run relay_Close_locks, Run (Touch ConnectAttempted), Run LogStr_locks, Release RelayMutex, Run cfg_worker]"
  let ?s = "set_owner RelayMutex (Some 0) (set_todo 0 (Run (Touch RelayEnabled) # ?rest) (lock_start (\<lambda>t. cfg_worker)))"
  have run: "lock_step\<^sup>*\<^sup>* (lock_start (\<lambda>t. cfg_worker)) ?s"
    by (rule enters_lock [OF holds_none _ moves_to_Stop [unfolded Stop_locks_def]], simp add: lock_start_def)
      (rule moves_block, simp add: moves_refl)
  have now: "touches ?s 0 RelayEnabled" by (simp add: touches_def set_owner_def)
  have "owner ?s RelayMutex = Some 0 \<and> \<not> touches ?s 1 RelayEnabled"
    using guarded_state_race_free [OF _ run now, of RelayMutex] by (simp add: sysmodule_threads_def guard_of_def)
  then show ?thesis using run now by blast
qed

section \<open>A data race\<close>

lemma moves_DrainRelay:
  "RelayMutex \<notin> H \<Longrightarrow> QueueMutex \<notin> H \<Longrightarrow> moves H k k' \<Longrightarrow> moves H (Run DrainRelay_locks # k) k'"
  unfolding DrainRelay_locks_def DrainRawRelayQueue_locks_def relay_PopIpv4_locks_def
  by (rule moves_block, simp, rule moves_lock_touch, assumption, rule moves_branch [where p = nothing], simp,
      rule moves_nothing, rule moves_leave, rule moves_lock_touch, assumption)

lemma moves_to_Select_walk:
  "\<exists>k. moves {} [Run mitm_worker] (Run (Touch ConnKeys) # k)"
proof -
  define body where "body = Block [Touch ConnKeys, perhaps VFdHasPendingRead_locks]"
  define tail where "tail = Block [Touch ListenFd, VFdHasPendingRead_locks, Loop body]"
  define rest where "rest = Block
        [Loop (Locked VtcpMutex (Block [FindVTcpConnByFd_locks, perhaps (Touch ConnKeys)])),
         Loop VFdHasPendingRead_locks, VFdHasPendingRead_locks, Touch ActiveInstance, perhaps tail]"
  have sel: "Select_locks = Block [DrainRelay_locks, perhaps rest]"
    by (simp add: Select_locks_def rest_def tail_def body_def)
  have vfd: "moves {} k k' \<Longrightarrow> moves {} (Run VFdHasPendingRead_locks # k) k'" for k k'
    unfolding VFdHasPendingRead_locks_def by (rule moves_branch [where p = nothing]) (simp_all add: moves_nothing)
  have body: "moves {} (Run body # k) (Run (Touch ConnKeys) # Run (perhaps VFdHasPendingRead_locks) # k)" for k
    unfolding body_def by (rule moves_block) (simp add: moves_refl)
  have tail: "moves {} (Run tail # k) (Run (Touch ConnKeys) # Run (perhaps VFdHasPendingRead_locks) # Run (Loop body) # k)" for k
    unfolding tail_def by (rule moves_block, simp, rule moves_touch, rule vfd, rule moves_loop, rule body)
  have rest: "moves {} (Run rest # k) (Run (Touch ConnKeys) # Run (perhaps VFdHasPendingRead_locks) # Run (Loop body) # k)" for k
    unfolding rest_def
    by (rule moves_block, simp, rule moves_leave, rule moves_leave, rule vfd, rule moves_touch,
        rule moves_branch [where p = tail], simp, rule tail)
  show ?thesis
    unfolding mitm_worker_def
    by (rule exI, rule moves_loop, rule moves_branch [where p = Select_locks], simp, unfold sel, rule moves_block, simp,
        rule moves_DrainRelay, simp, simp, rule moves_branch [where p = rest], simp, rule rest)
qed

lemma drain_writes_conns:
  "\<exists>r k. moves {} [Run DrainThreadMain_locks] (Run (Locked VtcpMutex (Block [Touch LastLocalIp, CheckDataRetransmits_locks])) # r)
     \<and> moves {VtcpMutex} (Run (Block [Touch LastLocalIp, CheckDataRetransmits_locks]) # Release VtcpMutex # r)
         (Run (Touch ConnKeys) # k)"
proof -
  have out: "\<exists>r. moves {} [Run DrainThreadMain_locks] (Run (Locked VtcpMutex (Block [Touch LastLocalIp, CheckDataRetransmits_locks])) # r)"
    unfolding DrainThreadMain_locks_def DrainRawRelayQueue_locks_def
    by (rule exI, rule moves_loop, rule moves_block, simp, rule moves_block, simp, rule moves_lock_touch, simp,
        rule moves_branch [where p = "Locked VtcpMutex (Block [Touch LastLocalIp, CheckDataRetransmits_locks])"], simp,
        rule moves_refl)
  have ins: "\<exists>k. moves {VtcpMutex} (Run (Block [Touch LastLocalIp, CheckDataRetransmits_locks]) # r) (Run (Touch ConnKeys) # k)" for r
    unfolding CheckDataRetransmits_locks_def
    by (rule exI, rule moves_block, simp, rule moves_touch, rule moves_loop, rule moves_block, simp, rule moves_block, simp,
        rule moves_refl)
  show ?thesis using out ins by metis
qed

text \<open>The injection loop of \<open>Select\<close> reads the connection table without \<open>g_vtcp_mutex\<close>: it can do so while the drain
  thread, which holds the mutex, is at work on the same table.\<close>

theorem select_races_with_drain:
  "\<exists>s. lock_step\<^sup>*\<^sup>* (lock_start ((\<lambda>t. mitm_worker)(1 := DrainThreadMain_locks))) s
     \<and> touches s 0 ConnKeys \<and> touches s 1 ConnKeys \<and> owner s VtcpMutex = Some 1"
proof -
  let ?s0 = "lock_start ((\<lambda>t. mitm_worker)(1 := DrainThreadMain_locks))"
  obtain k0 where k0: "moves {} [Run mitm_worker] (Run (Touch ConnKeys) # k0)" using moves_to_Select_walk by blast
  obtain r k1 where k1: "moves {} [Run DrainThreadMain_locks]
      (Run (Locked VtcpMutex (Block [Touch LastLocalIp, CheckDataRetransmits_locks])) # r)"
    "moves {VtcpMutex} (Run (Block [Touch LastLocalIp, CheckDataRetransmits_locks]) # Release VtcpMutex # r)
       (Run (Touch ConnKeys) # k1)"
    using drain_writes_conns by blast
  let ?s1 = "set_todo 0 (Run (Touch ConnKeys) # k0) ?s0"
  let ?s2 = "set_owner VtcpMutex (Some 1) (set_todo 1 (Run (Touch ConnKeys) # k1) ?s1)"
  have "lock_step\<^sup>*\<^sup>* ?s0 ?s1" by (rule movesD [OF k0 holds_none]) (simp add: lock_start_def)
  moreover have "lock_step\<^sup>*\<^sup>* ?s1 ?s2"
    by (rule enters_lock [OF _ _ k1]) (simp_all add: holds_only_def lock_start_def)
  moreover have "touches ?s2 0 ConnKeys" "touches ?s2 1 ConnKeys" "owner ?s2 VtcpMutex = Some 1"
    by (simp_all add: touches_def set_owner_def)
  ultimately show ?thesis by (meson rtranclp_trans)
qed

end
