(* ===== verification/Probe.thy ===== *)
theory Probe
  imports Prelude
begin

text \<open>
  The test client of the LDN control plane (\<^verbatim>\<open>src/tools/ldn_probe\<close>): the session with \<open>ldn:u\<close>
  (\<^verbatim>\<open>ldn_raw.c\<close>) and the actions, the screen and the main loop (\<^verbatim>\<open>main.c\<close>). The service is a parameter: any
  function of the requests and answers so far.
\<close>

section \<open>Requests and answers\<close>

record node_info =
  nd_id :: int
  nd_addr :: u32
  nd_connected :: bool
  nd_name :: "u8 list"

record network_info =
  ni_lcid :: u64
  ni_ssid :: "u8 list"
  ni_node_count :: nat
  ni_node_count_max :: nat
  ni_nodes :: "node_info list"

record common_cfg =
  cf_security_mode :: u16
  cf_passphrase :: "u8 list"
  cf_user_name :: "u8 list"

record create_cfg =
  cn_common :: common_cfg
  cn_lcid :: u64
  cn_scene_id :: u16
  cn_channel :: u16
  cn_node_count_max :: nat
  cn_version :: int

record connect_data =
  cd_common :: common_cfg
  cd_version :: int
  cd_option :: u32

text \<open>The requests of \<^verbatim>\<open>ldn_raw.c\<close>; the first goes to \<open>ldn:u\<close>, the others to the session it opens.\<close>

datatype ldn_req =
  CreateService
| LdnGetState | GetNetworkInfo | GetIpv4Address | GetDisconnectReason
| Scan u16 u32 nat
| OpenAccessPoint | CloseAccessPoint | CreateNetwork create_cfg | DestroyNetwork | SetAdvertiseData "u8 list"
| OpenStation | CloseStation | ConnectTo connect_data network_info | Disconnect
| LdnInitialize u64 | LdnFinalize

fun ldn_command :: "ldn_req \<Rightarrow> nat" where
  "ldn_command CreateService = 0"
| "ldn_command LdnGetState = 0"
| "ldn_command GetNetworkInfo = 1"
| "ldn_command GetIpv4Address = 2"
| "ldn_command GetDisconnectReason = 3"
| "ldn_command (Scan _ _ _) = 102"
| "ldn_command OpenAccessPoint = 200"
| "ldn_command CloseAccessPoint = 201"
| "ldn_command (CreateNetwork _) = 202"
| "ldn_command DestroyNetwork = 204"
| "ldn_command (SetAdvertiseData _) = 206"
| "ldn_command OpenStation = 300"
| "ldn_command CloseStation = 301"
| "ldn_command (ConnectTo _ _) = 302"
| "ldn_command Disconnect = 304"
| "ldn_command (LdnInitialize _) = 400"
| "ldn_command LdnFinalize = 401"

text \<open>An answer: the result, the two words some commands return, and the networks a buffer is filled with.\<close>

record ldn_rep =
  re_rc :: u32
  re_w0 :: u32
  re_w1 :: u32
  re_infos :: "network_info list"

type_synonym ldn_trace = "(ldn_req \<times> ldn_rep) list"

record ldn_env =
  le_sm :: u32
  le_not_initialized :: u32
  le_svc :: "ldn_trace \<Rightarrow> ldn_req \<Rightarrow> ldn_rep"

text \<open>The status line, as the arguments of its \<open>snprintf\<close>.\<close>

datatype probe_status =
  Ready | StOk string | StFailed string u32 | StScanned int | StNoSlot int | StNothingToLeave string

record probe =
  g_scan :: "network_info list"
  g_scan_count :: int
  g_status :: probe_status
  g_init_ok :: bool
  g_have_srv :: bool
  g_have_comm :: bool
  p_trace :: ldn_trace

definition MAX_SCAN :: nat where "MAX_SCAN = 8"

definition zero_info :: network_info where
  "zero_info = \<lparr>ni_lcid = 0, ni_ssid = [], ni_node_count = 0, ni_node_count_max = 0,
     ni_nodes = replicate 8 \<lparr>nd_id = 0, nd_addr = 0, nd_connected = False, nd_name = []\<rparr>\<rparr>"

definition probe_init :: probe where
  "probe_init = \<lparr>g_scan = replicate MAX_SCAN zero_info, g_scan_count = 0, g_status = Ready, g_init_ok = False,
     g_have_srv = False, g_have_comm = False, p_trace = []\<rparr>"

section \<open>The session\<close>

definition ldn_dispatch :: "ldn_env \<Rightarrow> ldn_req \<Rightarrow> probe \<Rightarrow> ldn_rep \<times> probe" where
  "ldn_dispatch e r s = (let a = le_svc e (p_trace s) r in (a, s\<lparr>p_trace := p_trace s @ [(r, a)]\<rparr>))"

definition ldnRawInitialize :: "ldn_env \<Rightarrow> probe \<Rightarrow> u32 \<times> probe" where
  "ldnRawInitialize e s =
     (if le_sm e \<noteq> 0 then (le_sm e, s)
      else
        let (a, s1) = ldn_dispatch e CreateService (s\<lparr>g_have_srv := True\<rparr>)
        in if re_rc a \<noteq> 0 then (re_rc a, s1)
           else let (b, s2) = ldn_dispatch e (LdnInitialize 0) (s1\<lparr>g_have_comm := True\<rparr>) in (re_rc b, s2))"

definition ldnRawExit :: "ldn_env \<Rightarrow> probe \<Rightarrow> probe" where
  "ldnRawExit e s =
     (let s1 = (if g_have_comm s then (snd (ldn_dispatch e LdnFinalize s))\<lparr>g_have_comm := False\<rparr> else s)
      in if g_have_srv s1 then s1\<lparr>g_have_srv := False\<rparr> else s1)"

text \<open>The guard every other call starts with; without a session nothing is sent.\<close>

definition ldn_call :: "ldn_env \<Rightarrow> ldn_req \<Rightarrow> probe \<Rightarrow> ldn_rep \<times> probe" where
  "ldn_call e r s =
     (if \<not> g_have_comm s then (\<lparr>re_rc = le_not_initialized e, re_w0 = 0, re_w1 = 0, re_infos = []\<rparr>, s)
      else ldn_dispatch e r s)"

definition ldnRawGetState :: "ldn_env \<Rightarrow> probe \<Rightarrow> u32 \<times> u32 \<times> probe" where
  "ldnRawGetState e s = (let (a, s1) = ldn_call e LdnGetState s in (re_rc a, (if re_rc a = 0 then re_w0 a else 0), s1))"

definition ldnRawGetIpv4Address :: "ldn_env \<Rightarrow> probe \<Rightarrow> u32 \<times> (u32 \<times> u32) \<times> probe" where
  "ldnRawGetIpv4Address e s =
     (let (a, s1) = ldn_call e GetIpv4Address s in (re_rc a, (if re_rc a = 0 then (re_w0 a, re_w1 a) else (0, 0)), s1))"

definition ldnRawGetDisconnectReason :: "ldn_env \<Rightarrow> probe \<Rightarrow> u32 \<times> u32 \<times> probe" where
  "ldnRawGetDisconnectReason e s =
     (let (a, s1) = ldn_call e GetDisconnectReason s in (re_rc a, (if re_rc a = 0 then re_w0 a else 0), s1))"

definition ldnRawGetNetworkInfo :: "ldn_env \<Rightarrow> probe \<Rightarrow> u32 \<times> network_info \<times> probe" where
  "ldnRawGetNetworkInfo e s =
     (let (a, s1) = ldn_call e GetNetworkInfo s in (re_rc a, (case re_infos a of [] \<Rightarrow> zero_info | i # _ \<Rightarrow> i), s1))"

text \<open>The scan fills the buffer as far as it reaches and reports a total of its own.\<close>

definition ldnRawScan :: "ldn_env \<Rightarrow> u16 \<Rightarrow> u32 \<Rightarrow> nat \<Rightarrow> probe \<Rightarrow> u32 \<times> probe" where
  "ldnRawScan e channel flags count s =
     (let (a, s1) = ldn_call e (Scan channel flags count) s;
          got = take count (re_infos a);
          s2 = s1\<lparr>g_scan := got @ drop (length got) (g_scan s1)\<rparr>
      in (re_rc a, if re_rc a = 0 then s2\<lparr>g_scan_count := sint (re_w0 a)\<rparr> else s2))"

definition ldn_simple :: "ldn_env \<Rightarrow> ldn_req \<Rightarrow> probe \<Rightarrow> u32 \<times> probe" where
  "ldn_simple e r s = (let (a, s1) = ldn_call e r s in (re_rc a, s1))"

definition ldnRawOpenAccessPoint :: "ldn_env \<Rightarrow> probe \<Rightarrow> u32 \<times> probe" where
  "ldnRawOpenAccessPoint e = ldn_simple e OpenAccessPoint"

definition ldnRawCloseAccessPoint :: "ldn_env \<Rightarrow> probe \<Rightarrow> u32 \<times> probe" where
  "ldnRawCloseAccessPoint e = ldn_simple e CloseAccessPoint"

definition ldnRawCreateNetwork :: "ldn_env \<Rightarrow> create_cfg \<Rightarrow> probe \<Rightarrow> u32 \<times> probe" where
  "ldnRawCreateNetwork e cfg = ldn_simple e (CreateNetwork cfg)"

definition ldnRawDestroyNetwork :: "ldn_env \<Rightarrow> probe \<Rightarrow> u32 \<times> probe" where
  "ldnRawDestroyNetwork e = ldn_simple e DestroyNetwork"

definition ldnRawSetAdvertiseData :: "ldn_env \<Rightarrow> u8 list \<Rightarrow> probe \<Rightarrow> u32 \<times> probe" where
  "ldnRawSetAdvertiseData e d = ldn_simple e (SetAdvertiseData d)"

definition ldnRawOpenStation :: "ldn_env \<Rightarrow> probe \<Rightarrow> u32 \<times> probe" where
  "ldnRawOpenStation e = ldn_simple e OpenStation"

definition ldnRawCloseStation :: "ldn_env \<Rightarrow> probe \<Rightarrow> u32 \<times> probe" where
  "ldnRawCloseStation e = ldn_simple e CloseStation"

definition ldnRawConnect :: "ldn_env \<Rightarrow> connect_data \<Rightarrow> network_info \<Rightarrow> probe \<Rightarrow> u32 \<times> probe" where
  "ldnRawConnect e d i = ldn_simple e (ConnectTo d i)"

definition ldnRawDisconnect :: "ldn_env \<Rightarrow> probe \<Rightarrow> u32 \<times> probe" where
  "ldnRawDisconnect e = ldn_simple e Disconnect"

section \<open>The actions\<close>

definition state_name :: "u32 \<Rightarrow> string" where
  "state_name s =
     (if s = 0 then ''None'' else if s = 1 then ''Initialized'' else if s = 2 then ''AccessPoint''
      else if s = 3 then ''AccessPointCreated'' else if s = 4 then ''Station'' else if s = 5 then ''StationConnected''
      else if s = 6 then ''Error'' else ''?'')"

definition set_status :: "string \<Rightarrow> u32 \<times> probe \<Rightarrow> probe" where
  "set_status what r = (case r of (rc, s) \<Rightarrow> s\<lparr>g_status := (if rc = 0 then StOk what else StFailed what rc)\<rparr>)"

definition fill_common :: common_cfg where
  "fill_common = \<lparr>cf_security_mode = 1, cf_passphrase = map (\<lambda>c. of_nat (of_char c)) ''ldn_probe_pass!!'',
     cf_user_name = map (\<lambda>c. of_nat (of_char c)) ''ldn_probe''\<rparr>"

definition PROBE_LOCAL_COMM_ID :: u64 where "PROBE_LOCAL_COMM_ID = 0x4C444E5F50524F42"

definition host_cfg :: create_cfg where
  "host_cfg = \<lparr>cn_common = fill_common, cn_lcid = PROBE_LOCAL_COMM_ID, cn_scene_id = 0, cn_channel = 0,
     cn_node_count_max = 8, cn_version = 1\<rparr>"

text \<open>The array has its terminating NUL, which \<open>sizeof\<close> counts.\<close>

definition advert :: "u8 list" where
  "advert = map (\<lambda>c. of_nat (of_char c)) ''ldn_probe advertise'' @ [0]"

definition do_host :: "ldn_env \<Rightarrow> probe \<Rightarrow> probe" where
  "do_host e s =
     (let (rc, s1) = ldnRawOpenAccessPoint e s
      in if rc \<noteq> 0 then set_status ''OpenAccessPoint'' (rc, s1)
         else
           let (rc, s2) = ldnRawCreateNetwork e host_cfg s1
           in if rc \<noteq> 0 then set_status ''CreateNetwork'' (rc, s2)
              else set_status ''Host up (CreateNetwork+Advertise)'' (ldnRawSetAdvertiseData e advert s2))"

definition scan_networks :: "ldn_env \<Rightarrow> probe \<Rightarrow> probe" where
  "scan_networks e s =
     (let (rc, s1) = ldnRawScan e 0 0 MAX_SCAN (s\<lparr>g_scan_count := 0, g_scan := replicate MAX_SCAN zero_info\<rparr>)
      in if rc \<noteq> 0 then (set_status ''Scan'' (rc, s1))\<lparr>g_scan_count := 0\<rparr>
         else s1\<lparr>g_status := StScanned (g_scan_count s1)\<rparr>)"

definition do_scan :: "ldn_env \<Rightarrow> probe \<Rightarrow> probe" where
  "do_scan e s =
     (let (_, st, s1) = ldnRawGetState e s
      in if st = 1 then
           (let (rc, s2) = ldnRawOpenStation e s1
            in if rc \<noteq> 0 then set_status ''OpenStation'' (rc, s2) else scan_networks e s2)
         else scan_networks e s1)"

text \<open>\<open>None\<close>: the array is read out of bounds.\<close>

definition do_join :: "ldn_env \<Rightarrow> int \<Rightarrow> probe \<Rightarrow> probe option" where
  "do_join e index s =
     (if index < 0 \<or> index \<ge> g_scan_count s then Some (s\<lparr>g_status := StNoSlot index\<rparr>)
      else if int (length (g_scan s)) \<le> index then None
      else Some (set_status ''Connect''
        (ldnRawConnect e \<lparr>cd_common = fill_common, cd_version = 1, cd_option = 0\<rparr> (g_scan s ! nat index) s)))"

definition do_leave :: "ldn_env \<Rightarrow> probe \<Rightarrow> probe" where
  "do_leave e s =
     (let (_, st, s1) = ldnRawGetState e s
      in if st = 5 then set_status ''Disconnect'' (ldnRawDisconnect e s1)
         else if st = 3 then set_status ''DestroyNetwork'' (ldnRawDestroyNetwork e s1)
         else s1\<lparr>g_status := StNothingToLeave (state_name st)\<rparr>)"

section \<open>The screen\<close>

datatype screen_line =
  ShowState string | ShowStateFailed u32 | ShowAddr "u32 list" | ShowAddrFailed u32 | ShowNetFailed u32
| ShowNodes nat nat "u8 list" | ShowNode int "u8 list" "u32 list" bool
| ShowFound int "u8 list" nat u64 | ShowStatus probe_status | ShowKeys | ShowNoSession

definition octets :: "u32 \<Rightarrow> u32 list" where
  "octets a = [drop_bit 24 a AND 0xFF, drop_bit 16 a AND 0xFF, drop_bit 8 a AND 0xFF, a AND 0xFF]"

text \<open>\<open>%.32s\<close>\<close>

definition cut_at :: "nat \<Rightarrow> u8 list \<Rightarrow> u8 list" where
  "cut_at n t = take n (takeWhile (\<lambda>c. c \<noteq> 0) t)"

definition node_lines :: "network_info \<Rightarrow> screen_line list" where
  "node_lines info = map (\<lambda>i. let n = ni_nodes info ! i
       in ShowNode (nd_id n) (cut_at 16 (nd_name n)) (octets (nd_addr n)) (nd_connected n))
     [0..<min (ni_node_count info) 8]"

definition info_lines :: "ldn_env \<Rightarrow> probe \<Rightarrow> screen_line list \<times> probe" where
  "info_lines e s =
     (let (rc, info, s1) = ldnRawGetNetworkInfo e s
      in (if rc \<noteq> 0 then [ShowNetFailed rc]
          else ShowNodes (ni_node_count info) (ni_node_count_max info) (cut_at 32 (ni_ssid info)) # node_lines info, s1))"

definition scan_lines :: "probe \<Rightarrow> screen_line list option" where
  "scan_lines s =
     (if int (length (g_scan s)) < g_scan_count s then None
      else Some (map (\<lambda>i. let n = g_scan s ! i in ShowFound (int i) (cut_at 20 (ni_ssid n)) (ni_node_count n) (ni_lcid n))
        [0..<nat (g_scan_count s)]))"

definition draw :: "ldn_env \<Rightarrow> probe \<Rightarrow> (screen_line list \<times> probe) option" where
  "draw e s =
     (let (rc, st, s1) = ldnRawGetState e s;
          (rc_ip, (addr, _), s2) = ldnRawGetIpv4Address e s1;
          (net, s3) = (if rc = 0 \<and> (st = 3 \<or> st = 5) then info_lines e s2 else ([], s2))
      in case scan_lines s3 of
           None \<Rightarrow> None
         | Some found \<Rightarrow> Some ([if rc = 0 then ShowState (state_name st) else ShowStateFailed rc,
               if rc_ip = 0 then ShowAddr (octets addr) else ShowAddrFailed rc_ip] @ net @ found
             @ [ShowStatus (g_status s3), if g_init_ok s3 then ShowKeys else ShowNoSession], s3))"

section \<open>The main loop\<close>

record buttons =
  b_A :: bool
  b_B :: bool
  b_X :: bool
  b_Y :: bool
  b_Plus :: bool

definition press :: "ldn_env \<Rightarrow> buttons \<Rightarrow> probe \<Rightarrow> probe option" where
  "press e b s =
     (let s1 = (if b_A b then do_host e s else s);
          s2 = (if b_B b then do_scan e s1 else s1)
      in case (if b_X b then do_join e 0 s2 else Some s2) of
           None \<Rightarrow> None
         | Some s3 \<Rightarrow> Some (if b_Y b then do_leave e s3 else s3))"

text \<open>One element per turn of \<open>appletMainLoop\<close>; the end of the list is its end.\<close>

fun probe_loop :: "ldn_env \<Rightarrow> buttons list \<Rightarrow> probe \<Rightarrow> probe option" where
  "probe_loop e [] s = Some s"
| "probe_loop e (b # bs) s =
     (if b_Plus b then Some s
      else case (if g_init_ok s then press e b s else Some s) of
             None \<Rightarrow> None
           | Some s1 \<Rightarrow> (case draw e s1 of None \<Rightarrow> None | Some (_, s2) \<Rightarrow> probe_loop e bs s2))"

definition probe_main :: "ldn_env \<Rightarrow> buttons list \<Rightarrow> probe option" where
  "probe_main e bs =
     (let (rc, s) = ldnRawInitialize e probe_init;
          s1 = set_status ''ldnRawInitialize'' (rc, s\<lparr>g_init_ok := (rc = 0)\<rparr>)
      in case probe_loop e bs s1 of None \<Rightarrow> None | Some s2 \<Rightarrow> Some (ldnRawExit e s2))"


section \<open>The protocol\<close>

text \<open>What the client may send after a given exchange: the last answer decides it.\<close>

definition answered :: "ldn_req \<Rightarrow> (u32 \<Rightarrow> bool) \<Rightarrow> ldn_trace \<Rightarrow> bool" where
  "answered r P tr \<longleftrightarrow> tr \<noteq> [] \<and> fst (last tr) = r \<and> re_rc (snd (last tr)) = 0 \<and> P (re_w0 (snd (last tr)))"

fun is_scan :: "ldn_req \<Rightarrow> bool" where
  "is_scan (Scan _ _ _) = True"
| "is_scan _ = False"

fun last_scan :: "ldn_trace \<Rightarrow> ldn_rep option" where
  "last_scan tr = (case rev (filter (\<lambda>x. is_scan (fst x)) tr) of [] \<Rightarrow> None | x # _ \<Rightarrow> Some (snd x))"

definition first_found :: "ldn_trace \<Rightarrow> network_info \<Rightarrow> bool" where
  "first_found tr i \<longleftrightarrow> (case last_scan tr of None \<Rightarrow> False
     | Some a \<Rightarrow> re_rc a = 0 \<and> 0 < sint (re_w0 a) \<and> i = (case re_infos a of [] \<Rightarrow> zero_info | x # _ \<Rightarrow> x))"

definition in_session :: "ldn_trace \<Rightarrow> bool" where
  "in_session tr \<longleftrightarrow> tr \<noteq> [] \<and> fst (last tr) \<noteq> CreateService \<and> fst (last tr) \<noteq> LdnFinalize"

fun may_send :: "ldn_trace \<Rightarrow> ldn_req \<Rightarrow> bool" where
  "may_send tr CreateService = (tr = [])"
| "may_send tr (LdnInitialize pid) = (answered CreateService (\<lambda>w. True) tr \<and> pid = 0)"
| "may_send tr (CreateNetwork cfg) = (answered OpenAccessPoint (\<lambda>w. True) tr \<and> cfg = host_cfg)"
| "may_send tr (SetAdvertiseData d) = (answered (CreateNetwork host_cfg) (\<lambda>w. True) tr \<and> d = advert)"
| "may_send tr OpenStation = answered LdnGetState (\<lambda>w. w = 1) tr"
| "may_send tr (Scan channel flags n) =
     (in_session tr \<and> (fst (last tr) = LdnGetState \<or> answered OpenStation (\<lambda>w. True) tr) \<and> flags = 0 \<and> n = MAX_SCAN)"
| "may_send tr (ConnectTo d i) = (in_session tr \<and> first_found tr i)"
| "may_send tr Disconnect = answered LdnGetState (\<lambda>w. w = 5) tr"
| "may_send tr DestroyNetwork = answered LdnGetState (\<lambda>w. w = 3) tr"
| "may_send tr r = (in_session tr \<and> r \<noteq> CloseAccessPoint \<and> r \<noteq> CloseStation \<and> r \<noteq> GetDisconnectReason)"

inductive ldn_protocol :: "ldn_trace \<Rightarrow> bool" where
  silent: "ldn_protocol []"
| send: "ldn_protocol tr \<Longrightarrow> may_send tr r \<Longrightarrow> ldn_protocol (tr @ [(r, a)])"

definition probe_inv :: "probe \<Rightarrow> bool" where
  "probe_inv s \<longleftrightarrow> ldn_protocol (p_trace s) \<and> length (g_scan s) = MAX_SCAN
     \<and> (g_have_comm s \<longrightarrow> in_session (p_trace s))
     \<and> (0 < g_scan_count s \<longrightarrow> first_found (p_trace s) (g_scan s ! 0))"

lemma first_found_snoc: "\<not> is_scan r \<Longrightarrow> first_found (tr @ [(r, a)]) i = first_found tr i"
  by (simp add: first_found_def)

lemma ldn_call_cases:
  "ldn_call e r s = (a, s') \<Longrightarrow> s' = (if g_have_comm s then s\<lparr>p_trace := p_trace s @ [(r, a)]\<rparr> else s)"
  by (auto simp: ldn_call_def ldn_dispatch_def Let_def split: if_splits)

lemma ldn_call_inv:
  assumes "ldn_call e r s = (a, s')" and "probe_inv s" and "g_have_comm s \<Longrightarrow> may_send (p_trace s) r"
    and "r \<noteq> CreateService" "r \<noteq> LdnFinalize" "\<not> is_scan r"
  shows "probe_inv s'"
  using assms ldn_call_cases [OF assms(1)]
  by (auto simp: probe_inv_def first_found_snoc in_session_def intro: ldn_protocol.send)

lemma ldn_simple_inv:
  assumes "ldn_simple e r s = (rc, s')" and "probe_inv s" and "g_have_comm s \<Longrightarrow> may_send (p_trace s) r"
    and "r \<noteq> CreateService" "r \<noteq> LdnFinalize" "\<not> is_scan r"
  shows "probe_inv s' \<and> g_have_comm s' = g_have_comm s \<and> g_init_ok s' = g_init_ok s
     \<and> (\<not> g_have_comm s \<longrightarrow> p_trace s' = p_trace s)
     \<and> (g_have_comm s \<longrightarrow> rc = 0 \<longrightarrow> answered r (\<lambda>w. True) (p_trace s'))"
  using assms ldn_call_inv [of e r s _ s'] ldn_call_cases [of e r s _ s']
  by (auto simp: ldn_simple_def answered_def split: prod.splits)

lemma in_session_inv: "probe_inv s \<Longrightarrow> g_have_comm s \<Longrightarrow> in_session (p_trace s)"
  by (simp add: probe_inv_def)

lemma ldnRawGetState_inv:
  assumes "ldnRawGetState e s = (rc, st, s')" and "probe_inv s"
  shows "probe_inv s' \<and> g_have_comm s' = g_have_comm s \<and> g_init_ok s' = g_init_ok s
     \<and> (\<not> g_have_comm s \<longrightarrow> p_trace s' = p_trace s)
     \<and> (g_have_comm s \<longrightarrow> fst (last (p_trace s')) = LdnGetState \<and> (st \<noteq> 0 \<longrightarrow> answered LdnGetState (\<lambda>w. w = st) (p_trace s')))
     \<and> (\<not> g_have_comm s \<longrightarrow> st = 0)"
  using assms ldn_call_inv [of e LdnGetState s _ s'] ldn_call_cases [of e LdnGetState s _ s'] in_session_inv [of s]
  by (auto simp: ldnRawGetState_def answered_def ldn_call_def split: prod.splits if_splits)


lemma set_status_simps [simp]:
  "p_trace (set_status w (rc, s)) = p_trace s" "g_have_comm (set_status w (rc, s)) = g_have_comm s"
  "g_init_ok (set_status w (rc, s)) = g_init_ok s" "g_have_srv (set_status w (rc, s)) = g_have_srv s"
  "g_scan_count (set_status w (rc, s)) = g_scan_count s" "g_scan (set_status w (rc, s)) = g_scan s"
  by (simp_all add: set_status_def)

lemma set_status_inv [simp]: "probe_inv (set_status w (rc, s)) = probe_inv s"
  by (simp add: probe_inv_def)

text \<open>What an action keeps.\<close>

definition keeps :: "probe \<Rightarrow> probe \<Rightarrow> bool" where
  "keeps s s' \<longleftrightarrow> probe_inv s' \<and> g_have_comm s' = g_have_comm s \<and> g_init_ok s' = g_init_ok s
     \<and> (\<not> g_have_comm s \<longrightarrow> p_trace s' = p_trace s)"

lemma keeps_status [simp]: "keeps s (set_status w (rc, s')) = keeps s s'" "keeps s (s'\<lparr>g_status := st\<rparr>) = keeps s s'"
  by (simp_all add: keeps_def probe_inv_def)

lemma keeps_refl: "probe_inv s \<Longrightarrow> keeps s s"
  by (simp add: keeps_def)

lemma keeps_trans: "keeps s s1 \<Longrightarrow> keeps s1 s2 \<Longrightarrow> keeps s s2"
  by (simp add: keeps_def)

lemma do_host_keeps:
  assumes inv: "probe_inv s"
  shows "keeps s (do_host e s)"
proof -
  obtain rc s1 where 1: "ldn_simple e OpenAccessPoint s = (rc, s1)" by fastforce
  obtain rc2 s2 where 2: "ldn_simple e (CreateNetwork host_cfg) s1 = (rc2, s2)" by fastforce
  obtain rc3 s3 where 3: "ldn_simple e (SetAdvertiseData advert) s2 = (rc3, s3)" by fastforce
  note D = do_host_def ldnRawOpenAccessPoint_def ldnRawCreateNetwork_def ldnRawSetAdvertiseData_def
  have k1: "keeps s s1" "g_have_comm s \<Longrightarrow> rc = 0 \<Longrightarrow> answered OpenAccessPoint (\<lambda>w. True) (p_trace s1)"
    using ldn_simple_inv [OF 1 inv] in_session_inv [OF inv] by (simp_all add: keeps_def)
  have k2: "keeps s s2" "g_have_comm s \<Longrightarrow> rc2 = 0 \<Longrightarrow> answered (CreateNetwork host_cfg) (\<lambda>w. True) (p_trace s2)"
    if "rc = 0" using ldn_simple_inv [OF 2] k1 that by (simp_all add: keeps_def)
  have k3: "keeps s s3" if "rc = 0" "rc2 = 0"
    using ldn_simple_inv [OF 3] k2 that by (simp add: keeps_def)
  show ?thesis using k1 k2 k3 by (simp add: D 1 2 3)
qed

lemma scan_networks_keeps:
  assumes inv: "probe_inv s"
    and now: "g_have_comm s \<Longrightarrow> fst (last (p_trace s)) = LdnGetState \<or> answered OpenStation (\<lambda>w. True) (p_trace s)"
  shows "keeps s (scan_networks e s)"
proof -
  define s0 where "s0 = s\<lparr>g_scan_count := 0, g_scan := replicate MAX_SCAN zero_info\<rparr>"
  obtain a s1 where c: "ldn_call e (Scan 0 0 MAX_SCAN) s0 = (a, s1)" by fastforce
  define got where "got = take MAX_SCAN (re_infos a) @ drop (min MAX_SCAN (length (re_infos a))) (g_scan s0)"
  have got: "length got = MAX_SCAN" "got ! 0 = (case re_infos a of [] \<Rightarrow> zero_info | x # _ \<Rightarrow> x)"
    by (auto simp: got_def s0_def MAX_SCAN_def nth_append split: list.split)
  note s1 = ldn_call_cases [OF c]
  have fields: "g_scan s1 = g_scan s0" "g_scan_count s1 = 0" "g_have_comm s1 = g_have_comm s" "g_init_ok s1 = g_init_ok s"
    "\<not> g_have_comm s \<Longrightarrow> p_trace s1 = p_trace s"
    by (simp_all add: s1 s0_def)
  have p: "ldn_protocol (p_trace s1)" "g_have_comm s \<longrightarrow> in_session (p_trace s1)"
    using inv now in_session_inv [OF inv]
    by (auto simp: s1 s0_def probe_inv_def in_session_def intro!: ldn_protocol.send)
  have f: "first_found (p_trace s1) (got ! 0)" if "re_rc a = 0" "0 < sint (re_w0 a)"
  proof (cases "g_have_comm s")
    case True
    then show ?thesis using that by (simp add: s1 s0_def first_found_def got(2))
  next
    case False
    then have "re_w0 a = 0" using c by (auto simp: ldn_call_def s0_def)
    then show ?thesis using that by simp
  qed
  have "keeps s (s1\<lparr>g_scan := got, g_scan_count := sint (re_w0 a)\<rparr>)" if "re_rc a = 0"
    using p f got(1) fields that by (simp add: keeps_def probe_inv_def)
  moreover have "keeps s (s1\<lparr>g_scan := got, g_status := st, g_scan_count := 0\<rparr>)" for st
    using p got(1) fields by (simp add: keeps_def probe_inv_def)
  ultimately show ?thesis
    using fields(1) by (simp add: scan_networks_def ldnRawScan_def s0_def [symmetric] c got_def set_status_def Let_def min.commute)
qed

lemma do_scan_keeps:
  assumes inv: "probe_inv s"
  shows "keeps s (do_scan e s)"
proof -
  obtain rc st s1 where g: "ldnRawGetState e s = (rc, st, s1)" by (cases "ldnRawGetState e s") blast
  obtain rc2 s2 where o: "ldn_simple e OpenStation s1 = (rc2, s2)" by fastforce
  note G = ldnRawGetState_inv [OF g inv]
  have k1: "keeps s s1" using G by (simp add: keeps_def)
  have "keeps s1 (scan_networks e s1)" by (rule scan_networks_keeps) (use G in auto)
  moreover have "keeps s1 s2 \<and> (rc2 = 0 \<longrightarrow> keeps s2 (scan_networks e s2))" if "st = 1"
    using ldn_simple_inv [OF o] G that scan_networks_keeps [of s2 e] by (auto simp: keeps_def)
  ultimately show ?thesis
    using k1 by (auto simp: do_scan_def g ldnRawOpenStation_def o intro: keeps_trans)
qed

lemma do_leave_keeps:
  assumes inv: "probe_inv s"
  shows "keeps s (do_leave e s)"
proof -
  obtain rc st s1 where g: "ldnRawGetState e s = (rc, st, s1)" by (cases "ldnRawGetState e s") blast
  obtain rc2 s2 where d: "ldn_simple e Disconnect s1 = (rc2, s2)" by fastforce
  obtain rc3 s3 where n: "ldn_simple e DestroyNetwork s1 = (rc3, s3)" by fastforce
  note G = ldnRawGetState_inv [OF g inv]
  have "keeps s s1" using G by (simp add: keeps_def)
  moreover have "keeps s1 s2" if "st = 5" using ldn_simple_inv [OF d] G that by (auto simp: keeps_def)
  moreover have "keeps s1 s3" if "st = 3" using ldn_simple_inv [OF n] G that by (auto simp: keeps_def)
  ultimately show ?thesis
    by (auto simp: do_leave_def g ldnRawDisconnect_def d ldnRawDestroyNetwork_def n intro: keeps_trans)
qed

lemma do_join_keeps:
  assumes inv: "probe_inv s"
  shows "\<exists>s'. do_join e 0 s = Some s' \<and> keeps s s'"
proof (cases "0 < g_scan_count s")
  case True
  let ?r = "ConnectTo \<lparr>cd_common = fill_common, cd_version = 1, cd_option = 0\<rparr> (g_scan s ! 0)"
  obtain rc s1 where c: "ldn_simple e ?r s = (rc, s1)" by fastforce
  have "keeps s s1"
    using ldn_simple_inv [OF c inv] inv True by (simp add: keeps_def probe_inv_def)
  then show ?thesis
    using True inv c by (simp add: do_join_def ldnRawConnect_def probe_inv_def MAX_SCAN_def)
qed (use inv in \<open>simp add: do_join_def keeps_refl\<close>)

lemma press_keeps:
  assumes inv: "probe_inv s"
  shows "\<exists>s'. press e b s = Some s' \<and> keeps s s'"
proof -
  define s1 where "s1 = (if b_A b then do_host e s else s)"
  define s2 where "s2 = (if b_B b then do_scan e s1 else s1)"
  have k1: "keeps s s1" using do_host_keeps inv by (simp add: s1_def keeps_refl)
  then have k2: "keeps s s2"
    using do_scan_keeps [of s1 e] keeps_trans by (auto simp: s2_def keeps_def)
  then have "\<exists>s3. (if b_X b then do_join e 0 s2 else Some s2) = Some s3 \<and> keeps s s3"
    using do_join_keeps [of s2 e] keeps_trans by (auto simp: keeps_def)
  then obtain s3 where s3: "(if b_X b then do_join e 0 s2 else Some s2) = Some s3" "keeps s s3" by blast
  have "keeps s (if b_Y b then do_leave e s3 else s3)"
    using do_leave_keeps [of s3 e] s3(2) keeps_trans by (auto simp: keeps_def)
  then show ?thesis using s3(1) by (simp add: press_def s1_def [symmetric] s2_def [symmetric])
qed


section \<open>The screen and the loop\<close>

lemma draw_keeps:
  assumes inv: "probe_inv s"
  shows "case draw e s of None \<Rightarrow> int MAX_SCAN < g_scan_count s | Some (ls, s') \<Rightarrow> keeps s s' \<and> g_scan_count s' = g_scan_count s"
proof -
  obtain rc st s1 where 1: "ldnRawGetState e s = (rc, st, s1)" by (cases "ldnRawGetState e s") blast
  obtain a s2 where 2: "ldn_call e GetIpv4Address s1 = (a, s2)" by fastforce
  obtain b s3 where 3: "ldn_call e GetNetworkInfo s2 = (b, s3)" by fastforce
  note c1 = ldn_call_cases [of e LdnGetState s] and c2 = ldn_call_cases [OF 2] and c3 = ldn_call_cases [OF 3]
  note G = ldnRawGetState_inv [OF 1 inv]
  have f1: "g_scan_count s1 = g_scan_count s" "g_scan s1 = g_scan s"
    using 1 c1 by (auto simp: ldnRawGetState_def split: prod.splits)
  have k2: "keeps s s2" "g_scan_count s2 = g_scan_count s"
    using ldn_call_inv [OF 2] in_session_inv [of s1] G c2 f1 by (auto simp: keeps_def)
  have k3: "keeps s s3" "g_scan_count s3 = g_scan_count s"
    using ldn_call_inv [OF 3] in_session_inv [of s2] k2 c3 by (auto simp: keeps_def)
  define s4 where "s4 = (if rc = 0 \<and> (st = 3 \<or> st = 5) then s3 else s2)"
  have k4: "keeps s s4" "g_scan_count s4 = g_scan_count s" using k2 k3 by (simp_all add: s4_def)
  obtain net where net: "(if rc = 0 \<and> (st = 3 \<or> st = 5) then info_lines e s2 else ([], s2)) = (net, s4)"
    by (cases "rc = 0 \<and> (st = 3 \<or> st = 5)") (auto simp: info_lines_def ldnRawGetNetworkInfo_def 3 s4_def)
  have "length (g_scan s4) = MAX_SCAN" using k4 by (simp add: keeps_def probe_inv_def)
  then show ?thesis
    using k4 by (simp add: draw_def 1 2 ldnRawGetIpv4Address_def net scan_lines_def Let_def)
qed

lemma probe_loop_keeps: "probe_inv s \<Longrightarrow> probe_loop e bs s = Some s' \<Longrightarrow> keeps s s'"
proof (induction e bs s rule: probe_loop.induct)
  case (1 e s)
  then show ?case by (simp add: keeps_refl)
next
  case (2 e b bs s)
  show ?case
  proof (cases "b_Plus b")
    case True
    then show ?thesis using 2 by (simp add: keeps_refl)
  next
    case False
    obtain s1 where s1: "(if g_init_ok s then press e b s else Some s) = Some s1" "keeps s s1"
      using press_keeps [OF 2(2), of e b] keeps_refl [OF 2(2)] by (cases "g_init_ok s") auto
    then obtain ls s2 where d: "draw e s1 = Some (ls, s2)"
      using 2(3) False by (auto split: option.splits)
    have "keeps s1 s2" using draw_keeps [of s1 e] s1(2) d by (auto simp: keeps_def)
    moreover have "probe_loop e bs s2 = Some s'" using 2(3) False s1(1) d by simp
    ultimately show ?thesis using 2(1) [OF False s1(1) d refl] s1(2) keeps_trans by (auto simp: keeps_def)
  qed
qed

lemma initialize_inv:
  assumes "ldnRawInitialize e probe_init = (rc, s)"
  shows "probe_inv (s\<lparr>g_init_ok := ok\<rparr>)" and "g_have_comm s \<longleftrightarrow> (le_sm e = 0 \<and> re_rc (le_svc e [] CreateService) = 0)"
    and "le_sm e \<noteq> 0 \<Longrightarrow> p_trace s = []"
    and "le_sm e = 0 \<Longrightarrow> p_trace s \<noteq> [] \<and> hd (p_trace s) = (CreateService, le_svc e [] CreateService)"
    and "rc = 0 \<Longrightarrow> g_have_comm s"
proof -
  note p0 = ldn_protocol.silent
  have p1: "ldn_protocol [(CreateService, a)]" for a
    using ldn_protocol.send [OF p0, of CreateService a] by simp
  have p2: "ldn_protocol [(CreateService, a), (LdnInitialize 0, b)]" if "re_rc a = 0" for a b
    using ldn_protocol.send [OF p1, of a "LdnInitialize 0" b] that by (simp add: answered_def)
  show "probe_inv (s\<lparr>g_init_ok := ok\<rparr>)" "g_have_comm s \<longleftrightarrow> (le_sm e = 0 \<and> re_rc (le_svc e [] CreateService) = 0)"
    "le_sm e \<noteq> 0 \<Longrightarrow> p_trace s = []"
    "le_sm e = 0 \<Longrightarrow> p_trace s \<noteq> [] \<and> hd (p_trace s) = (CreateService, le_svc e [] CreateService)"
    "rc = 0 \<Longrightarrow> g_have_comm s"
    using assms p0 p1 p2
    by (auto simp: ldnRawInitialize_def ldn_dispatch_def probe_init_def probe_inv_def in_session_def Let_def
        MAX_SCAN_def split: if_splits)
qed



text \<open>A service that is in state 1 at first, finds one network, and has one created later on.\<close>

definition sample_ldn :: "u32 \<Rightarrow> ldn_env" where
  "sample_ldn n = \<lparr>le_sm = 0, le_not_initialized = 0x559,
     le_svc = \<lambda>tr r. \<lparr>re_rc = 0, re_w0 = (if is_scan r then n else if length tr < 4 then 1 else 3), re_w1 = 0,
       re_infos = (if is_scan r then [zero_info\<lparr>ni_lcid := 7\<rparr>] else [])\<rparr>\<rparr>"

definition press_B :: buttons where
  "press_B = \<lparr>b_A = False, b_B = True, b_X = False, b_Y = False, b_Plus = False\<rparr>"

section \<open>The scan buffer\<close>

definition totals_fit :: "ldn_env \<Rightarrow> bool" where
  "totals_fit e \<longleftrightarrow> (\<forall>tr r. is_scan r \<longrightarrow> sint (re_w0 (le_svc e tr r)) \<le> int MAX_SCAN)"

lemma simple_count [simp]: "g_scan_count (snd (ldn_simple e r s)) = g_scan_count s"
  by (simp add: ldn_simple_def ldn_call_def ldn_dispatch_def Let_def)

lemma state_count: "ldnRawGetState e s = (rc, st, s') \<Longrightarrow> g_scan_count s' = g_scan_count s"
  by (auto simp: ldnRawGetState_def ldn_call_def ldn_dispatch_def Let_def split: if_splits)

lemma simple_count': "ldn_simple e r s = (rc, s') \<Longrightarrow> g_scan_count s' = g_scan_count s"
  using simple_count [of e r s] by simp

lemma do_host_count: "g_scan_count (do_host e s) = g_scan_count s"
  by (auto simp: do_host_def ldnRawOpenAccessPoint_def ldnRawCreateNetwork_def ldnRawSetAdvertiseData_def set_status_def
      dest!: simple_count' split: prod.splits)

lemma do_leave_count: "g_scan_count (do_leave e s) = g_scan_count s"
  by (auto simp: do_leave_def ldnRawDisconnect_def ldnRawDestroyNetwork_def set_status_def
      dest!: simple_count' state_count split: prod.splits)

lemma do_join_count: "do_join e i s = Some s' \<Longrightarrow> g_scan_count s' = g_scan_count s"
  by (auto simp: do_join_def ldnRawConnect_def set_status_def dest!: simple_count' split: prod.splits if_splits)

lemma scan_networks_count: "totals_fit e \<Longrightarrow> g_scan_count (scan_networks e s) \<le> int MAX_SCAN"
  by (auto simp: scan_networks_def ldnRawScan_def ldn_call_def ldn_dispatch_def set_status_def totals_fit_def Let_def)

lemma do_scan_count: "totals_fit e \<Longrightarrow> g_scan_count s \<le> int MAX_SCAN \<Longrightarrow> g_scan_count (do_scan e s) \<le> int MAX_SCAN"
  by (auto simp: do_scan_def ldnRawOpenStation_def set_status_def dest!: simple_count' state_count
      intro: scan_networks_count split: prod.splits)

lemma press_count:
  assumes "totals_fit e" and "g_scan_count s \<le> int MAX_SCAN" and "press e b s = Some s'"
  shows "g_scan_count s' \<le> int MAX_SCAN"
  using assms do_scan_count [of e s] do_scan_count [of e "do_host e s"]
  by (auto simp: press_def Let_def do_host_count do_leave_count split: if_splits option.splits dest!: do_join_count)

lemma probe_loop_returns:
  "totals_fit e \<Longrightarrow> probe_inv s \<Longrightarrow> g_scan_count s \<le> int MAX_SCAN \<Longrightarrow> \<exists>s'. probe_loop e bs s = Some s'"
proof (induction e bs s rule: probe_loop.induct)
  case (2 e b bs s)
  show ?case
  proof (cases "b_Plus b")
    case False
    obtain s1 where s1: "(if g_init_ok s then press e b s else Some s) = Some s1" "keeps s s1" "g_scan_count s1 \<le> int MAX_SCAN"
      using press_keeps [OF 2(3), of e b] press_count [OF 2(2,4), of b] keeps_refl [OF 2(3)] 2(4)
      by (cases "g_init_ok s") auto
    then obtain ls s2 where d: "draw e s1 = Some (ls, s2)" "keeps s1 s2" "g_scan_count s2 = g_scan_count s1"
      using draw_keeps [of s1 e] by (auto simp: keeps_def split: option.splits)
    then show ?thesis
      using 2(1) [OF False s1(1) d(1) refl 2(2)] s1 False by (simp add: keeps_def)
  qed simp
qed simp

text \<open>As long as the service reports no more networks than fit into the array it was handed, the client never
  reads beyond that array and runs to its exit, for every sequence of button presses.\<close>

theorem probe_runs_to_exit:
  assumes "totals_fit e"
  shows "\<exists>s. probe_main e bs = Some s"
proof -
  obtain rc s0 where i: "ldnRawInitialize e probe_init = (rc, s0)" by fastforce
  have "g_scan_count s0 = 0"
    using i by (auto simp: ldnRawInitialize_def ldn_dispatch_def probe_init_def Let_def split: if_splits)
  then show ?thesis
    using probe_loop_returns [OF assms, of "set_status ''ldnRawInitialize'' (rc, s0\<lparr>g_init_ok := (rc = 0)\<rparr>)" bs]
      initialize_inv(1) [OF i] i by (auto simp: probe_main_def)
qed

theorem probe_runs_to_exit_witness: "\<exists>s. probe_main (sample_ldn 1) [press_B, press_B] = Some s"
  by (rule probe_runs_to_exit) (simp add: totals_fit_def sample_ldn_def MAX_SCAN_def)

text \<open>A total of nine: the screen after the scan reads a ninth network behind the array.\<close>

theorem scan_total_overread: "probe_main (sample_ldn 9) [press_B] = None"
  by code_simp

lemma sample_runs: "\<exists>s. probe_main (sample_ldn 1) [press_B] = Some s"
proof -
  have "probe_main (sample_ldn 1) [press_B] \<noteq> None" by code_simp
  then show ?thesis by simp
qed


end
