(* ===== verification/Spec2Isabelle.thy ===== *)
theory Spec2Isabelle
  imports Prelude Checksum Packet Dns RingQueue Reassembly Relay ControlQueue VTcp VTcpStream DummySkip Bridge Commands Forward PollSelect FdTypes Drain ConnIds UdpPath Ready SysInv Transparent Session Lifecycle Servers Config Overlay System Logging Startup Process Interface Selects Reliable Handshake TcpPath Conversation EndToEnd OverlayServers Locks LockOrder Probe
begin

text \<open>
  Verification library of switch-lan-play-nx, a Nintendo Switch system module that sits between
  applications and the \<^verbatim>\<open>bsd:u\<close> socket service and carries the sockets of local wireless play over a
  UDP relay on the Internet. Paths are relative to \<^verbatim>\<open>src/\<close>; \<open>BC\<close> stands for
  \<^verbatim>\<open>source/bsd/bsd_bridge_service.cpp\<close>, \<open>RB\<close> for \<^verbatim>\<open>source/relay_bridge.hpp\<close>.

  \<^bold>\<open>How the program works.\<close> Each client session is an instance of \<open>BsdBridgeService\<close> (\<open>BC\<close>). Most of its
  commands go on to the real service. A datagram socket bound to the session port 11452 (or to the
  address of the session) is \<^emph>\<open>bridged\<close>: its datagrams are built as raw IPv4 packets and sent through the one
  shared \<open>RelayBridge\<close> (\<open>RB\<close>), which fragments them, keeps the relay alive and has a pump thread that
  reassembles what the relay sends into a queue. A drain thread, and every command that reads, empties
  that queue: UDP packets are filed in a control queue by port, TCP segments drive a small TCP endpoint
  inside the module (connection and pending-accept tables) that \<open>Listen\<close>, \<open>Accept\<close>, \<open>Connect\<close>, \<open>SendTo\<close>,
  \<open>RecvFrom\<close> and \<open>Close\<close> operate on. \<open>Poll\<close> and \<open>Select\<close> mix the readiness of both worlds. A watchdog closes an
  idle relay, and an overlay chooses the relay through a configuration service.

  \<^bold>\<open>Which theory models what.\<close>
  \<^item> \<open>Prelude\<close>: word types, checked buffer access (\<open>None\<close> is an access out of bounds), first match in
    a table, and the contract \<open>invariant_system\<close> of a step relation with an invariant.
  \<^item> \<open>Checksum\<close>, \<open>Packet\<close>: \<open>IpChecksum\<close>, \<open>TcpChecksum\<close>, the packet builders and parsers of \<open>BC\<close>; contract
    \<open>packet_codec\<close>, held by both builders.
  \<^item> \<open>Dns\<close>: the hand-written resolver of \<open>RB\<close>. \<open>RingQueue\<close>: the inbound queue of \<open>RB\<close>, contract
    \<open>bounded_fifo\<close>. \<open>Reassembly\<close>: fragment header, sender and reassembly table of \<open>RB\<close>. \<open>Relay\<close>: class
    \<open>RelayBridge\<close> (connect, close, send, receive, keepalive, pump).
  \<^item> \<open>ControlQueue\<close>: \<open>g_control_queue\<close> of \<open>BC\<close>, contract \<open>port_queue\<close>. \<open>VTcp\<close>: the TCP endpoint of \<open>BC\<close>
    (\<open>HandleTcpSegment\<close>, retransmission, the tables) and its invariant. \<open>VTcpStream\<close>: handshakes, data path,
    retransmission and the byte stream. \<open>DummySkip\<close>: \<open>ShouldMitm\<close> and its table, contract \<open>burst_counter\<close>.
  \<^item> \<open>Bridge\<close>: the globals and the instance state of \<open>BC\<close> (records \<open>bridge\<close>, \<open>service\<close>), connection management,
    the drain thread, the watchdog, readiness. \<open>FdTypes\<close>: the fd tracking as a map, contract \<open>type_table\<close>.
  \<^item> \<open>Commands\<close>, \<open>PollSelect\<close>, \<open>Forward\<close>: the commands of \<open>BsdBridgeService\<close>: those with logic of their own,
    the two readiness commands, and the ones that are only forwarded.
  \<^item> \<open>Interface\<close>: the table of the \<^verbatim>\<open>bsd:u\<close> commands (\<^verbatim>\<open>source/bsd/interfaces/ibsd_mitm_service.hpp\<close>), the layout of
    their replies and the dispatch of the forwarded ones by number.
  \<^item> \<open>Servers\<close>, \<open>Config\<close>: \<^verbatim>\<open>source/cfg/\<close>: the parser of \<^verbatim>\<open>servers.conf\<close>, \<open>RuntimeCfg\<close> and \<open>ConfigService\<close>.
    \<open>OverlayServers\<close>: the overlay's copy of the parser, \<^verbatim>\<open>overlay/source/servers.c\<close>, array by array.
  \<^item> \<open>Overlay\<close>: \<^verbatim>\<open>overlay/source/\<close>: the client of the configuration service, its command table
    (\<open>cfg_dispatch\<close>) and the two pages with their listeners.
  \<^item> \<open>Logging\<close>: \<^verbatim>\<open>source/debug.cpp\<close> and the diagnostic printers of \<open>BC\<close>. \<open>Startup\<close>: \<^verbatim>\<open>source/main.cpp\<close>, the heap created on
    first use by any thread and the boot sequence. \<open>Process\<close>: the rest of that file, dispatch threads and allocation, and the
    sizes of the socket stack.
  \<^item> \<open>Locks\<close>, \<open>LockOrder\<close>: the locks of all the files, as one skeleton per function that takes one, and the
    threads; contracts \<open>lock_order\<close> and \<open>lock_guard\<close>. \<open>Probe\<close>: \<^verbatim>\<open>tools/ldn_probe/source/\<close>, the test client of the LDN control plane.
  \<^item> \<open>Drain\<close>, \<open>ConnIds\<close>, \<open>UdpPath\<close>, \<open>Ready\<close>, \<open>Selects\<close>, \<open>Reliable\<close>, \<open>Handshake\<close>, \<open>TcpPath\<close>, \<open>Conversation\<close>, \<open>EndToEnd\<close>, \<open>Session\<close>, \<open>Lifecycle\<close>, \<open>Transparent\<close>, \<open>SysInv\<close>, \<open>System\<close> hold no code but
    the theorems that span components; \<open>System\<close> also the sessions with the overlay.

  \<^bold>\<open>What the theorems show.\<close> Transport: a packet sent on one console is queued once and unchanged on the
  other whatever the order of its frames (\<open>Relay\<close>); the reassembly never reads or writes out of bounds,
  whatever arrives, and is complete and sound for concurrent packets (\<open>Reassembly\<close>); built packets carry valid
  checksums and parse back (\<open>Packet\<close>); the pump drains any burst (\<open>Relay\<close>). Sockets: a datagram arrives at
  \<open>RecvFrom\<close> with the sender's address (\<open>UdpPath\<close>); draining demultiplexes by port (\<open>Drain\<close>); what a TCP
  peer receives is a prefix of what was sent (\<open>VTcpStream\<close>), and all of it once it is acknowledged (\<open>Reliable\<close>,
  both consoles and the relay between them); \<open>SendTo\<close>, \<open>RecvFrom\<close> and \<open>Close\<close> on the two ends of a connection, frame by
  frame, with the repetition of what was lost (\<open>TcpPath\<close>), and any number of messages in both directions (\<open>Conversation\<close>), from the
  first SYN of the handshake on (\<open>EndToEnd\<close>); \<open>Accept\<close> and \<open>Connect\<close> on every outcome
  (\<open>Session\<close>), and that the handshake between two consoles ends in agreement and can always be finished (\<open>Handshake\<close>); the life of a bridged socket (\<open>Lifecycle\<close>); readiness is exact (\<open>Ready\<close>, \<open>Selects\<close>). Isolation: for
  everyone else the module is transparent (\<open>Transparent\<close>), and what is only forwarded arrives untouched
  (\<open>Interface\<close>). State: one invariant, kept by every operation in any order (\<open>SysInv\<close>), and with the
  configuration and the overlay included (\<open>System\<close>). Configuration: the overlay's parser stays inside its arrays
  and reads the specified list (\<open>OverlayServers\<close>), a selection survives a reboot (\<open>Config\<close>), and the server a user picks is the one the bridge connects to (\<open>Overlay\<close>). Process: the log is
  never overwritten (\<open>Logging\<close>), the heap is created once however threads interleave, no threads deadlock and the guarded state has no data races (\<open>LockOrder\<close>), and a boot ends in the
  state from which the runs of \<open>System\<close> start (\<open>Startup\<close>). The test client keeps to the protocol of the
  service (\<open>Probe\<close>). Defects: several
  theorems describe behaviour that the code does not intend, such as a DNS response read past its end,
  payloads too long to be received, a second send that overwrites the segment in flight, a handshake that cannot recover from a lost answer, a server
  index that passes its range check, a pick in the overlay that is ignored; their texts say so.

  \<^bold>\<open>Conventions.\<close> \<open>u8\<close> to \<open>u64\<close> are machine words, \<open>s32\<close> fds are integers, a buffer is the list of its valid bytes.
  Undefined behaviour of a memory access is \<open>None\<close>; errors of a command are in its reply (\<open>berr\<close>). The
  platform is a parameter: \<open>env\<close> and \<open>benv\<close> (results of \<open>sendto\<close>, random numbers, clock, name resolution,
  thread creation, the real \<open>bsd:u\<close> service as a function of the calls it has seen, logged in the ghost field
  \<open>g_bsd_log\<close>), \<open>sd_env\<close> and \<open>fs_env\<close> (file systems of the configuration and the log), \<open>ipc_env\<close> (service
  manager and session of the overlay), \<open>boot_env\<close> (start-up), \<open>ldn_env\<close> (the service of the test client). The datagrams sent are logged in the ghost field \<open>m_sent\<close>.

  \<^bold>\<open>Loops and bounds.\<close> Loops over tables are structural recursions. A loop with a counter of the code is a
  recursion on that counter: \<open>send_frags\<close> (parts left), \<open>dns_answers\<close> (answers left), \<open>connect_attempts\<close> and
  \<open>connect_wait\<close> (6 attempts of 25 sleeps, the constants of the code). \<open>drain_loop\<close> gets the number of queued
  packets, and \<open>pump_drains\<close> the number of waiting datagrams, both shown to be enough
  (\<open>DrainRawRelayQueue_spec\<close>, \<open>pump_drains_safe\<close>); \<open>probe_loop\<close> runs over the turns of the main loop. \<open>ticks\<close> is the drain thread's loop over a list of
  times. The remaining ones (DNS names, checksums, the
  configuration parser) terminate by a measure.

  \<^bold>\<open>Two consoles.\<close> \<open>join_step\<close> (\<open>Handshake\<close>) exchanges the packets of the handshake as bytes between two \<open>bridge\<close> states, and
  \<open>duplex_step\<close> (\<open>Reliable\<close>) the data after it; the network is the set of what was sent, so anything may be lost, repeated
  or late. The handshake ends in the states from which the data theorems start: \<open>duplex_start\<close>, and for the
  theorems of \<open>TcpPath\<close> the predicate \<open>joined\<close> (lemma \<open>handshake_joins\<close>). With both consoles \<open>console_ready\<close>, it also ends in \<open>talking\<close>, from which
  \<open>converse\<close> runs (lemma \<open>accepted_talks\<close> of \<open>EndToEnd\<close>).

  \<^bold>\<open>Concurrency.\<close> Commands, pump, drain thread, watchdog and overlay are steps of \<open>sys_step\<close> and \<open>full_step\<close>, in any
  order; each critical section of the code is one step. Interleavings inside a command, between two of
  its critical sections, occur only in \<open>Connect\<close>, whose sleeps let the pump run (\<open>sleep_world\<close>). \<open>GetHeapHandle\<close>
  is modelled access by access (\<open>heap_step\<close>), with a program counter per thread. The nesting of the locks is
  modelled apart from what the functions compute, lock by lock and access by access, for any number of threads
  (\<open>lock_step\<close>).

  \<^bold>\<open>Not modelled.\<close> The log lines of the components other than \<open>Logging\<close> and \<open>Startup\<close> (they do not change what a
  component does), thread stacks and server managers (the framework), the drawing of the overlay and of the test client (Tesla library, console), the Python tools (test programs
  that talk to other software). What the data races of the
  variables that \<open>guard_of\<close> lists as unguarded do to the values computed is outside the model.
\<close>

end
